(* ===== verification/GW_Prelude.thy ===== *)
theory GW_Prelude
  imports Main "HOL-Library.Word"
begin

text \<open>
  The shared base of the development: the state-and-exception monad in which every
  stateful C++ function of Gopherwood is written, its weakest-precondition calculus, checked
  array access, fixed-width integers and little-endian bytes, and the lemmas on lists and
  counters that the components share.

  A C++ function that changes state and may throw is a function from the state to a pair of
  an outcome (\<open>Inl\<close> the exception, \<open>Inr\<close> the returned value) and the state it leaves behind.
  A \<^verbatim>\<open>throw\<close> keeps the assignments made before it, exactly as C++ does: nothing is rolled back.
\<close>

section \<open>The state-and-exception monad\<close>

type_synonym ('s, 'e, 'a) gw = "'s \<Rightarrow> ('e + 'a) \<times> 's"

definition retE :: "'a \<Rightarrow> ('s, 'e, 'a) gw" where
  "retE x = (\<lambda>s. (Inr x, s))"

definition throwE :: "'e \<Rightarrow> ('s, 'e, 'a) gw" where
  "throwE e = (\<lambda>s. (Inl e, s))"

definition bindE :: "('s, 'e, 'a) gw \<Rightarrow> ('a \<Rightarrow> ('s, 'e, 'b) gw) \<Rightarrow> ('s, 'e, 'b) gw" where
  "bindE m f = (\<lambda>s. case m s of (Inl e, s') \<Rightarrow> (Inl e, s') | (Inr x, s') \<Rightarrow> f x s')"

text \<open>Two statements in sequence.\<close>

definition seqE :: "('s, 'e, 'a) gw \<Rightarrow> ('s, 'e, 'b) gw \<Rightarrow> ('s, 'e, 'b) gw" where
  "seqE m n = bindE m (\<lambda>_. n)"

definition getsE :: "('s \<Rightarrow> 'a) \<Rightarrow> ('s, 'e, 'a) gw" where
  "getsE f = (\<lambda>s. (Inr (f s), s))"

definition modifyE :: "('s \<Rightarrow> 's) \<Rightarrow> ('s, 'e, unit) gw" where
  "modifyE f = (\<lambda>s. (Inr (), f s))"

definition whenE :: "bool \<Rightarrow> ('s, 'e, unit) gw \<Rightarrow> ('s, 'e, unit) gw" where
  "whenE b m = (if b then m else retE ())"

text \<open>A call that returns a value or an exception and changes no state.\<close>

definition pureE :: "'e + 'a \<Rightarrow> ('s, 'e, 'a) gw" where
  "pureE r = (\<lambda>s. (r, s))"

text \<open>A range-based \<^verbatim>\<open>for\<close> loop and a block of statements.\<close>

primrec forE :: "'x list \<Rightarrow> ('x \<Rightarrow> ('s, 'e, unit) gw) \<Rightarrow> ('s, 'e, unit) gw" where
  "forE [] body = retE ()"
| "forE (x # xs) body = seqE (body x) (forE xs body)"

primrec doE :: "('s, 'e, unit) gw list \<Rightarrow> ('s, 'e, unit) gw" where
  "doE [] = retE ()"
| "doE (m # ms) = seqE m (doE ms)"

text \<open>
  \<^verbatim>\<open>try { m } catch (...) { h }\<close>: the handler starts in the state the exception left behind.
\<close>

definition catchE :: "('s, 'e, 'a) gw \<Rightarrow> ('e \<Rightarrow> ('s, 'e, 'a) gw) \<Rightarrow> ('s, 'e, 'a) gw" where
  "catchE m h = (\<lambda>s. case m s of (Inl e, s') \<Rightarrow> h e s' | (Inr x, s') \<Rightarrow> (Inr x, s'))"

text \<open>
  A method of a member object runs on the part of the state that holds the object:
  \<open>get\<close> reads the part and \<open>put\<close> stores it back.
\<close>

definition zoomE :: "('s \<Rightarrow> 't) \<Rightarrow> ('t \<Rightarrow> 's \<Rightarrow> 's) \<Rightarrow> ('t, 'e, 'a) gw \<Rightarrow> ('s, 'e, 'a) gw" where
  "zoomE get put m = (\<lambda>s. case m (get s) of (r, t) \<Rightarrow> (r, put t s))"

section \<open>Weakest preconditions\<close>

text \<open>
  \<open>wp m Q E s\<close>: run from \<open>s\<close>, \<open>m\<close> either returns a value and a state in \<open>Q\<close> or throws
  an exception and leaves a state in \<open>E\<close>.
\<close>

definition wp ::
  "('s, 'e, 'a) gw \<Rightarrow> ('a \<Rightarrow> 's \<Rightarrow> bool) \<Rightarrow> ('e \<Rightarrow> 's \<Rightarrow> bool) \<Rightarrow> 's \<Rightarrow> bool" where
  "wp m Q E s = (case m s of (Inl e, s') \<Rightarrow> E e s' | (Inr x, s') \<Rightarrow> Q x s')"

named_theorems wp_simps "weakest preconditions of the monad's operations"
named_theorems run_simps "running the monad's operations on a given state"

lemma run_retE [run_simps]: "retE x s = (Inr x, s)"
  by (simp add: retE_def)

lemma run_throwE [run_simps]: "throwE e s = (Inl e, s)"
  by (simp add: throwE_def)

lemma run_bindE [run_simps]:
  "bindE m f s = (case m s of (Inl e, s') \<Rightarrow> (Inl e, s') | (Inr x, s') \<Rightarrow> f x s')"
  by (simp add: bindE_def)

lemma run_seqE [run_simps]:
  "seqE m n s = (case m s of (Inl e, s') \<Rightarrow> (Inl e, s') | (Inr x, s') \<Rightarrow> n s')"
  by (simp add: seqE_def bindE_def)

lemma run_getsE [run_simps]: "getsE f s = (Inr (f s), s)"
  by (simp add: getsE_def)

lemma run_modifyE [run_simps]: "modifyE f s = (Inr (), f s)"
  by (simp add: modifyE_def)

lemma run_whenE [run_simps]: "whenE b m s = (if b then m s else (Inr (), s))"
  by (simp add: whenE_def retE_def)

lemma run_pureE [run_simps]: "pureE r s = (r, s)"
  by (simp add: pureE_def)

lemma run_catchE [run_simps]:
  "catchE m h s = (case m s of (Inl e, s') \<Rightarrow> h e s' | (Inr x, s') \<Rightarrow> (Inr x, s'))"
  by (simp add: catchE_def)

lemma run_zoomE [run_simps]: "zoomE get put m s = (case m (get s) of (r, t) \<Rightarrow> (r, put t s))"
  by (simp add: zoomE_def)

lemma wp_retE [wp_simps]: "wp (retE x) Q E s = Q x s"
  by (simp add: wp_def retE_def)

lemma wp_throwE [wp_simps]: "wp (throwE e) Q E s = E e s"
  by (simp add: wp_def throwE_def)

lemma wp_bindE [wp_simps]: "wp (bindE m f) Q E s = wp m (\<lambda>x. wp (f x) Q E) E s"
  by (auto simp: wp_def bindE_def split: prod.splits sum.splits)

lemma wp_seqE [wp_simps]: "wp (seqE m n) Q E s = wp m (\<lambda>_. wp n Q E) E s"
  by (simp add: seqE_def wp_bindE)

lemma wp_getsE [wp_simps]: "wp (getsE f) Q E s = Q (f s) s"
  by (simp add: wp_def getsE_def)

lemma wp_modifyE [wp_simps]: "wp (modifyE f) Q E s = Q () (f s)"
  by (simp add: wp_def modifyE_def)

lemma wp_whenE [wp_simps]: "wp (whenE b m) Q E s = (if b then wp m Q E s else Q () s)"
  by (simp add: whenE_def wp_retE)

lemma wp_pureE [wp_simps]:
  "wp (pureE r) Q E s = (case r of Inl e \<Rightarrow> E e s | Inr x \<Rightarrow> Q x s)"
  by (simp add: wp_def pureE_def)

lemma wp_if [wp_simps]:
  "wp (if b then m else n) Q E s = (if b then wp m Q E s else wp n Q E s)"
  by simp

lemma wp_catchE [wp_simps]:
  "wp (catchE m h) Q E s = wp m Q (\<lambda>e. wp (h e) Q E) s"
  by (auto simp: wp_def catchE_def split: prod.splits sum.splits)

lemma wp_zoomE [wp_simps]:
  "wp (zoomE get put m) Q E s =
     wp m (\<lambda>x t. Q x (put t s)) (\<lambda>e t. E e (put t s)) (get s)"
  by (auto simp: wp_def zoomE_def split: prod.splits sum.splits)

lemma wp_forE_Nil [wp_simps]: "wp (forE [] body) Q E s = Q () s"
  by (simp add: wp_retE)

lemma wp_forE_Cons [wp_simps]:
  "wp (forE (x # xs) body) Q E s = wp (body x) (\<lambda>_. wp (forE xs body) Q E) E s"
  by (simp add: wp_seqE)

lemma wp_doE_Nil [wp_simps]: "wp (doE []) Q E s = Q () s"
  by (simp add: wp_retE)

lemma wp_doE_Cons [wp_simps]: "wp (doE (m # ms)) Q E s = wp m (\<lambda>_. wp (doE ms) Q E) E s"
  by (simp add: wp_seqE)

lemma wp_mono:
  assumes "wp m Q E s" and "\<And>x s'. Q x s' \<Longrightarrow> Q' x s'" and "\<And>e s'. E e s' \<Longrightarrow> E' e s'"
  shows "wp m Q' E' s"
  using assms by (auto simp: wp_def split: prod.splits sum.splits)

text \<open>The rule for a call whose specification is known.\<close>

lemma wp_call:
  assumes "wp m Q' E' s" and "\<And>x s'. Q' x s' \<Longrightarrow> wp (f x) Q E s'" and "\<And>e s'. E' e s' \<Longrightarrow> E e s'"
  shows "wp (bindE m f) Q E s"
  using assms by (simp add: wp_bindE wp_mono [OF assms(1)])

lemma wp_call_seq:
  assumes "wp m Q' E' s" and "\<And>x s'. Q' x s' \<Longrightarrow> wp n Q E s'" and "\<And>e s'. E' e s' \<Longrightarrow> E e s'"
  shows "wp (seqE m n) Q E s"
  unfolding seqE_def by (rule wp_call [OF assms])

lemma wp_conj:
  assumes "wp m Q E s" and "wp m Q' E' s"
  shows "wp m (\<lambda>x s'. Q x s' \<and> Q' x s') (\<lambda>e s'. E e s' \<and> E' e s') s"
  using assms by (auto simp: wp_def split: prod.splits sum.splits)

lemma wp_resultD: "wp m Q E s \<Longrightarrow> m s = (Inr x, s') \<Longrightarrow> Q x s'"
  by (simp add: wp_def)

lemma wp_throwD: "wp m Q E s \<Longrightarrow> m s = (Inl e, s') \<Longrightarrow> E e s'"
  by (simp add: wp_def)

lemma wp_I:
  assumes "\<And>x s'. m s = (Inr x, s') \<Longrightarrow> Q x s'" and "\<And>e s'. m s = (Inl e, s') \<Longrightarrow> E e s'"
  shows "wp m Q E s"
  using assms by (auto simp: wp_def split: prod.splits sum.splits)

text \<open>The loop rule: an invariant of the body holds after the whole loop.\<close>

lemma wp_forE_inv:
  assumes "I s" and "\<And>x t. x \<in> set xs \<Longrightarrow> I t \<Longrightarrow> wp (body x) (\<lambda>_. I) E t"
  shows "wp (forE xs body) (\<lambda>_. I) E s"
  using assms
proof (induction xs arbitrary: s)
  case Nil
  then show ?case by (simp add: wp_simps)
next
  case (Cons x xs)
  have "wp (body x) (\<lambda>_. I) E s" using Cons.prems by simp
  then have "wp (body x) (\<lambda>_. wp (forE xs body) (\<lambda>_. I) E) E s"
  proof (rule wp_mono)
    fix t
    assume "I t"
    then show "wp (forE xs body) (\<lambda>_. I) E t"
      by (rule Cons.IH) (simp add: Cons.prems(2))
  qed
  then show ?case by (simp add: wp_simps)
qed

section \<open>Sequences of fallible operations\<close>

primrec foldS :: "('a \<Rightarrow> 'b \<Rightarrow> 'e + 'b) \<Rightarrow> 'a list \<Rightarrow> 'b \<Rightarrow> 'e + 'b" where
  "foldS f [] b = Inr b"
| "foldS f (a # as) b = (case f a b of Inl e \<Rightarrow> Inl e | Inr b' \<Rightarrow> foldS f as b')"

section \<open>Fixed-width integers\<close>

text \<open>
  Signed C++ integers are \<open>int\<close>; where the source stores a value into a narrower signed
  type the conversion is written out, as two's complement.
\<close>

definition int16 :: "int \<Rightarrow> int" where
  "int16 x = signed_take_bit 15 x"

definition int32 :: "int \<Rightarrow> int" where
  "int32 x = signed_take_bit 31 x"

lemma int16_id: "- 32768 \<le> x \<Longrightarrow> x < 32768 \<Longrightarrow> int16 x = x"
  unfolding int16_def by (rule signed_take_bit_int_eq_self) simp_all

lemma int32_id: "- 2147483648 \<le> x \<Longrightarrow> x < 2147483648 \<Longrightarrow> int32 x = x"
  unfolding int32_def by (rule signed_take_bit_int_eq_self) simp_all

lemma int32_range: "- 2147483648 \<le> int32 x \<and> int32 x < 2147483648"
  using signed_take_bit_int_greater_eq_minus_exp [of 31 x] signed_take_bit_int_less_exp [of 31 x]
  by (simp add: int32_def)

lemma int16_range: "- 32768 \<le> int16 x \<and> int16 x < 32768"
  unfolding int16_def
  using signed_take_bit_int_greater_eq_minus_exp [of 15 x] signed_take_bit_int_less_exp [of 15 x]
  by simp

section \<open>Checked array access\<close>

text \<open>
  \<open>xs[i]\<close> with a signed index. Outside the array the C++ program has undefined behaviour;
  the model stops with \<open>None\<close>, which every user turns into its own error value.
\<close>

definition idx :: "int \<Rightarrow> 'a list \<Rightarrow> 'a option" where
  "idx i xs = (if 0 \<le> i \<and> nat i < length xs then Some (xs ! nat i) else None)"

lemma idx_Some_iff: "idx i xs = Some x \<longleftrightarrow> 0 \<le> i \<and> nat i < length xs \<and> xs ! nat i = x"
  by (auto simp: idx_def)

lemma idx_of_nat [simp]: "n < length xs \<Longrightarrow> idx (int n) xs = Some (xs ! n)"
  by (simp add: idx_def)

section \<open>Counting the elements of a list\<close>

definition cnt :: "('a \<Rightarrow> bool) \<Rightarrow> 'a list \<Rightarrow> nat" where
  "cnt P xs = length (filter P xs)"

lemma cnt_Nil [simp]: "cnt P [] = 0"
  by (simp add: cnt_def)

lemma cnt_Cons [simp]: "cnt P (x # xs) = of_bool (P x) + cnt P xs"
  by (simp add: cnt_def)

lemma cnt_append [simp]: "cnt P (xs @ ys) = cnt P xs + cnt P ys"
  by (simp add: cnt_def)

lemma cnt_le: "cnt P xs \<le> length xs"
  by (simp add: cnt_def)

lemma cnt_pos_iff: "0 < cnt P xs \<longleftrightarrow> (\<exists>i < length xs. P (xs ! i))"
  by (auto simp: cnt_def filter_empty_conv set_conv_nth)

lemma cnt_zero_iff: "cnt P xs = 0 \<longleftrightarrow> (\<forall>i < length xs. \<not> P (xs ! i))"
  by (auto simp: cnt_def filter_empty_conv set_conv_nth)

text \<open>
  Overwriting one element moves the count by what the old and the new element contribute;
  in a ring (and so for wrapping machine counters) the law needs no side condition on sizes.
\<close>

lemma cnt_update:
  assumes "i < length xs"
  shows "(of_nat (cnt P (xs[i := y])) :: 'a :: comm_ring_1) =
    of_nat (cnt P xs) - of_bool (P (xs ! i)) + of_bool (P y)"
proof -
  have "xs[i := y] = take i xs @ y # drop (Suc i) xs"
    using assms by (rule upd_conv_take_nth_drop)
  moreover have "xs = take i xs @ xs ! i # drop (Suc i) xs"
    using assms by (rule id_take_nth_drop)
  then have "cnt P xs = cnt P (take i xs @ xs ! i # drop (Suc i) xs)"
    by (rule arg_cong)
  ultimately show ?thesis by simp
qed

lemma cnt_cong: "(\<And>x. x \<in> set xs \<Longrightarrow> P x = Q x) \<Longrightarrow> cnt P xs = cnt Q xs"
  by (induction xs) auto

section \<open>Little-endian bytes\<close>

text \<open>
  The in-memory bytes of an integer on the little-endian machines the library is built for:
  what \<^verbatim>\<open>memcpy\<close> of the integer gives and what a cast of the bytes reads back.
\<close>

type_synonym byte = "8 word"

definition le_bytes :: "nat \<Rightarrow> 'a :: len word \<Rightarrow> byte list" where
  "le_bytes n w = map (\<lambda>i. ucast (drop_bit (8 * i) w)) [0..<n]"

primrec le_word :: "byte list \<Rightarrow> 'a :: len word" where
  "le_word [] = 0"
| "le_word (b # bs) = or (ucast b) (push_bit 8 (le_word bs))"

lemma length_le_bytes [simp]: "length (le_bytes n w) = n"
  by (simp add: le_bytes_def)

lemma bit_le_word:
  "bit (le_word bs :: 'a :: len word) n \<longleftrightarrow>
     n < LENGTH('a) \<and> n div 8 < length bs \<and> bit (bs ! (n div 8)) (n mod 8)"
proof (induction bs arbitrary: n)
  case Nil
  then show ?case by simp
next
  case (Cons b bs)
  show ?case
  proof (cases "n < 8")
    case True
    then show ?thesis
      by (auto simp: bit_or_iff bit_unsigned_iff bit_push_bit_iff)
  next
    case False
    then obtain m where m: "n = m + 8" by (metis add.commute le_add_diff_inverse not_less)
    have "(m + 8) div 8 = Suc (m div 8)" by simp
    moreover have "\<not> bit b n" using False by (simp add: bit_word.rep_eq bit_take_bit_iff)
    ultimately show ?thesis
      using m Cons.IH [of m]
      by (auto simp: bit_or_iff bit_unsigned_iff bit_push_bit_iff dest: bit_imp_le_length)
  qed
qed

lemma bit_le_bytes:
  assumes "i < n" and "j < 8"
  shows "bit (le_bytes n (w :: 'a :: len word) ! i) j \<longleftrightarrow> bit w (8 * i + j)"
  using assms by (auto simp: le_bytes_def bit_unsigned_iff bit_drop_bit_eq add.commute)

lemma le_word_le_bytes:
  assumes "LENGTH('a) = 8 * n"
  shows "le_word (le_bytes n w @ rest) = (w :: 'a :: len word)"
proof (rule bit_word_eqI)
  fix k
  assume k: "k < LENGTH('a)"
  then have d: "k div 8 < n" using assms by simp
  then have "bit (le_bytes n w ! (k div 8)) (k mod 8) \<longleftrightarrow> bit w (8 * (k div 8) + k mod 8)"
    by (intro bit_le_bytes) simp_all
  then show "bit (le_word (le_bytes n w @ rest) :: 'a word) k = bit w k"
    using k d by (simp add: bit_le_word nth_append)
qed

lemmas le_word_le_bytes_exact = le_word_le_bytes [where rest = "[]", unfolded append_Nil2]

lemma le_word_take:
  "LENGTH('a) \<le> 8 * n \<Longrightarrow> (le_word (take n bs) :: 'a :: len word) = le_word bs"
  by (rule bit_word_eqI) (auto simp: bit_le_word)

section \<open>Strings with a separator\<close>

lemma split_at_char:
  assumes "c \<notin> set xs" and "c \<notin> set ys" and "xs @ c # us = ys @ c # vs"
  shows "xs = ys \<and> us = vs"
proof -
  have "\<forall>x \<in> set xs. x \<noteq> c" "\<forall>x \<in> set ys. x \<noteq> c" using assms(1,2) by blast+
  then have "takeWhile (\<lambda>x. x \<noteq> c) (xs @ c # us) = xs" "takeWhile (\<lambda>x. x \<noteq> c) (ys @ c # vs) = ys"
    by (simp_all add: takeWhile_append2)
  with assms(3) have "xs = ys" by simp
  with assms(3) show ?thesis by simp
qed

end
