(* ===== verification/GW_Common.thy ===== *)
theory GW_Common
  imports GW_Prelude "HOL-Library.Signed_Division"
begin

text \<open>
  Common data of Gopherwood: the exception classes of \<^verbatim>\<open>src/common/Exception.h\<close>, the file
  identity of \<^verbatim>\<open>src/file/FileId.h\<close>, the process-wide settings of
  \<^verbatim>\<open>src/common/Configuration.cpp\<close>, and the decimal printing of the C++ streams that file names,
  object names and ports are built with.
\<close>

section \<open>Exceptions\<close>

text \<open>
  The classes of \<^verbatim>\<open>Exception.h\<close>, and the two library classes that \<^verbatim>\<open>handleException\<close> catches
  besides them.
\<close>

datatype exn_class =
    GopherwoodException
  | GopherwoodIOException
  | GopherwoodInvalidParmException
  | GopherwoodNotImplException
  | GopherwoodSyncException
  | GopherwoodSharedMemException
  | GopherwoodCanceled
  | GopherwoodNetworkException
  | GopherwoodNetworkConnectException
  | GopherwoodOSSException
  | GopherwoodEndOfStream
  | GopherwoodTimeoutException
  | GopherwoodInternalException
  | StdBadAlloc
  | StdException

text \<open>The direct base class, as each class declares it.\<close>

fun base_class :: "exn_class \<Rightarrow> exn_class option" where
  "base_class GopherwoodException = Some StdException"
| "base_class GopherwoodNetworkException = Some GopherwoodIOException"
| "base_class GopherwoodNetworkConnectException = Some GopherwoodNetworkException"
| "base_class GopherwoodEndOfStream = Some GopherwoodIOException"
| "base_class StdBadAlloc = Some StdException"
| "base_class StdException = None"
| "base_class _ = Some GopherwoodException"

text \<open>Depth in the hierarchy; it makes the walk up the base classes terminate.\<close>

fun class_depth :: "exn_class \<Rightarrow> nat" where
  "class_depth StdException = 0"
| "class_depth StdBadAlloc = 1"
| "class_depth GopherwoodException = 1"
| "class_depth GopherwoodNetworkException = 3"
| "class_depth GopherwoodEndOfStream = 3"
| "class_depth GopherwoodNetworkConnectException = 4"
| "class_depth _ = 2"

lemma base_class_depth: "base_class c = Some d \<Longrightarrow> class_depth d < class_depth c"
  by (cases c) auto

text \<open>\<open>instance_of c d\<close>: a \<^verbatim>\<open>catch (const d &)\<close> clause catches an exception of class \<open>c\<close>.\<close>

function instance_of :: "exn_class \<Rightarrow> exn_class \<Rightarrow> bool" where
  "instance_of c d = (c = d \<or> (case base_class c of None \<Rightarrow> False | Some b \<Rightarrow> instance_of b d))"
  by pat_completeness auto
termination
  by (relation "measure (\<lambda>(c, d). class_depth c)") (auto simp: base_class_depth)

declare instance_of.simps [simp del]

text \<open>
  How a Gopherwood function can fail: it throws (\<open>Exn\<close>), an \<^verbatim>\<open>assert\<close> aborts the process in a
  build without \<^verbatim>\<open>NDEBUG\<close> (\<open>AssertAbort\<close>), or it leaves the array it indexes
  (\<open>BadAccess\<close>, undefined behaviour in C++). \<open>OutOfFuel\<close> is not a failure of the code: a loop that
  need not end has run for as many rounds as the model was given and has not ended, or a thread
  waits for a mutex that nobody will release.
\<close>

datatype gw_error = Exn exn_class | AssertAbort | BadAccess | OutOfFuel

definition THROW :: "exn_class \<Rightarrow> ('s, gw_error, 'a) gw" where
  "THROW c = throwE (Exn c)"

lemma run_THROW [run_simps]: "THROW c s = (Inl (Exn c), s)"
  by (simp add: THROW_def run_simps)

lemma wp_THROW [wp_simps]: "wp (THROW c) Q E s = E (Exn c) s"
  by (simp add: THROW_def wp_simps)

text \<open>
  \<^verbatim>\<open>assert(p)\<close>: without \<^verbatim>\<open>NDEBUG\<close> (the build with \<^verbatim>\<open>--enable-debug\<close>) a false condition aborts; the
  default build type \<^verbatim>\<open>RelWithDebInfo\<close> defines \<^verbatim>\<open>NDEBUG\<close> and the assertion is not compiled.
\<close>

definition assertE :: "bool \<Rightarrow> bool \<Rightarrow> ('s, gw_error, unit) gw" where
  "assertE ndebug p = (if ndebug \<or> p then retE () else throwE AssertAbort)"

lemma run_assertE [run_simps]:
  "assertE ndebug p s = (if ndebug \<or> p then (Inr (), s) else (Inl AssertAbort, s))"
  by (simp add: assertE_def run_simps)

lemma wp_assertE [wp_simps]:
  "wp (assertE ndebug p) Q E s = (if ndebug \<or> p then Q () s else E AssertAbort s)"
  by (simp add: assertE_def wp_simps)

text \<open>
  A \<^verbatim>\<open>catch (...)\<close> clause: it sees exceptions, not aborts or undefined behaviour.
\<close>

definition catchExn :: "('s, gw_error, 'a) gw \<Rightarrow> (exn_class \<Rightarrow> ('s, gw_error, 'a) gw) \<Rightarrow> ('s, gw_error, 'a) gw" where
  "catchExn m h = catchE m (\<lambda>e. case e of Exn c \<Rightarrow> h c | _ \<Rightarrow> throwE e)"

lemma run_catchExn [run_simps]:
  "catchExn m h s = (case m s of (Inl (Exn c), s') \<Rightarrow> h c s' | r \<Rightarrow> r)"
  by (auto simp: catchExn_def catchE_def throwE_def split: prod.splits sum.splits gw_error.splits)

lemma wp_catchExn [wp_simps]:
  "wp (catchExn m h) Q E s = wp m Q (\<lambda>e. case e of Exn c \<Rightarrow> wp (h c) Q E | _ \<Rightarrow> E e) s"
  by (auto simp: wp_def run_catchExn split: prod.splits sum.splits gw_error.splits)

section \<open>Decimal output\<close>

text \<open>What \<^verbatim>\<open>operator<<\<close> of a C++ stream in the classic locale writes for an integer.\<close>

definition digit :: "nat \<Rightarrow> char" where
  "digit d = char_of (48 + d)"

function decimal :: "nat \<Rightarrow> string" where
  "decimal n = (if n < 10 then [digit n] else decimal (n div 10) @ [digit (n mod 10)])"
  by pat_completeness auto
termination
  by (relation "measure id") auto

declare decimal.simps [simp del]

definition decimal_int :: "int \<Rightarrow> string" where
  "decimal_int i = (if i < 0 then CHR ''-'' # decimal (nat (- i)) else decimal (nat i))"

lemma digit_inj: "a < 10 \<Longrightarrow> b < 10 \<Longrightarrow> digit a = digit b \<longleftrightarrow> a = b"
  by (auto simp: digit_def char_of_eq_iff take_bit_eq_mod)

lemma decimal_nonempty: "decimal n \<noteq> []"
  by (subst decimal.simps) simp

lemma decimal_inj: "decimal m = decimal n \<Longrightarrow> m = n"
proof (induction m arbitrary: n rule: decimal.induct)
  case (1 m)
  have single: "decimal k \<noteq> [c]" if "\<not> k < 10" for k c
    using that by (subst decimal.simps) (simp add: decimal_nonempty)
  show ?case
  proof (cases "m < 10")
    case True
    then have m: "decimal m = [digit m]" by (subst decimal.simps) simp
    with "1.prems" have "n < 10" using single [of n] by metis
    moreover from this have "decimal n = [digit n]" by (subst decimal.simps) simp
    ultimately show ?thesis using m "1.prems" True by (simp add: digit_inj)
  next
    case False
    then have m: "decimal m = decimal (m div 10) @ [digit (m mod 10)]"
      by (subst decimal.simps) simp
    have n10: "\<not> n < 10"
    proof
      assume "n < 10"
      then have "decimal n = [digit n]" by (subst decimal.simps) simp
      with "1.prems" single [OF False] show False by metis
    qed
    then have n: "decimal n = decimal (n div 10) @ [digit (n mod 10)]"
      by (subst decimal.simps) simp
    from m n "1.prems" have "decimal (m div 10) = decimal (n div 10)"
      and d: "m mod 10 = n mod 10" by (simp_all add: digit_inj)
    with "1.IH" False have "m div 10 = n div 10" by blast
    with d show ?thesis by (metis div_mult_mod_eq)
  qed
qed

lemma digit_code: "d < 10 \<Longrightarrow> (of_char (digit d) :: nat) = 48 + d"
  by (simp add: digit_def take_bit_eq_mod)

lemma decimal_chars: "c \<in> set (decimal n) \<Longrightarrow> \<exists>d < 10. c = digit d"
proof (induction n rule: decimal.induct)
  case (1 n)
  show ?case
  proof (cases "n < 10")
    case True
    with "1.prems" show ?thesis by (subst (asm) decimal.simps) auto
  next
    case False
    with "1.prems" have "c \<in> set (decimal (n div 10)) \<or> c = digit (n mod 10)"
      by (subst (asm) decimal.simps) auto
    moreover have "n mod 10 < 10" by simp
    ultimately show ?thesis using "1.IH" [OF False] by blast
  qed
qed

lemma decimal_not_in: "48 + 9 < (of_char c :: nat) \<or> (of_char c :: nat) < 48 \<Longrightarrow> c \<notin> set (decimal n)"
  using decimal_chars digit_code by fastforce

section \<open>File identity\<close>

record FileId =
  hashcode :: "64 word"
  collisionId :: "32 word"

text \<open>The default constructor and \<^verbatim>\<open>reset\<close>; \<^verbatim>\<open>operator==\<close> is equality of the record.\<close>

definition FileId_new :: FileId where
  "FileId_new = \<lparr>hashcode = 0, collisionId = 0\<rparr>"

definition FileId_reset :: FileId where
  "FileId_reset = \<lparr>hashcode = - 1, collisionId = - 1\<rparr>"

definition FileId_toString :: "FileId \<Rightarrow> string" where
  "FileId_toString f = decimal (unat (hashcode f)) @ decimal (unat (collisionId f))"

lemma FileId_eq_iff: "(f :: FileId) = g \<longleftrightarrow> hashcode f = hashcode g \<and> collisionId f = collisionId g"
  by (cases f; cases g) simp

section \<open>Configuration\<close>

text \<open>
  The static members of \<^verbatim>\<open>Configuration\<close> that the code computes with, and the build's
  \<^verbatim>\<open>NDEBUG\<close>. \<^verbatim>\<open>gwCreateContext\<close> overwrites the first three; the others keep their initial values.
\<close>

record Configuration =
  NUMBER_OF_BLOCKS :: int
  LOCAL_BUCKET_SIZE :: int
  CUR_CONNECTION :: int
  MAX_CONNECTION :: int
  PRE_ALLOCATE_BUCKET_NUM :: "32 word"
  PRE_ACTIVATE_BLOCK_NUM :: int
  NDEBUG :: bool

definition LOCAL_SPACE_FILE :: string where
  "LOCAL_SPACE_FILE = ''GopherwoodLocal''"

definition SHARED_MEMORY_NAME :: string where
  "SHARED_MEMORY_NAME = ''GopherwoodSharedMem''"

definition MANIFEST_FOLDER :: string where
  "MANIFEST_FOLDER = ''/manifest''"

definition default_configuration :: "bool \<Rightarrow> Configuration" where
  "default_configuration ndebug =
     \<lparr>NUMBER_OF_BLOCKS = 100, LOCAL_BUCKET_SIZE = 64 * 1024 * 1024, CUR_CONNECTION = 10,
      MAX_CONNECTION = 1024, PRE_ALLOCATE_BUCKET_NUM = 4, PRE_ACTIVATE_BLOCK_NUM = 4,
      NDEBUG = ndebug\<rparr>"

definition getCurQuotaSize :: "Configuration \<Rightarrow> 32 word" where
  "getCurQuotaSize cfg = word_of_int (NUMBER_OF_BLOCKS cfg sdiv CUR_CONNECTION cfg)"

lemma getCurQuotaSize_unat:
  assumes "0 \<le> NUMBER_OF_BLOCKS cfg" and "NUMBER_OF_BLOCKS cfg < 2 ^ 31" and "0 < CUR_CONNECTION cfg"
  shows "unat (getCurQuotaSize cfg) = nat (NUMBER_OF_BLOCKS cfg div CUR_CONNECTION cfg)"
proof -
  let ?q = "NUMBER_OF_BLOCKS cfg div CUR_CONNECTION cfg"
  have "NUMBER_OF_BLOCKS cfg sdiv CUR_CONNECTION cfg = ?q"
    using assms by (simp add: signed_divide_int_def sgn_if)
  moreover have "0 \<le> ?q" using assms by (simp add: pos_imp_zdiv_nonneg_iff)
  moreover have "?q \<le> NUMBER_OF_BLOCKS cfg"
    using assms(1,3) by (metis div_by_1 zdiv_mono2 int_one_le_iff_zero_less zero_less_one)
  ultimately show ?thesis
    using assms(2) by (simp add: getCurQuotaSize_def unat_eq_nat_uint uint_word_of_int)
qed

end
