(* ===== verification/GW_SharedMemObj.thy ===== *)
theory GW_SharedMemObj
  imports GW_Common "HOL-Library.Multiset"
begin

unbundle bit_operations_syntax

text \<open>
  The objects in shared memory, \<^verbatim>\<open>src/core/SharedMemoryObj.h\<close> and \<^verbatim>\<open>SharedMemoryObj.cpp\<close>: the header
  with its statistics, the bucket with its flag word and its table of activations, and the
  registration slot of an active status. Flag words are 32-bit words and every flag operation
  is the mask operation of the source.

  The table of activations is shown to implement a bounded multiset of active ids; clients of a
  bucket use it through the locale \<open>activation_table\<close>.
\<close>

section \<open>ShareMemHeader\<close>

definition InvalidPid :: int where "InvalidPid = - 1"
definition InvalidActiveId :: int where "InvalidActiveId = - 1"
definition InvalidBlockId :: int where "InvalidBlockId = - 1"
definition InvalidBucketId :: int where "InvalidBucketId = - 1"

record ShareMemHeader =
  h_flags :: "8 word"
  numBuckets :: int
  numMaxActiveStatus :: int
  nextVictimBucket :: int
  numFreeBuckets :: "32 word"
  numActiveBuckets :: "32 word"
  numUsedBuckets :: "32 word"
  numEvictingBuckets :: "32 word"
  numLoadingBuckets :: "32 word"
  numFileActiveStatus :: "32 word"
  numAdminActiveStatus :: "32 word"

definition ShareMemHeader_reset :: "int \<Rightarrow> int \<Rightarrow> ShareMemHeader" where
  "ShareMemHeader_reset totalBucketNum maxConn =
     \<lparr>h_flags = 0, numBuckets = totalBucketNum, numMaxActiveStatus = int16 maxConn,
      nextVictimBucket = 0, numFreeBuckets = word_of_int totalBucketNum, numActiveBuckets = 0,
      numUsedBuckets = 0, numEvictingBuckets = 0, numLoadingBuckets = 0,
      numFileActiveStatus = 0, numAdminActiveStatus = 0\<rparr>"

definition header_enter :: "(ShareMemHeader, gw_error, unit) gw" where
  "header_enter =
     bindE (getsE h_flags) (\<lambda>fl.
     if fl \<noteq> 0 then THROW GopherwoodSharedMemException
     else modifyE (\<lambda>h. h\<lparr>h_flags := h_flags h OR 1\<rparr>))"

definition header_exit :: "(ShareMemHeader, gw_error, unit) gw" where
  "header_exit =
     seqE (modifyE (\<lambda>h. h\<lparr>h_flags := h_flags h AND 0xFE\<rparr>))
    (bindE (getsE h_flags) (\<lambda>fl.
     if fl \<noteq> 0 then THROW GopherwoodSharedMemException else retE ()))"

section \<open>BucketActiveInfo\<close>

record BucketActiveInfo =
  ai_flags :: "16 word"
  ai_activeId :: int

definition BucketActiveInfo_reset :: BucketActiveInfo where
  "BucketActiveInfo_reset = \<lparr>ai_flags = 0, ai_activeId = InvalidActiveId\<rparr>"

definition setWrite :: "BucketActiveInfo \<Rightarrow> BucketActiveInfo" where
  "setWrite i = i\<lparr>ai_flags := 1\<rparr>"

definition setRead :: "BucketActiveInfo \<Rightarrow> BucketActiveInfo" where
  "setRead i = i\<lparr>ai_flags := 2\<rparr>"

definition SMBUCKET_MAX_CONCURRENT_OPEN :: nat where
  "SMBUCKET_MAX_CONCURRENT_OPEN = 32"

section \<open>ShareMemBucket\<close>

record ShareMemBucket =
  b_flags :: "32 word"
  b_fileId :: FileId
  usageCount :: int
  b_fileBlockIndex :: int
  dataSize :: int
  evictLoadActiveId :: int
  activeInfos :: "BucketActiveInfo list"

definition isFreeBucket :: "ShareMemBucket \<Rightarrow> bool" where
  "isFreeBucket b = (b_flags b AND 0x00000003 = 0)"

definition isActiveBucket :: "ShareMemBucket \<Rightarrow> bool" where
  "isActiveBucket b = (b_flags b AND 0x00000003 = 1)"

definition isUsedBucket :: "ShareMemBucket \<Rightarrow> bool" where
  "isUsedBucket b = (b_flags b AND 0x00000003 = 2)"

definition isEvictingBucket :: "ShareMemBucket \<Rightarrow> bool" where
  "isEvictingBucket b = (b_flags b AND 0x80000000 \<noteq> 0)"

definition isDeletedBucket :: "ShareMemBucket \<Rightarrow> bool" where
  "isDeletedBucket b = (b_flags b AND 0x40000000 \<noteq> 0)"

definition isLoadingBucket :: "ShareMemBucket \<Rightarrow> bool" where
  "isLoadingBucket b = (b_flags b AND 0x20000000 \<noteq> 0)"

definition BucketTypeMask :: "32 word" where
  "BucketTypeMask = 0xFFFFFFFC"

definition setBucketFree :: "ShareMemBucket \<Rightarrow> ShareMemBucket" where
  "setBucketFree b = b\<lparr>b_flags := (b_flags b AND BucketTypeMask) OR 0x00000000\<rparr>"

definition setBucketActive :: "ShareMemBucket \<Rightarrow> ShareMemBucket" where
  "setBucketActive b = b\<lparr>b_flags := (b_flags b AND BucketTypeMask) OR 0x00000001\<rparr>"

definition setBucketUsed :: "ShareMemBucket \<Rightarrow> ShareMemBucket" where
  "setBucketUsed b = b\<lparr>b_flags := (b_flags b AND BucketTypeMask) OR 0x00000002\<rparr>"

definition setBucketEvicting :: "ShareMemBucket \<Rightarrow> ShareMemBucket" where
  "setBucketEvicting b = b\<lparr>b_flags := b_flags b OR 0x80000000\<rparr>"

definition setBucketEvictFinish :: "ShareMemBucket \<Rightarrow> ShareMemBucket" where
  "setBucketEvictFinish b = b\<lparr>b_flags := b_flags b AND 0x7FFFFFFF\<rparr>"

definition setBucketDeleted :: "ShareMemBucket \<Rightarrow> ShareMemBucket" where
  "setBucketDeleted b = b\<lparr>b_flags := b_flags b OR 0x40000000\<rparr>"

definition setBucketLoading :: "ShareMemBucket \<Rightarrow> ShareMemBucket" where
  "setBucketLoading b = b\<lparr>b_flags := b_flags b OR 0x20000000\<rparr>"

definition setBucketLoadFinish :: "ShareMemBucket \<Rightarrow> ShareMemBucket" where
  "setBucketLoadFinish b = b\<lparr>b_flags := b_flags b AND 0xDFFFFFFF\<rparr>"

text \<open>\<^verbatim>\<open>reset\<close> overwrites every field, so it is a constant.\<close>

definition ShareMemBucket_reset :: ShareMemBucket where
  "ShareMemBucket_reset =
     \<lparr>b_flags = 0, b_fileId = FileId_reset, usageCount = 0, b_fileBlockIndex = InvalidBlockId,
      dataSize = 0, evictLoadActiveId = InvalidActiveId,
      activeInfos = replicate SMBUCKET_MAX_CONCURRENT_OPEN BucketActiveInfo_reset\<rparr>"

text \<open>The loops over \<^verbatim>\<open>activeInfos\<close>: find the first matching entry and replace it.\<close>

fun replace_first :: "('a \<Rightarrow> bool) \<Rightarrow> ('a \<Rightarrow> 'a) \<Rightarrow> 'a list \<Rightarrow> 'a list option" where
  "replace_first p f [] = None"
| "replace_first p f (x # xs) =
     (if p x then Some (f x # xs) else map_option ((#) x) (replace_first p f xs))"

definition markWrite :: "int \<Rightarrow> ShareMemBucket \<Rightarrow> gw_error + ShareMemBucket" where
  "markWrite activeId b =
     (case replace_first (\<lambda>i. ai_activeId i = InvalidActiveId)
             (\<lambda>i. setWrite (i\<lparr>ai_activeId := int16 activeId\<rparr>)) (activeInfos b) of
        None \<Rightarrow> Inl (Exn GopherwoodSharedMemException)
      | Some is \<Rightarrow> Inr (b\<lparr>activeInfos := is\<rparr>))"

definition markRead :: "int \<Rightarrow> ShareMemBucket \<Rightarrow> gw_error + ShareMemBucket" where
  "markRead activeId b =
     (case replace_first (\<lambda>i. ai_activeId i = InvalidActiveId)
             (\<lambda>i. setRead (i\<lparr>ai_activeId := int16 activeId\<rparr>)) (activeInfos b) of
        None \<Rightarrow> Inl (Exn GopherwoodSharedMemException)
      | Some is \<Rightarrow> Inr (b\<lparr>activeInfos := is\<rparr>))"

definition unmarkWrite :: "int \<Rightarrow> ShareMemBucket \<Rightarrow> gw_error + ShareMemBucket" where
  "unmarkWrite activeId b =
     (case replace_first (\<lambda>i. ai_activeId i = activeId) (\<lambda>_. BucketActiveInfo_reset)
             (activeInfos b) of
        None \<Rightarrow> Inl (Exn GopherwoodSharedMemException)
      | Some is \<Rightarrow> Inr (b\<lparr>activeInfos := is\<rparr>))"

definition unmarkRead :: "int \<Rightarrow> ShareMemBucket \<Rightarrow> gw_error + ShareMemBucket" where
  "unmarkRead activeId b =
     (case replace_first (\<lambda>i. ai_activeId i = activeId) (\<lambda>_. BucketActiveInfo_reset)
             (activeInfos b) of
        None \<Rightarrow> Inl (Exn GopherwoodSharedMemException)
      | Some is \<Rightarrow> Inr (b\<lparr>activeInfos := is\<rparr>))"

definition noActiveReadWrite :: "ShareMemBucket \<Rightarrow> bool" where
  "noActiveReadWrite b = list_all (\<lambda>i. ai_activeId i = InvalidActiveId) (activeInfos b)"

definition hasActiveId :: "int \<Rightarrow> ShareMemBucket \<Rightarrow> bool" where
  "hasActiveId activeId b = list_ex (\<lambda>i. ai_activeId i = activeId) (activeInfos b)"

section \<open>ShareMemActiveStatus\<close>

record ShareMemActiveStatus =
  pid :: int
  a_flags :: "32 word"
  a_fileId :: FileId
  evictFileId :: FileId
  a_fileBlockIndex :: int

definition setEvicting :: "ShareMemActiveStatus \<Rightarrow> ShareMemActiveStatus" where
  "setEvicting a = a\<lparr>a_flags := a_flags a OR 0x00000001\<rparr>"

definition setLoading :: "ShareMemActiveStatus \<Rightarrow> ShareMemActiveStatus" where
  "setLoading a = a\<lparr>a_flags := a_flags a OR 0x00000002\<rparr>"

definition setForDelete :: "ShareMemActiveStatus \<Rightarrow> ShareMemActiveStatus" where
  "setForDelete a = a\<lparr>a_flags := a_flags a OR 0x80000000\<rparr>"

definition setBucketStolen :: "ShareMemActiveStatus \<Rightarrow> ShareMemActiveStatus" where
  "setBucketStolen a = a\<lparr>a_flags := a_flags a OR 0x40000000\<rparr>"

definition setShouldDestroy :: "ShareMemActiveStatus \<Rightarrow> ShareMemActiveStatus" where
  "setShouldDestroy a = a\<lparr>a_flags := a_flags a OR 0x20000000\<rparr>"

definition setIsAdmin :: "ShareMemActiveStatus \<Rightarrow> ShareMemActiveStatus" where
  "setIsAdmin a = a\<lparr>a_flags := a_flags a OR 0x10000000\<rparr>"

definition unsetEvicting :: "ShareMemActiveStatus \<Rightarrow> ShareMemActiveStatus" where
  "unsetEvicting a = a\<lparr>a_flags := a_flags a AND 0xFFFFFFFE\<rparr>"

definition unsetLoading :: "ShareMemActiveStatus \<Rightarrow> ShareMemActiveStatus" where
  "unsetLoading a = a\<lparr>a_flags := a_flags a AND 0xFFFFFFFD\<rparr>"

definition unsetBucketStolen :: "ShareMemActiveStatus \<Rightarrow> ShareMemActiveStatus" where
  "unsetBucketStolen a = a\<lparr>a_flags := a_flags a AND 0xBFFFFFFF\<rparr>"

definition unsetShouldDestroy :: "ShareMemActiveStatus \<Rightarrow> ShareMemActiveStatus" where
  "unsetShouldDestroy a = a\<lparr>a_flags := a_flags a AND 0xDFFFFFFF\<rparr>"

definition unsetIsAdmin :: "ShareMemActiveStatus \<Rightarrow> ShareMemActiveStatus" where
  "unsetIsAdmin a = a\<lparr>a_flags := a_flags a AND 0xEFFFFFFF\<rparr>"

definition isLoading :: "ShareMemActiveStatus \<Rightarrow> bool" where
  "isLoading a = (a_flags a AND 0x00000002 \<noteq> 0)"

definition isForDelete :: "ShareMemActiveStatus \<Rightarrow> bool" where
  "isForDelete a = (a_flags a AND 0x80000000 \<noteq> 0)"

definition isEvictBucketStolen :: "ShareMemActiveStatus \<Rightarrow> bool" where
  "isEvictBucketStolen a = (a_flags a AND 0x40000000 \<noteq> 0)"

definition shouldDestroy :: "ShareMemActiveStatus \<Rightarrow> bool" where
  "shouldDestroy a = (a_flags a AND 0x20000000 \<noteq> 0)"

definition isAdmin :: "ShareMemActiveStatus \<Rightarrow> bool" where
  "isAdmin a = (a_flags a AND 0x10000000 \<noteq> 0)"

definition ShareMemActiveStatus_reset :: ShareMemActiveStatus where
  "ShareMemActiveStatus_reset =
     \<lparr>pid = InvalidPid, a_flags = 0, a_fileId = FileId_reset, evictFileId = FileId_reset,
      a_fileBlockIndex = InvalidBlockId\<rparr>"

section \<open>Flag laws\<close>

text \<open>
  What every flag operation does to every flag test, collected in \<open>flag_simps\<close>: the two type
  bits and the three status bits do not disturb each other.
\<close>

named_theorems flag_simps "flag tests after flag updates"

lemmas bucket_tests = isFreeBucket_def isActiveBucket_def isUsedBucket_def isEvictingBucket_def
  isDeletedBucket_def isLoadingBucket_def

lemmas status_tests = isLoading_def isForDelete_def isEvictBucketStolen_def shouldDestroy_def
  isAdmin_def

lemma setBucketFree_flags [flag_simps]:
  "isFreeBucket (setBucketFree b)" "\<not> isActiveBucket (setBucketFree b)"
  "\<not> isUsedBucket (setBucketFree b)" "isEvictingBucket (setBucketFree b) = isEvictingBucket b"
  "isDeletedBucket (setBucketFree b) = isDeletedBucket b"
  "isLoadingBucket (setBucketFree b) = isLoadingBucket b"
  by (simp_all add: bucket_tests setBucketFree_def BucketTypeMask_def
      bit.conj_disj_distrib2 and.assoc)

lemma setBucketActive_flags [flag_simps]:
  "\<not> isFreeBucket (setBucketActive b)" "isActiveBucket (setBucketActive b)"
  "\<not> isUsedBucket (setBucketActive b)" "isEvictingBucket (setBucketActive b) = isEvictingBucket b"
  "isDeletedBucket (setBucketActive b) = isDeletedBucket b"
  "isLoadingBucket (setBucketActive b) = isLoadingBucket b"
  by (simp_all add: bucket_tests setBucketActive_def BucketTypeMask_def
      bit.conj_disj_distrib2 and.assoc)

lemma setBucketUsed_flags [flag_simps]:
  "\<not> isFreeBucket (setBucketUsed b)" "\<not> isActiveBucket (setBucketUsed b)"
  "isUsedBucket (setBucketUsed b)" "isEvictingBucket (setBucketUsed b) = isEvictingBucket b"
  "isDeletedBucket (setBucketUsed b) = isDeletedBucket b"
  "isLoadingBucket (setBucketUsed b) = isLoadingBucket b"
  by (simp_all add: bucket_tests setBucketUsed_def BucketTypeMask_def
      bit.conj_disj_distrib2 and.assoc)

lemma setBucketEvicting_flags [flag_simps]:
  "isFreeBucket (setBucketEvicting b) = isFreeBucket b"
  "isActiveBucket (setBucketEvicting b) = isActiveBucket b"
  "isUsedBucket (setBucketEvicting b) = isUsedBucket b" "isEvictingBucket (setBucketEvicting b)"
  "isDeletedBucket (setBucketEvicting b) = isDeletedBucket b"
  "isLoadingBucket (setBucketEvicting b) = isLoadingBucket b"
  by (simp_all add: bucket_tests setBucketEvicting_def bit.conj_disj_distrib2 and.assoc)

lemma setBucketEvictFinish_flags [flag_simps]:
  "isFreeBucket (setBucketEvictFinish b) = isFreeBucket b"
  "isActiveBucket (setBucketEvictFinish b) = isActiveBucket b"
  "isUsedBucket (setBucketEvictFinish b) = isUsedBucket b"
  "\<not> isEvictingBucket (setBucketEvictFinish b)"
  "isDeletedBucket (setBucketEvictFinish b) = isDeletedBucket b"
  "isLoadingBucket (setBucketEvictFinish b) = isLoadingBucket b"
  by (simp_all add: bucket_tests setBucketEvictFinish_def bit.conj_disj_distrib2 and.assoc)

lemma setBucketDeleted_flags [flag_simps]:
  "isFreeBucket (setBucketDeleted b) = isFreeBucket b"
  "isActiveBucket (setBucketDeleted b) = isActiveBucket b"
  "isUsedBucket (setBucketDeleted b) = isUsedBucket b"
  "isEvictingBucket (setBucketDeleted b) = isEvictingBucket b" "isDeletedBucket (setBucketDeleted b)"
  "isLoadingBucket (setBucketDeleted b) = isLoadingBucket b"
  by (simp_all add: bucket_tests setBucketDeleted_def bit.conj_disj_distrib2 and.assoc)

lemma setBucketLoading_flags [flag_simps]:
  "isFreeBucket (setBucketLoading b) = isFreeBucket b"
  "isActiveBucket (setBucketLoading b) = isActiveBucket b"
  "isUsedBucket (setBucketLoading b) = isUsedBucket b"
  "isEvictingBucket (setBucketLoading b) = isEvictingBucket b"
  "isDeletedBucket (setBucketLoading b) = isDeletedBucket b" "isLoadingBucket (setBucketLoading b)"
  by (simp_all add: bucket_tests setBucketLoading_def bit.conj_disj_distrib2 and.assoc)

lemma setBucketLoadFinish_flags [flag_simps]:
  "isFreeBucket (setBucketLoadFinish b) = isFreeBucket b"
  "isActiveBucket (setBucketLoadFinish b) = isActiveBucket b"
  "isUsedBucket (setBucketLoadFinish b) = isUsedBucket b"
  "isEvictingBucket (setBucketLoadFinish b) = isEvictingBucket b"
  "isDeletedBucket (setBucketLoadFinish b) = isDeletedBucket b"
  "\<not> isLoadingBucket (setBucketLoadFinish b)"
  by (simp_all add: bucket_tests setBucketLoadFinish_def bit.conj_disj_distrib2 and.assoc)

lemma ShareMemBucket_reset_flags [flag_simps]:
  "isFreeBucket ShareMemBucket_reset" "\<not> isActiveBucket ShareMemBucket_reset"
  "\<not> isUsedBucket ShareMemBucket_reset" "\<not> isEvictingBucket ShareMemBucket_reset"
  "\<not> isDeletedBucket ShareMemBucket_reset" "\<not> isLoadingBucket ShareMemBucket_reset"
  by (simp_all add: bucket_tests ShareMemBucket_reset_def)

text \<open>Fields other than the flag word do not influence the tests.\<close>

lemma bucket_tests_frame [flag_simps]:
  "isFreeBucket (b\<lparr>b_fileId := f\<rparr>) = isFreeBucket b"
  "isFreeBucket (b\<lparr>usageCount := u\<rparr>) = isFreeBucket b"
  "isFreeBucket (b\<lparr>b_fileBlockIndex := i\<rparr>) = isFreeBucket b"
  "isFreeBucket (b\<lparr>dataSize := d\<rparr>) = isFreeBucket b"
  "isFreeBucket (b\<lparr>evictLoadActiveId := e\<rparr>) = isFreeBucket b"
  "isFreeBucket (b\<lparr>activeInfos := as\<rparr>) = isFreeBucket b"
  "isActiveBucket (b\<lparr>b_fileId := f\<rparr>) = isActiveBucket b"
  "isActiveBucket (b\<lparr>usageCount := u\<rparr>) = isActiveBucket b"
  "isActiveBucket (b\<lparr>b_fileBlockIndex := i\<rparr>) = isActiveBucket b"
  "isActiveBucket (b\<lparr>dataSize := d\<rparr>) = isActiveBucket b"
  "isActiveBucket (b\<lparr>evictLoadActiveId := e\<rparr>) = isActiveBucket b"
  "isActiveBucket (b\<lparr>activeInfos := as\<rparr>) = isActiveBucket b"
  "isUsedBucket (b\<lparr>b_fileId := f\<rparr>) = isUsedBucket b"
  "isUsedBucket (b\<lparr>usageCount := u\<rparr>) = isUsedBucket b"
  "isUsedBucket (b\<lparr>b_fileBlockIndex := i\<rparr>) = isUsedBucket b"
  "isUsedBucket (b\<lparr>dataSize := d\<rparr>) = isUsedBucket b"
  "isUsedBucket (b\<lparr>evictLoadActiveId := e\<rparr>) = isUsedBucket b"
  "isUsedBucket (b\<lparr>activeInfos := as\<rparr>) = isUsedBucket b"
  "isEvictingBucket (b\<lparr>b_fileId := f\<rparr>) = isEvictingBucket b"
  "isEvictingBucket (b\<lparr>usageCount := u\<rparr>) = isEvictingBucket b"
  "isEvictingBucket (b\<lparr>b_fileBlockIndex := i\<rparr>) = isEvictingBucket b"
  "isEvictingBucket (b\<lparr>dataSize := d\<rparr>) = isEvictingBucket b"
  "isEvictingBucket (b\<lparr>evictLoadActiveId := e\<rparr>) = isEvictingBucket b"
  "isEvictingBucket (b\<lparr>activeInfos := as\<rparr>) = isEvictingBucket b"
  "isDeletedBucket (b\<lparr>activeInfos := as\<rparr>) = isDeletedBucket b"
  "isLoadingBucket (b\<lparr>b_fileId := f\<rparr>) = isLoadingBucket b"
  "isLoadingBucket (b\<lparr>usageCount := u\<rparr>) = isLoadingBucket b"
  "isLoadingBucket (b\<lparr>b_fileBlockIndex := i\<rparr>) = isLoadingBucket b"
  "isLoadingBucket (b\<lparr>dataSize := d\<rparr>) = isLoadingBucket b"
  "isLoadingBucket (b\<lparr>evictLoadActiveId := e\<rparr>) = isLoadingBucket b"
  "isLoadingBucket (b\<lparr>activeInfos := as\<rparr>) = isLoadingBucket b"
  by (simp_all add: bucket_tests)

text \<open>The three types exclude each other.\<close>

lemma bucket_type_exclusive:
  "isActiveBucket b \<Longrightarrow> \<not> isFreeBucket b" "isUsedBucket b \<Longrightarrow> \<not> isFreeBucket b"
  "isUsedBucket b \<Longrightarrow> \<not> isActiveBucket b" "isActiveBucket b \<Longrightarrow> \<not> isUsedBucket b"
  "isFreeBucket b \<Longrightarrow> \<not> isActiveBucket b" "isFreeBucket b \<Longrightarrow> \<not> isUsedBucket b"
  by (simp_all add: bucket_tests)

text \<open>
  The two type bits as a value: rewriting the three tests to equations of this value lets the
  simplifier decide that the types exclude each other.
\<close>

definition btype :: "ShareMemBucket \<Rightarrow> 32 word" where
  "btype b = b_flags b AND 0x00000003"

named_theorems type_simps "the type bits of a bucket after an update"

lemma type_tests [type_simps]:
  "isFreeBucket b \<longleftrightarrow> btype b = 0" "isActiveBucket b \<longleftrightarrow> btype b = 1" "isUsedBucket b \<longleftrightarrow> btype b = 2"
  by (simp_all add: bucket_tests btype_def)

lemma btype_setters [type_simps]:
  "btype (setBucketFree b) = 0" "btype (setBucketActive b) = 1" "btype (setBucketUsed b) = 2"
  "btype (setBucketEvicting b) = btype b" "btype (setBucketEvictFinish b) = btype b"
  "btype (setBucketDeleted b) = btype b" "btype (setBucketLoading b) = btype b"
  "btype (setBucketLoadFinish b) = btype b" "btype ShareMemBucket_reset = 0"
  by (simp_all add: btype_def setBucketFree_def setBucketActive_def setBucketUsed_def
      setBucketEvicting_def setBucketEvictFinish_def setBucketDeleted_def setBucketLoading_def
      setBucketLoadFinish_def ShareMemBucket_reset_def BucketTypeMask_def bit.conj_disj_distrib2 and.assoc)

lemma btype_frame [type_simps]:
  "btype (b\<lparr>b_fileId := f\<rparr>) = btype b" "btype (b\<lparr>usageCount := u\<rparr>) = btype b"
  "btype (b\<lparr>b_fileBlockIndex := i\<rparr>) = btype b" "btype (b\<lparr>dataSize := d\<rparr>) = btype b"
  "btype (b\<lparr>evictLoadActiveId := e\<rparr>) = btype b" "btype (b\<lparr>activeInfos := as\<rparr>) = btype b"
  by (simp_all add: btype_def)

text \<open>Setters write the flag word only.\<close>

lemmas bucket_setters = setBucketFree_def setBucketActive_def setBucketUsed_def
  setBucketEvicting_def setBucketEvictFinish_def setBucketDeleted_def setBucketLoading_def
  setBucketLoadFinish_def

lemma setters_frame [simp]:
  "activeInfos (setBucketFree b) = activeInfos b" "activeInfos (setBucketActive b) = activeInfos b"
  "activeInfos (setBucketUsed b) = activeInfos b" "activeInfos (setBucketEvicting b) = activeInfos b"
  "activeInfos (setBucketLoading b) = activeInfos b"
  "activeInfos (setBucketLoadFinish b) = activeInfos b"
  "activeInfos (setBucketDeleted b) = activeInfos b"
  "b_fileId (setBucketFree b) = b_fileId b" "b_fileId (setBucketActive b) = b_fileId b"
  "b_fileId (setBucketUsed b) = b_fileId b" "b_fileId (setBucketEvicting b) = b_fileId b"
  "b_fileId (setBucketLoading b) = b_fileId b" "b_fileId (setBucketLoadFinish b) = b_fileId b"
  "b_fileId (setBucketDeleted b) = b_fileId b"
  "b_fileBlockIndex (setBucketActive b) = b_fileBlockIndex b"
  "b_fileBlockIndex (setBucketUsed b) = b_fileBlockIndex b"
  "b_fileBlockIndex (setBucketEvicting b) = b_fileBlockIndex b"
  "b_fileBlockIndex (setBucketLoadFinish b) = b_fileBlockIndex b"
  "b_fileBlockIndex (setBucketDeleted b) = b_fileBlockIndex b"
  "evictLoadActiveId (setBucketActive b) = evictLoadActiveId b"
  "evictLoadActiveId (setBucketUsed b) = evictLoadActiveId b"
  "evictLoadActiveId (setBucketEvicting b) = evictLoadActiveId b"
  "evictLoadActiveId (setBucketLoadFinish b) = evictLoadActiveId b"
  "evictLoadActiveId (setBucketDeleted b) = evictLoadActiveId b"
  "usageCount (setBucketEvicting b) = usageCount b" "usageCount (setBucketActive b) = usageCount b"
  "usageCount (setBucketUsed b) = usageCount b"
  "dataSize (setBucketActive b) = dataSize b" "dataSize (setBucketUsed b) = dataSize b"
  "dataSize (setBucketEvicting b) = dataSize b" "dataSize (setBucketLoadFinish b) = dataSize b"
  by (simp_all add: bucket_setters)

lemma status_flags [flag_simps]:
  "isEvictBucketStolen (setEvicting a) = isEvictBucketStolen a"
  "isEvictBucketStolen (setLoading a) = isEvictBucketStolen a"
  "isEvictBucketStolen (setBucketStolen a)"
  "isEvictBucketStolen (setShouldDestroy a) = isEvictBucketStolen a"
  "isEvictBucketStolen (setForDelete a) = isEvictBucketStolen a"
  "isEvictBucketStolen (setIsAdmin a) = isEvictBucketStolen a"
  "isEvictBucketStolen (unsetEvicting a) = isEvictBucketStolen a"
  "isEvictBucketStolen (unsetLoading a) = isEvictBucketStolen a"
  "\<not> isEvictBucketStolen (unsetBucketStolen a)"
  "shouldDestroy (setShouldDestroy a)" "shouldDestroy (setForDelete a) = shouldDestroy a"
  "shouldDestroy (setEvicting a) = shouldDestroy a" "shouldDestroy (setLoading a) = shouldDestroy a"
  "shouldDestroy (setBucketStolen a) = shouldDestroy a"
  "\<not> shouldDestroy (unsetShouldDestroy a)"
  "shouldDestroy (unsetEvicting a) = shouldDestroy a"
  "shouldDestroy (unsetLoading a) = shouldDestroy a"
  "shouldDestroy (unsetBucketStolen a) = shouldDestroy a"
  "isLoading (setLoading a)" "\<not> isLoading (unsetLoading a)"
  "isLoading (setEvicting a) = isLoading a" "isLoading (unsetEvicting a) = isLoading a"
  "isLoading (setBucketStolen a) = isLoading a" "isLoading (unsetBucketStolen a) = isLoading a"
  "isLoading (setShouldDestroy a) = isLoading a" "isLoading (setForDelete a) = isLoading a"
  "isAdmin (setIsAdmin a)" "\<not> isAdmin (unsetIsAdmin a)"
  "isForDelete (setForDelete a)" "isForDelete (setShouldDestroy a) = isForDelete a"
  by (simp_all add: status_tests setEvicting_def setLoading_def setBucketStolen_def
      setShouldDestroy_def setForDelete_def setIsAdmin_def unsetEvicting_def unsetLoading_def
      unsetBucketStolen_def unsetShouldDestroy_def unsetIsAdmin_def bit.conj_disj_distrib2 and.assoc)

lemma status_tests_frame [flag_simps]:
  "isEvictBucketStolen (a\<lparr>a_fileBlockIndex := i\<rparr>) = isEvictBucketStolen a"
  "isEvictBucketStolen (a\<lparr>evictFileId := f\<rparr>) = isEvictBucketStolen a"
  "isEvictBucketStolen (a\<lparr>a_fileId := f\<rparr>) = isEvictBucketStolen a"
  "isEvictBucketStolen (a\<lparr>pid := p\<rparr>) = isEvictBucketStolen a"
  "shouldDestroy (a\<lparr>a_fileBlockIndex := i\<rparr>) = shouldDestroy a"
  "shouldDestroy (a\<lparr>evictFileId := f\<rparr>) = shouldDestroy a"
  "shouldDestroy (a\<lparr>a_fileId := f\<rparr>) = shouldDestroy a"
  "shouldDestroy (a\<lparr>pid := p\<rparr>) = shouldDestroy a"
  "isLoading (a\<lparr>a_fileBlockIndex := i\<rparr>) = isLoading a"
  "isLoading (a\<lparr>evictFileId := f\<rparr>) = isLoading a"
  "isLoading (a\<lparr>a_fileId := f\<rparr>) = isLoading a"
  "isLoading (a\<lparr>pid := p\<rparr>) = isLoading a"
  by (simp_all add: status_tests)

lemmas status_setters = setEvicting_def setLoading_def setForDelete_def setBucketStolen_def
  setShouldDestroy_def setIsAdmin_def unsetEvicting_def unsetLoading_def unsetBucketStolen_def
  unsetShouldDestroy_def unsetIsAdmin_def

lemma status_setters_frame [simp]:
  "a_fileId (setEvicting a) = a_fileId a" "a_fileId (setLoading a) = a_fileId a"
  "a_fileId (setForDelete a) = a_fileId a" "a_fileId (setBucketStolen a) = a_fileId a"
  "a_fileId (setShouldDestroy a) = a_fileId a" "a_fileId (unsetEvicting a) = a_fileId a"
  "a_fileId (unsetLoading a) = a_fileId a" "a_fileId (unsetBucketStolen a) = a_fileId a"
  "a_fileId (setIsAdmin a) = a_fileId a"
  "pid (setEvicting a) = pid a" "pid (setLoading a) = pid a" "pid (setForDelete a) = pid a"
  "pid (setBucketStolen a) = pid a" "pid (setShouldDestroy a) = pid a" "pid (setIsAdmin a) = pid a"
  "pid (unsetEvicting a) = pid a" "pid (unsetLoading a) = pid a" "pid (unsetBucketStolen a) = pid a"
  "evictFileId (setEvicting a) = evictFileId a" "evictFileId (setBucketStolen a) = evictFileId a"
  "evictFileId (unsetEvicting a) = evictFileId a" "evictFileId (setShouldDestroy a) = evictFileId a"
  "evictFileId (unsetBucketStolen a) = evictFileId a" "evictFileId (setLoading a) = evictFileId a"
  "evictFileId (unsetLoading a) = evictFileId a"
  "a_fileBlockIndex (setEvicting a) = a_fileBlockIndex a"
  "a_fileBlockIndex (setBucketStolen a) = a_fileBlockIndex a"
  "a_fileBlockIndex (setShouldDestroy a) = a_fileBlockIndex a"
  "a_fileBlockIndex (setLoading a) = a_fileBlockIndex a"
  "a_fileBlockIndex (unsetLoading a) = a_fileBlockIndex a"
  "a_fileBlockIndex (unsetEvicting a) = a_fileBlockIndex a"
  "a_fileBlockIndex (unsetBucketStolen a) = a_fileBlockIndex a"
  by (simp_all add: status_setters)

section \<open>The activation table as a bounded multiset\<close>

text \<open>
  What a client of the table relies on: an activation adds its id while there is room and
  throws when there is none; a deactivation removes one occurrence of its id and throws when
  there is none; the bucket is idle exactly when the multiset is empty.
\<close>

locale activation_table =
  fixes mark :: "int \<Rightarrow> 'b \<Rightarrow> 'e + 'b"
    and unmark :: "int \<Rightarrow> 'b \<Rightarrow> 'e + 'b"
    and idle :: "'b \<Rightarrow> bool"
    and has :: "int \<Rightarrow> 'b \<Rightarrow> bool"
    and tab :: "'b \<Rightarrow> int multiset"
    and good :: "'b \<Rightarrow> bool"
    and capacity :: nat
    and valid_id :: "int \<Rightarrow> bool"
  assumes mark_room: "good b \<Longrightarrow> valid_id a \<Longrightarrow> size (tab b) < capacity \<Longrightarrow>
      \<exists>b'. mark a b = Inr b' \<and> good b' \<and> tab b' = add_mset a (tab b)"
    and mark_full: "good b \<Longrightarrow> capacity \<le> size (tab b) \<Longrightarrow> \<exists>e. mark a b = Inl e"
    and unmark_present: "good b \<Longrightarrow> valid_id a \<Longrightarrow> a \<in># tab b \<Longrightarrow>
      \<exists>b'. unmark a b = Inr b' \<and> good b' \<and> tab b' = tab b - {#a#}"
    and unmark_absent: "good b \<Longrightarrow> valid_id a \<Longrightarrow> a \<notin># tab b \<Longrightarrow> \<exists>e. unmark a b = Inl e"
    and idle_iff: "good b \<Longrightarrow> idle b \<longleftrightarrow> tab b = {#}"
    and has_iff: "good b \<Longrightarrow> valid_id a \<Longrightarrow> has a b \<longleftrightarrow> a \<in># tab b"
begin

lemma mark_all:
  assumes "good b" and "list_all valid_id as" and "size (tab b) + length as \<le> capacity"
  shows "\<exists>b'. foldS mark as b = Inr b' \<and> good b' \<and> tab b' = mset as + tab b"
  using assms
proof (induction as arbitrary: b)
  case Nil
  then show ?case by simp
next
  case (Cons a as)
  then obtain c where c: "mark a b = Inr c" "good c" "tab c = add_mset a (tab b)"
    using mark_room [of b a] by auto
  with Cons.prems Cons.IH [of c] show ?case by auto
qed

lemma unmark_all:
  assumes "good b" and "list_all valid_id as" and "mset as \<subseteq># tab b"
  shows "\<exists>b'. foldS unmark as b = Inr b' \<and> good b' \<and> tab b' = tab b - mset as"
  using assms
proof (induction as arbitrary: b)
  case Nil
  then show ?case by simp
next
  case (Cons a as)
  then have "a \<in># tab b" by (metis insert_subset_eq_iff mset.simps(2))
  with Cons.prems obtain c where c: "unmark a b = Inr c" "good c" "tab c = tab b - {#a#}"
    using unmark_present [of b a] by auto
  moreover have "mset as \<subseteq># tab c"
    using Cons.prems(3) c(3) by (simp add: insert_subset_eq_iff)
  ultimately show ?case using Cons.prems(2) Cons.IH [of c] by auto
qed

text \<open>Activations released in any order leave the bucket idle again.\<close>

lemma marks_released:
  assumes "good b" and "idle b" and "list_all valid_id as" and "length as \<le> capacity"
    and "mset cs = mset as"
  shows "\<exists>b1 b2. foldS mark as b = Inr b1 \<and> foldS unmark cs b1 = Inr b2 \<and> idle b2 \<and>
    (\<forall>a. a \<in> set as \<longrightarrow> has a b1) \<and> (as \<noteq> [] \<longrightarrow> \<not> idle b1)"
proof -
  have b: "tab b = {#}" using assms(1,2) idle_iff by simp
  from mark_all [OF assms(1,3)] assms(4) b obtain b1
    where b1: "foldS mark as b = Inr b1" "good b1" "tab b1 = mset as" by auto
  have "list_all valid_id cs"
    using assms(3,5) by (metis list_all_iff set_mset_mset)
  with unmark_all [of b1 cs] b1 assms(5) obtain b2
    where b2: "foldS unmark cs b1 = Inr b2" "good b2" "tab b2 = {#}" by auto
  have "has a b1" if "a \<in> set as" for a
    using that assms(3) b1 has_iff [of b1 a] by (simp add: list_all_iff)
  moreover have "as \<noteq> [] \<longrightarrow> \<not> idle b1" using b1 idle_iff [of b1] by simp
  ultimately show ?thesis using b1 b2 idle_iff by blast
qed

end

text \<open>The multiset a bucket's table stands for, and the table's shape.\<close>

definition marks :: "ShareMemBucket \<Rightarrow> int multiset" where
  "marks b = filter_mset (\<lambda>a. a \<noteq> InvalidActiveId) (mset (map ai_activeId (activeInfos b)))"

definition table_ok :: "ShareMemBucket \<Rightarrow> bool" where
  "table_ok b = (length (activeInfos b) = SMBUCKET_MAX_CONCURRENT_OPEN)"

definition valid_activeId :: "int \<Rightarrow> bool" where
  "valid_activeId a = (0 \<le> a \<and> a < 32768)"

lemma replace_first_None_iff: "replace_first p f xs = None \<longleftrightarrow> (\<forall>x \<in> set xs. \<not> p x)"
  by (induction xs) auto

lemma replace_first_SomeD:
  "replace_first p f xs = Some ys \<Longrightarrow>
     \<exists>us x vs. xs = us @ x # vs \<and> p x \<and> (\<forall>u \<in> set us. \<not> p u) \<and> ys = us @ f x # vs"
proof (induction xs arbitrary: ys)
  case Nil
  then show ?case by simp
next
  case (Cons x xs)
  show ?case
  proof (cases "p x")
    case True
    with Cons.prems show ?thesis by (intro exI [of _ "[]"]) auto
  next
    case False
    with Cons.prems obtain zs where "replace_first p f xs = Some zs" and ys: "ys = x # zs" by auto
    from Cons.IH [OF this(1)] obtain us y vs
      where "xs = us @ y # vs" "p y" "\<forall>u \<in> set us. \<not> p u" "zs = us @ f y # vs" by blast
    with False ys show ?thesis by (intro exI [of _ "x # us"]) auto
  qed
qed

lemma replace_first_Some_ex: "x \<in> set xs \<Longrightarrow> p x \<Longrightarrow> \<exists>ys. replace_first p f xs = Some ys"
  by (metis not_Some_eq replace_first_None_iff)

lemma marks_empty_iff: "marks b = {#} \<longleftrightarrow> noActiveReadWrite b"
  by (auto simp: marks_def noActiveReadWrite_def list_all_iff filter_mset_eq_mempty_iff)

lemma in_marks_iff: "valid_activeId a \<Longrightarrow> a \<in># marks b \<longleftrightarrow> hasActiveId a b"
  by (auto simp: marks_def hasActiveId_def list_ex_iff valid_activeId_def InvalidActiveId_def)

lemma size_marks_full:
  assumes "\<forall>i \<in> set (activeInfos b). ai_activeId i \<noteq> InvalidActiveId"
  shows "size (marks b) = length (activeInfos b)"
proof -
  have "marks b = mset (map ai_activeId (activeInfos b))"
    using assms by (auto simp: marks_def filter_mset_eq_conv)
  then show ?thesis by simp
qed

lemma size_marks_room:
  assumes "i \<in> set (activeInfos b)" and "ai_activeId i = InvalidActiveId"
  shows "size (marks b) < length (activeInfos b)"
proof -
  have "marks b \<subset># mset (map ai_activeId (activeInfos b))"
  proof (rule subset_mset.not_eq_order_implies_strict)
    have "InvalidActiveId \<in># mset (map ai_activeId (activeInfos b))" using assms by force
    moreover have "InvalidActiveId \<notin># marks b" by (simp add: marks_def)
    ultimately show "marks b \<noteq> mset (map ai_activeId (activeInfos b))" by metis
    show "marks b \<subseteq># mset (map ai_activeId (activeInfos b))" by (simp add: marks_def)
  qed
  then show ?thesis by (metis length_map mset_subset_size size_mset)
qed

text \<open>One law serves \<^verbatim>\<open>markWrite\<close> and \<^verbatim>\<open>markRead\<close>, another both \<^verbatim>\<open>unmark\<close> operations.\<close>

lemma add_mark_marks:
  assumes "replace_first (\<lambda>i. ai_activeId i = InvalidActiveId) f (activeInfos b) = Some is"
    and "\<And>i. ai_activeId (f i) = a" and "a \<noteq> InvalidActiveId"
  shows "marks (b\<lparr>activeInfos := is\<rparr>) = add_mset a (marks b)"
    and "length is = length (activeInfos b)"
  using replace_first_SomeD [OF assms(1)] assms(2,3) by (auto simp: marks_def)

lemma remove_mark_marks:
  assumes "replace_first (\<lambda>i. ai_activeId i = a) (\<lambda>_. BucketActiveInfo_reset) (activeInfos b) = Some is"
    and "a \<noteq> InvalidActiveId"
  shows "marks (b\<lparr>activeInfos := is\<rparr>) = marks b - {#a#}"
    and "length is = length (activeInfos b)"
  using replace_first_SomeD [OF assms(1)] assms(2)
  by (auto simp: marks_def BucketActiveInfo_reset_def)

lemma valid_activeIdD: "valid_activeId a \<Longrightarrow> int16 a = a" "valid_activeId a \<Longrightarrow> a \<noteq> InvalidActiveId"
  by (auto simp: valid_activeId_def InvalidActiveId_def int16_id)

lemma mark_table_room:
  assumes "table_ok b" and "size (marks b) < SMBUCKET_MAX_CONCURRENT_OPEN"
  shows "\<exists>is. replace_first (\<lambda>i. ai_activeId i = InvalidActiveId) f (activeInfos b) = Some is"
proof (rule ccontr)
  assume "\<nexists>is. replace_first (\<lambda>i. ai_activeId i = InvalidActiveId) f (activeInfos b) = Some is"
  then have "replace_first (\<lambda>i. ai_activeId i = InvalidActiveId) f (activeInfos b) = None"
    by auto
  then have "size (marks b) = length (activeInfos b)"
    by (intro size_marks_full) (simp add: replace_first_None_iff)
  with assms show False by (simp add: table_ok_def)
qed

lemma mark_table_full:
  assumes "table_ok b" and "SMBUCKET_MAX_CONCURRENT_OPEN \<le> size (marks b)"
  shows "replace_first (\<lambda>i. ai_activeId i = InvalidActiveId) f (activeInfos b) = None"
  using assms size_marks_room [of _ b] by (force simp: replace_first_None_iff table_ok_def)

interpretation write_table: activation_table markWrite unmarkWrite noActiveReadWrite hasActiveId
  marks table_ok SMBUCKET_MAX_CONCURRENT_OPEN valid_activeId
proof
  fix b a
  assume "table_ok b" "valid_activeId a" "size (marks b) < SMBUCKET_MAX_CONCURRENT_OPEN"
  then show "\<exists>b'. markWrite a b = Inr b' \<and> table_ok b' \<and> marks b' = add_mset a (marks b)"
    using mark_table_room [of b "\<lambda>i. setWrite (i\<lparr>ai_activeId := int16 a\<rparr>)"]
      add_mark_marks [of "\<lambda>i. setWrite (i\<lparr>ai_activeId := int16 a\<rparr>)" b _ a] valid_activeIdD [of a]
    by (auto simp: markWrite_def setWrite_def table_ok_def)
next
  fix b a
  assume "table_ok b" "valid_activeId a" "a \<in># marks b"
  then show "\<exists>b'. unmarkWrite a b = Inr b' \<and> table_ok b' \<and> marks b' = marks b - {#a#}"
    using replace_first_Some_ex [of _ "activeInfos b" "\<lambda>i. ai_activeId i = a"]
      remove_mark_marks [of a b] valid_activeIdD [of a]
    by (fastforce simp: unmarkWrite_def table_ok_def in_marks_iff hasActiveId_def list_ex_iff
        split: option.splits)
next
  fix b a
  assume "table_ok b" "valid_activeId a" "a \<notin># marks b"
  then show "\<exists>e. unmarkWrite a b = Inl e"
    by (auto simp: unmarkWrite_def in_marks_iff hasActiveId_def list_ex_iff replace_first_None_iff
        split: option.splits dest!: replace_first_SomeD)
qed (auto simp: markWrite_def mark_table_full marks_empty_iff in_marks_iff)

interpretation read_table: activation_table markRead unmarkRead noActiveReadWrite hasActiveId
  marks table_ok SMBUCKET_MAX_CONCURRENT_OPEN valid_activeId
proof
  fix b a
  assume "table_ok b" "valid_activeId a" "size (marks b) < SMBUCKET_MAX_CONCURRENT_OPEN"
  then show "\<exists>b'. markRead a b = Inr b' \<and> table_ok b' \<and> marks b' = add_mset a (marks b)"
    using mark_table_room [of b "\<lambda>i. setRead (i\<lparr>ai_activeId := int16 a\<rparr>)"]
      add_mark_marks [of "\<lambda>i. setRead (i\<lparr>ai_activeId := int16 a\<rparr>)" b _ a] valid_activeIdD [of a]
    by (auto simp: markRead_def setRead_def table_ok_def)
next
  fix b a
  assume "table_ok b" "valid_activeId a" "a \<in># marks b"
  then show "\<exists>b'. unmarkRead a b = Inr b' \<and> table_ok b' \<and> marks b' = marks b - {#a#}"
    using write_table.unmark_present by (simp add: unmarkRead_def unmarkWrite_def)
next
  fix b a
  assume "table_ok b" "valid_activeId a" "a \<notin># marks b"
  then show "\<exists>e. unmarkRead a b = Inl e"
    using write_table.unmark_absent by (simp add: unmarkRead_def unmarkWrite_def)
qed (auto simp: markRead_def mark_table_full marks_empty_iff in_marks_iff)

section \<open>Properties of the activation table\<close>

text \<open>
  A bucket counts its users: up to \<^verbatim>\<open>SMBUCKET_MAX_CONCURRENT_OPEN\<close> activations of an idle bucket all
  succeed and are all found in it, and when they are released, in any order, the bucket is idle
  again, and not before.
\<close>

theorem activations_released:
  assumes "table_ok b" and "noActiveReadWrite b" and "list_all valid_activeId as"
    and "length as \<le> SMBUCKET_MAX_CONCURRENT_OPEN" and "mset cs = mset as"
  shows "\<exists>b1 b2. foldS markWrite as b = Inr b1 \<and> foldS unmarkWrite cs b1 = Inr b2 \<and> noActiveReadWrite b2 \<and>
    (\<forall>a. a \<in> set as \<longrightarrow> hasActiveId a b1) \<and> (as \<noteq> [] \<longrightarrow> \<not> noActiveReadWrite b1)"
  by (rule write_table.marks_released [OF assms])

theorem activations_released_witness:
  "\<exists>b1 b2. foldS markWrite [4, 2, 4] ShareMemBucket_reset = Inr b1 \<and> foldS unmarkWrite [2, 4, 4] b1 = Inr b2 \<and>
    noActiveReadWrite b2 \<and> hasActiveId 2 b1 \<and> \<not> noActiveReadWrite b1"
proof -
  have "table_ok ShareMemBucket_reset" "noActiveReadWrite ShareMemBucket_reset"
    "list_all valid_activeId [4, 2, 4]" "length [4 :: int, 2, 4] \<le> SMBUCKET_MAX_CONCURRENT_OPEN"
    by code_simp+
  moreover have "mset [2, 4, 4 :: int] = mset [4, 2, 4]" by simp
  ultimately have "\<exists>b1 b2. foldS markWrite [4, 2, 4] ShareMemBucket_reset = Inr b1 \<and> foldS unmarkWrite [2, 4, 4] b1 = Inr b2 \<and>
      noActiveReadWrite b2 \<and> (\<forall>a. a \<in> set [4, 2, 4] \<longrightarrow> hasActiveId a b1) \<and> ([4, 2, 4 :: int] \<noteq> [] \<longrightarrow> \<not> noActiveReadWrite b1)"
    by (rule activations_released)
  then show ?thesis by auto
qed

end
