(* ===== verification/GW_BlockStatus.thy ===== *)
theory GW_BlockStatus
  imports GW_SharedMemObj
begin

unbundle bit_operations_syntax

text \<open>
  \<^verbatim>\<open>src/core/BlockStatus.h\<close> and \<^verbatim>\<open>BlockStatus.cpp\<close>: the in-memory status of a file block, its
  12-byte record in the manifest log, and the description of a block that is handed to the
  workers. The record is laid out field by field, with the two padding bytes that the code
  leaves uninitialised as a parameter.
\<close>

section \<open>Data\<close>

definition BUCKET_FREE :: "8 word" where "BUCKET_FREE = 0"
definition BUCKET_ACTIVE :: "8 word" where "BUCKET_ACTIVE = 1"
definition BUCKET_USED :: "8 word" where "BUCKET_USED = 2"

definition InvalidBlockOffset :: int where "InvalidBlockOffset = - 1"

record Block =
  bk_bucketId :: int
  bk_blockId :: int
  isLocal :: bool
  bk_state :: "8 word"
  bk_usageCount :: int

definition Block_new :: "int \<Rightarrow> int \<Rightarrow> bool \<Rightarrow> 8 word \<Rightarrow> Block" where
  "Block_new theBucketId theBlockId local s =
     \<lparr>bk_bucketId = theBucketId, bk_blockId = theBlockId, isLocal = local, bk_state = s,
      bk_usageCount = 0\<rparr>"

record BlockRecord =
  rFlags :: "16 word"
  rPadding :: "16 word"
  rBucketId :: "32 word"
  rBlockId :: "32 word"

definition BLOCK_RECORD_REMOTE :: "16 word" where "BLOCK_RECORD_REMOTE = 0x8000"
definition BLOCK_RECORD_TYPE_MASK :: "16 word" where "BLOCK_RECORD_TYPE_MASK = 0x0003"
definition BLOCK_RECORD_FREE :: "16 word" where "BLOCK_RECORD_FREE = 0x0000"
definition BLOCK_RECORD_ACTIVE :: "16 word" where "BLOCK_RECORD_ACTIVE = 0x0001"
definition BLOCK_RECORD_USED :: "16 word" where "BLOCK_RECORD_USED = 0x0002"

record BlockInfo =
  bi_fileId :: FileId
  bi_blockId :: int
  bi_bucketId :: int
  bi_offset :: int
  bi_dataSize :: int
  bi_isLocal :: bool

text \<open>\<^verbatim>\<open>BlockInfo::reset\<close> leaves \<^verbatim>\<open>isLocal\<close> as it was.\<close>

definition BlockInfo_reset :: "BlockInfo \<Rightarrow> BlockInfo" where
  "BlockInfo_reset i =
     i\<lparr>bi_fileId := FileId_reset, bi_blockId := InvalidBlockId, bi_bucketId := InvalidBucketId,
       bi_offset := InvalidBlockOffset, bi_dataSize := 0\<rparr>"

section \<open>The log format of a block\<close>

definition sizeof_BlockRecord :: nat where
  "sizeof_BlockRecord = 12"

text \<open>The bytes of the struct, and the struct that a cast of a buffer reads.\<close>

definition BlockRecord_bytes :: "BlockRecord \<Rightarrow> byte list" where
  "BlockRecord_bytes r =
     le_bytes 2 (rFlags r) @ le_bytes 2 (rPadding r) @ le_bytes 4 (rBucketId r) @ le_bytes 4 (rBlockId r)"

definition BlockRecord_cast :: "byte list \<Rightarrow> BlockRecord" where
  "BlockRecord_cast bs =
     \<lparr>rFlags = le_word (take 2 bs), rPadding = le_word (take 2 (drop 2 bs)),
      rBucketId = le_word (take 4 (drop 4 bs)), rBlockId = le_word (take 4 (drop 8 bs))\<rparr>"

definition toLogFormat :: "16 word \<Rightarrow> Block \<Rightarrow> gw_error + byte list" where
  "toLogFormat padding b =
     (let fl0 = (if \<not> isLocal b then BLOCK_RECORD_REMOTE else 0);
          record_of = (\<lambda>fl. \<lparr>rFlags = fl, rPadding = padding, rBucketId = word_of_int (bk_bucketId b),
                             rBlockId = word_of_int (bk_blockId b)\<rparr>)
      in if bk_state b = BUCKET_FREE then Inr (BlockRecord_bytes (record_of (fl0 OR BLOCK_RECORD_FREE)))
         else if bk_state b = BUCKET_ACTIVE then Inr (BlockRecord_bytes (record_of (fl0 OR BLOCK_RECORD_ACTIVE)))
         else if bk_state b = BUCKET_USED then Inr (BlockRecord_bytes (record_of (fl0 OR BLOCK_RECORD_USED)))
         else Inl (Exn GopherwoodException))"

definition toBlockFormat :: "BlockRecord \<Rightarrow> gw_error + Block" where
  "toBlockFormat r =
     (let local = (rFlags r AND BLOCK_RECORD_REMOTE = 0);
          type = rFlags r AND BLOCK_RECORD_TYPE_MASK;
          block = (\<lambda>st. Block_new (sint (rBucketId r)) (sint (rBlockId r)) local st)
      in if type = BLOCK_RECORD_FREE then Inr (block BUCKET_FREE)
         else if type = BLOCK_RECORD_ACTIVE then Inr (block BUCKET_ACTIVE)
         else if type = BLOCK_RECORD_USED then Inr (block BUCKET_USED)
         else Inl (Exn GopherwoodException))"

section \<open>Round trip\<close>

text \<open>The blocks a record can hold: 32-bit ids and one of the three states.\<close>

definition block_ok :: "Block \<Rightarrow> bool" where
  "block_ok b \<longleftrightarrow> - (2 ^ 31) \<le> bk_bucketId b \<and> bk_bucketId b < 2 ^ 31 \<and>
     - (2 ^ 31) \<le> bk_blockId b \<and> bk_blockId b < 2 ^ 31 \<and>
     bk_state b \<in> {BUCKET_FREE, BUCKET_ACTIVE, BUCKET_USED}"

lemma length_BlockRecord_bytes [simp]: "length (BlockRecord_bytes r) = sizeof_BlockRecord"
  by (simp add: BlockRecord_bytes_def sizeof_BlockRecord_def)

lemma BlockRecord_cast_bytes: "BlockRecord_cast (BlockRecord_bytes r @ rest) = r"
proof -
  have "le_word (take 2 (BlockRecord_bytes r @ rest)) = rFlags r"
    "le_word (take 2 (drop 2 (BlockRecord_bytes r @ rest))) = rPadding r"
    "le_word (take 4 (drop 4 (BlockRecord_bytes r @ rest))) = rBucketId r"
    "le_word (take 4 (drop 8 (BlockRecord_bytes r @ rest))) = rBlockId r"
    by (simp_all add: BlockRecord_bytes_def le_word_le_bytes_exact)
  then show ?thesis by (simp add: BlockRecord_cast_def)
qed

lemma sint_word_of_int_32:
  "- (2 ^ 31) \<le> x \<Longrightarrow> x < 2 ^ 31 \<Longrightarrow> sint (word_of_int x :: 32 word) = x"
  by (simp add: sint_sbintrunc' signed_take_bit_int_eq_self)

lemma toLogFormat_ok:
  assumes "block_ok b"
  shows "\<exists>r. toLogFormat pad b = Inr (BlockRecord_bytes r) \<and>
    toBlockFormat r = Inr (b\<lparr>bk_usageCount := 0\<rparr>)"
  using assms
  by (auto simp: block_ok_def toLogFormat_def toBlockFormat_def Block_new_def Let_def
      sint_word_of_int_32 BUCKET_FREE_def BUCKET_ACTIVE_def BUCKET_USED_def
      BLOCK_RECORD_REMOTE_def BLOCK_RECORD_TYPE_MASK_def BLOCK_RECORD_FREE_def
      BLOCK_RECORD_ACTIVE_def BLOCK_RECORD_USED_def intro!: exI)

end
