(* ===== verification/GW_SharedMemContext.thy ===== *)
theory GW_SharedMemContext
  imports GW_BlockStatus
begin

text \<open>
  \<^verbatim>\<open>src/core/SharedMemoryContext.cpp\<close>: the operations on the shared memory region. The region is
  the header, the array of buckets and the array of active-status slots; every method of
  the class is one definition here, in the order of the source, run in the
  state-and-exception monad so that the state a \<^verbatim>\<open>THROW\<close> leaves behind is the one the code leaves.
  Logging is left out. An index outside its array is \<open>BadAccess\<close>.
\<close>

record SharedMemoryContext =
  header :: ShareMemHeader
  buckets :: "ShareMemBucket list"
  activeStatus :: "ShareMemActiveStatus list"
  workDir :: string

type_synonym 'a shmM = "(SharedMemoryContext, gw_error, 'a) gw"

section \<open>Access to the arrays\<close>

definition modHeader :: "(ShareMemHeader \<Rightarrow> ShareMemHeader) \<Rightarrow> unit shmM" where
  "modHeader f = modifyE (\<lambda>s. s\<lparr>header := f (header s)\<rparr>)"

definition readBucket :: "int \<Rightarrow> ShareMemBucket shmM" where
  "readBucket i = (\<lambda>s. case idx i (buckets s) of None \<Rightarrow> (Inl BadAccess, s) | Some b \<Rightarrow> (Inr b, s))"

definition writeBucket :: "int \<Rightarrow> ShareMemBucket \<Rightarrow> unit shmM" where
  "writeBucket i b = (\<lambda>s. case idx i (buckets s) of
     None \<Rightarrow> (Inl BadAccess, s) | Some _ \<Rightarrow> (Inr (), s\<lparr>buckets := (buckets s)[nat i := b]\<rparr>))"

definition modBucket :: "int \<Rightarrow> (ShareMemBucket \<Rightarrow> ShareMemBucket) \<Rightarrow> unit shmM" where
  "modBucket i f = bindE (readBucket i) (\<lambda>b. writeBucket i (f b))"

text \<open>A method of a bucket that may throw, and then has changed nothing.\<close>

definition callBucket :: "int \<Rightarrow> (ShareMemBucket \<Rightarrow> gw_error + ShareMemBucket) \<Rightarrow> unit shmM" where
  "callBucket i f = bindE (readBucket i) (\<lambda>b. bindE (pureE (f b)) (writeBucket i))"

definition readStatus :: "int \<Rightarrow> ShareMemActiveStatus shmM" where
  "readStatus i = (\<lambda>s. case idx i (activeStatus s) of None \<Rightarrow> (Inl BadAccess, s) | Some a \<Rightarrow> (Inr a, s))"

definition writeStatus :: "int \<Rightarrow> ShareMemActiveStatus \<Rightarrow> unit shmM" where
  "writeStatus i a = (\<lambda>s. case idx i (activeStatus s) of
     None \<Rightarrow> (Inl BadAccess, s) | Some _ \<Rightarrow> (Inr (), s\<lparr>activeStatus := (activeStatus s)[nat i := a]\<rparr>))"

definition modStatus :: "int \<Rightarrow> (ShareMemActiveStatus \<Rightarrow> ShareMemActiveStatus) \<Rightarrow> unit shmM" where
  "modStatus i f = bindE (readStatus i) (\<lambda>a. writeStatus i (f a))"

text \<open>The \<^verbatim>\<open>for\<close> loops that look for one matching slot and return.\<close>

primrec anyStatus :: "nat list \<Rightarrow> (ShareMemActiveStatus \<Rightarrow> bool) \<Rightarrow> bool shmM" where
  "anyStatus [] p = retE False"
| "anyStatus (i # is) p = bindE (readStatus (int i)) (\<lambda>a. if p a then retE True else anyStatus is p)"

definition mark :: "bool \<Rightarrow> int \<Rightarrow> ShareMemBucket \<Rightarrow> gw_error + ShareMemBucket" where
  "mark isWrite activeId b = (if isWrite then markWrite activeId b else markRead activeId b)"

definition unmark :: "bool \<Rightarrow> int \<Rightarrow> ShareMemBucket \<Rightarrow> gw_error + ShareMemBucket" where
  "unmark isWrite activeId b = (if isWrite then unmarkWrite activeId b else unmarkRead activeId b)"

section \<open>Construction, lock and unlock\<close>

text \<open>What the zero-filled memory of \<^verbatim>\<open>memset\<close> reads as.\<close>

definition zero_status :: ShareMemActiveStatus where
  "zero_status = \<lparr>pid = 0, a_flags = 0, a_fileId = FileId_new, evictFileId = FileId_new,
     a_fileBlockIndex = 0\<rparr>"

definition SharedMemoryContext_new ::
  "Configuration \<Rightarrow> string \<Rightarrow> bool \<Rightarrow> SharedMemoryContext \<Rightarrow> SharedMemoryContext" where
  "SharedMemoryContext_new cfg dir reset region =
     (if reset then
        let h = ShareMemHeader_reset (NUMBER_OF_BLOCKS cfg) (MAX_CONNECTION cfg)
        in \<lparr>header = h,
            buckets = replicate (nat (NUMBER_OF_BLOCKS cfg)) ShareMemBucket_reset,
            activeStatus = map (\<lambda>i. if int i < numMaxActiveStatus h then ShareMemActiveStatus_reset
                                     else zero_status) [0..<nat (MAX_CONNECTION cfg)],
            workDir = dir\<rparr>
      else region\<lparr>workDir := dir\<rparr>)"

definition shm_lock :: "unit shmM" where
  "shm_lock = zoomE header (\<lambda>h s. s\<lparr>header := h\<rparr>) header_enter"

definition shm_unlock :: "unit shmM" where
  "shm_unlock = zoomE header (\<lambda>h s. s\<lparr>header := h\<rparr>) header_exit"

section \<open>Registration\<close>

text \<open>
  \<^verbatim>\<open>registFile\<close>: one pass over all slots that collects \<^verbatim>\<open>shouldDestroy\<close>, marks the other
  openings of the file when the request is a delete, and takes the first free slot.
\<close>

primrec registFile_loop ::
  "int \<Rightarrow> FileId \<Rightarrow> bool \<Rightarrow> nat list \<Rightarrow> int \<Rightarrow> bool \<Rightarrow> (int \<times> bool) shmM" where
  "registFile_loop p fileId isDelete [] activeId destroy = retE (activeId, destroy)"
| "registFile_loop p fileId isDelete (i # is) activeId destroy =
     bindE (readStatus (int i)) (\<lambda>a.
       let same = (a_fileId a = fileId);
           destroy' = (destroy \<or> (same \<and> shouldDestroy a));
           a1 = (if same \<and> isDelete then setShouldDestroy a else a)
       in if activeId = - 1 \<and> pid a1 = InvalidPid
          then let a2 = a1\<lparr>pid := p, a_fileId := fileId, a_fileBlockIndex := InvalidBlockId\<rparr>;
                   a3 = (if isDelete then setForDelete a2 else a2)
               in seqE (writeStatus (int i) a3)
                 (seqE (modHeader (\<lambda>h. h\<lparr>numFileActiveStatus := numFileActiveStatus h + 1\<rparr>))
                 (registFile_loop p fileId isDelete is (int16 (int i)) destroy'))
          else seqE (writeStatus (int i) a1)
                 (registFile_loop p fileId isDelete is activeId destroy'))"

definition registFile :: "int \<Rightarrow> FileId \<Rightarrow> bool \<Rightarrow> bool \<Rightarrow> int shmM" where
  "registFile p fileId isWrite isDelete =
     bindE (getsE (\<lambda>s. numMaxActiveStatus (header s))) (\<lambda>n.
     bindE (registFile_loop p fileId isDelete [0..<nat n] (- 1) isDelete) (\<lambda>(activeId, destroy).
     seqE (whenE (destroy \<and> activeId \<noteq> - 1) (modStatus activeId setShouldDestroy))
     (retE activeId)))"

primrec registAdmin_loop :: "int \<Rightarrow> nat list \<Rightarrow> int shmM" where
  "registAdmin_loop p [] = retE (- 1)"
| "registAdmin_loop p (i # is) =
     bindE (readStatus (int i)) (\<lambda>a.
       if pid a = InvalidPid
       then seqE (writeStatus (int i) (setIsAdmin (a\<lparr>pid := p\<rparr>)))
           (seqE (modHeader (\<lambda>h. h\<lparr>numAdminActiveStatus := numAdminActiveStatus h + 1\<rparr>))
           (retE (int16 (int i))))
       else registAdmin_loop p is)"

definition registAdmin :: "int \<Rightarrow> int shmM" where
  "registAdmin p =
     bindE (getsE (\<lambda>s. numMaxActiveStatus (header s))) (\<lambda>n. registAdmin_loop p [0..<nat n])"

text \<open>
  \<^verbatim>\<open>unregistFile\<close> returns the code and, in place of the out parameter, whether it set
  \<^verbatim>\<open>*shouldDestroy\<close>.
\<close>

definition unregistFile :: "int \<Rightarrow> int \<Rightarrow> (int \<times> bool) shmM" where
  "unregistFile activeId p =
     bindE (getsE (\<lambda>s. numMaxActiveStatus (header s))) (\<lambda>n.
     if activeId < 0 \<or> activeId \<ge> n then retE (- 1, False)
     else bindE (readStatus activeId) (\<lambda>a.
       if pid a = p
       then seqE (writeStatus activeId ShareMemActiveStatus_reset)
           (seqE (modHeader (\<lambda>h. h\<lparr>numFileActiveStatus := numFileActiveStatus h - 1\<rparr>))
           (retE (0, shouldDestroy a)))
       else retE (- 1, False)))"

definition unregistAdmin :: "int \<Rightarrow> int \<Rightarrow> int shmM" where
  "unregistAdmin activeId p =
     bindE (getsE (\<lambda>s. numMaxActiveStatus (header s))) (\<lambda>n.
     if activeId < 0 \<or> activeId \<ge> n then retE (- 1)
     else bindE (readStatus activeId) (\<lambda>a.
       if pid a = p \<and> isAdmin a
       then seqE (writeStatus activeId ShareMemActiveStatus_reset)
           (seqE (modHeader (\<lambda>h. h\<lparr>numAdminActiveStatus := numAdminActiveStatus h - 1\<rparr>))
           (retE 0))
       else retE (- 1)))"

definition isFileOpening :: "Configuration \<Rightarrow> FileId \<Rightarrow> bool shmM" where
  "isFileOpening cfg fileId = anyStatus [0..<nat (MAX_CONNECTION cfg)] (\<lambda>a. a_fileId a = fileId)"

section \<open>Free buckets\<close>

text \<open>
  \<^verbatim>\<open>acquireFreeBucket\<close>: the loop over the buckets, with \<^verbatim>\<open>count\<close> (here \<open>left\<close>) and the result vector; it
  leaves the loop when \<^verbatim>\<open>count\<close> reaches zero after a bucket was taken.
\<close>

primrec acquire_loop ::
  "int \<Rightarrow> FileId \<Rightarrow> bool \<Rightarrow> nat list \<Rightarrow> int \<Rightarrow> int list \<Rightarrow> (int \<times> int list) shmM" where
  "acquire_loop activeId fileId isWrite [] left res = retE (left, res)"
| "acquire_loop activeId fileId isWrite (i # is) left res =
     bindE (readBucket (int i)) (\<lambda>b.
       if isFreeBucket b
       then seqE (modBucket (int i) (\<lambda>b. (setBucketActive b)\<lparr>b_fileId := fileId\<rparr>))
           (seqE (callBucket (int i) (mark isWrite activeId))
           (seqE (modHeader (\<lambda>h. h\<lparr>numFreeBuckets := numFreeBuckets h - 1,
                                    numActiveBuckets := numActiveBuckets h + 1\<rparr>))
           (if left - 1 = 0 then retE (left - 1, res @ [int i])
            else acquire_loop activeId fileId isWrite is (left - 1) (res @ [int i]))))
       else acquire_loop activeId fileId isWrite is left res)"

definition acquireFreeBucket :: "int \<Rightarrow> int \<Rightarrow> FileId \<Rightarrow> bool \<Rightarrow> int list shmM" where
  "acquireFreeBucket activeId num fileId isWrite =
     bindE (getsE (\<lambda>s. numBuckets (header s))) (\<lambda>n.
     bindE (acquire_loop activeId fileId isWrite [0..<nat n] num []) (\<lambda>(left, res).
     if left \<noteq> 0 then THROW GopherwoodSharedMemException else retE res))"

section \<open>Eviction\<close>

text \<open>
  The clock sweep of \<^verbatim>\<open>markBucketEvicting\<close>: the endless \<^verbatim>\<open>for\<close> over the hand, the buckets and
  \<^verbatim>\<open>trycounter\<close>. It stops at a used bucket that is not being evicted and has no usage left,
  or when \<^verbatim>\<open>trycounter\<close> runs out. Result: the outcome, the hand and the buckets it leaves.
\<close>

function sweep :: "int \<Rightarrow> nat \<Rightarrow> int \<Rightarrow> ShareMemBucket list \<Rightarrow>
    (gw_error + int) \<times> int \<times> ShareMemBucket list" where
  "sweep n trycounter hand bs =
     (if \<not> (0 \<le> hand \<and> hand < n \<and> nat hand < length bs) then (Inl BadAccess, hand, bs)
      else
        let b = bs ! nat hand;
            hand' = (if hand + 1 \<ge> n then 0 else hand + 1)
        in if isUsedBucket b \<and> \<not> isEvictingBucket b
           then if usageCount b > 0
                then sweep n (nat n) hand' (bs[nat hand := b\<lparr>usageCount := usageCount b - 1\<rparr>])
                else (Inr hand, hand', bs)
           else if trycounter - 1 = 0 then (Inl (Exn GopherwoodSharedMemException), hand', bs)
           else sweep n (trycounter - 1) hand' bs)"
  by pat_completeness auto
termination
proof (relation "measures [\<lambda>(n, t, h, bs). sum_list (map (\<lambda>b. nat (usageCount b)) bs),
    \<lambda>(n, t, h, bs). t]", goal_cases)
  case (2 n trycounter hand bs b hand')
  let ?u = "\<lambda>b. nat (usageCount b)"
  have i: "nat hand < length bs" using 2 by simp
  have "sum_list (map ?u (bs[nat hand := b\<lparr>usageCount := usageCount b - 1\<rparr>])) =
      sum_list (map ?u (take (nat hand) bs)) + nat (usageCount b - 1)
        + sum_list (map ?u (drop (Suc (nat hand)) bs))"
    using i by (simp add: upd_conv_take_nth_drop)
  moreover have "sum_list (map ?u bs) =
      sum_list (map ?u (take (nat hand) bs)) + nat (usageCount b)
        + sum_list (map ?u (drop (Suc (nat hand)) bs))"
    using arg_cong [OF id_take_nth_drop [OF i], of "\<lambda>xs. sum_list (map ?u xs)"] 2 by simp
  ultimately show ?case using 2 by simp
qed auto

declare sweep.simps [simp del]

definition markBucketEvicting :: "int \<Rightarrow> BlockInfo shmM" where
  "markBucketEvicting activeId = (\<lambda>s.
     case sweep (numBuckets (header s)) (nat (numBuckets (header s))) (nextVictimBucket (header s))
            (buckets s) of
       (r, hand, bs) \<Rightarrow>
         seqE (modifyE (\<lambda>s. s\<lparr>header := (header s)\<lparr>nextVictimBucket := hand\<rparr>, buckets := bs\<rparr>))
        (bindE (pureE r) (\<lambda>bucketId.
         seqE (modBucket bucketId (\<lambda>b. (setBucketEvicting b)\<lparr>evictLoadActiveId := activeId\<rparr>))
        (bindE (readBucket bucketId) (\<lambda>b.
         seqE (modStatus activeId (\<lambda>a. setEvicting
                 (a\<lparr>evictFileId := b_fileId b, a_fileBlockIndex := b_fileBlockIndex b\<rparr>)))
        (seqE (modHeader (\<lambda>h. h\<lparr>numUsedBuckets := numUsedBuckets h - 1,
                                 numEvictingBuckets := numEvictingBuckets h + 1\<rparr>))
        (retE \<lparr>bi_fileId = b_fileId b, bi_blockId = b_fileBlockIndex b, bi_bucketId = bucketId,
               bi_offset = InvalidBlockOffset, bi_dataSize = dataSize b, bi_isLocal = True\<rparr>)))))) s)"

text \<open>The two ways an eviction ends; they differ in what the bucket becomes.\<close>

definition resetEvictInfo :: "int \<Rightarrow> unit shmM" where
  "resetEvictInfo activeId = modStatus activeId (\<lambda>a. unsetEvicting
     (a\<lparr>evictFileId := FileId_reset, a_fileBlockIndex := InvalidBlockId\<rparr>))"

definition evictBucketFinishAndTryAcquire :: "int \<Rightarrow> int \<Rightarrow> FileId \<Rightarrow> bool \<Rightarrow> int shmM" where
  "evictBucketFinishAndTryAcquire bucketId activeId fileId isWrite =
     seqE (resetEvictInfo activeId)
    (bindE (readStatus activeId) (\<lambda>a.
     if isEvictBucketStolen a
     then seqE (modStatus activeId unsetBucketStolen) (retE 2)
     else bindE (readBucket bucketId) (\<lambda>b.
       let rc = (if isDeletedBucket b then 1 else 0)
       in seqE (modBucket bucketId (\<lambda>_. (setBucketActive ShareMemBucket_reset)\<lparr>b_fileId := fileId\<rparr>))
         (seqE (callBucket bucketId (mark isWrite activeId))
         (seqE (modHeader (\<lambda>h. h\<lparr>numEvictingBuckets := numEvictingBuckets h - 1,
                                  numActiveBuckets := numActiveBuckets h + 1\<rparr>))
         (retE rc))))))"

definition evictBucketFinishAndTryFree :: "int \<Rightarrow> int \<Rightarrow> int shmM" where
  "evictBucketFinishAndTryFree bucketId activeId =
     seqE (resetEvictInfo activeId)
    (bindE (readStatus activeId) (\<lambda>a.
     if isEvictBucketStolen a
     then seqE (modStatus activeId unsetBucketStolen) (retE 2)
     else bindE (readBucket bucketId) (\<lambda>b.
       let rc = (if isDeletedBucket b then 1 else 0)
       in seqE (modBucket bucketId (\<lambda>_. setBucketFree ShareMemBucket_reset))
         (seqE (modHeader (\<lambda>h. h\<lparr>numEvictingBuckets := numEvictingBuckets h - 1,
                                  numFreeBuckets := numFreeBuckets h + 1\<rparr>))
         (retE rc)))))"

section \<open>Loading\<close>

definition loadingBlock :: "FileId \<Rightarrow> int \<Rightarrow> ShareMemActiveStatus \<Rightarrow> bool" where
  "loadingBlock fileId blockId a = (isLoading a \<and> a_fileId a = fileId \<and> a_fileBlockIndex a = blockId)"

text \<open>An \<^verbatim>\<open>assert\<close> over a bucket; with \<^verbatim>\<open>NDEBUG\<close> the bucket is not even read.\<close>

definition assertBucket :: "Configuration \<Rightarrow> int \<Rightarrow> (ShareMemBucket \<Rightarrow> bool) \<Rightarrow> unit shmM" where
  "assertBucket cfg bucketId p =
     (if NDEBUG cfg then retE () else bindE (readBucket bucketId) (\<lambda>b. assertE False (p b)))"

definition markBucketLoading :: "Configuration \<Rightarrow> int \<Rightarrow> int \<Rightarrow> int \<Rightarrow> FileId \<Rightarrow> bool shmM" where
  "markBucketLoading cfg bucketId blockId activeId fileId =
     seqE (assertBucket cfg bucketId isActiveBucket)
    (seqE (assertBucket cfg bucketId (\<lambda>b. b_fileId b = fileId))
    (bindE (getsE (\<lambda>s. numMaxActiveStatus (header s))) (\<lambda>n.
     bindE (anyStatus [0..<nat n] (loadingBlock fileId blockId)) (\<lambda>loading.
     if loading then retE False
     else
       seqE (modBucket bucketId (\<lambda>b. (setBucketLoading (b\<lparr>b_fileBlockIndex := blockId\<rparr>))
                                        \<lparr>evictLoadActiveId := activeId\<rparr>))
      (seqE (modStatus activeId (\<lambda>a. setLoading (a\<lparr>a_fileBlockIndex := blockId\<rparr>)))
      (seqE (modHeader (\<lambda>h. h\<lparr>numActiveBuckets := numActiveBuckets h - 1,
                               numLoadingBuckets := numLoadingBuckets h + 1\<rparr>))
      (retE True)))))))"

definition markLoadFinish :: "Configuration \<Rightarrow> int \<Rightarrow> int \<Rightarrow> FileId \<Rightarrow> unit shmM" where
  "markLoadFinish cfg bucketId activeId fileId =
     seqE (assertBucket cfg bucketId isActiveBucket)
    (seqE (assertBucket cfg bucketId isLoadingBucket)
    (seqE (modBucket bucketId setBucketLoadFinish)
    (seqE (modStatus activeId (\<lambda>a. unsetLoading (a\<lparr>a_fileBlockIndex := InvalidBlockId\<rparr>)))
    (modHeader (\<lambda>h. h\<lparr>numLoadingBuckets := numLoadingBuckets h - 1,
                       numActiveBuckets := numActiveBuckets h + 1\<rparr>)))))"

definition shm_isBlockLoading :: "FileId \<Rightarrow> int \<Rightarrow> bool shmM" where
  "shm_isBlockLoading fileId blockId =
     bindE (getsE (\<lambda>s. numMaxActiveStatus (header s))) (\<lambda>n.
     anyStatus [0..<nat n] (loadingBlock fileId blockId))"

section \<open>Release, activate, inactivate\<close>

definition releaseBucket :: "Block \<Rightarrow> unit shmM" where
  "releaseBucket block =
     bindE (readBucket (bk_bucketId block)) (\<lambda>b.
     if isActiveBucket b
     then seqE (modBucket (bk_bucketId block) (\<lambda>_. setBucketFree ShareMemBucket_reset))
         (modHeader (\<lambda>h. h\<lparr>numActiveBuckets := numActiveBuckets h - 1,
                            numFreeBuckets := numFreeBuckets h + 1\<rparr>))
     else THROW GopherwoodSharedMemException)"

definition releaseBuckets :: "Block list \<Rightarrow> unit shmM" where
  "releaseBuckets blocks = forE blocks releaseBucket"

definition activateBucket :: "FileId \<Rightarrow> Block \<Rightarrow> int \<Rightarrow> bool \<Rightarrow> int shmM" where
  "activateBucket fileId block activeId isWrite =
     (let bucketId = bk_bucketId block in
      bindE (readBucket bucketId) (\<lambda>b.
      if b_fileId b \<noteq> fileId \<or> b_fileBlockIndex b \<noteq> bk_blockId block
      then THROW GopherwoodSharedMemException
      else if isUsedBucket b
      then seqE (modBucket bucketId setBucketActive)
          (seqE (callBucket bucketId (mark isWrite activeId))
          (seqE (if isEvictingBucket b
                 then bindE (readStatus (evictLoadActiveId b)) (\<lambda>e.
                      if evictFileId e = b_fileId b \<and> a_fileBlockIndex e = b_fileBlockIndex b
                      then seqE (modStatus (evictLoadActiveId b) setBucketStolen)
                          (modHeader (\<lambda>h. h\<lparr>numEvictingBuckets := numEvictingBuckets h - 1,
                                             numActiveBuckets := numActiveBuckets h + 1\<rparr>))
                      else THROW GopherwoodSharedMemException)
                 else modHeader (\<lambda>h. h\<lparr>numUsedBuckets := numUsedBuckets h - 1,
                                        numActiveBuckets := numActiveBuckets h + 1\<rparr>))
          (retE 1)))
      else if isActiveBucket b
      then seqE (callBucket bucketId (mark isWrite activeId)) (retE 0)
      else THROW GopherwoodSharedMemException))"

definition inactivateBucket :: "FileId \<Rightarrow> int \<Rightarrow> bool \<Rightarrow> Block \<Rightarrow> Block list shmM" where
  "inactivateBucket fileId activeId isWrite blk =
     bindE (readBucket (bk_bucketId blk)) (\<lambda>b.
     if isActiveBucket b
     then seqE (modBucket (bk_bucketId blk) (\<lambda>b. b\<lparr>b_fileId := fileId, b_fileBlockIndex := bk_blockId blk,
                  usageCount := int16 (usageCount b + bk_usageCount blk)\<rparr>))
         (seqE (callBucket (bk_bucketId blk) (unmark isWrite activeId))
         (bindE (readBucket (bk_bucketId blk)) (\<lambda>b'.
          if noActiveReadWrite b'
          then seqE (modBucket (bk_bucketId blk) setBucketUsed)
              (seqE (modHeader (\<lambda>h. h\<lparr>numActiveBuckets := numActiveBuckets h - 1,
                                       numUsedBuckets := numUsedBuckets h + 1\<rparr>))
              (retE [blk\<lparr>bk_state := BUCKET_USED\<rparr>]))
          else retE [])))
     else THROW GopherwoodSharedMemException)"

primrec inactivateBuckets :: "Block list \<Rightarrow> FileId \<Rightarrow> int \<Rightarrow> bool \<Rightarrow> Block list shmM" where
  "inactivateBuckets [] fileId activeId isWrite = retE []"
| "inactivateBuckets (b # bs) fileId activeId isWrite =
     bindE (inactivateBucket fileId activeId isWrite b) (\<lambda>r.
     bindE (inactivateBuckets bs fileId activeId isWrite) (\<lambda>rs. retE (r @ rs)))"

section \<open>File information\<close>

definition updateActiveFileInfo :: "Block list \<Rightarrow> FileId \<Rightarrow> unit shmM" where
  "updateActiveFileInfo blocks fileId = forE blocks (\<lambda>blk.
     bindE (readBucket (bk_bucketId blk)) (\<lambda>b.
     if b_fileId b = fileId
     then modBucket (bk_bucketId blk) (\<lambda>b. b\<lparr>b_fileBlockIndex := bk_blockId blk\<rparr>)
     else THROW GopherwoodSharedMemException))"

definition deleteBlock_shm :: "FileId \<Rightarrow> Block \<Rightarrow> unit shmM" where
  "deleteBlock_shm fileId blk =
     bindE (readBucket (bk_bucketId blk)) (\<lambda>b.
     if isUsedBucket b \<and> b_fileId b = fileId
     then seqE (modBucket (bk_bucketId blk) (\<lambda>_. setBucketFree ShareMemBucket_reset))
         (modHeader (\<lambda>h. h\<lparr>numUsedBuckets := numUsedBuckets h - 1,
                            numFreeBuckets := numFreeBuckets h + 1\<rparr>))
     else if isEvictingBucket b \<and> b_fileId b = fileId
     then modBucket (bk_bucketId blk) setBucketDeleted
     else THROW GopherwoodSharedMemException)"

definition deleteBlocks :: "Block list \<Rightarrow> FileId \<Rightarrow> unit shmM" where
  "deleteBlocks blocks fileId = forE blocks (deleteBlock_shm fileId)"

definition updateBucketDataSize :: "Configuration \<Rightarrow> int \<Rightarrow> int \<Rightarrow> FileId \<Rightarrow> int \<Rightarrow> unit shmM" where
  "updateBucketDataSize cfg bucketId sz fileId activeId =
     (if sz > LOCAL_BUCKET_SIZE cfg \<or> bucketId < 0 \<or> bucketId > NUMBER_OF_BLOCKS cfg
      then THROW GopherwoodSharedMemException
      else bindE (readBucket bucketId) (\<lambda>b.
        if b_fileId b \<noteq> fileId \<or> \<not> isActiveBucket b \<or> \<not> hasActiveId activeId b
        then THROW GopherwoodSharedMemException
        else whenE (dataSize b < sz) (modBucket bucketId (\<lambda>b. b\<lparr>dataSize := sz\<rparr>))))"

definition getBucketDataSize :: "Configuration \<Rightarrow> int \<Rightarrow> FileId \<Rightarrow> int \<Rightarrow> int shmM" where
  "getBucketDataSize cfg bucketId fileId blockId =
     (if bucketId < 0 \<or> bucketId > NUMBER_OF_BLOCKS cfg
      then THROW GopherwoodSharedMemException
      else bindE (readBucket bucketId) (\<lambda>b.
        if b_fileId b \<noteq> fileId \<or> b_fileBlockIndex b \<noteq> blockId
        then THROW GopherwoodSharedMemException
        else retE (dataSize b)))"

definition calcDynamicQuotaNum :: "Configuration \<Rightarrow> 32 word" where
  "calcDynamicQuotaNum cfg = getCurQuotaSize cfg"

section \<open>Getters\<close>

text \<open>The statistics are \<^verbatim>\<open>uint32_t\<close> and the getters return \<^verbatim>\<open>int32_t\<close>.\<close>

definition getFreeBucketNum :: "int shmM" where
  "getFreeBucketNum = getsE (\<lambda>s. sint (numFreeBuckets (header s)))"

definition getActiveBucketNum :: "int shmM" where
  "getActiveBucketNum = getsE (\<lambda>s. sint (numActiveBuckets (header s)))"

definition getUsedBucketNum :: "int shmM" where
  "getUsedBucketNum = getsE (\<lambda>s. sint (numUsedBuckets (header s)))"

definition getEvictingBucketNum :: "int shmM" where
  "getEvictingBucketNum = getsE (\<lambda>s. sint (numEvictingBuckets (header s)))"

definition getLoadingBucketNum :: "int shmM" where
  "getLoadingBucketNum = getsE (\<lambda>s. sint (numLoadingBuckets (header s)))"

definition getFileActiveStatusNum :: "int shmM" where
  "getFileActiveStatusNum = getsE (\<lambda>s. sint (numFileActiveStatus (header s)))"

definition getAdminActiveStatusNum :: "int shmM" where
  "getAdminActiveStatusNum = getsE (\<lambda>s. sint (numAdminActiveStatus (header s)))"

definition getNumMaxActiveStatus :: "int shmM" where
  "getNumMaxActiveStatus = getsE (\<lambda>s. numMaxActiveStatus (header s))"

end
