(* ===== verification/GW_SharedMemInv.thy ===== *)
theory GW_SharedMemInv
  imports GW_SharedMemContext
begin

text \<open>
  The invariant of the shared memory region and its preservation by every operation of
  \<^verbatim>\<open>SharedMemoryContext\<close>: the arrays have the sizes the header states, every bucket is of
  one of the three types, a bucket that is not active carries no activation, and the
  \<^verbatim>\<open>uint32_t\<close> statistics of the header add up to the numbers of buckets of each type.
\<close>

section \<open>Weakest preconditions of the accessors\<close>

lemma wp_modHeader [wp_simps]: "wp (modHeader f) Q E s = Q () (s\<lparr>header := f (header s)\<rparr>)"
  by (simp add: modHeader_def wp_simps)

lemma wp_readBucket [wp_simps]:
  "wp (readBucket i) Q E s = (case idx i (buckets s) of None \<Rightarrow> E BadAccess s | Some b \<Rightarrow> Q b s)"
  by (simp add: wp_def readBucket_def split: option.splits)

lemma wp_writeBucket [wp_simps]:
  "wp (writeBucket i c) Q E s = (case idx i (buckets s) of None \<Rightarrow> E BadAccess s
     | Some b \<Rightarrow> Q () (s\<lparr>buckets := (buckets s)[nat i := c]\<rparr>))"
  by (simp add: wp_def writeBucket_def split: option.splits)

lemma wp_modBucket [wp_simps]:
  "wp (modBucket i f) Q E s = (case idx i (buckets s) of None \<Rightarrow> E BadAccess s
     | Some b \<Rightarrow> Q () (s\<lparr>buckets := (buckets s)[nat i := f b]\<rparr>))"
  by (simp add: modBucket_def wp_simps split: option.splits)

lemma wp_callBucket [wp_simps]:
  "wp (callBucket i f) Q E s = (case idx i (buckets s) of None \<Rightarrow> E BadAccess s
     | Some b \<Rightarrow> (case f b of Inl e \<Rightarrow> E e s
         | Inr c \<Rightarrow> Q () (s\<lparr>buckets := (buckets s)[nat i := c]\<rparr>)))"
  by (simp add: callBucket_def wp_simps split: option.splits sum.splits)

lemma wp_readStatus [wp_simps]:
  "wp (readStatus i) Q E s = (case idx i (activeStatus s) of None \<Rightarrow> E BadAccess s | Some a \<Rightarrow> Q a s)"
  by (simp add: wp_def readStatus_def split: option.splits)

lemma wp_writeStatus [wp_simps]:
  "wp (writeStatus i c) Q E s = (case idx i (activeStatus s) of None \<Rightarrow> E BadAccess s
     | Some b \<Rightarrow> Q () (s\<lparr>activeStatus := (activeStatus s)[nat i := c]\<rparr>))"
  by (simp add: wp_def writeStatus_def split: option.splits)

lemma wp_modStatus [wp_simps]:
  "wp (modStatus i f) Q E s = (case idx i (activeStatus s) of None \<Rightarrow> E BadAccess s
     | Some a \<Rightarrow> Q () (s\<lparr>activeStatus := (activeStatus s)[nat i := f a]\<rparr>))"
  by (simp add: modStatus_def wp_simps split: option.splits)

lemma wp_anyStatus:
  assumes "\<forall>i \<in> set is. i < length (activeStatus s)"
  shows "wp (anyStatus is p) Q E s = Q (\<exists>i \<in> set is. p (activeStatus s ! i)) s"
  using assms by (induction "is") (auto simp: wp_simps)

lemma wp_assertBucket [wp_simps]:
  "wp (assertBucket cfg i p) Q E s =
     (if NDEBUG cfg then Q () s
      else case idx i (buckets s) of None \<Rightarrow> E BadAccess s
        | Some b \<Rightarrow> if p b then Q () s else E AssertAbort s)"
  by (simp add: assertBucket_def wp_simps split: option.splits)

lemma idx_update_same [simp]: "idx i xs = Some x \<Longrightarrow> idx i (xs[nat i := y]) = Some y"
  by (auto simp: idx_def split: if_splits)

lemma idx_update_same_nat [simp]: "idx (int i) xs = Some x \<Longrightarrow> idx (int i) (xs[i := y]) = Some y"
  by (auto simp: idx_def split: if_splits)

lemma idx_nth_update [simp]:
  "idx i xs = Some x \<Longrightarrow> xs[nat i := y] ! nat i = y"
  "idx (int j) xs = Some x \<Longrightarrow> xs[j := y] ! j = y"
  by (auto simp: idx_def split: if_splits)

lemma idx_update_other:
  "idx j xs = Some y \<Longrightarrow> i \<noteq> j \<Longrightarrow> 0 \<le> i \<Longrightarrow> idx j (xs[nat i := x]) = Some y"
  by (auto simp: idx_def nth_list_update split: if_splits)

lemma idx_mem: "idx i xs = Some x \<Longrightarrow> x \<in> set xs"
  by (auto simp: idx_def split: if_splits)

section \<open>The invariant\<close>

definition bucket_ok :: "ShareMemBucket \<Rightarrow> bool" where
  "bucket_ok b \<longleftrightarrow> table_ok b \<and> (isFreeBucket b \<or> isActiveBucket b \<or> isUsedBucket b) \<and>
     (isActiveBucket b \<or> noActiveReadWrite b) \<and>
     (isFreeBucket b \<longrightarrow> \<not> isEvictingBucket b \<and> \<not> isLoadingBucket b \<and> \<not> isDeletedBucket b)"

text \<open>
  The counters of free, of active plus loading, and of used plus evicting buckets. How the sums divide is
  not invariant: an eviction that is given up stays counted as evicting, and a bucket that is left while
  it is loading as loading.
\<close>

definition counters_ok :: "ShareMemHeader \<Rightarrow> ShareMemBucket list \<Rightarrow> bool" where
  "counters_ok h bs \<longleftrightarrow>
     numFreeBuckets h = of_nat (cnt isFreeBucket bs) \<and>
     numActiveBuckets h + numLoadingBuckets h = of_nat (cnt isActiveBucket bs) \<and>
     numUsedBuckets h + numEvictingBuckets h = of_nat (cnt isUsedBucket bs)"

definition sizes_ok :: "SharedMemoryContext \<Rightarrow> bool" where
  "sizes_ok s \<longleftrightarrow>
     0 < numBuckets (header s) \<and> numBuckets (header s) < 2 ^ 31 \<and>
     int (length (buckets s)) = numBuckets (header s) \<and>
     0 \<le> nextVictimBucket (header s) \<and> nextVictimBucket (header s) < numBuckets (header s) \<and>
     int (length (activeStatus s)) = numMaxActiveStatus (header s) \<and>
     numMaxActiveStatus (header s) < 32768"

definition shm_inv :: "SharedMemoryContext \<Rightarrow> bool" where
  "shm_inv s \<longleftrightarrow> sizes_ok s \<and> list_all bucket_ok (buckets s) \<and> counters_ok (header s) (buckets s)"

lemma shm_invD:
  assumes "shm_inv s"
  shows "sizes_ok s" "list_all bucket_ok (buckets s)" "counters_ok (header s) (buckets s)"
    "idx i (buckets s) = Some b \<Longrightarrow> bucket_ok b"
  using assms by (auto simp: shm_inv_def list_all_iff dest: idx_mem)

lemma activeInfos_reset [simp]:
  "activeInfos ShareMemBucket_reset = replicate SMBUCKET_MAX_CONCURRENT_OPEN BucketActiveInfo_reset"
  by (simp add: ShareMemBucket_reset_def)

lemma bucket_ok_reset: "bucket_ok ShareMemBucket_reset" "bucket_ok (setBucketFree ShareMemBucket_reset)"
  by (simp_all add: bucket_ok_def flag_simps table_ok_def noActiveReadWrite_def list_all_iff
      BucketActiveInfo_reset_def)

text \<open>
  The one lemma behind all preservation proofs: a bucket changes from \<open>b\<close> to \<open>b'\<close> and the
  counters move by the difference of their types.
\<close>

lemma shm_inv_step:
  fixes i :: int
  defines "b' t \<equiv> buckets t ! nat i"
  assumes "shm_inv s" and "idx i (buckets s) = Some b"
    and "buckets t = (buckets s)[nat i := b' t]" and "bucket_ok (b' t)"
    and "numFreeBuckets (header t) =
           numFreeBuckets (header s) - of_bool (isFreeBucket b) + of_bool (isFreeBucket (b' t))"
    and "numActiveBuckets (header t) + numLoadingBuckets (header t) =
           numActiveBuckets (header s) + numLoadingBuckets (header s)
             - of_bool (isActiveBucket b) + of_bool (isActiveBucket (b' t))"
    and "numUsedBuckets (header t) + numEvictingBuckets (header t) =
           numUsedBuckets (header s) + numEvictingBuckets (header s)
             - of_bool (isUsedBucket b) + of_bool (isUsedBucket (b' t))"
    and "numBuckets (header t) = numBuckets (header s)"
    and "nextVictimBucket (header t) = nextVictimBucket (header s)"
    and "numMaxActiveStatus (header t) = numMaxActiveStatus (header s)"
    and "length (activeStatus t) = length (activeStatus s)"
  shows "shm_inv t"
proof -
  let ?b = "b' t"
  have i: "nat i < length (buckets s)" "buckets s ! nat i = b"
    using assms(3) by (auto simp: idx_Some_iff)
  have "list_all bucket_ok ((buckets s)[nat i := ?b])"
    using assms(2,5)
    by (auto simp: shm_inv_def list_all_iff dest: set_update_subset_insert [THEN subsetD])
  moreover have "counters_ok (header t) ((buckets s)[nat i := ?b])"
    using assms(2,6-8) i by (simp add: shm_inv_def counters_ok_def cnt_update)
  moreover have "length (buckets t) = length (buckets s)"
    by (subst assms(4)) simp
  ultimately show ?thesis using assms(2,4,9-12) by (simp add: shm_inv_def sizes_ok_def)
qed

text \<open>Changes that no counter depends on.\<close>

lemma shm_inv_frame:
  assumes "shm_inv s" and "buckets t = buckets s"
    and "numFreeBuckets (header t) = numFreeBuckets (header s)"
    and "numActiveBuckets (header t) + numLoadingBuckets (header t) =
           numActiveBuckets (header s) + numLoadingBuckets (header s)"
    and "numUsedBuckets (header t) + numEvictingBuckets (header t) =
           numUsedBuckets (header s) + numEvictingBuckets (header s)"
    and "numBuckets (header t) = numBuckets (header s)"
    and "nextVictimBucket (header t) = nextVictimBucket (header s)"
    and "numMaxActiveStatus (header t) = numMaxActiveStatus (header s)"
    and "length (activeStatus t) = length (activeStatus s)"
  shows "shm_inv t"
  using assms by (simp add: shm_inv_def counters_ok_def sizes_ok_def)

text \<open>Marking an idle bucket always finds room.\<close>

lemma mark_ok:
  assumes "table_ok b" and "valid_activeId a" and "mark w a b = Inr c"
  shows "table_ok c" and "marks c = add_mset a (marks b)" and "b_flags c = b_flags b"
    and "b_fileId c = b_fileId b" and "b_fileBlockIndex c = b_fileBlockIndex b"
    and "evictLoadActiveId c = evictLoadActiveId b" and "dataSize c = dataSize b"
    and "usageCount c = usageCount b"
proof -
  have sz: "size (marks b) < SMBUCKET_MAX_CONCURRENT_OPEN"
    using assms write_table.mark_full [of b a] read_table.mark_full [of b a]
    by (cases w) (auto simp: mark_def not_less [symmetric])
  then show "table_ok c" "marks c = add_mset a (marks b)"
    using assms write_table.mark_room [of b a] read_table.mark_room [of b a]
    by (cases w; auto simp: mark_def)+
  show "b_flags c = b_flags b" "b_fileId c = b_fileId b" "b_fileBlockIndex c = b_fileBlockIndex b"
    "evictLoadActiveId c = evictLoadActiveId b" "dataSize c = dataSize b" "usageCount c = usageCount b"
    using assms(3) by (auto simp: mark_def markWrite_def markRead_def split: if_splits option.splits)
qed

lemma mark_idle:
  assumes "table_ok b" and "noActiveReadWrite b" and "valid_activeId a"
  shows "\<exists>c. mark w a b = Inr c"
proof -
  have "marks b = {#}" using assms(2) by (simp add: marks_empty_iff)
  then have "size (marks b) < SMBUCKET_MAX_CONCURRENT_OPEN"
    by (simp add: SMBUCKET_MAX_CONCURRENT_OPEN_def)
  with assms show ?thesis
    using write_table.mark_room [of b a] read_table.mark_room [of b a] by (auto simp: mark_def)
qed

lemma unmark_ok:
  assumes "unmark w a b = Inr c"
  shows "length (activeInfos c) = length (activeInfos b)" and "b_flags c = b_flags b"
    and "b_fileId c = b_fileId b" and "b_fileBlockIndex c = b_fileBlockIndex b"
    and "evictLoadActiveId c = evictLoadActiveId b" and "dataSize c = dataSize b"
    and "usageCount c = usageCount b"
  using assms
  by (auto simp: unmark_def unmarkWrite_def unmarkRead_def split: if_splits option.splits
      dest!: replace_first_SomeD)

lemma same_flags:
  assumes "b_flags c = b_flags b"
  shows "isFreeBucket c = isFreeBucket b" "isActiveBucket c = isActiveBucket b"
    "isUsedBucket c = isUsedBucket b" "isEvictingBucket c = isEvictingBucket b"
    "isDeletedBucket c = isDeletedBucket b" "isLoadingBucket c = isLoadingBucket b"
  using assms by (simp_all add: bucket_tests)

section \<open>Every operation keeps the invariant\<close>

abbreviation keeps :: "'a shmM \<Rightarrow> SharedMemoryContext \<Rightarrow> bool" where
  "keeps m s \<equiv> wp m (\<lambda>_. shm_inv) (\<lambda>_. shm_inv) s"

lemma bucket_ok_cases:
  assumes "bucket_ok b"
  obtains (free) "isFreeBucket b" "\<not> isActiveBucket b" "\<not> isUsedBucket b" "noActiveReadWrite b" "table_ok b"
    "\<not> isEvictingBucket b" "\<not> isLoadingBucket b" "\<not> isDeletedBucket b"
  | (active) "\<not> isFreeBucket b" "isActiveBucket b" "\<not> isUsedBucket b" "table_ok b"
  | (used) "\<not> isFreeBucket b" "\<not> isActiveBucket b" "isUsedBucket b" "noActiveReadWrite b" "table_ok b"
  using assms by (auto simp: bucket_ok_def type_simps)

lemmas step_simps = type_simps bucket_ok_reset

lemma releaseBucket_keeps: "shm_inv s \<Longrightarrow> keeps (releaseBucket blk) s"
  by (auto simp: releaseBucket_def wp_simps split: option.splits)
    (erule (1) shm_inv_step; simp add: step_simps)

lemma releaseBuckets_keeps: "shm_inv s \<Longrightarrow> keeps (releaseBuckets blks) s"
  unfolding releaseBuckets_def by (rule wp_forE_inv) (auto intro: releaseBucket_keeps)


text \<open>A bucket that becomes active and is marked, and one that is unmarked, stay well formed.\<close>

lemma bucket_ok_active: "table_ok b \<Longrightarrow> isActiveBucket b \<Longrightarrow> bucket_ok b"
  by (auto simp: bucket_ok_def type_simps)

lemma bucket_ok_marked:
  assumes "table_ok b" and "isActiveBucket b" and "valid_activeId a" and "mark w a b = Inr c"
  shows "bucket_ok c" and "isActiveBucket c"
  using mark_ok(1) [OF assms(1,3,4)] same_flags(2) [OF mark_ok(3) [OF assms(1,3,4)]] assms(2)
  by (simp_all add: bucket_ok_active)

lemma table_ok_frame [simp]:
  "table_ok (setBucketActive b) = table_ok b" "table_ok (setBucketUsed b) = table_ok b"
  "table_ok (setBucketFree b) = table_ok b" "table_ok (setBucketEvicting b) = table_ok b"
  "table_ok (setBucketLoading b) = table_ok b" "table_ok (setBucketLoadFinish b) = table_ok b"
  "table_ok (setBucketDeleted b) = table_ok b"
  "table_ok (b\<lparr>b_fileId := f\<rparr>) = table_ok b" "table_ok (b\<lparr>usageCount := u\<rparr>) = table_ok b"
  "table_ok (b\<lparr>b_fileBlockIndex := i\<rparr>) = table_ok b" "table_ok (b\<lparr>dataSize := d\<rparr>) = table_ok b"
  "table_ok (b\<lparr>evictLoadActiveId := e\<rparr>) = table_ok b" "table_ok ShareMemBucket_reset"
  by (simp_all add: table_ok_def)

lemma noActive_frame [simp]:
  "noActiveReadWrite (setBucketActive b) = noActiveReadWrite b"
  "noActiveReadWrite (setBucketUsed b) = noActiveReadWrite b"
  "noActiveReadWrite (setBucketEvicting b) = noActiveReadWrite b"
  "noActiveReadWrite (setBucketLoading b) = noActiveReadWrite b"
  "noActiveReadWrite (setBucketLoadFinish b) = noActiveReadWrite b"
  "noActiveReadWrite (setBucketDeleted b) = noActiveReadWrite b"
  "noActiveReadWrite (b\<lparr>b_fileId := f\<rparr>) = noActiveReadWrite b"
  "noActiveReadWrite (b\<lparr>usageCount := u\<rparr>) = noActiveReadWrite b"
  "noActiveReadWrite (b\<lparr>b_fileBlockIndex := i\<rparr>) = noActiveReadWrite b"
  "noActiveReadWrite (b\<lparr>dataSize := d\<rparr>) = noActiveReadWrite b"
  "noActiveReadWrite (b\<lparr>evictLoadActiveId := e\<rparr>) = noActiveReadWrite b"
  "noActiveReadWrite ShareMemBucket_reset"
  by (simp_all add: noActiveReadWrite_def list_all_iff BucketActiveInfo_reset_def)

text \<open>Taking one free bucket.\<close>

lemma take_free_bucket:
  assumes "shm_inv s" and "idx i (buckets s) = Some b" and "isFreeBucket b" and "valid_activeId a"
  shows "\<exists>c. mark w a ((setBucketActive b)\<lparr>b_fileId := f\<rparr>) = Inr c \<and>
    shm_inv (s\<lparr>buckets := (buckets s)[nat i := c],
      header := (header s)\<lparr>numFreeBuckets := numFreeBuckets (header s) - 1,
                            numActiveBuckets := numActiveBuckets (header s) + 1\<rparr>\<rparr>)"
proof -
  let ?b = "(setBucketActive b)\<lparr>b_fileId := f\<rparr>"
  have "bucket_ok b" using assms(1,2) by (rule shm_invD(4))
  then have b: "table_ok ?b" "noActiveReadWrite ?b" "isActiveBucket ?b"
    using assms(3) by (auto simp: bucket_ok_def type_simps)
  from mark_idle [OF b(1,2) assms(4)] obtain c where c: "mark w a ?b = Inr c" by blast
  have "bucket_ok c" "isActiveBucket c" using bucket_ok_marked [OF b(1,3) assms(4) c] by auto
  with assms(3) have "shm_inv (s\<lparr>buckets := (buckets s)[nat i := c],
      header := (header s)\<lparr>numFreeBuckets := numFreeBuckets (header s) - 1,
                            numActiveBuckets := numActiveBuckets (header s) + 1\<rparr>\<rparr>)"
    using assms(2) by (intro shm_inv_step [OF assms(1,2)]) (simp_all add: type_simps)
  with c show ?thesis by blast
qed

lemma acquire_loop_keeps:
  assumes "valid_activeId a" and "shm_inv s"
  shows "wp (acquire_loop a f w is k res) (\<lambda>_. shm_inv) (\<lambda>_. shm_inv) s"
  using assms(2)
proof (induction "is" arbitrary: s k res)
  case Nil
  then show ?case by (simp add: wp_simps)
next
  case (Cons i "is")
  show ?case
  proof (cases "idx (int i) (buckets s)")
    case None
    with Cons.prems show ?thesis by (simp add: wp_simps)
  next
    case (Some b)
    show ?thesis
    proof (cases "isFreeBucket b")
      case True
      from take_free_bucket [OF Cons.prems Some True assms(1), of w f] obtain c
        where "mark w a ((setBucketActive b)\<lparr>b_fileId := f\<rparr>) = Inr c"
          "shm_inv (s\<lparr>buckets := (buckets s)[nat (int i) := c],
             header := (header s)\<lparr>numFreeBuckets := numFreeBuckets (header s) - 1,
                                   numActiveBuckets := numActiveBuckets (header s) + 1\<rparr>\<rparr>)"
        by blast
      then show ?thesis using Some True Cons.IH by (simp add: wp_simps)
    next
      case False
      with Some Cons show ?thesis by (simp add: wp_simps)
    qed
  qed
qed

lemma acquireFreeBucket_keeps:
  assumes "valid_activeId a" and "shm_inv s"
  shows "keeps (acquireFreeBucket a n f w) s"
  unfolding acquireFreeBucket_def wp_simps
  by (rule wp_mono [OF acquire_loop_keeps [OF assms]]) (auto simp: wp_simps split: prod.splits)


text \<open>Leaving a bucket: the last activation turns it into a used one.\<close>

lemma unmark_table: "unmark w a b = Inr c \<Longrightarrow> table_ok b \<Longrightarrow> table_ok c"
  by (simp add: table_ok_def unmark_ok(1))

lemma inactivateBucket_keeps: "shm_inv s \<Longrightarrow> keeps (inactivateBucket f a w blk) s"
proof -
  assume inv: "shm_inv s"
  let ?upd = "\<lambda>b. b\<lparr>b_fileId := f, b_fileBlockIndex := bk_blockId blk,
    usageCount := int16 (usageCount b + bk_usageCount blk)\<rparr>"
  have upd: "shm_inv (s\<lparr>buckets := (buckets s)[nat (bk_bucketId blk) := c]\<rparr>)"
    if "idx (bk_bucketId blk) (buckets s) = Some b" "isActiveBucket b" "bucket_ok c" "isActiveBucket c" for b c
    using inv that(1) by (rule shm_inv_step) (use that in \<open>simp_all add: type_simps\<close>)
  have used: "shm_inv (s\<lparr>buckets := (buckets s)[nat (bk_bucketId blk) := setBucketUsed c],
      header := (header s)\<lparr>numActiveBuckets := numActiveBuckets (header s) - 1,
                            numUsedBuckets := numUsedBuckets (header s) + 1\<rparr>\<rparr>)"
    if "idx (bk_bucketId blk) (buckets s) = Some b" "isActiveBucket b" "table_ok c" "noActiveReadWrite c" for b c
    using inv that(1)
    by (rule shm_inv_step) (use that in \<open>simp_all add: type_simps bucket_ok_def\<close>)
  show ?thesis
  proof (cases "idx (bk_bucketId blk) (buckets s)")
    case None
    with inv show ?thesis by (simp add: inactivateBucket_def wp_simps)
  next
    case (Some b)
    then have "table_ok b" using shm_invD(4) [OF inv] by (simp add: bucket_ok_def)
    show ?thesis
    proof (cases "isActiveBucket b")
      case False
      with Some inv show ?thesis by (simp add: inactivateBucket_def wp_simps)
    next
      case True
      have b1: "table_ok (?upd b)" "isActiveBucket (?upd b)"
        using \<open>table_ok b\<close> True by (simp_all add: type_simps)
      show ?thesis
      proof (cases "unmark w a (?upd b)")
        case (Inl e)
        with Some True b1 upd [OF Some True, of "?upd b"] bucket_ok_active [OF b1] show ?thesis
          by (simp add: inactivateBucket_def wp_simps)
      next
        case (Inr c)
        have c: "table_ok c" "isActiveBucket c"
          using unmark_table [OF Inr b1(1)] same_flags(2) [OF unmark_ok(2) [OF Inr]] b1(2) by simp_all
        with Inr Some True upd [OF Some True, of c] used [OF Some True, of c] bucket_ok_active [OF c]
        show ?thesis by (simp add: inactivateBucket_def wp_simps)
      qed
    qed
  qed
qed

lemma inactivateBuckets_keeps: "shm_inv s \<Longrightarrow> keeps (inactivateBuckets blks f a w) s"
proof (induction blks arbitrary: s)
  case Nil
  then show ?case by (simp add: wp_simps)
next
  case (Cons b bs)
  have "keeps (inactivateBucket f a w b) s" using Cons.prems by (rule inactivateBucket_keeps)
  then show ?case
    unfolding inactivateBuckets.simps wp_simps
    by (rule wp_mono) (rule wp_mono [OF Cons.IH], simp_all)
qed

text \<open>
  Activating a used bucket. A bucket that is being evicted is taken back from its evictor,
  which the code finds through \<^verbatim>\<open>evictLoadActiveId\<close>; \<open>evictor_known\<close> says that it is there.
\<close>

definition evictor_known :: "SharedMemoryContext \<Rightarrow> ShareMemBucket \<Rightarrow> bool" where
  "evictor_known s b \<longleftrightarrow> (\<exists>e. idx (evictLoadActiveId b) (activeStatus s) = Some e \<and>
     evictFileId e = b_fileId b \<and> a_fileBlockIndex e = b_fileBlockIndex b)"

lemma activateBucket_keeps:
  assumes inv: "shm_inv s" and a: "valid_activeId a"
    and known: "\<And>b. idx (bk_bucketId blk) (buckets s) = Some b \<Longrightarrow> isUsedBucket b \<Longrightarrow>
      isEvictingBucket b \<Longrightarrow> evictor_known s b"
  shows "keeps (activateBucket f blk a w) s"
proof (cases "idx (bk_bucketId blk) (buckets s)")
  case None
  with inv show ?thesis by (simp add: activateBucket_def Let_def wp_simps)
next
  case (Some b)
  have ok: "bucket_ok b" using inv Some by (rule shm_invD(4))
  then have tab: "table_ok b" by (simp add: bucket_ok_def)
  have step: "shm_inv t"
    if "bucket_ok c" "isActiveBucket c" "buckets t = (buckets s)[nat (bk_bucketId blk) := c]"
      "numFreeBuckets (header t) = numFreeBuckets (header s)"
      "numActiveBuckets (header t) + numLoadingBuckets (header t) =
         numActiveBuckets (header s) + numLoadingBuckets (header s) + of_bool (isUsedBucket b)"
      "numUsedBuckets (header t) + numEvictingBuckets (header t) =
         numUsedBuckets (header s) + numEvictingBuckets (header s) - of_bool (isUsedBucket b)"
      "numBuckets (header t) = numBuckets (header s)"
      "nextVictimBucket (header t) = nextVictimBucket (header s)"
      "numMaxActiveStatus (header t) = numMaxActiveStatus (header s)"
      "length (activeStatus t) = length (activeStatus s)" "\<not> isFreeBucket b" for c t
    using inv Some by (rule shm_inv_step) (use that Some ok in \<open>auto elim!: bucket_ok_cases simp: type_simps\<close>)
  consider "b_fileId b \<noteq> f \<or> b_fileBlockIndex b \<noteq> bk_blockId blk \<or> isFreeBucket b"
    | (used) "b_fileId b = f" "b_fileBlockIndex b = bk_blockId blk" "isUsedBucket b"
    | (active) "b_fileId b = f" "b_fileBlockIndex b = bk_blockId blk" "isActiveBucket b"
    using ok by (auto simp: bucket_ok_def)
  then show ?thesis
  proof cases
    case 1
    with Some inv show ?thesis by (auto simp: activateBucket_def Let_def wp_simps type_simps)
  next
    case used
    let ?b = "setBucketActive b"
    have idle: "noActiveReadWrite ?b" using ok used by (auto simp: bucket_ok_def type_simps)
    then obtain c where c: "mark w a ?b = Inr c"
      using mark_idle [of ?b a w] tab a by auto
    note okc = bucket_ok_marked [OF _ _ a c]
    have c': "bucket_ok c" "isActiveBucket c"
      using okc tab by (simp_all add: type_simps)
    show ?thesis
    proof (cases "isEvictingBucket b")
      case False
      with Some used c c' show ?thesis
        by (auto simp: activateBucket_def Let_def wp_simps type_simps intro!: step [of c])
    next
      case True
      from known [OF Some used(3) this] obtain e where
        "idx (evictLoadActiveId b) (activeStatus s) = Some e" "evictFileId e = b_fileId b"
        "a_fileBlockIndex e = b_fileBlockIndex b" by (auto simp: evictor_known_def)
      with True Some used c c' show ?thesis
        by (auto simp: activateBucket_def Let_def wp_simps type_simps intro!: step [of c])
    qed
  next
    case active
    show ?thesis
    proof (cases "mark w a b")
      case (Inl e)
      with Some active inv show ?thesis by (simp add: activateBucket_def Let_def wp_simps type_simps)
    next
      case (Inr c)
      with bucket_ok_marked [OF tab active(3) a Inr] Some active show ?thesis
        by (auto simp: activateBucket_def Let_def wp_simps type_simps intro!: step [of c])
    qed
  qed
qed

end
