(* ===== verification/GW_SharedMemEvict.thy ===== *)
theory GW_SharedMemEvict
  imports GW_SharedMemInv
begin

text \<open>
  Eviction. The clock sweep of \<^verbatim>\<open>markBucketEvicting\<close> is characterised completely: it ends, it changes
  usage counts only, it finds a victim exactly when there is one, and the victim is a used
  bucket that nobody else evicts and whose usage count is exhausted. On top of it, the
  operations that start and end an eviction or a load keep the invariant.
\<close>

section \<open>The clock sweep\<close>

definition evictable :: "ShareMemBucket \<Rightarrow> bool" where
  "evictable b \<longleftrightarrow> isUsedBucket b \<and> \<not> isEvictingBucket b"

abbreviation strip :: "ShareMemBucket \<Rightarrow> ShareMemBucket" where
  "strip b \<equiv> b\<lparr>usageCount := 0\<rparr>"

lemma evictable_strip [simp]: "evictable (b\<lparr>usageCount := u\<rparr>) = evictable b"
  by (simp add: evictable_def flag_simps)

lemma map_strip_update:
  "i < length bs \<Longrightarrow> map strip (bs[i := (bs ! i)\<lparr>usageCount := u\<rparr>]) = map strip bs"
  by (simp add: map_update list_update_same_conv)

lemma next_hand:
  assumes "0 \<le> (hand :: int)" and "hand < n"
  shows "(if hand + 1 \<ge> n then 0 else hand + 1) = (hand + 1) mod n"
proof (cases "hand + 1 \<ge> n")
  case True
  with assms have "hand + 1 = n" by simp
  then show ?thesis by simp
next
  case False
  with assms show ?thesis by simp
qed

text \<open>One unfolding of the loop for a hand inside the array.\<close>

lemma sweep_step:
  assumes "int (length bs) = n" and "0 \<le> hand" and "hand < n"
  shows "sweep n t hand bs =
    (let b = bs ! nat hand; hand' = (hand + 1) mod n in
     if evictable b
     then if usageCount b > 0 then sweep n (nat n) hand' (bs[nat hand := b\<lparr>usageCount := usageCount b - 1\<rparr>])
          else (Inr hand, hand', bs)
     else if t - 1 = 0 then (Inl (Exn GopherwoodSharedMemException), hand', bs)
     else sweep n (t - 1) hand' bs)"
proof -
  have "nat hand < length bs" using assms by simp
  then show ?thesis
    using assms(2,3) by (subst sweep.simps) (simp add: Let_def evictable_def next_hand)
qed

definition sweep_spec :: "int \<Rightarrow> ShareMemBucket list \<Rightarrow>
    (gw_error + int) \<times> int \<times> ShareMemBucket list \<Rightarrow> bool" where
  "sweep_spec n bs res = (case res of (r, hand', bs') \<Rightarrow>
     0 \<le> hand' \<and> hand' < n \<and> map strip bs' = map strip bs \<and>
     (case r of Inl e \<Rightarrow> e = Exn GopherwoodSharedMemException
      | Inr i \<Rightarrow> 0 \<le> i \<and> i < n \<and> hand' = (i + 1) mod n \<and>
          evictable (bs' ! nat i) \<and> usageCount (bs' ! nat i) \<le> 0))"

lemma sweep_correct:
  assumes "int (length bs) = n" and "0 \<le> hand" and "hand < n"
  shows "sweep_spec n bs (sweep n t hand bs)"
  using assms
proof (induction n t hand bs rule: sweep.induct)
  case (1 n t hand bs)
  have inb: "nat hand < length bs" and h': "0 \<le> (hand + 1) mod n" "(hand + 1) mod n < n"
    and eq: "(if hand + 1 \<ge> n then 0 else hand + 1) = (hand + 1) mod n"
    using "1.prems" next_hand by auto
  let ?b = "bs ! nat hand"
  show ?case
  proof (cases "evictable ?b")
    case True
    show ?thesis
    proof (cases "usageCount ?b > 0")
      case pos: True
      let ?bs = "bs[nat hand := ?b\<lparr>usageCount := usageCount ?b - 1\<rparr>]"
      have "sweep_spec n ?bs (sweep n (nat n) ((hand + 1) mod n) ?bs)"
        using "1.IH"(1) [OF _ refl refl] True pos "1.prems" h' inb unfolding eq
        by (simp add: evictable_def)
      then have "sweep_spec n bs (sweep n (nat n) ((hand + 1) mod n) ?bs)"
        using map_strip_update [OF inb] by (simp add: sweep_spec_def)
      with True pos show ?thesis by (simp add: sweep_step [OF "1.prems"] Let_def)
    next
      case False
      with True "1.prems" h' show ?thesis
        by (simp add: sweep_step [OF "1.prems"] Let_def sweep_spec_def)
    qed
  next
    case False
    show ?thesis
    proof (cases "t - 1 = 0")
      case True
      with False h' show ?thesis
        by (simp add: sweep_step [OF "1.prems"] Let_def sweep_spec_def)
    next
      case more: False
      have "sweep_spec n bs (sweep n (t - 1) ((hand + 1) mod n) bs)"
        using "1.IH"(2) [OF _ refl refl] False more "1.prems" h' inb unfolding eq
        by (auto simp: evictable_def)
      with False more show ?thesis by (simp add: sweep_step [OF "1.prems"] Let_def)
    qed
  qed
qed

text \<open>
  The sweep finds a victim if one is within reach of \<^verbatim>\<open>trycounter\<close>; from a fresh start every
  bucket is within reach.
\<close>

definition within :: "int \<Rightarrow> nat \<Rightarrow> int \<Rightarrow> ShareMemBucket list \<Rightarrow> bool" where
  "within n t hand bs \<longleftrightarrow> (\<exists>k < t. evictable (bs ! nat ((hand + int k) mod n)))"

lemma within_all:
  assumes "int (length bs) = n" and "0 \<le> hand" and "hand < n" and "list_ex evictable bs"
  shows "within n (nat n) hand bs"
proof -
  from assms(4) obtain i where i: "i < length bs" "evictable (bs ! i)"
    by (auto simp: list_ex_length)
  let ?k = "nat ((int i - hand) mod n)"
  have n: "0 < n" using assms by simp
  have "?k < nat n" using n by simp
  moreover have "(hand + int ?k) mod n = int i"
    using n i(1) assms(1) by (simp add: mod_add_right_eq)
  ultimately show ?thesis unfolding within_def using i by (intro exI [of _ ?k]) simp
qed

lemma within_next:
  assumes "within n t hand bs" and "0 \<le> hand" and "hand < n" and "\<not> evictable (bs ! nat hand)"
  shows "within n (t - 1) ((hand + 1) mod n) bs"
proof -
  from assms(1) obtain k where k: "k < t" "evictable (bs ! nat ((hand + int k) mod n))"
    by (auto simp: within_def)
  have "k \<noteq> 0"
  proof
    assume "k = 0"
    with k assms show False by simp
  qed
  then obtain j where j: "k = Suc j" by (cases k) auto
  then have "((hand + 1) mod n + int j) mod n = (hand + int k) mod n"
    using mod_add_left_eq [of "hand + 1" n "int j"] by (simp add: ac_simps)
  with k j show ?thesis unfolding within_def by (intro exI [of _ j]) auto
qed

lemma sweep_finds:
  assumes "int (length bs) = n" and "0 \<le> hand" and "hand < n" and "within n t hand bs"
  shows "\<exists>i hand' bs'. sweep n t hand bs = (Inr i, hand', bs')"
  using assms
proof (induction n t hand bs rule: sweep.induct)
  case (1 n t hand bs)
  have inb: "nat hand < length bs" and h': "0 \<le> (hand + 1) mod n" "(hand + 1) mod n < n"
    and eq: "(if hand + 1 \<ge> n then 0 else hand + 1) = (hand + 1) mod n"
    using "1.prems" next_hand by auto
  let ?b = "bs ! nat hand"
  show ?case
  proof (cases "evictable ?b")
    case True
    let ?bs = "bs[nat hand := ?b\<lparr>usageCount := usageCount ?b - 1\<rparr>]"
    have len: "int (length ?bs) = n" using "1.prems" by simp
    have "list_ex evictable ?bs"
      using True inb by (auto simp: list_ex_length intro!: exI [of _ "nat hand"])
    then have "within n (nat n) ((hand + 1) mod n) ?bs"
      by (rule within_all [OF len h'])
    then show ?thesis
      using "1.IH"(1) [OF _ refl refl] True "1.prems" h' inb unfolding eq
      by (cases "usageCount ?b > 0")
        (simp_all add: sweep_step [OF "1.prems"(1-3)] Let_def evictable_def)
  next
    case False
    have w: "within n (t - 1) ((hand + 1) mod n) bs"
      using "1.prems" False by (intro within_next)
    then have "t - 1 \<noteq> 0" by (auto simp: within_def)
    with w show ?thesis
      using "1.IH"(2) [OF _ refl refl] False "1.prems" h' inb unfolding eq
      by (auto simp: sweep_step [OF "1.prems"(1-3)] Let_def evictable_def)
  qed
qed

lemma map_strip_nth:
  assumes "map strip xs = map strip ys" and "i < length xs"
  shows "strip (xs ! i) = strip (ys ! i)"
  by (metis assms length_map nth_map)

lemma strip_eqD:
  assumes "strip a = strip b"
  shows "btype a = btype b" "evictable a = evictable b" "isEvictingBucket a = isEvictingBucket b"
    "b_fileId a = b_fileId b" "b_fileBlockIndex a = b_fileBlockIndex b" "dataSize a = dataSize b"
    "activeInfos a = activeInfos b" "b_flags a = b_flags b" "bucket_ok a = bucket_ok b"
proof -
  have "a = b\<lparr>usageCount := usageCount a\<rparr>"
    using arg_cong [OF assms, of "\<lambda>x. x\<lparr>usageCount := usageCount a\<rparr>"] by simp
  then obtain u where a: "a = b\<lparr>usageCount := u\<rparr>" by blast
  show "btype a = btype b" "evictable a = evictable b" "isEvictingBucket a = isEvictingBucket b"
    "b_fileId a = b_fileId b" "b_fileBlockIndex a = b_fileBlockIndex b" "dataSize a = dataSize b"
    "activeInfos a = activeInfos b" "b_flags a = b_flags b" "bucket_ok a = bucket_ok b"
    unfolding a by (simp_all add: type_simps flag_simps bucket_ok_def isDeletedBucket_def)
qed

lemma sweep_none:
  assumes "int (length bs) = n" and "0 \<le> hand" and "hand < n" and "\<not> list_ex evictable bs"
  shows "fst (sweep n t hand bs) = Inl (Exn GopherwoodSharedMemException)"
proof -
  obtain r hand' bs' where s: "sweep n t hand bs = (r, hand', bs')" by (cases "sweep n t hand bs") auto
  have spec: "sweep_spec n bs (r, hand', bs')" using sweep_correct [OF assms(1-3)] s by metis
  show ?thesis
  proof (cases r)
    case (Inr i)
    with spec have i: "0 \<le> i" "i < n" "evictable (bs' ! nat i)" "map strip bs' = map strip bs"
      by (auto simp: sweep_spec_def)
    then have "length bs' = length bs" by (metis length_map)
    with i(1,2) assms(1) have "nat i < length bs'" "nat i < length bs" by simp_all
    moreover from this(1) have "evictable (bs ! nat i)"
      using strip_eqD(2) [OF map_strip_nth [OF i(4)]] i(3) by blast
    ultimately show ?thesis using assms(4) by (auto simp: list_ex_length)
  next
    case (Inl e)
    with spec s show ?thesis by (simp add: sweep_spec_def)
  qed
qed

section \<open>Starting an eviction\<close>

lemma cnt_strip:
  assumes "map strip xs = map strip ys" and "\<And>a b. strip a = strip b \<Longrightarrow> P a = P b"
  shows "cnt P xs = cnt P ys"
  using assms(1)
proof (induction xs arbitrary: ys)
  case (Cons x xs)
  then obtain y ys' where "ys = y # ys'" "strip x = strip y" "map strip xs = map strip ys'"
    by (cases ys) auto
  with Cons.IH [of ys'] assms(2) [of x y] show ?case by simp
qed simp

lemma shm_inv_strip:
  assumes "shm_inv s" and "map strip bs = map strip (buckets s)"
    and "0 \<le> hand" and "hand < numBuckets (header s)"
  shows "shm_inv (s\<lparr>header := (header s)\<lparr>nextVictimBucket := hand\<rparr>, buckets := bs\<rparr>)"
proof -
  have len: "length bs = length (buckets s)" using assms(2) by (metis length_map)
  have "bucket_ok (bs ! i)" if "i < length bs" for i
    using strip_eqD(9) [OF map_strip_nth [OF assms(2) that]] that len assms(1)
    by (auto simp: shm_inv_def list_all_length)
  moreover have "cnt isFreeBucket bs = cnt isFreeBucket (buckets s)"
    "cnt isActiveBucket bs = cnt isActiveBucket (buckets s)"
    "cnt isUsedBucket bs = cnt isUsedBucket (buckets s)"
    by (rule cnt_strip [OF assms(2)], drule strip_eqD(1), simp add: type_simps)+
  ultimately show ?thesis
    using assms len by (simp add: shm_inv_def sizes_ok_def counters_ok_def list_all_length)
qed

text \<open>What \<^verbatim>\<open>markBucketEvicting\<close> does, by the outcome of the sweep.\<close>

lemma shm_inv_sweep:
  assumes "shm_inv s"
  shows "sweep_spec (numBuckets (header s)) (buckets s)
    (sweep (numBuckets (header s)) t (nextVictimBucket (header s)) (buckets s))"
  using assms by (intro sweep_correct) (auto simp: shm_inv_def sizes_ok_def)

lemma bucket_ok_evicting:
  "bucket_ok b \<Longrightarrow> isUsedBucket b \<Longrightarrow> bucket_ok ((setBucketEvicting b)\<lparr>evictLoadActiveId := a\<rparr>)"
  by (auto simp: bucket_ok_def type_simps)

definition evict_mark :: "int \<Rightarrow> ShareMemBucket \<Rightarrow> ShareMemBucket" where
  "evict_mark a b = (setBucketEvicting b)\<lparr>evictLoadActiveId := a\<rparr>"

definition evict_note :: "ShareMemBucket \<Rightarrow> ShareMemActiveStatus \<Rightarrow> ShareMemActiveStatus" where
  "evict_note b e = setEvicting (e\<lparr>evictFileId := b_fileId b, a_fileBlockIndex := b_fileBlockIndex b\<rparr>)"

lemma markBucketEvicting_wp:
  assumes inv: "shm_inv s" and a: "idx a (activeStatus s) = Some e"
    and none: "\<And>t. shm_inv t \<Longrightarrow> map strip (buckets t) = map strip (buckets s) \<Longrightarrow>
      activeStatus t = activeStatus s \<Longrightarrow> \<not> list_ex evictable (buckets s) \<Longrightarrow>
      E (Exn GopherwoodSharedMemException) t"
    and found: "\<And>i hand bs b t. \<lbrakk> sweep (numBuckets (header s)) (nat (numBuckets (header s)))
        (nextVictimBucket (header s)) (buckets s) = (Inr i, hand, bs);
      map strip bs = map strip (buckets s); idx i bs = Some b; bucket_ok b; evictable b; usageCount b \<le> 0;
      t = s\<lparr>buckets := bs[nat i := evict_mark a b],
            activeStatus := (activeStatus s)[nat a := evict_note b e],
            header := (header s)\<lparr>nextVictimBucket := hand,
               numUsedBuckets := numUsedBuckets (header s) - 1,
               numEvictingBuckets := numEvictingBuckets (header s) + 1\<rparr>\<rparr>; shm_inv t \<rbrakk> \<Longrightarrow>
      Q \<lparr>bi_fileId = b_fileId b, bi_blockId = b_fileBlockIndex b, bi_bucketId = i,
         bi_offset = InvalidBlockOffset, bi_dataSize = dataSize b, bi_isLocal = True\<rparr> t"
  shows "wp (markBucketEvicting a) Q E s"
proof -
  let ?n = "numBuckets (header s)"
  obtain r hand bs where sw: "sweep ?n (nat ?n) (nextVictimBucket (header s)) (buckets s) = (r, hand, bs)"
    by (cases "sweep ?n (nat ?n) (nextVictimBucket (header s)) (buckets s)") auto
  have sz: "int (length (buckets s)) = ?n" "0 \<le> nextVictimBucket (header s)" "nextVictimBucket (header s) < ?n"
    using inv by (auto simp: shm_inv_def sizes_ok_def)
  from shm_inv_sweep [OF inv, of "nat ?n"] sw
  have spec: "sweep_spec ?n (buckets s) (r, hand, bs)" by simp
  then have str: "map strip bs = map strip (buckets s)" and hand: "0 \<le> hand" "hand < ?n"
    by (auto simp: sweep_spec_def)
  let ?s1 = "s\<lparr>header := (header s)\<lparr>nextVictimBucket := hand\<rparr>, buckets := bs\<rparr>"
  have inv1: "shm_inv ?s1" using inv str hand by (rule shm_inv_strip)
  show ?thesis
  proof (cases r)
    case (Inl x)
    then have "\<not> list_ex evictable (buckets s)"
      using sweep_finds [OF sz within_all [OF sz]] sw by auto
    with none [OF inv1] str spec Inl show ?thesis
      by (simp add: markBucketEvicting_def wp_def run_simps sw sweep_spec_def)
  next
    case (Inr i)
    have "length bs = length (buckets s)" using str by (metis length_map)
    with spec Inr sz have i: "idx i bs = Some (bs ! nat i)" "evictable (bs ! nat i)"
      "usageCount (bs ! nat i) \<le> 0"
      by (auto simp: sweep_spec_def idx_Some_iff)
    let ?b = "bs ! nat i"
    have b: "bucket_ok ?b" using shm_invD(4) [OF inv1, of i ?b] i by simp
    let ?t = "s\<lparr>buckets := bs[nat i := evict_mark a ?b],
            activeStatus := (activeStatus s)[nat a := evict_note ?b e],
            header := (header s)\<lparr>nextVictimBucket := hand,
               numUsedBuckets := numUsedBuckets (header s) - 1,
               numEvictingBuckets := numEvictingBuckets (header s) + 1\<rparr>\<rparr>"
    have "shm_inv ?t"
      by (rule shm_inv_step [OF inv1, of i ?b])
        (use i b bucket_ok_evicting [of ?b a] in
          \<open>simp_all add: evict_mark_def evictable_def type_simps\<close>)
    with found [OF _ str i(1) b i(2,3)] sw Inr i(1) a
    have "Q \<lparr>bi_fileId = b_fileId ?b, bi_blockId = b_fileBlockIndex ?b, bi_bucketId = i,
         bi_offset = InvalidBlockOffset, bi_dataSize = dataSize ?b, bi_isLocal = True\<rparr> ?t"
      by blast
    then have "wp (seqE (modBucket i (\<lambda>b. (setBucketEvicting b)\<lparr>evictLoadActiveId := a\<rparr>))
        (bindE (readBucket i) (\<lambda>b.
         seqE (modStatus a (\<lambda>a. setEvicting
                 (a\<lparr>evictFileId := b_fileId b, a_fileBlockIndex := b_fileBlockIndex b\<rparr>)))
        (seqE (modHeader (\<lambda>h. h\<lparr>numUsedBuckets := numUsedBuckets h - 1,
                                 numEvictingBuckets := numEvictingBuckets h + 1\<rparr>))
        (retE \<lparr>bi_fileId = b_fileId b, bi_blockId = b_fileBlockIndex b, bi_bucketId = i,
               bi_offset = InvalidBlockOffset, bi_dataSize = dataSize b, bi_isLocal = True\<rparr>))))) Q E ?s1"
      using i(1) a by (simp add: wp_simps evict_mark_def evict_note_def)
    then show ?thesis
      using sw Inr by (simp add: markBucketEvicting_def wp_def run_simps)
  qed
qed

lemma markBucketEvicting_keeps:
  "shm_inv s \<Longrightarrow> idx a (activeStatus s) = Some e \<Longrightarrow> keeps (markBucketEvicting a) s"
  by (erule (1) markBucketEvicting_wp)

section \<open>Ending an eviction\<close>

text \<open>
  The evictor finds that its bucket was taken back (its slot says so), or the bucket is still
  the used one it marked.
\<close>

definition may_finish :: "int \<Rightarrow> int \<Rightarrow> SharedMemoryContext \<Rightarrow> bool" where
  "may_finish i a s \<longleftrightarrow> (\<forall>e b. idx a (activeStatus s) = Some e \<longrightarrow> idx i (buckets s) = Some b \<longrightarrow>
     isEvictBucketStolen e \<or> isUsedBucket b)"

lemma evictBucketFinishAndTryAcquire_keeps:
  assumes inv: "shm_inv s" and a: "valid_activeId a" and fin: "may_finish i a s"
  shows "keeps (evictBucketFinishAndTryAcquire i a f w) s"
proof -
  let ?r = "(setBucketActive ShareMemBucket_reset)\<lparr>b_fileId := f\<rparr>"
  have r: "table_ok ?r" "noActiveReadWrite ?r" "isActiveBucket ?r" by (simp_all add: type_simps)
  then obtain c where c: "mark w a ?r = Inr c" using mark_idle [OF r(1,2) a] by blast
  note okc = bucket_ok_marked [OF r(1,3) a c]
  have stat: "shm_inv (s\<lparr>activeStatus := (activeStatus s)[k := x]\<rparr>)"
    "shm_inv (s\<lparr>activeStatus := (activeStatus s)[k := x, k' := y]\<rparr>)" for k k' x y
    by (rule shm_inv_frame [OF inv]; simp)+
  have step: "shm_inv (s\<lparr>activeStatus := (activeStatus s)[k := x], buckets := (buckets s)[nat i := c],
      header := (header s)\<lparr>numEvictingBuckets := numEvictingBuckets (header s) - 1,
                            numActiveBuckets := numActiveBuckets (header s) + 1\<rparr>\<rparr>)"
    if "idx i (buckets s) = Some b" "isUsedBucket b" for b k x
    using inv that(1) by (rule shm_inv_step) (use that okc in \<open>simp_all add: type_simps\<close>)
  show ?thesis
    using fin inv stat step c
    by (auto simp: evictBucketFinishAndTryAcquire_def resetEvictInfo_def may_finish_def Let_def wp_simps
        flag_simps split: option.splits)
qed

lemma evictBucketFinishAndTryFree_keeps:
  assumes inv: "shm_inv s" and fin: "may_finish i a s"
  shows "keeps (evictBucketFinishAndTryFree i a) s"
proof -
  have stat: "shm_inv (s\<lparr>activeStatus := (activeStatus s)[k := x]\<rparr>)"
    "shm_inv (s\<lparr>activeStatus := (activeStatus s)[k := x, k' := y]\<rparr>)" for k k' x y
    by (rule shm_inv_frame [OF inv]; simp)+
  have step: "shm_inv (s\<lparr>activeStatus := (activeStatus s)[k := x],
      buckets := (buckets s)[nat i := setBucketFree ShareMemBucket_reset],
      header := (header s)\<lparr>numEvictingBuckets := numEvictingBuckets (header s) - 1,
                            numFreeBuckets := numFreeBuckets (header s) + 1\<rparr>\<rparr>)"
    if "idx i (buckets s) = Some b" "isUsedBucket b" for b k x
    using inv that(1) by (rule shm_inv_step) (use that in \<open>simp_all add: step_simps\<close>)
  show ?thesis
    using fin inv stat step
    by (auto simp: evictBucketFinishAndTryFree_def resetEvictInfo_def may_finish_def Let_def wp_simps
        flag_simps split: option.splits)
qed

section \<open>Loading, deleting and the other operations\<close>

lemma shm_inv_same_type:
  assumes "shm_inv s" and "idx i (buckets s) = Some b" and "btype c = btype b" and "bucket_ok c"
    and "buckets t = (buckets s)[nat i := c]"
    and "numFreeBuckets (header t) = numFreeBuckets (header s)"
    and "numActiveBuckets (header t) + numLoadingBuckets (header t) =
           numActiveBuckets (header s) + numLoadingBuckets (header s)"
    and "numUsedBuckets (header t) + numEvictingBuckets (header t) =
           numUsedBuckets (header s) + numEvictingBuckets (header s)"
    and "numBuckets (header t) = numBuckets (header s)"
    and "nextVictimBucket (header t) = nextVictimBucket (header s)"
    and "numMaxActiveStatus (header t) = numMaxActiveStatus (header s)"
    and "length (activeStatus t) = length (activeStatus s)"
  shows "shm_inv t"
  using assms(1,2) by (rule shm_inv_step) (use assms(2-) in \<open>simp_all add: type_simps\<close>)

lemma markBucketLoading_keeps:
  assumes inv: "shm_inv s" and act: "\<And>b. idx i (buckets s) = Some b \<Longrightarrow> isActiveBucket b"
    and a: "idx a (activeStatus s) \<noteq> None"
  shows "keeps (markBucketLoading cfg i k a f) s"
proof -
  have "\<forall>j \<in> set [0..<nat (numMaxActiveStatus (header s))]. j < length (activeStatus s)"
    using inv by (auto simp: shm_inv_def sizes_ok_def)
  moreover have "shm_inv (s\<lparr>buckets := (buckets s)[nat i := (setBucketLoading (b\<lparr>b_fileBlockIndex := k\<rparr>))
        \<lparr>evictLoadActiveId := a\<rparr>],
      activeStatus := (activeStatus s)[k' := x],
      header := (header s)\<lparr>numActiveBuckets := numActiveBuckets (header s) - 1,
                            numLoadingBuckets := numLoadingBuckets (header s) + 1\<rparr>\<rparr>)"
    if "idx i (buckets s) = Some b" for b k' x
    using inv that
    by (rule shm_inv_same_type)
      (use act [OF that] shm_invD(4) [OF inv that] in
        \<open>simp_all add: type_simps bucket_ok_def\<close>)
  ultimately show ?thesis
    using inv a
    by (auto simp: markBucketLoading_def wp_simps wp_anyStatus split: option.splits)
qed

lemma markLoadFinish_keeps:
  assumes inv: "shm_inv s" and act: "\<And>b. idx i (buckets s) = Some b \<Longrightarrow> isActiveBucket b"
  shows "keeps (markLoadFinish cfg i a f) s"
proof -
  have "shm_inv (s\<lparr>buckets := (buckets s)[nat i := setBucketLoadFinish b]\<rparr>)"
    "shm_inv (s\<lparr>buckets := (buckets s)[nat i := setBucketLoadFinish b],
      activeStatus := (activeStatus s)[k' := x],
      header := (header s)\<lparr>numLoadingBuckets := numLoadingBuckets (header s) - 1,
                            numActiveBuckets := numActiveBuckets (header s) + 1\<rparr>\<rparr>)"
    if "idx i (buckets s) = Some b" for b k' x
    using act [OF that] shm_invD(4) [OF inv that]
    by (auto intro!: shm_inv_same_type [OF inv that, of "setBucketLoadFinish b"]
        simp: type_simps bucket_ok_def)
  then show ?thesis
    using inv by (auto simp: markLoadFinish_def wp_simps split: option.splits)
qed

lemma deleteBlocks_keeps: "shm_inv s \<Longrightarrow> keeps (deleteBlocks blks f) s"
  unfolding deleteBlocks_def
proof (rule wp_forE_inv)
  fix blk :: Block and t
  assume inv: "shm_inv t"
  have "shm_inv (t\<lparr>buckets := (buckets t)[nat (bk_bucketId blk) := setBucketFree ShareMemBucket_reset],
      header := (header t)\<lparr>numUsedBuckets := numUsedBuckets (header t) - 1,
                            numFreeBuckets := numFreeBuckets (header t) + 1\<rparr>\<rparr>)"
    if "idx (bk_bucketId blk) (buckets t) = Some b" "isUsedBucket b" for b
    using inv that(1) by (rule shm_inv_step) (use that in \<open>simp_all add: step_simps\<close>)
  moreover have "shm_inv (t\<lparr>buckets := (buckets t)[nat (bk_bucketId blk) := setBucketDeleted b]\<rparr>)"
    if "idx (bk_bucketId blk) (buckets t) = Some b" "isEvictingBucket b" for b
    using inv that(1)
    by (rule shm_inv_same_type)
      (use that shm_invD(4) [OF inv that(1)] in \<open>auto simp: type_simps flag_simps bucket_ok_def\<close>)
  ultimately show "keeps (deleteBlock_shm f blk) t"
    using inv by (auto simp: deleteBlock_shm_def wp_simps split: option.splits)
qed

lemma updateActiveFileInfo_keeps: "shm_inv s \<Longrightarrow> keeps (updateActiveFileInfo blks f) s"
  unfolding updateActiveFileInfo_def
proof (rule wp_forE_inv)
  fix blk :: Block and t
  assume inv: "shm_inv t"
  have "shm_inv (t\<lparr>buckets := (buckets t)[nat (bk_bucketId blk) := b\<lparr>b_fileBlockIndex := bk_blockId blk\<rparr>]\<rparr>)"
    if "idx (bk_bucketId blk) (buckets t) = Some b" for b
    using inv that(1)
    by (rule shm_inv_same_type)
      (use shm_invD(4) [OF inv that] in \<open>simp_all add: type_simps flag_simps bucket_ok_def isDeletedBucket_def\<close>)
  with inv show "wp (bindE (readBucket (bk_bucketId blk)) (\<lambda>b. if b_fileId b = f
      then modBucket (bk_bucketId blk) (\<lambda>b. b\<lparr>b_fileBlockIndex := bk_blockId blk\<rparr>)
      else THROW GopherwoodSharedMemException)) (\<lambda>_. shm_inv) (\<lambda>_. shm_inv) t"
    by (auto simp: wp_simps split: option.splits)
qed

lemma updateBucketDataSize_keeps: "shm_inv s \<Longrightarrow> keeps (updateBucketDataSize cfg i sz f a) s"
proof -
  assume inv: "shm_inv s"
  have "shm_inv (s\<lparr>buckets := (buckets s)[nat i := b\<lparr>dataSize := sz\<rparr>]\<rparr>)"
    if "idx i (buckets s) = Some b" for b
    using inv that(1)
    by (rule shm_inv_same_type)
      (use shm_invD(4) [OF inv that] in \<open>simp_all add: type_simps flag_simps bucket_ok_def isDeletedBucket_def\<close>)
  with inv show ?thesis
    by (auto simp: updateBucketDataSize_def wp_simps split: option.splits)
qed

section \<open>Registration\<close>

text \<open>Registration changes slots and the two slot counters, never a bucket.\<close>

definition same_buckets :: "SharedMemoryContext \<Rightarrow> SharedMemoryContext \<Rightarrow> bool" where
  "same_buckets s t \<longleftrightarrow> buckets t = buckets s \<and> length (activeStatus t) = length (activeStatus s) \<and>
     (header t)\<lparr>numFileActiveStatus := 0, numAdminActiveStatus := 0\<rparr> =
     (header s)\<lparr>numFileActiveStatus := 0, numAdminActiveStatus := 0\<rparr>"

lemma same_buckets_refl [simp]: "same_buckets s s"
  by (simp add: same_buckets_def)

lemma same_buckets_trans: "same_buckets s t \<Longrightarrow> same_buckets t u \<Longrightarrow> same_buckets s u"
  by (simp add: same_buckets_def)

lemma same_buckets_status [simp]:
  "same_buckets s (s\<lparr>activeStatus := (activeStatus s)[i := x]\<rparr>)"
  "same_buckets s (s\<lparr>activeStatus := (activeStatus s)[i := x],
     header := (header s)\<lparr>numFileActiveStatus := n\<rparr>\<rparr>)"
  "same_buckets s (s\<lparr>activeStatus := (activeStatus s)[i := x],
     header := (header s)\<lparr>numAdminActiveStatus := n\<rparr>\<rparr>)"
  by (simp_all add: same_buckets_def)

lemma same_buckets_header:
  assumes "same_buckets s t"
  shows "numFreeBuckets (header t) = numFreeBuckets (header s)"
    "numActiveBuckets (header t) = numActiveBuckets (header s)"
    "numLoadingBuckets (header t) = numLoadingBuckets (header s)"
    "numUsedBuckets (header t) = numUsedBuckets (header s)"
    "numEvictingBuckets (header t) = numEvictingBuckets (header s)"
    "numBuckets (header t) = numBuckets (header s)"
    "nextVictimBucket (header t) = nextVictimBucket (header s)"
    "numMaxActiveStatus (header t) = numMaxActiveStatus (header s)"
proof -
  have "f ((header t)\<lparr>numFileActiveStatus := 0, numAdminActiveStatus := 0\<rparr>) =
      f ((header s)\<lparr>numFileActiveStatus := 0, numAdminActiveStatus := 0\<rparr>)" for f :: "ShareMemHeader \<Rightarrow> 'x"
    using assms by (simp only: same_buckets_def)
  note eq = this
  show "numFreeBuckets (header t) = numFreeBuckets (header s)"
    using eq [of numFreeBuckets] by simp
  show "numActiveBuckets (header t) = numActiveBuckets (header s)"
    using eq [of numActiveBuckets] by simp
  show "numLoadingBuckets (header t) = numLoadingBuckets (header s)"
    using eq [of numLoadingBuckets] by simp
  show "numUsedBuckets (header t) = numUsedBuckets (header s)"
    using eq [of numUsedBuckets] by simp
  show "numEvictingBuckets (header t) = numEvictingBuckets (header s)"
    using eq [of numEvictingBuckets] by simp
  show "numBuckets (header t) = numBuckets (header s)"
    using eq [of numBuckets] by simp
  show "nextVictimBucket (header t) = nextVictimBucket (header s)"
    using eq [of nextVictimBucket] by simp
  show "numMaxActiveStatus (header t) = numMaxActiveStatus (header s)"
    using eq [of numMaxActiveStatus] by simp
qed

lemma same_buckets_inv: "shm_inv s \<Longrightarrow> same_buckets s t \<Longrightarrow> shm_inv t"
  by (erule shm_inv_frame) (auto simp: same_buckets_header, auto simp: same_buckets_def)

abbreviation frames :: "'a shmM \<Rightarrow> SharedMemoryContext \<Rightarrow> bool" where
  "frames m s \<equiv> wp m (\<lambda>_. same_buckets s) (\<lambda>_. same_buckets s) s"

lemma frames_keeps: "frames m s \<Longrightarrow> shm_inv s \<Longrightarrow> keeps m s"
  by (erule wp_mono) (auto intro: same_buckets_inv)

lemma registFile_loop_frames: "frames (registFile_loop p f d is k des) s"
proof (induction "is" arbitrary: s k des)
  case Nil
  then show ?case by (simp add: wp_simps)
next
  case (Cons i "is")
  have "wp (registFile_loop p f d is k' des') (\<lambda>_. same_buckets s) (\<lambda>_. same_buckets s) t"
    if "same_buckets s t" for k' des' t
    by (rule wp_mono [OF Cons.IH]) (auto intro: same_buckets_trans [OF that])
  then show ?case
    by (auto simp: wp_simps Let_def split: option.splits)
qed

lemma registFile_frames: "frames (registFile p f w d) s"
proof -
  have "same_buckets s (t\<lparr>activeStatus := (activeStatus t)[k := x]\<rparr>)" if "same_buckets s t" for t k x
    using that by (rule same_buckets_trans) simp
  then show ?thesis
    unfolding registFile_def wp_simps
    by (intro wp_mono [OF registFile_loop_frames]) (auto simp: wp_simps split: option.splits)
qed

lemma registAdmin_frames: "frames (registAdmin p) s"
proof -
  have "frames (registAdmin_loop p is) s" for "is"
    by (induction "is") (auto simp: wp_simps split: option.splits)
  then show ?thesis by (simp add: registAdmin_def wp_simps)
qed

lemma unregistFile_frames: "frames (unregistFile a p) s"
  by (auto simp: unregistFile_def wp_simps split: option.splits)

lemma unregistAdmin_frames: "frames (unregistAdmin a p) s"
  by (auto simp: unregistAdmin_def wp_simps split: option.splits)

lemmas registration_keeps = frames_keeps [OF registFile_frames] frames_keeps [OF registAdmin_frames]
  frames_keeps [OF unregistFile_frames] frames_keeps [OF unregistAdmin_frames]

section \<open>Lock, unlock and the initial region\<close>

lemma shm_inv_h_flags [simp]: "shm_inv (s\<lparr>header := (header s)\<lparr>h_flags := w\<rparr>\<rparr>) = shm_inv s"
  by (simp add: shm_inv_def sizes_ok_def counters_ok_def)

lemma shm_inv_header_id [simp]: "s\<lparr>header := header s\<rparr> = (s :: SharedMemoryContext)"
  by simp

lemma shm_lock_keeps: "shm_inv s \<Longrightarrow> keeps shm_lock s"
  by (simp add: shm_lock_def header_enter_def wp_simps)

lemma shm_unlock_keeps: "shm_inv s \<Longrightarrow> keeps shm_unlock s"
  by (simp add: shm_unlock_def header_exit_def wp_simps)

lemma initial_inv:
  assumes "0 < NUMBER_OF_BLOCKS cfg" and "NUMBER_OF_BLOCKS cfg < 2 ^ 31"
    and "0 \<le> MAX_CONNECTION cfg" and "MAX_CONNECTION cfg < 32768"
  shows "shm_inv (SharedMemoryContext_new cfg dir True region)"
proof -
  have "word_of_int (NUMBER_OF_BLOCKS cfg) = (word_of_nat (nat (NUMBER_OF_BLOCKS cfg)) :: 32 word)"
    using assms(1) by (simp add: of_nat_nat)
  then show ?thesis
    using assms
    by (simp add: SharedMemoryContext_new_def Let_def shm_inv_def sizes_ok_def counters_ok_def
        ShareMemHeader_reset_def int16_id cnt_def list_all_iff bucket_ok_reset flag_simps)
qed

end
