(* ===== verification/GW_SharedMemProto.thy ===== *)
theory GW_SharedMemProto
  imports GW_SharedMemEvict
begin

text \<open>
  The protocol between the processes that share the region, as a step relation. A state is the
  region together with a ghost map from active ids to the bucket each of them is evicting: it is
  set when \<^verbatim>\<open>markBucketEvicting\<close> returns, and cleared when the eviction is finished and when the id gives up
  its slot. A step is one call of an operation of \<^verbatim>\<open>SharedMemoryContext\<close> by some process, whatever its outcome.
\<close>

type_synonym proto = "SharedMemoryContext \<times> (int \<Rightarrow> int option)"

text \<open>The bucket is still the one that the evictor marked, and its slot names the block.\<close>

definition owns_eviction :: "SharedMemoryContext \<Rightarrow> int \<Rightarrow> int \<Rightarrow> bool" where
  "owns_eviction s a i \<longleftrightarrow> (\<exists>e b. idx a (activeStatus s) = Some e \<and> idx i (buckets s) = Some b \<and>
     pid e \<noteq> InvalidPid \<and> isUsedBucket b \<and> isEvictingBucket b \<and> evictLoadActiveId b = a \<and>
     evictFileId e = b_fileId b \<and> a_fileBlockIndex e = b_fileBlockIndex b)"

definition stolen :: "SharedMemoryContext \<Rightarrow> int \<Rightarrow> bool" where
  "stolen s a \<longleftrightarrow> (\<exists>e. idx a (activeStatus s) = Some e \<and> isEvictBucketStolen e \<and> pid e \<noteq> InvalidPid)"

definition pend_ok :: "proto \<Rightarrow> bool" where
  "pend_ok p \<longleftrightarrow> (\<forall>a i. snd p a = Some i \<longrightarrow> stolen (fst p) a \<or> owns_eviction (fst p) a i)"

text \<open>
  What the calls have to obey. A process finishes the eviction it began last, and only once; it starts and
  finishes loads into active buckets, and not while it is evicting, because the slot has one place for the
  block of both. Blocks whose bucket is used and marked for eviction are neither extended nor deleted, and
  are activated only while that eviction is pending. Ids and process ids are valid. Everything else is
  free: the order of the calls, their arguments, and giving up an eviction by starting another one or by
  leaving the slot.
\<close>

definition spares_evictions :: "SharedMemoryContext \<Rightarrow> Block list \<Rightarrow> bool" where
  "spares_evictions s blks \<longleftrightarrow> (\<forall>blk \<in> set blks. \<forall>b. idx (bk_bucketId blk) (buckets s) = Some b \<longrightarrow>
     \<not> (isUsedBucket b \<and> isEvictingBucket b))"

definition eviction_pending :: "proto \<Rightarrow> int \<Rightarrow> bool" where
  "eviction_pending p i \<longleftrightarrow> (\<forall>b. idx i (buckets (fst p)) = Some b \<longrightarrow> isUsedBucket b \<longrightarrow> isEvictingBucket b \<longrightarrow>
     snd p (evictLoadActiveId b) = Some i \<and> \<not> stolen (fst p) (evictLoadActiveId b))"

definition active_buckets :: "SharedMemoryContext \<Rightarrow> Block list \<Rightarrow> bool" where
  "active_buckets s blks \<longleftrightarrow> (\<forall>blk \<in> set blks. \<forall>b. idx (bk_bucketId blk) (buckets s) = Some b \<longrightarrow> isActiveBucket b)"

definition registered :: "SharedMemoryContext \<Rightarrow> int \<Rightarrow> bool" where
  "registered s a \<longleftrightarrow> (\<exists>e. idx a (activeStatus s) = Some e \<and> pid e \<noteq> InvalidPid)"

inductive proto_step :: "Configuration \<Rightarrow> proto \<Rightarrow> proto \<Rightarrow> bool" for cfg where
  step_acquire: "valid_activeId a \<Longrightarrow> acquireFreeBucket a n f w s = (r, t) \<Longrightarrow> proto_step cfg (s, pend) (t, pend)"
| step_release: "releaseBuckets blks s = (r, t) \<Longrightarrow> proto_step cfg (s, pend) (t, pend)"
| step_inactivate: "inactivateBuckets blks f a w s = (r, t) \<Longrightarrow> proto_step cfg (s, pend) (t, pend)"
| step_activate: "valid_activeId a \<Longrightarrow> eviction_pending (s, pend) (bk_bucketId blk) \<Longrightarrow>
    activateBucket f blk a w s = (r, t) \<Longrightarrow> proto_step cfg (s, pend) (t, pend)"
| step_evict: "registered s a \<Longrightarrow> markBucketEvicting a s = (Inr info, t) \<Longrightarrow>
    proto_step cfg (s, pend) (t, pend(a \<mapsto> bi_bucketId info))"
| step_evict_none: "registered s a \<Longrightarrow> markBucketEvicting a s = (Inl e, t) \<Longrightarrow>
    proto_step cfg (s, pend) (t, pend)"
| step_finish_acquire: "pend a = Some i \<Longrightarrow> valid_activeId a \<Longrightarrow>
    evictBucketFinishAndTryAcquire i a f w s = (r, t) \<Longrightarrow> proto_step cfg (s, pend) (t, pend(a := None))"
| step_finish_free: "pend a = Some i \<Longrightarrow>
    evictBucketFinishAndTryFree i a s = (r, t) \<Longrightarrow> proto_step cfg (s, pend) (t, pend(a := None))"
| step_load: "registered s a \<Longrightarrow> pend a = None \<Longrightarrow> active_buckets s [blk] \<Longrightarrow>
    markBucketLoading cfg (bk_bucketId blk) k a f s = (r, t) \<Longrightarrow> proto_step cfg (s, pend) (t, pend)"
| step_load_finish: "registered s a \<Longrightarrow> pend a = None \<Longrightarrow> active_buckets s [blk] \<Longrightarrow>
    markLoadFinish cfg (bk_bucketId blk) a f s = (r, t) \<Longrightarrow> proto_step cfg (s, pend) (t, pend)"
| step_extend: "spares_evictions s blks \<Longrightarrow> updateActiveFileInfo blks f s = (r, t) \<Longrightarrow>
    proto_step cfg (s, pend) (t, pend)"
| step_delete: "spares_evictions s blks \<Longrightarrow> deleteBlocks blks f s = (r, t) \<Longrightarrow>
    proto_step cfg (s, pend) (t, pend)"
| step_size: "updateBucketDataSize cfg i sz f a s = (r, t) \<Longrightarrow> proto_step cfg (s, pend) (t, pend)"
| step_regist: "pd \<noteq> InvalidPid \<Longrightarrow> registFile pd f w d s = (r, t) \<Longrightarrow> proto_step cfg (s, pend) (t, pend)"
| step_regist_admin: "pd \<noteq> InvalidPid \<Longrightarrow> registAdmin pd s = (r, t) \<Longrightarrow> proto_step cfg (s, pend) (t, pend)"
| step_unregist: "unregistFile a pd s = (r, t) \<Longrightarrow> proto_step cfg (s, pend) (t, if t = s then pend else pend(a := None))"
| step_unregist_admin: "unregistAdmin a pd s = (r, t) \<Longrightarrow> proto_step cfg (s, pend) (t, if t = s then pend else pend(a := None))"
| step_lock: "shm_lock s = (r, t) \<Longrightarrow> proto_step cfg (s, pend) (t, pend)"
| step_unlock: "shm_unlock s = (r, t) \<Longrightarrow> proto_step cfg (s, pend) (t, pend)"

inductive reachable :: "Configuration \<Rightarrow> proto \<Rightarrow> bool" for cfg where
  reach_init: "reachable cfg (SharedMemoryContext_new cfg dir True region, Map.empty)"
| reach_step: "reachable cfg p \<Longrightarrow> proto_step cfg p q \<Longrightarrow> reachable cfg q"

section \<open>Frames\<close>

lemma idx_update_cases: "idx j (xs[k := y]) = Some z \<Longrightarrow> z = y \<or> idx j xs = Some z"
  by (cases "nat j = k") (auto simp: idx_def nth_list_update split: if_splits)

text \<open>\<open>pf A s t\<close>: what holds of the evictions of the ids in \<open>A\<close> in \<open>s\<close> holds in \<open>t\<close>.\<close>

definition pf :: "int set \<Rightarrow> SharedMemoryContext \<Rightarrow> SharedMemoryContext \<Rightarrow> bool" where
  "pf A s t \<longleftrightarrow> (\<forall>a \<in> A. \<forall>i. stolen s a \<or> owns_eviction s a i \<longrightarrow> stolen t a \<or> owns_eviction t a i)"

abbreviation pframes :: "int set \<Rightarrow> 'a shmM \<Rightarrow> SharedMemoryContext \<Rightarrow> bool" where
  "pframes A m s \<equiv> wp m (\<lambda>_. pf A s) (\<lambda>_. pf A s) s"

lemma pf_refl [simp]: "pf A s s"
  by (simp add: pf_def)

lemma pf_trans: "pf A s t \<Longrightarrow> pf A t u \<Longrightarrow> pf A s u"
  unfolding pf_def by blast

lemma pend_ok_pf: "pend_ok (s, pend) \<Longrightarrow> pf (dom pend) s t \<Longrightarrow> pend_ok (t, pend)"
  by (fastforce simp: pend_ok_def pf_def)

lemma wp_run: "wp m (\<lambda>_. P) (\<lambda>_. P) s \<Longrightarrow> m s = (r, t) \<Longrightarrow> P t"
  by (cases r) (auto simp: wp_def)

text \<open>A bucket that is not both used and under eviction may change freely.\<close>

lemma pf_bucket:
  assumes "idx i (buckets s) = Some b" and "\<not> (isUsedBucket b \<and> isEvictingBucket b)"
    and "buckets t = (buckets s)[nat i := c]" and "activeStatus t = activeStatus s"
  shows "pf A s t"
proof -
  have "owns_eviction t a j" if own: "owns_eviction s a j" for a j
  proof -
    from own obtain e b' where eb: "idx a (activeStatus s) = Some e" "idx j (buckets s) = Some b'"
      "pid e \<noteq> InvalidPid" "isUsedBucket b'" "isEvictingBucket b'" "evictLoadActiveId b' = a"
      "evictFileId e = b_fileId b'" "a_fileBlockIndex e = b_fileBlockIndex b'"
      by (auto simp: owns_eviction_def)
    have "i \<noteq> j" using eb assms(1,2) by auto
    moreover have "0 \<le> i" using assms(1) by (simp add: idx_Some_iff)
    ultimately have "idx j (buckets t) = Some b'"
      using eb(2) assms(3) by (simp add: idx_update_other)
    with eb assms(4) show ?thesis by (auto simp: owns_eviction_def)
  qed
  then show ?thesis using assms(4) by (auto simp: pf_def stolen_def)
qed

lemma pf_header: "buckets t = buckets s \<Longrightarrow> activeStatus t = activeStatus s \<Longrightarrow> pf A s t"
  by (simp add: pf_def stolen_def owns_eviction_def)

text \<open>A slot outside \<open>A\<close> may change freely, and flags of other slots may.\<close>

lemma pf_slot:
  assumes "idx k (activeStatus s) = Some x" and "buckets t = buckets s"
    and "activeStatus t = (activeStatus s)[nat k := y]"
    and "k \<in> A \<Longrightarrow> pid y \<noteq> InvalidPid \<longleftrightarrow> pid x \<noteq> InvalidPid"
    and "k \<in> A \<Longrightarrow> pid x \<noteq> InvalidPid \<Longrightarrow> isEvictBucketStolen x \<Longrightarrow> isEvictBucketStolen y"
    and "k \<in> A \<Longrightarrow> pid x \<noteq> InvalidPid \<Longrightarrow> evictFileId y = evictFileId x \<and> a_fileBlockIndex y = a_fileBlockIndex x"
  shows "pf A s t"
proof -
  have k: "0 \<le> k" "idx k (activeStatus t) = Some y" using assms(1,3) by (simp_all add: idx_Some_iff)
  have other: "idx a (activeStatus t) = idx a (activeStatus s)" if "a \<noteq> k" for a
    using that k(1) assms(3) by (simp add: idx_def nth_list_update) auto
  have "stolen t a" if "a \<in> A" "stolen s a" for a
    using that assms(1,4,5) k(2) other [of a] by (cases "a = k") (auto simp: stolen_def)
  moreover have "owns_eviction t a i" if "a \<in> A" "owns_eviction s a i" for a i
    using that assms(1,2,4,6) k(2) other [of a] by (cases "a = k") (auto simp: owns_eviction_def)
  ultimately show ?thesis by (auto simp: pf_def)
qed

section \<open>Every operation keeps the pending evictions\<close>

lemma pf_stepI: "pf A s t \<Longrightarrow> wp m (\<lambda>_. pf A t) (\<lambda>_. pf A t) t \<Longrightarrow> wp m (\<lambda>_. pf A s) (\<lambda>_. pf A s) t"
  by (erule wp_mono) (auto elim: pf_trans)

lemma releaseBuckets_pf: "pframes A (releaseBuckets blks) s"
  unfolding releaseBuckets_def
proof (rule wp_forE_inv)
  fix blk t
  assume st: "pf A s t"
  have "pframes A (releaseBucket blk) t"
    by (auto simp: releaseBucket_def wp_simps type_simps split: option.splits
        intro!: pf_bucket [where c = "setBucketFree ShareMemBucket_reset"])
  with st show "wp (releaseBucket blk) (\<lambda>_. pf A s) (\<lambda>_. pf A s) t" by (rule pf_stepI)
qed simp

lemma not_used: "isFreeBucket b \<Longrightarrow> \<not> isUsedBucket b" "isActiveBucket b \<Longrightarrow> \<not> isUsedBucket b"
  by (simp_all add: type_simps)

lemma acquire_loop_pf: "pframes A (acquire_loop a f w is k res) s"
proof (induction "is" arbitrary: s k res)
  case Nil
  then show ?case by (simp add: wp_simps)
next
  case (Cons i "is")
  have step: "pf A s (s\<lparr>buckets := (buckets s)[i := c], header := h\<rparr>)" "pf A s (s\<lparr>buckets := (buckets s)[i := c]\<rparr>)"
    if "idx (int i) (buckets s) = Some b" "isFreeBucket b" for b c h
    using that not_used by (auto intro!: pf_bucket [OF that(1), of _ c])
  have "wp (acquire_loop a f w is k' res') (\<lambda>_. pf A s) (\<lambda>_. pf A s) t" if "pf A s t" for k' res' t
    using that Cons.IH by (rule pf_stepI)
  with step show ?case by (auto simp: wp_simps split: option.splits sum.splits)
qed

lemma acquireFreeBucket_pf: "pframes A (acquireFreeBucket a n f w) s"
  unfolding acquireFreeBucket_def wp_simps
  by (rule wp_mono [OF acquire_loop_pf]) (auto simp: wp_simps split: prod.splits)

lemma inactivateBuckets_pf: "pframes A (inactivateBuckets blks f a w) s"
proof (induction blks arbitrary: s)
  case Nil
  then show ?case by (simp add: wp_simps)
next
  case (Cons blk blks)
  have step: "pf A s (s\<lparr>buckets := (buckets s)[nat (bk_bucketId blk) := c], header := h\<rparr>)"
    "pf A s (s\<lparr>buckets := (buckets s)[nat (bk_bucketId blk) := c]\<rparr>)"
    if "idx (bk_bucketId blk) (buckets s) = Some b" "isActiveBucket b" for b c h
    using that not_used by (auto intro!: pf_bucket [OF that(1), of _ c])
  have "pframes A (inactivateBucket f a w blk) s"
    using step by (auto simp: inactivateBucket_def wp_simps split: option.splits sum.splits)
  then show ?case
    unfolding inactivateBuckets.simps wp_simps
    by (rule wp_mono) (auto intro!: pf_stepI [OF _ Cons.IH])
qed

lemma updateActiveFileInfo_pf:
  assumes "spares_evictions s blks"
  shows "pframes A (updateActiveFileInfo blks f) s"
proof -
  let ?body = "\<lambda>blk. bindE (readBucket (bk_bucketId blk)) (\<lambda>b. if b_fileId b = f
      then modBucket (bk_bucketId blk) (\<lambda>b. b\<lparr>b_fileBlockIndex := bk_blockId blk\<rparr>)
      else THROW GopherwoodSharedMemException)"
  have "wp (forE blks ?body) (\<lambda>_ t. pf A s t \<and> spares_evictions t blks) (\<lambda>_. pf A s) s"
  proof (rule wp_forE_inv)
    fix blk :: Block and t
    assume blk: "blk \<in> set blks" and t: "pf A s t \<and> spares_evictions t blks"
    have "pf A s (t\<lparr>buckets := (buckets t)[nat (bk_bucketId blk) := b\<lparr>b_fileBlockIndex := k\<rparr>]\<rparr>)"
      if "idx (bk_bucketId blk) (buckets t) = Some b" for b k
    proof (rule pf_trans)
      show "pf A s t" using t by simp
      show "pf A t (t\<lparr>buckets := (buckets t)[nat (bk_bucketId blk) := b\<lparr>b_fileBlockIndex := k\<rparr>]\<rparr>)"
        using that t blk by (intro pf_bucket [OF that]) (auto simp: spares_evictions_def)
    qed
    moreover have "spares_evictions (t\<lparr>buckets := (buckets t)[nat (bk_bucketId blk) := b\<lparr>b_fileBlockIndex := k\<rparr>]\<rparr>) blks"
      if "idx (bk_bucketId blk) (buckets t) = Some b" for b k
      using that t blk
      by (auto simp: spares_evictions_def idx_def nth_list_update flag_simps split: if_splits)
    ultimately show "wp (?body blk) (\<lambda>_ t. pf A s t \<and> spares_evictions t blks) (\<lambda>_. pf A s) t"
      using t by (auto simp: wp_simps split: option.splits)
  qed (use assms in simp)
  then show ?thesis unfolding updateActiveFileInfo_def by (rule wp_mono) auto
qed

lemma deleteBlocks_pf:
  assumes "spares_evictions s blks"
  shows "pframes A (deleteBlocks blks f) s"
proof -
  have "wp (forE blks (deleteBlock_shm f)) (\<lambda>_ t. pf A s t \<and> spares_evictions t blks) (\<lambda>_. pf A s) s"
  proof (rule wp_forE_inv)
    fix blk :: Block and t
    assume blk: "blk \<in> set blks" and t: "pf A s t \<and> spares_evictions t blks"
    have frame: "pf A s (t\<lparr>buckets := (buckets t)[nat (bk_bucketId blk) := c], header := h\<rparr>)"
      "pf A s (t\<lparr>buckets := (buckets t)[nat (bk_bucketId blk) := c]\<rparr>)"
      if "idx (bk_bucketId blk) (buckets t) = Some b" for b c h
    proof -
      have "\<not> (isUsedBucket b \<and> isEvictingBucket b)" using t that blk by (auto simp: spares_evictions_def)
      then show "pf A s (t\<lparr>buckets := (buckets t)[nat (bk_bucketId blk) := c], header := h\<rparr>)"
        "pf A s (t\<lparr>buckets := (buckets t)[nat (bk_bucketId blk) := c]\<rparr>)"
        using t by (auto intro!: pf_trans [of A s t] pf_bucket [OF that, where c = c])
    qed
    have spares: "spares_evictions (t\<lparr>buckets := (buckets t)[nat (bk_bucketId blk) := c], header := h\<rparr>) blks"
      "spares_evictions (t\<lparr>buckets := (buckets t)[nat (bk_bucketId blk) := c]\<rparr>) blks"
      if "\<not> isUsedBucket c" for c h
      using t that by (auto simp: spares_evictions_def dest!: idx_update_cases)
    have free: "\<not> isUsedBucket (setBucketFree ShareMemBucket_reset)" by (simp add: flag_simps type_simps)
    have used: "\<not> isEvictingBucket b" if "idx (bk_bucketId blk) (buckets t) = Some b" "isUsedBucket b" for b
      using that t blk by (auto simp: spares_evictions_def)
    from free frame spares t show "wp (deleteBlock_shm f blk) (\<lambda>_ t. pf A s t \<and> spares_evictions t blks) (\<lambda>_. pf A s) t"
      using used by (auto simp: deleteBlock_shm_def wp_simps setBucketDeleted_flags split: option.splits)
  qed (use assms in simp)
  then show ?thesis unfolding deleteBlocks_def by (rule wp_mono) auto
qed

lemma updateBucketDataSize_pf: "pframes A (updateBucketDataSize cfg i sz f a) s"
  using not_used by (auto simp: updateBucketDataSize_def wp_simps split: option.splits intro!: pf_bucket)

lemma shm_lock_pf: "pframes A shm_lock s" "pframes A shm_unlock s"
  by (auto simp: shm_lock_def shm_unlock_def header_enter_def header_exit_def wp_simps intro!: pf_header)

lemma markBucketLoading_pf:
  assumes "active_buckets s [blk]" and "a \<notin> A" and "shm_inv s"
  shows "pframes A (markBucketLoading cfg (bk_bucketId blk) k a f) s"
proof -
  have len: "\<forall>j \<in> set [0..<nat (numMaxActiveStatus (header s))]. j < length (activeStatus s)"
    using assms(3) by (auto simp: shm_inv_def sizes_ok_def)
  have 1: "pf A s (s\<lparr>buckets := (buckets s)[nat (bk_bucketId blk) := c]\<rparr>)"
    if "idx (bk_bucketId blk) (buckets s) = Some b" for b c
    using that assms(1) not_used by (intro pf_bucket [OF that]) (auto simp: active_buckets_def)
  have 2: "pf A s (s\<lparr>buckets := (buckets s)[nat (bk_bucketId blk) := c],
      activeStatus := (activeStatus s)[nat a := y], header := h\<rparr>)"
    if "idx (bk_bucketId blk) (buckets s) = Some b" "idx a (activeStatus s) = Some x" for b c x y h
    using that assms(2) by (intro pf_trans [OF 1 [OF that(1), of c] pf_slot [of a _ x]]) auto
  show ?thesis using 1 2
    by (auto simp: markBucketLoading_def wp_simps wp_anyStatus len split: option.splits)
qed

lemma markLoadFinish_pf:
  assumes "active_buckets s [blk]" and "a \<notin> A"
  shows "pframes A (markLoadFinish cfg (bk_bucketId blk) a f) s"
proof -
  have 1: "pf A s (s\<lparr>buckets := (buckets s)[nat (bk_bucketId blk) := c]\<rparr>)"
    if "idx (bk_bucketId blk) (buckets s) = Some b" for b c
    using that assms(1) not_used by (intro pf_bucket [OF that]) (auto simp: active_buckets_def)
  have 2: "pf A s (s\<lparr>buckets := (buckets s)[nat (bk_bucketId blk) := c],
      activeStatus := (activeStatus s)[nat a := y], header := h\<rparr>)"
    if "idx (bk_bucketId blk) (buckets s) = Some b" "idx a (activeStatus s) = Some x" for b c x y h
    using that assms(2) by (intro pf_trans [OF 1 [OF that(1), of c] pf_slot [of a _ x]]) auto
  show ?thesis using 1 2 by (auto simp: markLoadFinish_def wp_simps split: option.splits)
qed

section \<open>Activation, eviction and registration\<close>

lemma owns_known: "owns_eviction s a i \<Longrightarrow> idx i (buckets s) = Some b \<Longrightarrow> evictor_known s b"
  by (auto simp: owns_eviction_def evictor_known_def)

lemma pending_known:
  assumes "pend_ok (s, pend)" and "eviction_pending (s, pend) i"
    and "idx i (buckets s) = Some b" and "isUsedBucket b" and "isEvictingBucket b"
  shows "evictor_known s b" and "owns_eviction s (evictLoadActiveId b) i"
proof -
  show "owns_eviction s (evictLoadActiveId b) i"
    using assms by (fastforce simp: eviction_pending_def pend_ok_def)
  then show "evictor_known s b" using assms(3) by (rule owns_known)
qed

text \<open>Taking a bucket back: its evictor is told, and nobody else was evicting it.\<close>

lemma pf_steal:
  assumes "idx i (buckets s) = Some b" and "owns_eviction s (evictLoadActiveId b) i"
    and "idx (evictLoadActiveId b) (activeStatus s) = Some e"
    and "buckets t = (buckets s)[nat i := c]"
    and "activeStatus t = (activeStatus s)[nat (evictLoadActiveId b) := setBucketStolen e]"
  shows "pf A s t"
proof -
  let ?a = "evictLoadActiveId b"
  let ?t1 = "t\<lparr>activeStatus := activeStatus s\<rparr>"
  have a: "0 \<le> ?a" "idx ?a (activeStatus t) = Some (setBucketStolen e)"
    using assms(3,5) by (simp_all add: idx_Some_iff)
  have other: "idx k (activeStatus t) = idx k (activeStatus s)" if "k \<noteq> ?a" for k
    using that a(1) assms(5) by (simp add: idx_def nth_list_update) auto
  have "pid e \<noteq> InvalidPid" using assms(2,3) by (auto simp: owns_eviction_def)
  then have st: "stolen t ?a" using a(2) by (auto simp: stolen_def flag_simps)
  have "stolen t k \<or> owns_eviction t k j" if "stolen s k \<or> owns_eviction s k j" for k j
  proof (cases "k = ?a")
    case True
    then show ?thesis using st by simp
  next
    case False
    then have "j \<noteq> i" if "owns_eviction s k j" using that assms(1) by (auto simp: owns_eviction_def)
    moreover have "idx j (buckets t) = idx j (buckets s)" if "j \<noteq> i"
      using that assms(1,4) by (simp add: idx_def nth_list_update) (auto split: if_splits)
    ultimately show ?thesis
      using that False other [of k] by (auto simp: stolen_def owns_eviction_def)
  qed
  then show ?thesis by (simp add: pf_def)
qed

lemma activateBucket_pf:
  assumes inv: "shm_inv s" and a: "valid_activeId a" and ok: "pend_ok (s, pend)"
    and pending: "eviction_pending (s, pend) (bk_bucketId blk)"
  shows "pframes A (activateBucket f blk a w) s"
proof (cases "idx (bk_bucketId blk) (buckets s)")
  case None
  then show ?thesis by (simp add: activateBucket_def Let_def wp_simps)
next
  case (Some b)
  have frame: "pf A s (s\<lparr>buckets := (buckets s)[nat (bk_bucketId blk) := c]\<rparr>)"
    "pf A s (s\<lparr>buckets := (buckets s)[nat (bk_bucketId blk) := c], header := h\<rparr>)"
    if "\<not> (isUsedBucket b \<and> isEvictingBucket b)" for c h
    using that by (auto intro!: pf_bucket [OF Some, of _ c])
  show ?thesis
  proof (cases "isUsedBucket b \<and> isEvictingBucket b")
    case False
    with Some frame show ?thesis
      by (auto simp: activateBucket_def Let_def wp_simps split: sum.splits option.splits)
  next
    case True
    let ?b = "setBucketActive b"
    have idle: "table_ok ?b" "noActiveReadWrite ?b"
      using shm_invD(4) [OF inv Some] True by (auto simp: bucket_ok_def type_simps)
    obtain c where c: "mark w a ?b = Inr c" using mark_idle [OF idle a] by blast
    from pending_known [OF ok pending Some] True obtain e where e:
      "owns_eviction s (evictLoadActiveId b) (bk_bucketId blk)"
      "idx (evictLoadActiveId b) (activeStatus s) = Some e" "evictFileId e = b_fileId b"
      "a_fileBlockIndex e = b_fileBlockIndex b" by (auto simp: evictor_known_def)
    then show ?thesis using Some True c
      by (auto simp: activateBucket_def Let_def wp_simps intro!: pf_steal [OF Some e(1,2), where c = c])
  qed
qed

lemma strip_idx:
  assumes "map strip bs = map strip (buckets s)" and "idx j (buckets s) = Some b"
  obtains b' where "idx j bs = Some b'" and "strip b' = strip b"
proof -
  have len: "length bs = length (buckets s)" using assms(1) by (metis length_map)
  have j: "0 \<le> j" "nat j < length bs" "buckets s ! nat j = b"
    using assms(2) len by (auto simp: idx_Some_iff)
  then have "strip (bs ! nat j) = strip b" using map_strip_nth [OF assms(1) j(2)] by simp
  with j that [of "bs ! nat j"] show ?thesis by (simp add: idx_Some_iff)
qed

lemma strip_eq_evict:
  assumes "strip b' = strip b"
  shows "isUsedBucket b' = isUsedBucket b" "isEvictingBucket b' = isEvictingBucket b"
    "evictLoadActiveId b' = evictLoadActiveId b" "b_fileId b' = b_fileId b"
    "b_fileBlockIndex b' = b_fileBlockIndex b"
proof -
  have "f (strip b') = f (strip b)" for f :: "ShareMemBucket \<Rightarrow> 'x" using assms by simp
  from this [of evictLoadActiveId] show "evictLoadActiveId b' = evictLoadActiveId b" by simp
qed (use strip_eqD [OF assms] in \<open>simp_all add: type_simps\<close>)

text \<open>A sweep, and the marking of its victim, leave the evictions of others alone.\<close>

lemma pf_evict:
  assumes "map strip bs = map strip (buckets s)" and "idx i bs = Some b" and "evictable b"
    and "idx a (activeStatus s) = Some e" and "a \<notin> A"
    and "buckets t = bs[nat i := evict_mark a b]"
    and "activeStatus t = (activeStatus s)[nat a := evict_note b e]"
  shows "pf A s t"
proof -
  have a: "0 \<le> a" using assms(4) by (simp add: idx_Some_iff)
  have other: "idx k (activeStatus t) = idx k (activeStatus s)" if "k \<noteq> a" for k
    using that a assms(7) by (simp add: idx_def nth_list_update) auto
  have "owns_eviction t k j" if "k \<in> A" and "owns_eviction s k j" for k j
  proof -
    from that(2) obtain x y where xy: "idx k (activeStatus s) = Some x" "idx j (buckets s) = Some y"
      "pid x \<noteq> InvalidPid" "isUsedBucket y" "isEvictingBucket y" "evictLoadActiveId y = k"
      "evictFileId x = b_fileId y" "a_fileBlockIndex x = b_fileBlockIndex y"
      by (auto simp: owns_eviction_def)
    obtain y' where y': "idx j bs = Some y'" "strip y' = strip y" using strip_idx [OF assms(1) xy(2)] .
    note eqs = strip_eq_evict [OF y'(2)]
    have "i \<noteq> j" using y'(1) assms(2,3) eqs xy(5) by (auto simp: evictable_def)
    then have "idx j (buckets t) = Some y'"
      using y'(1) assms(2,6) by (simp add: idx_update_other idx_Some_iff)
    moreover have "k \<noteq> a" using that(1) assms(5) by auto
    ultimately show ?thesis using xy eqs other [of k] by (auto simp: owns_eviction_def)
  qed
  moreover have "stolen t k" if "k \<in> A" and "stolen s k" for k
    using that assms(5) other [of k] by (cases "k = a") (auto simp: stolen_def)
  ultimately show ?thesis by (auto simp: pf_def)
qed

lemma pf_strip:
  assumes "map strip (buckets t) = map strip (buckets s)" and "activeStatus t = activeStatus s"
  shows "pf A s t"
proof -
  have "owns_eviction t a i" if "owns_eviction s a i" for a i
  proof -
    from that obtain e b where eb: "idx a (activeStatus s) = Some e" "idx i (buckets s) = Some b"
      "pid e \<noteq> InvalidPid" "isUsedBucket b" "isEvictingBucket b" "evictLoadActiveId b = a"
      "evictFileId e = b_fileId b" "a_fileBlockIndex e = b_fileBlockIndex b"
      by (auto simp: owns_eviction_def)
    obtain b' where b': "idx i (buckets t) = Some b'" "strip b' = strip b"
      using strip_idx [OF assms(1) eb(2)] .
    show ?thesis using eb b'(1) strip_eq_evict [OF b'(2)] assms(2) by (auto simp: owns_eviction_def)
  qed
  then show ?thesis using assms(2) by (auto simp: pf_def stolen_def)
qed

lemma markBucketEvicting_pf:
  assumes inv: "shm_inv s" and a: "idx a (activeStatus s) = Some e" "pid e \<noteq> InvalidPid"
  shows "wp (markBucketEvicting a) (\<lambda>info t. pf (A - {a}) s t \<and> owns_eviction t a (bi_bucketId info)) (\<lambda>_. pf A s) s"
proof (rule markBucketEvicting_wp [OF inv a(1)])
  fix t :: SharedMemoryContext
  assume "map strip (buckets t) = map strip (buckets s)" "activeStatus t = activeStatus s"
  then show "pf A s t" by (rule pf_strip)
next
  fix i hand bs b and t :: SharedMemoryContext
  assume str: "map strip bs = map strip (buckets s)" and i: "idx i bs = Some b" and ev: "evictable b"
    and t: "t = s\<lparr>buckets := bs[nat i := evict_mark a b],
            activeStatus := (activeStatus s)[nat a := evict_note b e],
            header := (header s)\<lparr>nextVictimBucket := hand,
               numUsedBuckets := numUsedBuckets (header s) - 1,
               numEvictingBuckets := numEvictingBuckets (header s) + 1\<rparr>\<rparr>"
  have "pf (A - {a}) s t" by (rule pf_evict [OF str i ev a(1)]) (simp_all add: t)
  moreover have "owns_eviction t a i"
    using i ev a(1,2)
    by (auto simp: t owns_eviction_def evict_mark_def evict_note_def evictable_def flag_simps type_simps)
  ultimately show "pf (A - {a}) s t \<and> owns_eviction t a (bi_bucketId \<lparr>bi_fileId = b_fileId b,
      bi_blockId = b_fileBlockIndex b, bi_bucketId = i, bi_offset = InvalidBlockOffset,
      bi_dataSize = dataSize b, bi_isLocal = True\<rparr>)" by simp
qed

text \<open>Finishing an eviction changes the own slot, and the bucket unless it was taken back.\<close>

lemma pend_may_finish: "pend_ok (s, pend) \<Longrightarrow> pend a = Some i \<Longrightarrow> may_finish i a s"
  by (fastforce simp: pend_ok_def may_finish_def stolen_def owns_eviction_def)

lemma pf_finish:
  assumes "stolen s a \<and> bs = buckets s \<or> owns_eviction s a i \<and> bs = (buckets s)[nat i := c]"
    and "idx a (activeStatus s) = Some e" and "a \<notin> A"
    and "buckets t = bs" and "activeStatus t = (activeStatus s)[nat a := y]"
  shows "pf A s t"
proof -
  have a: "0 \<le> a" using assms(2) by (simp add: idx_Some_iff)
  have other: "idx k (activeStatus t) = idx k (activeStatus s)" if "k \<noteq> a" for k
    using that a assms(5) by (simp add: idx_def nth_list_update) auto
  have bucket: "idx j (buckets t) = idx j (buckets s)" if "owns_eviction s k j" "k \<noteq> a" for k j
  proof -
    have "j \<noteq> i \<or> bs = buckets s" using assms(1) that by (auto simp: owns_eviction_def)
    moreover have "0 \<le> i \<or> bs = buckets s" using assms(1) by (auto simp: owns_eviction_def idx_Some_iff)
    moreover have "bs = (buckets s)[nat i := c] \<or> bs = buckets s" using assms(1) by blast
    ultimately show ?thesis using assms(4) by (auto simp: idx_def nth_list_update)
  qed
  have "stolen t k \<or> owns_eviction t k j" if k: "k \<in> A" "stolen s k \<or> owns_eviction s k j" for k j
  proof -
    have "k \<noteq> a" using k(1) assms(3) by auto
    then show ?thesis
      using k(2) other [of k] bucket [of k j] unfolding stolen_def owns_eviction_def by metis
  qed
  then show ?thesis by (simp add: pf_def)
qed

lemma finish_pf:
  assumes ok: "stolen s a \<or> owns_eviction s a i" and "a \<notin> A"
  shows "pframes A (evictBucketFinishAndTryAcquire i a f w) s"
    and "pframes A (evictBucketFinishAndTryFree i a) s"
proof -
  have 1: "pf A s (s\<lparr>activeStatus := (activeStatus s)[nat a := y]\<rparr>)"
    if "idx a (activeStatus s) = Some e" for e y
    using assms(2) by (intro pf_slot [OF that, of _ y]) simp_all
  have 2: "pf A s (s\<lparr>activeStatus := (activeStatus s)[nat a := y], buckets := (buckets s)[nat i := c]\<rparr>)"
    "pf A s (s\<lparr>activeStatus := (activeStatus s)[nat a := y], buckets := (buckets s)[nat i := c], header := h\<rparr>)"
    if "idx a (activeStatus s) = Some e" "\<not> isEvictBucketStolen e" for e y c h
  proof -
    have "owns_eviction s a i" using ok that by (auto simp: stolen_def)
    then show "pf A s (s\<lparr>activeStatus := (activeStatus s)[nat a := y], buckets := (buckets s)[nat i := c]\<rparr>)"
      "pf A s (s\<lparr>activeStatus := (activeStatus s)[nat a := y], buckets := (buckets s)[nat i := c], header := h\<rparr>)"
      by (auto intro!: pf_finish [OF _ that(1) assms(2), of "(buckets s)[nat i := c]" i c _ y])
  qed
  show "pframes A (evictBucketFinishAndTryAcquire i a f w) s"
    using 1 2 by (auto simp: evictBucketFinishAndTryAcquire_def resetEvictInfo_def Let_def wp_simps flag_simps
        split: option.splits sum.splits)
  show "pframes A (evictBucketFinishAndTryFree i a) s"
    using 1 2 by (auto simp: evictBucketFinishAndTryFree_def resetEvictInfo_def Let_def wp_simps flag_simps
        split: option.splits sum.splits)
qed

lemma pf_free_slot:
  assumes "idx k (activeStatus s) = Some x" and "pid x = InvalidPid" and "buckets t = buckets s"
    and "activeStatus t = (activeStatus s)[nat k := y]"
  shows "pf A s t"
proof -
  have other: "idx a (activeStatus t) = idx a (activeStatus s)" if "a \<noteq> k" for a
    using that assms(1,4) by (simp add: idx_def nth_list_update) (auto split: if_splits)
  have "\<not> stolen s k" "\<not> owns_eviction s k i" for i
    using assms(1,2) by (simp_all add: stolen_def owns_eviction_def)
  then have "stolen t a \<or> owns_eviction t a i" if "stolen s a \<or> owns_eviction s a i" for a i
  proof -
    have "a \<noteq> k" using that \<open>\<not> stolen s k\<close> \<open>\<And>i. \<not> owns_eviction s k i\<close> by auto
    then show ?thesis using that other [of a] assms(3) unfolding stolen_def owns_eviction_def by metis
  qed
  then show ?thesis by (simp add: pf_def)
qed

text \<open>Registration takes a free slot and sets flags; both leave the pending evictions alone.\<close>

lemma registFile_loop_pf: "p \<noteq> InvalidPid \<Longrightarrow> pframes A (registFile_loop p f d is k des) s"
proof (induction "is" arbitrary: s k des)
  case Nil
  then show ?case by (simp add: wp_simps)
next
  case (Cons i "is")
  have next': "wp (registFile_loop p f d is k' des') (\<lambda>_. pf A s) (\<lambda>_. pf A s) t" if "pf A s t" for k' des' t
    using that Cons.IH [OF Cons.prems] by (rule pf_stepI)
  show ?case
  proof (cases "idx (int i) (activeStatus s)")
    case None
    then show ?thesis by (simp add: wp_simps)
  next
    case (Some x)
    have "pf A s (s\<lparr>activeStatus := (activeStatus s)[i := y]\<rparr>)"
      if "pid y = pid x" "isEvictBucketStolen y = isEvictBucketStolen x" "evictFileId y = evictFileId x"
        "a_fileBlockIndex y = a_fileBlockIndex x" for y
      using that by (intro pf_slot [OF Some, of _ y]) simp_all
    moreover have "pf A s (s\<lparr>activeStatus := (activeStatus s)[i := y], header := h\<rparr>)"
      if "pid x = InvalidPid" for y h
      using that by (intro pf_free_slot [OF Some, of _ y]) simp_all
    ultimately show ?thesis using Some next'
      by (auto simp: wp_simps Let_def flag_simps)
  qed
qed

lemma registFile_pf: "p \<noteq> InvalidPid \<Longrightarrow> pframes A (registFile p f w d) s"
proof -
  assume p: "p \<noteq> InvalidPid"
  have "pf A s (t\<lparr>activeStatus := (activeStatus t)[nat k := setShouldDestroy x]\<rparr>)"
    if "pf A s t" "idx k (activeStatus t) = Some x" for t k x
  proof (rule pf_trans [OF that(1)])
    show "pf A t (t\<lparr>activeStatus := (activeStatus t)[nat k := setShouldDestroy x]\<rparr>)"
      by (intro pf_slot [OF that(2), of _ "setShouldDestroy x"]) (simp_all add: flag_simps)
  qed
  then show ?thesis
    unfolding registFile_def wp_simps
    by (intro wp_mono [OF registFile_loop_pf [OF p]]) (auto simp: wp_simps split: option.splits)
qed

lemma registAdmin_pf: "p \<noteq> InvalidPid \<Longrightarrow> pframes A (registAdmin p) s"
proof -
  assume p: "p \<noteq> InvalidPid"
  have "pframes A (registAdmin_loop p is) s" for "is"
  proof (induction "is")
    case (Cons i "is")
    have "pf A s (s\<lparr>activeStatus := (activeStatus s)[i := y], header := h\<rparr>)"
      if "idx (int i) (activeStatus s) = Some x" "pid x = InvalidPid" for x y h
      using that(2) by (intro pf_free_slot [OF that(1), of _ y]) simp_all
    with Cons show ?case by (auto simp: wp_simps split: option.splits)
  qed (simp add: wp_simps)
  then show ?thesis by (simp add: registAdmin_def wp_simps)
qed

lemma unregist_pf:
  assumes "a \<notin> A"
  shows "pframes A (unregistFile a p) s" and "pframes A (unregistAdmin a p) s"
proof -
  have "pf A s (s\<lparr>activeStatus := (activeStatus s)[nat a := y], header := h\<rparr>)"
    if "idx a (activeStatus s) = Some x" for x y h
    using assms by (intro pf_slot [OF that, of _ y]) simp_all
  then show "pframes A (unregistFile a p) s" "pframes A (unregistAdmin a p) s"
    by (auto simp: unregistFile_def unregistAdmin_def wp_simps split: option.splits)
qed

section \<open>The invariant of the protocol\<close>

definition proto_inv :: "proto \<Rightarrow> bool" where
  "proto_inv p \<longleftrightarrow> shm_inv (fst p) \<and> pend_ok p"

lemma pend_ok_pf_both:
  "shm_inv t \<Longrightarrow> pend_ok (s, pend) \<Longrightarrow> pf (dom pend) s t \<Longrightarrow> proto_inv (t, pend)"
  by (simp add: proto_inv_def pend_ok_pf)

lemma pend_ok_set:
  assumes "pend_ok (s, pend)" and "pf (dom pend - {a}) s t" and "owns_eviction t a i"
  shows "pend_ok (t, pend(a \<mapsto> i))"
  using assms unfolding pend_ok_def pf_def by (auto split: if_splits)

lemma pend_ok_clear:
  assumes "pend_ok (s, pend)" and "pf (dom (pend(a := None))) s t"
  shows "pend_ok (t, pend(a := None))"
proof (rule pend_ok_pf [OF _ assms(2)])
  show "pend_ok (s, pend(a := None))" using assms(1) by (auto simp: pend_ok_def)
qed

lemma pend_okD: "pend_ok (s, pend) \<Longrightarrow> pend a = Some i \<Longrightarrow> stolen s a \<or> owns_eviction s a i"
  by (auto simp: pend_ok_def)

lemma active_bucketsD: "active_buckets s [blk] \<Longrightarrow> idx (bk_bucketId blk) (buckets s) = Some b \<Longrightarrow> isActiveBucket b"
  by (simp add: active_buckets_def)

text \<open>A step that neither starts nor ends an eviction.\<close>

lemma proto_keepI:
  assumes "keeps m s" and "pframes (dom pend) m s" and "m s = (r, t)" and "proto_inv (s, pend)"
  shows "proto_inv (t, pend)"
  using wp_run [OF assms(1,3)] assms(4) wp_run [OF assms(2,3)]
  by (auto simp: proto_inv_def intro: pend_ok_pf)

text \<open>A step that ends the eviction of \<open>a\<close>.\<close>

lemma proto_finishI:
  assumes "keeps m s" and "pframes (dom (pend(a := None))) m s" and "m s = (r, t)" and "proto_inv (s, pend)"
  shows "proto_inv (t, pend(a := None))"
  using wp_run [OF assms(1,3)] assms(4) wp_run [OF assms(2,3)]
  by (auto simp: proto_inv_def intro: pend_ok_clear simp del: dom_fun_upd)

lemma proto_invD: "proto_inv (s, pend) \<Longrightarrow> shm_inv s" "proto_inv (s, pend) \<Longrightarrow> pend_ok (s, pend)"
  by (simp_all add: proto_inv_def)

lemma registeredE:
  assumes "registered s a"
  obtains e where "idx a (activeStatus s) = Some e" "pid e \<noteq> InvalidPid"
  using assms by (auto simp: registered_def)

text \<open>A step that may free the slot of \<open>a\<close>.\<close>

lemma proto_leaveI:
  assumes "keeps m s" and "pframes (dom (pend(a := None))) m s" and "m s = (r, t)" and "proto_inv (s, pend)"
  shows "proto_inv (t, if t = s then pend else pend(a := None))"
  using proto_finishI [OF assms] assms(4) by simp

lemma proto_evict:
  assumes "registered s a" and "markBucketEvicting a s = (Inr info, t)" and "proto_inv (s, pend)"
  shows "proto_inv (t, pend(a \<mapsto> bi_bucketId info))"
proof -
  have inv: "shm_inv s" "pend_ok (s, pend)" using assms(3) by (simp_all add: proto_inv_def)
  from assms(1) obtain e where e: "idx a (activeStatus s) = Some e" "pid e \<noteq> InvalidPid" by (rule registeredE)
  have "shm_inv t" using wp_run [OF markBucketEvicting_keeps [OF inv(1) e(1)] assms(2)] .
  moreover have "pf (dom pend - {a}) s t \<and> owns_eviction t a (bi_bucketId info)"
    using wp_resultD [OF markBucketEvicting_pf [OF inv(1) e] assms(2)] by simp
  ultimately show ?thesis using pend_ok_set [OF inv(2)] by (simp add: proto_inv_def)
qed

lemma proto_evict_none:
  assumes "registered s a" and "markBucketEvicting a s = (Inl x, t)" and "proto_inv (s, pend)"
  shows "proto_inv (t, pend)"
proof -
  have inv: "shm_inv s" "pend_ok (s, pend)" using assms(3) by (simp_all add: proto_inv_def)
  from assms(1) obtain e where e: "idx a (activeStatus s) = Some e" "pid e \<noteq> InvalidPid" by (rule registeredE)
  have "shm_inv t" using wp_run [OF markBucketEvicting_keeps [OF inv(1) e(1)] assms(2)] .
  then show ?thesis
    using inv(2) wp_throwD [OF markBucketEvicting_pf [OF inv(1) e] assms(2)] by (rule pend_ok_pf_both)
qed

lemma proto_step_inv:
  assumes "proto_step cfg p q" and "proto_inv p"
  shows "proto_inv q"
  using assms
proof (induction rule: proto_step.induct)
  case (step_acquire a n f w s r t pend)
  then show ?case using proto_keepI [OF acquireFreeBucket_keeps acquireFreeBucket_pf] proto_invD(1) by blast
next
  case (step_release blks s r t pend)
  then show ?case using proto_keepI [OF releaseBuckets_keeps releaseBuckets_pf] proto_invD(1) by blast
next
  case (step_inactivate blks f a w s r t pend)
  then show ?case using proto_keepI [OF inactivateBuckets_keeps inactivateBuckets_pf] proto_invD(1) by blast
next
  case (step_activate a s pend blk f w r t)
  note inv = proto_invD [OF step_activate(4)]
  have "keeps (activateBucket f blk a w) s"
    using pending_known(1) [OF inv(2) step_activate(2)]
    by (intro activateBucket_keeps [OF inv(1) step_activate(1)]) blast
  from proto_keepI [OF this activateBucket_pf [OF inv(1) step_activate(1) inv(2) step_activate(2)]]
  show ?case using step_activate(3,4) by blast
next
  case (step_evict s a info t pend)
  then show ?case by (rule proto_evict)
next
  case (step_evict_none s a e t pend)
  then show ?case by (rule proto_evict_none)
next
  case (step_finish_acquire pend a i f w s r t)
  note inv = proto_invD [OF step_finish_acquire(4)]
  show ?case
    using proto_finishI [OF evictBucketFinishAndTryAcquire_keeps finish_pf(1)] step_finish_acquire inv(1)
      pend_may_finish [OF inv(2)] pend_okD [OF inv(2)] by (metis domIff fun_upd_same)
next
  case (step_finish_free pend a i s r t)
  note inv = proto_invD [OF step_finish_free(3)]
  show ?case
    using proto_finishI [OF evictBucketFinishAndTryFree_keeps finish_pf(2)] step_finish_free inv(1)
      pend_may_finish [OF inv(2)] pend_okD [OF inv(2)] by (metis domIff fun_upd_same)
next
  case (step_load s a pend blk k f r t)
  note inv = proto_invD [OF step_load(5)]
  from step_load(1) obtain e where "idx a (activeStatus s) = Some e" by (rule registeredE)
  with step_load(2) have a: "idx a (activeStatus s) = Some e" "a \<notin> dom pend" by auto
  have "keeps (markBucketLoading cfg (bk_bucketId blk) k a f) s"
    using a(1) active_bucketsD [OF step_load(3)] by (intro markBucketLoading_keeps [OF inv(1)]) auto
  from proto_keepI [OF this markBucketLoading_pf [OF step_load(3) a(2) inv(1)]]
  show ?case using step_load(4,5) by blast
next
  case (step_load_finish s a pend blk f r t)
  note inv = proto_invD [OF step_load_finish(5)]
  from step_load_finish(2) have a: "a \<notin> dom pend" by auto
  have "keeps (markLoadFinish cfg (bk_bucketId blk) a f) s"
    using active_bucketsD [OF step_load_finish(3)] by (intro markLoadFinish_keeps [OF inv(1)])
  from proto_keepI [OF this markLoadFinish_pf [OF step_load_finish(3) a]]
  show ?case using step_load_finish(4,5) by blast
next
  case (step_extend s blks f r t pend)
  then show ?case using proto_keepI [OF updateActiveFileInfo_keeps updateActiveFileInfo_pf] proto_invD(1) by blast
next
  case (step_delete s blks f r t pend)
  then show ?case using proto_keepI [OF deleteBlocks_keeps deleteBlocks_pf] proto_invD(1) by blast
next
  case (step_size i sz f a s r t pend)
  then show ?case using proto_keepI [OF updateBucketDataSize_keeps updateBucketDataSize_pf] proto_invD(1) by blast
next
  case (step_regist pd f w d s r t pend)
  then show ?case using proto_keepI [OF registration_keeps(1) registFile_pf] proto_invD(1) by blast
next
  case (step_regist_admin pd s r t pend)
  then show ?case using proto_keepI [OF registration_keeps(2) registAdmin_pf] proto_invD(1) by blast
next
  case (step_unregist a pd s r t pend)
  have "a \<notin> dom (pend(a := None))" by simp
  from proto_leaveI [OF registration_keeps(3) unregist_pf(1) [OF this]] show ?case using step_unregist proto_invD(1) by blast
next
  case (step_unregist_admin a pd s r t pend)
  have "a \<notin> dom (pend(a := None))" by simp
  from proto_leaveI [OF registration_keeps(4) unregist_pf(2) [OF this]] show ?case using step_unregist_admin proto_invD(1) by blast
next
  case (step_lock s r t pend)
  then show ?case using proto_keepI [OF shm_lock_keeps shm_lock_pf(1)] proto_invD(1) by blast
next
  case (step_unlock s r t pend)
  then show ?case using proto_keepI [OF shm_unlock_keeps shm_lock_pf(2)] proto_invD(1) by blast
qed

theorem reachable_inv:
  assumes "0 < NUMBER_OF_BLOCKS cfg" and "NUMBER_OF_BLOCKS cfg < 2 ^ 31"
    and "0 \<le> MAX_CONNECTION cfg" and "MAX_CONNECTION cfg < 32768" and "reachable cfg p"
  shows "proto_inv p"
  using assms(5)
proof (induction rule: reachable.induct)
  case (reach_init dir region)
  have "pend_ok (SharedMemoryContext_new cfg dir True region, Map.empty)" by (simp add: pend_ok_def)
  with initial_inv [OF assms(1-4)] show ?case by (simp add: proto_inv_def)
next
  case (reach_step p q)
  then show ?case by (blast intro: proto_step_inv)
qed

end
