(* ===== verification/GW_SharedMemProps.thy ===== *)
theory GW_SharedMemProps
  imports GW_SharedMemProto
begin

text \<open>
  The properties of the shared memory region: what holds in every reachable state, and what the
  single operations do.
\<close>

section \<open>A concrete run\<close>

text \<open>
  The states of a small run, used to show that the hypotheses of the properties can hold: two
  buckets, four slots; a file registers, acquires a bucket, fills and leaves it, and an
  administrator starts to evict it.
\<close>

definition cfg0 :: Configuration where
  "cfg0 = (default_configuration True)\<lparr>NUMBER_OF_BLOCKS := 2, MAX_CONNECTION := 4, LOCAL_BUCKET_SIZE := 8\<rparr>"

definition file0 :: FileId where
  "file0 = \<lparr>hashcode = 7, collisionId = 0\<rparr>"

definition blk0 :: Block where
  "blk0 = \<lparr>bk_bucketId = 0, bk_blockId = 0, isLocal = True, bk_state = BUCKET_ACTIVE, bk_usageCount = 1\<rparr>"

definition run0 :: SharedMemoryContext where
  "run0 = SharedMemoryContext_new cfg0 ''/w'' True
     \<lparr>header = ShareMemHeader_reset 0 0, buckets = [], activeStatus = [], workDir = []\<rparr>"

definition run1 :: SharedMemoryContext where
  "run1 = snd (registFile 100 file0 True False run0)"

definition run2 :: SharedMemoryContext where
  "run2 = snd (acquireFreeBucket 0 1 file0 True run1)"

definition run3 :: SharedMemoryContext where
  "run3 = snd (inactivateBuckets [blk0] file0 0 True run2)"

definition run4 :: SharedMemoryContext where
  "run4 = snd (registAdmin 101 run3)"

definition run5 :: SharedMemoryContext where
  "run5 = snd (markBucketEvicting 1 run4)"

lemma run5_mark: "fst (markBucketEvicting 1 run4) = Inr
    \<lparr>bi_fileId = file0, bi_blockId = 0, bi_bucketId = 0, bi_offset = - 1, bi_dataSize = 0, bi_isLocal = True\<rparr>"
  by code_simp

lemma run4_slot: "map_option pid (idx 1 (activeStatus run4)) = Some 101"
  by code_simp

lemma run5_not_stolen: "map_option isEvictBucketStolen (idx 1 (activeStatus run5)) = Some False"
  by code_simp

lemma run_reachable: "reachable cfg0 (run4, Map.empty)" "reachable cfg0 (run5, [1 \<mapsto> 0])"
proof -
  have "reachable cfg0 (run0, Map.empty)" unfolding run0_def by (rule reach_init)
  then have "reachable cfg0 (run1, Map.empty)"
    by (rule reach_step)
      (rule step_regist [where pd = 100 and f = file0 and w = True and d = False],
       simp_all add: run1_def InvalidPid_def prod_eq_iff)
  then have "reachable cfg0 (run2, Map.empty)"
    by (rule reach_step)
      (rule step_acquire [where a = 0 and n = 1 and f = file0 and w = True],
       simp_all add: run2_def valid_activeId_def prod_eq_iff)
  then have "reachable cfg0 (run3, Map.empty)"
    by (rule reach_step)
      (rule step_inactivate [where blks = "[blk0]" and f = file0 and a = 0 and w = True],
       simp add: run3_def prod_eq_iff)
  then show r4: "reachable cfg0 (run4, Map.empty)"
    by (rule reach_step)
      (rule step_regist_admin [where pd = 101], simp_all add: run4_def InvalidPid_def prod_eq_iff)
  have "registered run4 1"
    using run4_slot by (auto simp: registered_def InvalidPid_def)
  then have "proto_step cfg0 (run4, Map.empty) (run5, [1 \<mapsto> bi_bucketId \<lparr>bi_fileId = file0, bi_blockId = 0,
      bi_bucketId = 0, bi_offset = - 1, bi_dataSize = 0, bi_isLocal = True\<rparr>])"
    by (rule step_evict) (simp add: run5_def prod_eq_iff run5_mark)
  then show "reachable cfg0 (run5, [1 \<mapsto> 0])" using r4 by (auto intro: reach_step)
qed

lemma cfg0_bounds: "0 < NUMBER_OF_BLOCKS cfg0" "NUMBER_OF_BLOCKS cfg0 < 2 ^ 31" "0 \<le> MAX_CONNECTION cfg0"
  "MAX_CONNECTION cfg0 < 32768"
  by (simp_all add: cfg0_def default_configuration_def)

section \<open>Reachable states\<close>

text \<open>
  C1 The invariant of the region holds in every state that calls of the operations of \<^verbatim>\<open>SharedMemoryContext\<close>
  reach from a new region, in any order, with any arguments and whatever their outcome, provided that the
  callers obey the protocol: ids are valid and evictors and loaders are registered; an id finishes the
  eviction it began last, once, and neither starts nor finishes a load while that is pending; loads are into
  active buckets; a block whose bucket is used and marked for eviction is neither extended nor deleted, and
  is activated only while its eviction is pending and was not taken back. The invariant: the arrays have the
  sizes of the header, every bucket is of exactly one type, a bucket that is not active carries no
  activation, and the statistics count the free buckets, the active ones (as active plus loading) and the
  used ones (as used plus evicting). The callers in the repository do not always obey the protocol: what a
  second finish, a deletion during an eviction and an activation of a bucket taken back earlier do to the
  region is shown at the end of this theory.
\<close>

theorem region_invariant:
  assumes "0 < NUMBER_OF_BLOCKS cfg" and "NUMBER_OF_BLOCKS cfg < 2 ^ 31"
    and "0 \<le> MAX_CONNECTION cfg" and "MAX_CONNECTION cfg < 32768" and "reachable cfg (s, pend)"
  shows "shm_inv s"
  using reachable_inv [OF assms] by (simp add: proto_inv_def)

theorem region_invariant_witness: "shm_inv run5"
  using region_invariant [OF cfg0_bounds run_reachable(2)] .

text \<open>
  C2 As long as the callers obey the protocol of \<open>proto_step\<close> (which excludes deleting a block under eviction
  and finishing an eviction twice), two processes do not evict the same bucket: if two active ids have an
  eviction of a bucket pending and neither has been told that the bucket was taken back, they are the same id.
\<close>

theorem evictors_exclusive:
  assumes "0 < NUMBER_OF_BLOCKS cfg" and "NUMBER_OF_BLOCKS cfg < 2 ^ 31"
    and "0 \<le> MAX_CONNECTION cfg" and "MAX_CONNECTION cfg < 32768" and "reachable cfg (s, pend)"
    and "pend a = Some i" and "pend b = Some i" and "\<not> stolen s a" and "\<not> stolen s b"
  shows "a = b"
proof -
  have "pend_ok (s, pend)" using reachable_inv [OF assms(1-5)] by (simp add: proto_inv_def)
  with assms(6-9) have "owns_eviction s a i" "owns_eviction s b i" using pend_okD by blast+
  then show ?thesis by (auto simp: owns_eviction_def)
qed

theorem evictors_exclusive_witness:
  "reachable cfg0 (run5, [1 \<mapsto> 0]) \<and> \<not> stolen run5 1 \<and> (1 :: int) = 1"
proof -
  have "\<not> stolen run5 1" using run5_not_stolen by (auto simp: stolen_def)
  then show ?thesis
    using evictors_exclusive [OF cfg0_bounds run_reachable(2), of 1 0 1] run_reachable(2) by simp
qed

text \<open>
  C3 As long as the callers obey the protocol of \<open>proto_step\<close> (which excludes deleting a block under eviction
  and finishing an eviction twice), an evictor that was not told otherwise finishes the eviction of the block
  it wrote out: until then the bucket stays used and marked by it, and holds the file block that its slot names.
\<close>

theorem evicted_block_stable:
  assumes "0 < NUMBER_OF_BLOCKS cfg" and "NUMBER_OF_BLOCKS cfg < 2 ^ 31"
    and "0 \<le> MAX_CONNECTION cfg" and "MAX_CONNECTION cfg < 32768" and "reachable cfg (s, pend)"
    and "pend a = Some i" and "\<not> stolen s a"
  shows "\<exists>e b. idx a (activeStatus s) = Some e \<and> idx i (buckets s) = Some b \<and> isUsedBucket b \<and>
    isEvictingBucket b \<and> evictLoadActiveId b = a \<and> evictFileId e = b_fileId b \<and>
    a_fileBlockIndex e = b_fileBlockIndex b"
proof -
  have "pend_ok (s, pend)" using reachable_inv [OF assms(1-5)] by (simp add: proto_inv_def)
  with assms(6,7) have "owns_eviction s a i" using pend_okD by blast
  then show ?thesis by (auto simp: owns_eviction_def)
qed

theorem evicted_block_stable_witness:
  "\<exists>e b. idx 1 (activeStatus run5) = Some e \<and> idx 0 (buckets run5) = Some b \<and> isUsedBucket b \<and>
    isEvictingBucket b \<and> evictLoadActiveId b = 1 \<and> evictFileId e = b_fileId b \<and>
    a_fileBlockIndex e = b_fileBlockIndex b"
proof (rule evicted_block_stable [OF cfg0_bounds run_reachable(2)])
  show "[1 \<mapsto> 0] 1 = Some (0 :: int)" by simp
  show "\<not> stolen run5 1" using run5_not_stolen by (auto simp: stolen_def)
qed

section \<open>Choosing a victim\<close>

text \<open>
  C10 \<^verbatim>\<open>markBucketEvicting\<close> always ends. It returns a block exactly when some bucket is used and not yet
  under eviction, and then the block is the content of such a bucket, which it has marked and
  counted; otherwise it throws \<^verbatim>\<open>GopherwoodSharedMemException\<close> and evicts nothing.
\<close>

theorem victim_found:
  assumes "shm_inv s" and "idx a (activeStatus s) = Some e"
  shows "case markBucketEvicting a s of
      (Inr info, t) \<Rightarrow> (\<exists>b b'. idx (bi_bucketId info) (buckets s) = Some b \<and> evictable b \<and>
        bi_fileId info = b_fileId b \<and> bi_blockId info = b_fileBlockIndex b \<and> bi_dataSize info = dataSize b \<and>
        idx (bi_bucketId info) (buckets t) = Some b' \<and> isUsedBucket b' \<and> isEvictingBucket b' \<and>
        evictLoadActiveId b' = a \<and> numEvictingBuckets (header t) = numEvictingBuckets (header s) + 1)
    | (Inl x, t) \<Rightarrow> x = Exn GopherwoodSharedMemException \<and> \<not> list_ex evictable (buckets s) \<and>
        map strip (buckets t) = map strip (buckets s)"
proof -
  let ?Q = "\<lambda>info t. \<exists>b b'. idx (bi_bucketId info) (buckets s) = Some b \<and> evictable b \<and>
        bi_fileId info = b_fileId b \<and> bi_blockId info = b_fileBlockIndex b \<and> bi_dataSize info = dataSize b \<and>
        idx (bi_bucketId info) (buckets t) = Some b' \<and> isUsedBucket b' \<and> isEvictingBucket b' \<and>
        evictLoadActiveId b' = a \<and> numEvictingBuckets (header t) = numEvictingBuckets (header s) + 1"
  let ?E = "\<lambda>x t. x = Exn GopherwoodSharedMemException \<and> \<not> list_ex evictable (buckets s) \<and>
        map strip (buckets t) = map strip (buckets s)"
  have "wp (markBucketEvicting a) ?Q ?E s"
  proof (rule markBucketEvicting_wp [OF assms])
    fix i hand bs b and t :: SharedMemoryContext
    assume str: "map strip bs = map strip (buckets s)" and i: "idx i bs = Some b" and ev: "evictable b"
      and t: "t = s\<lparr>buckets := bs[nat i := evict_mark a b],
            activeStatus := (activeStatus s)[nat a := evict_note b e],
            header := (header s)\<lparr>nextVictimBucket := hand,
               numUsedBuckets := numUsedBuckets (header s) - 1,
               numEvictingBuckets := numEvictingBuckets (header s) + 1\<rparr>\<rparr>"
    have len: "length bs = length (buckets s)" using str by (metis length_map)
    let ?b0 = "buckets s ! nat i"
    have b0: "idx i (buckets s) = Some ?b0" using i len by (simp add: idx_Some_iff)
    have eq: "strip b = strip ?b0" using map_strip_nth [OF str, of "nat i"] i by (auto simp: idx_Some_iff)
    have "idx i (buckets t) = Some (evict_mark a b)" using i by (simp add: t)
    with b0 show "?Q \<lparr>bi_fileId = b_fileId b, bi_blockId = b_fileBlockIndex b, bi_bucketId = i,
        bi_offset = InvalidBlockOffset, bi_dataSize = dataSize b, bi_isLocal = True\<rparr> t"
      using ev strip_eqD [OF eq] by (auto simp: t evict_mark_def evictable_def flag_simps)
  qed simp
  then show ?thesis by (simp only: wp_def)
qed

lemma run4_inv: "shm_inv run4"
  using reachable_inv [OF cfg0_bounds run_reachable(1)] by (simp add: proto_inv_def)

theorem victim_found_witness:
  "\<exists>b b'. idx 0 (buckets run4) = Some b \<and> evictable b \<and> file0 = b_fileId b \<and> 0 = b_fileBlockIndex b \<and>
     0 = dataSize b \<and> idx 0 (buckets run5) = Some b' \<and> isUsedBucket b' \<and> isEvictingBucket b' \<and>
     evictLoadActiveId b' = 1 \<and> numEvictingBuckets (header run5) = numEvictingBuckets (header run4) + 1"
proof -
  from run4_slot obtain e where e: "idx 1 (activeStatus run4) = Some e" by auto
  have "markBucketEvicting 1 run4 = (Inr \<lparr>bi_fileId = file0, bi_blockId = 0, bi_bucketId = 0, bi_offset = - 1,
      bi_dataSize = 0, bi_isLocal = True\<rparr>, run5)"
    using run5_mark by (simp add: run5_def prod_eq_iff)
  then show ?thesis using victim_found [OF run4_inv e] by simp
qed

section \<open>Acquiring free buckets\<close>

text \<open>What acquiring the bucket at an index does to it.\<close>

definition acquired :: "int \<Rightarrow> FileId \<Rightarrow> ShareMemBucket \<Rightarrow> bool" where
  "acquired a f b \<longleftrightarrow> isActiveBucket b \<and> b_fileId b = f \<and> marks b = {#a#}"

text \<open>The indices of the free buckets, in order.\<close>

definition free_ids :: "nat list \<Rightarrow> SharedMemoryContext \<Rightarrow> nat list" where
  "free_ids is s = filter (\<lambda>i. isFreeBucket (buckets s ! i)) is"

lemma acquire_one:
  assumes "shm_inv s" and "i < length (buckets s)" and "isFreeBucket (buckets s ! i)" and "valid_activeId a"
  shows "\<exists>c. mark w a ((setBucketActive (buckets s ! i))\<lparr>b_fileId := f\<rparr>) = Inr c \<and> acquired a f c \<and>
    dataSize c = dataSize (buckets s ! i)"
proof -
  let ?b = "(setBucketActive (buckets s ! i))\<lparr>b_fileId := f\<rparr>"
  have "bucket_ok (buckets s ! i)" using assms(1,2) by (simp add: shm_inv_def list_all_length)
  then have b: "table_ok ?b" "noActiveReadWrite ?b" "isActiveBucket ?b"
    using assms(3) by (auto simp: bucket_ok_def type_simps)
  from mark_idle [OF b(1,2) assms(4)] obtain c where c: "mark w a ?b = Inr c" by blast
  have "marks ?b = {#}" using b(2) by (simp add: marks_empty_iff)
  then have "acquired a f c"
    using mark_ok(2,4) [OF b(1) assms(4) c] bucket_ok_marked(2) [OF b(1,3) assms(4) c]
    by (simp add: acquired_def)
  moreover have "dataSize c = dataSize (buckets s ! i)"
    using mark_ok(7) [OF b(1) assms(4) c] by (simp add: setBucketActive_def)
  ultimately show ?thesis using c by blast
qed

lemma free_ids_skip:
  assumes "i \<notin> set is"
  shows "free_ids is (s\<lparr>buckets := (buckets s)[i := c], header := h\<rparr>) = free_ids is s"
  unfolding free_ids_def
proof (rule filter_cong [OF refl])
  fix x
  assume "x \<in> set is"
  then have "x \<noteq> i" using assms by auto
  then show "isFreeBucket (buckets (s\<lparr>buckets := (buckets s)[i := c], header := h\<rparr>) ! x) = isFreeBucket (buckets s ! x)"
    by simp
qed

lemma acquire_loop_spec:
  assumes "shm_inv s" and "valid_activeId a" and "distinct is"
    and "\<forall>i \<in> set is. i < length (buckets s)" and "0 < n" and "n \<le> length (free_ids is s)"
  shows "\<exists>t. acquire_loop a f w is (int n) res s =
      (Inr (0, res @ map int (take n (free_ids is s))), t) \<and>
    (\<forall>i \<in> set (take n (free_ids is s)). acquired a f (buckets t ! i)) \<and>
    (\<forall>i. i \<notin> set (take n (free_ids is s)) \<longrightarrow> buckets t ! i = buckets s ! i) \<and>
    activeStatus t = activeStatus s \<and> length (buckets t) = length (buckets s) \<and>
    (\<forall>i \<in> set (take n (free_ids is s)). dataSize (buckets t ! i) = dataSize (buckets s ! i)) \<and>
    header t = (header s)\<lparr>numFreeBuckets := numFreeBuckets (header s) - of_nat n,
      numActiveBuckets := numActiveBuckets (header s) + of_nat n\<rparr> \<and> shm_inv t \<and> workDir t = workDir s"
  using assms(1,3-6)
proof (induction "is" arbitrary: s n res)
  case Nil
  then show ?case by (simp add: free_ids_def)
next
  case (Cons i "is")
  have i: "i < length (buckets s)" using Cons.prems by simp
  show ?case
  proof (cases "isFreeBucket (buckets s ! i)")
    case False
    then have "free_ids (i # is) s = free_ids is s" by (simp add: free_ids_def)
    with False i Cons.prems Cons.IH [of s n res] show ?thesis
      by (simp add: run_simps readBucket_def)
  next
    case True
    from acquire_one [OF Cons.prems(1) i True assms(2), of w f] obtain c
      where c: "mark w a ((setBucketActive (buckets s ! i))\<lparr>b_fileId := f\<rparr>) = Inr c" "acquired a f c"
        "dataSize c = dataSize (buckets s ! i)" by blast
    let ?s = "s\<lparr>buckets := (buckets s)[i := c], header := (header s)\<lparr>numFreeBuckets := numFreeBuckets (header s) - 1,
        numActiveBuckets := numActiveBuckets (header s) + 1\<rparr>\<rparr>"
    have inv: "shm_inv ?s"
      using take_free_bucket [OF Cons.prems(1) idx_of_nat [OF i] True assms(2), of w f] c(1) by simp
    have "free_ids is ?s = free_ids is s" using Cons.prems(2) by (intro free_ids_skip) simp
    then have fr: "free_ids (i # is) s = i # free_ids is ?s" using True by (simp add: free_ids_def)
    have step: "acquire_loop a f w (i # is) (int n) res s =
        (if n = 1 then (Inr (0, res @ [int i]), ?s)
         else acquire_loop a f w is (int n - 1) (res @ [int i]) ?s)"
      using i True c(1)
      by (simp add: run_simps readBucket_def modBucket_def writeBucket_def callBucket_def modHeader_def)
    show ?thesis
    proof (cases "n = 1")
      case True
      then show ?thesis using step fr c(2,3) i inv by simp
    next
      case False
      then obtain m where m: "n = Suc m" "0 < m" using Cons.prems(4) by (cases n) auto
      have "m \<le> length (free_ids is ?s)" using Cons.prems(5) fr m by simp
      with Cons.IH [of ?s m "res @ [int i]"] inv Cons.prems m obtain t where
        t: "acquire_loop a f w is (int m) (res @ [int i]) ?s =
            (Inr (0, (res @ [int i]) @ map int (take m (free_ids is ?s))), t)"
          "\<forall>j \<in> set (take m (free_ids is ?s)). acquired a f (buckets t ! j)"
          "\<forall>j. j \<notin> set (take m (free_ids is ?s)) \<longrightarrow> buckets t ! j = buckets ?s ! j"
          "activeStatus t = activeStatus ?s" "length (buckets t) = length (buckets ?s)"
        and size: "\<forall>j \<in> set (take m (free_ids is ?s)). dataSize (buckets t ! j) = dataSize (buckets ?s ! j)"
        and hdr: "header t = (header ?s)\<lparr>numFreeBuckets := numFreeBuckets (header ?s) - of_nat m,
            numActiveBuckets := numActiveBuckets (header ?s) + of_nat m\<rparr>" "shm_inv t" "workDir t = workDir ?s" by auto
      have new: "i \<notin> set (take m (free_ids is ?s))"
        using Cons.prems(2) by (auto simp: free_ids_def dest: in_set_takeD)
      with t(3) c(2,3) i have got: "acquired a f (buckets t ! i)" "dataSize (buckets t ! i) = dataSize (buckets s ! i)" by simp_all
      have "dataSize (buckets t ! j) = dataSize (buckets s ! j)" if "j \<in> set (take m (free_ids is ?s))" for j
        using size that new by (cases "j = i") auto
      moreover have "header t = (header s)\<lparr>numFreeBuckets := numFreeBuckets (header s) - of_nat n,
          numActiveBuckets := numActiveBuckets (header s) + of_nat n\<rparr>"
        using hdr(1) m(1) by (simp add: algebra_simps)
      ultimately show ?thesis using t step False fr m got hdr(2,3) by auto
    qed
  qed
qed

lemma acquire_loop_short:
  assumes "\<forall>i \<in> set is. i < length (buckets s)" and "shm_inv s" and "valid_activeId a" and "distinct is"
    and "int (length (free_ids is s)) < n"
  shows "\<exists>res' t. acquire_loop a f w is n res s = (Inr (n - int (length (free_ids is s)), res'), t)"
  using assms(1,2,4,5)
proof (induction "is" arbitrary: s n res)
  case Nil
  then show ?case by (simp add: run_simps free_ids_def)
next
  case (Cons i "is")
  have i: "i < length (buckets s)" using Cons.prems by simp
  show ?case
  proof (cases "isFreeBucket (buckets s ! i)")
    case False
    then have "free_ids (i # is) s = free_ids is s" by (simp add: free_ids_def)
    with False i Cons.prems Cons.IH [of s n res] show ?thesis
      by (simp add: run_simps readBucket_def)
  next
    case True
    from acquire_one [OF Cons.prems(2) i True assms(3), of w f] obtain c
      where c: "mark w a ((setBucketActive (buckets s ! i))\<lparr>b_fileId := f\<rparr>) = Inr c" by blast
    let ?s = "s\<lparr>buckets := (buckets s)[i := c], header := (header s)\<lparr>numFreeBuckets := numFreeBuckets (header s) - 1,
        numActiveBuckets := numActiveBuckets (header s) + 1\<rparr>\<rparr>"
    have inv: "shm_inv ?s"
      using take_free_bucket [OF Cons.prems(2) idx_of_nat [OF i] True assms(3), of w f] c(1) by simp
    have "free_ids is ?s = free_ids is s" using Cons.prems(3) by (intro free_ids_skip) simp
    then have fr: "length (free_ids (i # is) s) = Suc (length (free_ids is ?s))"
      using True by (simp add: free_ids_def)
    have step: "acquire_loop a f w (i # is) n res s =
        (if n - 1 = 0 then (Inr (0, res @ [int i]), ?s) else acquire_loop a f w is (n - 1) (res @ [int i]) ?s)"
      using i True c(1)
      by (simp add: run_simps readBucket_def modBucket_def writeBucket_def callBucket_def modHeader_def)
    have "n - 1 \<noteq> 0" using Cons.prems(4) fr by simp
    with step Cons.IH [of ?s "n - 1" "res @ [int i]"] inv Cons.prems fr show ?thesis by (simp add: algebra_simps)
  qed
qed

lemma acquireFreeBucket_short:
  assumes "shm_inv s" and "valid_activeId a" and "int (length (free_ids [0..<length (buckets s)] s)) < n"
  shows "fst (acquireFreeBucket a n f w s) = Inl (Exn GopherwoodSharedMemException)"
proof -
  have "nat (numBuckets (header s)) = length (buckets s)"
    using assms(1) by (auto simp: shm_inv_def sizes_ok_def)
  then show ?thesis
    using acquire_loop_short [of "[0..<length (buckets s)]" s a n f w "[]"] assms
    by (auto simp: acquireFreeBucket_def run_simps)
qed

text \<open>
  C21 \<^verbatim>\<open>acquireFreeBucket\<close> hands out the first free buckets, as many as were asked for: each of them becomes
  active, belongs to the file and is marked by the caller alone, and no other bucket changes.
  When there are fewer free buckets it throws \<^verbatim>\<open>GopherwoodSharedMemException\<close>.
\<close>

theorem acquire_free_buckets:
  assumes "shm_inv s" and "valid_activeId a" and "0 < n"
  shows "let free = free_ids [0..<length (buckets s)] s in
    if n \<le> length free
    then \<exists>t. acquireFreeBucket a (int n) f w s = (Inr (map int (take n free)), t) \<and>
      (\<forall>i. buckets t ! i = buckets s ! i \<or> i \<in> set (take n free) \<and> acquired a f (buckets t ! i)) \<and>
      list_all (\<lambda>i. acquired a f (buckets t ! i)) (take n free)
    else fst (acquireFreeBucket a (int n) f w s) = Inl (Exn GopherwoodSharedMemException)"
proof -
  let ?is = "[0..<length (buckets s)]"
  have nb: "nat (numBuckets (header s)) = length (buckets s)"
    using assms(1) by (auto simp: shm_inv_def sizes_ok_def)
  show ?thesis
  proof (cases "n \<le> length (free_ids ?is s)")
    case True
    from acquire_loop_spec [OF assms(1,2) _ _ assms(3) True, of f w "[]"] obtain t where
      t: "acquire_loop a f w ?is (int n) [] s = (Inr (0, map int (take n (free_ids ?is s))), t)"
        "\<forall>i \<in> set (take n (free_ids ?is s)). acquired a f (buckets t ! i)"
        "\<forall>i. i \<notin> set (take n (free_ids ?is s)) \<longrightarrow> buckets t ! i = buckets s ! i" by auto
    then have "acquireFreeBucket a (int n) f w s = (Inr (map int (take n (free_ids ?is s))), t)"
      by (simp add: acquireFreeBucket_def run_simps nb)
    with True t(2,3) show ?thesis by (auto simp: Let_def list_all_iff)
  next
    case False
    with acquireFreeBucket_short [OF assms(1,2), of "int n" f w] show ?thesis by (simp add: Let_def)
  qed
qed

theorem acquire_free_buckets_witness:
  "let free = free_ids [0..<length (buckets run4)] run4 in
    if 1 \<le> length free
    then \<exists>t. acquireFreeBucket 0 (int 1) file0 True run4 = (Inr (map int (take 1 free)), t) \<and>
      (\<forall>i. buckets t ! i = buckets run4 ! i \<or> i \<in> set (take 1 free) \<and> acquired 0 file0 (buckets t ! i)) \<and>
      list_all (\<lambda>i. acquired 0 file0 (buckets t ! i)) (take 1 free)
    else fst (acquireFreeBucket 0 (int 1) file0 True run4) = Inl (Exn GopherwoodSharedMemException)"
  by (rule acquire_free_buckets [OF run4_inv]) (simp_all add: valid_activeId_def)

section \<open>Leaving a bucket\<close>

lemma marks_frame [simp]:
  "marks (b\<lparr>b_fileId := f\<rparr>) = marks b" "marks (b\<lparr>b_fileBlockIndex := k\<rparr>) = marks b"
  "marks (b\<lparr>usageCount := u\<rparr>) = marks b" "marks (setBucketUsed b) = marks b"
  by (simp_all add: marks_def)

lemma unmark_present:
  assumes "table_ok b" and "valid_activeId a" and "a \<in># marks b"
  shows "\<exists>c. unmark w a b = Inr c \<and> marks c = marks b - {#a#}"
  using write_table.unmark_present [OF assms] read_table.unmark_present [OF assms]
  by (auto simp: unmark_def)

text \<open>
  C22 A bucket becomes used exactly when its last activation leaves: \<^verbatim>\<open>inactivateBuckets\<close> removes one
  activation of the caller, records the file and the block, and turns the bucket to used and
  reports the block if no activation is left; otherwise the bucket stays active and nothing is
  reported.
\<close>

theorem last_activation_frees:
  assumes "idx (bk_bucketId blk) (buckets s) = Some b" and "isActiveBucket b" and "table_ok b"
    and "valid_activeId a" and "a \<in># marks b"
  shows "\<exists>t c. inactivateBuckets [blk] f a w s =
      (Inr (if marks b = {#a#} then [blk\<lparr>bk_state := BUCKET_USED\<rparr>] else []), t) \<and>
    idx (bk_bucketId blk) (buckets t) = Some c \<and> marks c = marks b - {#a#} \<and>
    (if marks b = {#a#} then isUsedBucket c else isActiveBucket c) \<and>
    b_fileId c = f \<and> b_fileBlockIndex c = bk_blockId blk"
proof -
  let ?b = "b\<lparr>b_fileId := f, b_fileBlockIndex := bk_blockId blk,
    usageCount := int16 (usageCount b + bk_usageCount blk)\<rparr>"
  have "table_ok ?b" "a \<in># marks ?b" using assms by simp_all
  from unmark_present [OF this(1) assms(4) this(2), of w] obtain c
    where c: "unmark w a ?b = Inr c" "marks c = marks b - {#a#}" by auto
  note frame = unmark_ok [OF c(1)]
  have act: "isActiveBucket c" using assms(2) same_flags(2) [OF frame(2)] by (simp add: flag_simps)
  have idle: "noActiveReadWrite c \<longleftrightarrow> marks b = {#a#}"
  proof -
    have "noActiveReadWrite c \<longleftrightarrow> marks b - {#a#} = {#}" using c(2) marks_empty_iff [of c] by simp
    then show ?thesis using assms(5) by (metis add_mset_remove_trivial insert_DiffM)
  qed
  show ?thesis
    using assms(1,2) c frame act idle
    by (auto simp: run_simps inactivateBucket_def readBucket_def modBucket_def writeBucket_def callBucket_def
        modHeader_def flag_simps)
qed

lemma run2_bucket: "map_option (\<lambda>b. (isActiveBucket b, table_ok b, filter (\<lambda>a. a \<noteq> - 1)
    (map ai_activeId (activeInfos b)))) (idx 0 (buckets run2)) = Some (True, True, [0])"
  by code_simp

theorem last_activation_frees_witness:
  "\<exists>t c. inactivateBuckets [blk0] file0 0 True run2 = (Inr [blk0\<lparr>bk_state := BUCKET_USED\<rparr>], t) \<and>
    idx 0 (buckets t) = Some c \<and> marks c = {#} \<and> isUsedBucket c \<and> b_fileId c = file0 \<and> b_fileBlockIndex c = 0"
proof -
  from run2_bucket obtain b where b: "idx (bk_bucketId blk0) (buckets run2) = Some b" "isActiveBucket b" "table_ok b"
    "filter (\<lambda>a. a \<noteq> - 1) (map ai_activeId (activeInfos b)) = [0]" by (auto simp: blk0_def)
  have "marks b = mset (filter (\<lambda>a. a \<noteq> - 1) (map ai_activeId (activeInfos b)))"
    by (simp only: marks_def InvalidActiveId_def mset_filter)
  then have "marks b = {#0#}" using b(4) by simp
  then show ?thesis
    using last_activation_frees [OF b(1-3), of 0 file0 True] by (simp add: valid_activeId_def blk0_def)
qed

section \<open>Registration\<close>

text \<open>The slots that are free, in order.\<close>

definition free_slots :: "nat list \<Rightarrow> SharedMemoryContext \<Rightarrow> nat list" where
  "free_slots is s = filter (\<lambda>i. pid (activeStatus s ! i) = InvalidPid) is"

lemma registFile_loop_spec:
  assumes "distinct is" and "\<forall>i \<in> set is. i < length (activeStatus s) \<and> i < 32768"
  shows "\<exists>t. registFile_loop p f d is k des s =
      (Inr (if k \<noteq> - 1 \<or> free_slots is s = [] then k else int (hd (free_slots is s)),
            des \<or> (\<exists>i \<in> set is. a_fileId (activeStatus s ! i) = f \<and> shouldDestroy (activeStatus s ! i))), t) \<and>
    length (activeStatus t) = length (activeStatus s) \<and> buckets t = buckets s \<and>
    (\<forall>j. j \<notin> set is \<longrightarrow> activeStatus t ! j = activeStatus s ! j) \<and>
    (\<forall>j \<in> set is. d \<and> a_fileId (activeStatus s ! j) = f \<longrightarrow> shouldDestroy (activeStatus t ! j)) \<and>
    (k = - 1 \<and> free_slots is s \<noteq> [] \<longrightarrow> pid (activeStatus t ! hd (free_slots is s)) = p \<and>
       a_fileId (activeStatus t ! hd (free_slots is s)) = f)"
  using assms
proof (induction "is" arbitrary: s k des)
  case Nil
  then show ?case by (simp add: run_simps free_slots_def)
next
  case (Cons i "is")
  let ?a = "activeStatus s ! i"
  let ?same = "a_fileId ?a = f"
  let ?a1 = "if ?same \<and> d then setShouldDestroy ?a else ?a"
  let ?a2 = "?a1\<lparr>pid := p, a_fileId := f, a_fileBlockIndex := InvalidBlockId\<rparr>"
  let ?a3 = "if d then setForDelete ?a2 else ?a2"
  let ?take = "k = - 1 \<and> pid ?a = InvalidPid"
  define new where "new = (if ?take then ?a3 else ?a1)"
  define s1 where "s1 = (if ?take then s\<lparr>activeStatus := (activeStatus s)[i := ?a3],
      header := (header s)\<lparr>numFileActiveStatus := numFileActiveStatus (header s) + 1\<rparr>\<rparr>
    else s\<lparr>activeStatus := (activeStatus s)[i := ?a1]\<rparr>)"
  define k1 where "k1 = (if ?take then int i else k)"
  define des1 where "des1 = (des \<or> ?same \<and> shouldDestroy ?a)"
  have i: "i < length (activeStatus s)" "int16 (int i) = int i" "i \<notin> set is" "distinct is"
    using Cons.prems by (auto simp: int16_id)
  have step: "registFile_loop p f d (i # is) k des s = registFile_loop p f d is k1 des1 s1"
    using i unfolding s1_def k1_def des1_def
    by (cases ?take) (auto simp: run_simps readStatus_def writeStatus_def modHeader_def Let_def)
  have st: "activeStatus s1 = (activeStatus s)[i := new]" "buckets s1 = buckets s"
    by (simp_all add: s1_def new_def)
  have other: "activeStatus s1 ! j = activeStatus s ! j" if "j \<in> set is" for j
    using that i(3) st(1) by (metis nth_list_update_neq)
  have fr: "free_slots is s1 = free_slots is s"
    unfolding free_slots_def using other by (intro filter_cong) simp_all
  have ex: "(\<exists>i \<in> set is. a_fileId (activeStatus s1 ! i) = f \<and> shouldDestroy (activeStatus s1 ! i)) =
      (\<exists>i \<in> set is. a_fileId (activeStatus s ! i) = f \<and> shouldDestroy (activeStatus s ! i))"
    using other by (intro bex_cong) simp_all
  have bnd: "\<forall>j \<in> set is. j < length (activeStatus s1) \<and> j < 32768" using Cons.prems(2) st(1) by simp
  have len: "length (activeStatus s1) = length (activeStatus s)" by (simp add: st(1))
  from Cons.IH [OF i(4) bnd, of k1 des1, unfolded fr ex st(2) len] obtain t where t:
    "registFile_loop p f d is k1 des1 s1 =
      (Inr (if k1 \<noteq> - 1 \<or> free_slots is s = [] then k1 else int (hd (free_slots is s)),
            des1 \<or> (\<exists>i \<in> set is. a_fileId (activeStatus s ! i) = f \<and> shouldDestroy (activeStatus s ! i))), t)"
    "length (activeStatus t) = length (activeStatus s)" "buckets t = buckets s"
    "\<forall>j. j \<notin> set is \<longrightarrow> activeStatus t ! j = activeStatus s1 ! j"
    "\<forall>j \<in> set is. d \<and> a_fileId (activeStatus s1 ! j) = f \<longrightarrow> shouldDestroy (activeStatus t ! j)"
    "k1 = - 1 \<and> free_slots is s \<noteq> [] \<longrightarrow> pid (activeStatus t ! hd (free_slots is s)) = p \<and>
       a_fileId (activeStatus t ! hd (free_slots is s)) = f"
    by (elim exE conjE) (rule that; assumption)
  have ti: "activeStatus t ! i = new" using t(4) i st(1) by simp
  have new: "d \<Longrightarrow> ?same \<Longrightarrow> shouldDestroy new" "?take \<Longrightarrow> pid new = p \<and> a_fileId new = f"
    by (simp_all add: new_def flag_simps)
  have fr_i: "free_slots (i # is) s = (if pid ?a = InvalidPid then i # free_slots is s else free_slots is s)"
    by (simp add: free_slots_def)
  have rest: "\<forall>j. j \<notin> set (i # is) \<longrightarrow> activeStatus t ! j = activeStatus s ! j"
    using t(4) st(1) by simp
  have marked: "\<forall>j \<in> set (i # is). d \<and> a_fileId (activeStatus s ! j) = f \<longrightarrow> shouldDestroy (activeStatus t ! j)"
    using t(5) ti new(1) other by auto
  have found: "k = - 1 \<and> free_slots (i # is) s \<noteq> [] \<longrightarrow> pid (activeStatus t ! hd (free_slots (i # is) s)) = p \<and>
      a_fileId (activeStatus t ! hd (free_slots (i # is) s)) = f"
    using t(6) ti new(2) by (auto simp: fr_i k1_def)
  have res: "(if k1 \<noteq> - 1 \<or> free_slots is s = [] then k1 else int (hd (free_slots is s))) =
      (if k \<noteq> - 1 \<or> free_slots (i # is) s = [] then k else int (hd (free_slots (i # is) s)))"
    "(des1 \<or> (\<exists>i \<in> set is. a_fileId (activeStatus s ! i) = f \<and> shouldDestroy (activeStatus s ! i))) =
      (des \<or> (\<exists>i \<in> set (i # is). a_fileId (activeStatus s ! i) = f \<and> shouldDestroy (activeStatus s ! i)))"
    by (auto simp: fr_i k1_def des1_def)
  show ?case
    unfolding step
    using t(1)[unfolded res] t(2,3) rest marked found by blast
qed

text \<open>
  \<^verbatim>\<open>registFile\<close> takes the first free slot for the caller and its file, or returns -1 when there is none. A
  request to delete marks every opening of the file, and an opening of a file that is to be
  destroyed is marked as well, so the last one to close the file will destroy it.
\<close>

theorem regist_marks_openings:
  assumes "shm_inv s"
  shows "let n = length (activeStatus s); free = free_slots [0..<n] s in
    \<exists>t. registFile p f w d s = (Inr (if free = [] then - 1 else int (hd free)), t) \<and>
      (d \<longrightarrow> list_all (\<lambda>j. a_fileId (activeStatus s ! j) = f \<longrightarrow> shouldDestroy (activeStatus t ! j)) [0..<n]) \<and>
      (free \<noteq> [] \<longrightarrow> pid (activeStatus t ! hd free) = p \<and> a_fileId (activeStatus t ! hd free) = f \<and>
        (d \<or> list_ex (\<lambda>j. a_fileId (activeStatus s ! j) = f \<and> shouldDestroy (activeStatus s ! j)) [0..<n] \<longrightarrow>
           shouldDestroy (activeStatus t ! hd free)))"
proof -
  define n where "n = length (activeStatus s)"
  define free where "free = free_slots [0..<n] s"
  define des where "des = (d \<or> (\<exists>i \<in> set [0..<n]. a_fileId (activeStatus s ! i) = f \<and> shouldDestroy (activeStatus s ! i)))"
  have nm: "nat (numMaxActiveStatus (header s)) = n" "n < 32768"
    using assms by (auto simp: shm_inv_def sizes_ok_def n_def)
  have "\<forall>i \<in> set [0..<n]. i < length (activeStatus s) \<and> i < 32768" using nm(2) by (auto simp: n_def)
  from registFile_loop_spec [OF distinct_upt this, of p f d "- 1" d] obtain t where t:
    "registFile_loop p f d [0..<n] (- 1) d s =
      (Inr (if free = [] then - 1 else int (hd free), des), t)"
    "length (activeStatus t) = n"
    "\<forall>j \<in> set [0..<n]. d \<and> a_fileId (activeStatus s ! j) = f \<longrightarrow> shouldDestroy (activeStatus t ! j)"
    "free \<noteq> [] \<longrightarrow> pid (activeStatus t ! hd free) = p \<and> a_fileId (activeStatus t ! hd free) = f"
    unfolding free_def [symmetric] des_def [symmetric] by (auto simp: n_def)
  define t1 where "t1 = (if des \<and> free \<noteq> []
    then t\<lparr>activeStatus := (activeStatus t)[hd free := setShouldDestroy (activeStatus t ! hd free)]\<rparr> else t)"
  have hd: "free \<noteq> [] \<Longrightarrow> hd free < n" using hd_in_set [of free] by (auto simp: free_def free_slots_def)
  have run: "registFile p f w d s = (Inr (if free = [] then - 1 else int (hd free)), t1)"
    using t(1,2) hd by (simp add: registFile_def run_simps nm(1) modStatus_def readStatus_def writeStatus_def t1_def)
  have nth: "activeStatus t1 ! j = (if des \<and> free \<noteq> [] \<and> j = hd free then setShouldDestroy (activeStatus t ! j)
      else activeStatus t ! j)" for j
    using hd t(2) by (auto simp: nth_list_update t1_def)
  have marks: "d \<longrightarrow> list_all (\<lambda>j. a_fileId (activeStatus s ! j) = f \<longrightarrow> shouldDestroy (activeStatus t1 ! j)) [0..<n]"
    using t(3) by (auto simp: nth list_all_iff flag_simps)
  have own: "free \<noteq> [] \<longrightarrow> pid (activeStatus t1 ! hd free) = p \<and> a_fileId (activeStatus t1 ! hd free) = f \<and>
      (des \<longrightarrow> shouldDestroy (activeStatus t1 ! hd free))"
    using t(4) by (simp add: nth flag_simps)
  show ?thesis
    unfolding Let_def n_def [symmetric] free_def [symmetric]
    using run marks own by (intro exI [of _ t1]) (simp add: des_def list_ex_iff)
qed

theorem regist_marks_openings_witness:
  "\<exists>t. registFile 55 file0 False True run1 = (Inr 1, t) \<and> shouldDestroy (activeStatus t ! 0) \<and>
     pid (activeStatus t ! 1) = 55 \<and> shouldDestroy (activeStatus t ! 1)"
proof -
  have inv: "shm_inv run1"
    using run_reachable wp_run [OF registration_keeps(1) [OF initial_inv [OF cfg0_bounds]]]
    by (simp add: run1_def run0_def prod_eq_iff)
  have v: "free_slots [0..<length (activeStatus run1)] run1 = [1, 2, 3]" "length (activeStatus run1) = 4"
    "a_fileId (activeStatus run1 ! 0) = file0"
    by code_simp+
  show ?thesis
    using regist_marks_openings [OF inv, of 55 file0 False True] v
    by (auto simp: Let_def list_all_iff)
qed

section \<open>Where the operations do not keep what they promise\<close>

text \<open>
  \<^verbatim>\<open>deleteBlocks\<close> frees a bucket that somebody is evicting. The comment of the source announces
  that such a bucket is marked deleted, but a bucket under eviction is still of type used, and the
  first test of the code accepts it; it becomes free and can be handed out while its evictor
  still writes it out.
\<close>

theorem delete_frees_evicting_bucket:
  assumes "idx (bk_bucketId blk) (buckets s) = Some b" and "isUsedBucket b" and "isEvictingBucket b"
    and "b_fileId b = f"
  shows "\<exists>t c. deleteBlocks [blk] f s = (Inr (), t) \<and> idx (bk_bucketId blk) (buckets t) = Some c \<and>
    isFreeBucket c \<and> \<not> isDeletedBucket c \<and> activeStatus t = activeStatus s \<and>
    numEvictingBuckets (header t) = numEvictingBuckets (header s)"
  using assms
  by (simp add: deleteBlocks_def deleteBlock_shm_def run_simps readBucket_def modBucket_def writeBucket_def
      modHeader_def flag_simps)

lemma run5_bucket: "map_option (\<lambda>b. (isUsedBucket b, isEvictingBucket b, b_fileId b, b_fileBlockIndex b)) (idx 0 (buckets run5)) =
    Some (True, True, file0, 0)"
  by code_simp

theorem delete_frees_evicting_bucket_witness:
  "\<exists>t c. deleteBlocks [blk0] file0 run5 = (Inr (), t) \<and> idx 0 (buckets t) = Some c \<and> isFreeBucket c \<and>
    \<not> isDeletedBucket c \<and> activeStatus t = activeStatus run5 \<and>
    numEvictingBuckets (header t) = numEvictingBuckets (header run5)"
proof -
  from run5_bucket obtain b where "idx (bk_bucketId blk0) (buckets run5) = Some b" "isUsedBucket b"
    "isEvictingBucket b" "b_fileId b = file0" by (auto simp: blk0_def)
  from delete_frees_evicting_bucket [OF this] show ?thesis by (simp add: blk0_def)
qed

text \<open>Two ways in which the statistics show that the invariant is broken.\<close>

lemma count_update_same:
  assumes "idx i bs = Some b" and "P c = P b"
  shows "(of_nat (cnt P (bs[nat i := c])) :: 32 word) = of_nat (cnt P bs)"
  using assms by (auto simp: cnt_update idx_Some_iff)

lemma free_count_broken:
  assumes "shm_inv s" and "idx i (buckets s) = Some b" and "isFreeBucket b" and "isFreeBucket c"
    and "buckets t = (buckets s)[nat i := c]" and "numFreeBuckets (header t) = numFreeBuckets (header s) + 1"
  shows "\<not> shm_inv t"
  using assms count_update_same [OF assms(2), of isFreeBucket c] by (simp add: shm_inv_def counters_ok_def)

lemma active_count_broken:
  assumes "shm_inv s" and "idx i (buckets s) = Some b" and "isActiveBucket c" and "buckets t = (buckets s)[nat i := c]"
    and "numActiveBuckets (header t) + numLoadingBuckets (header t) =
      numActiveBuckets (header s) + numLoadingBuckets (header s) + (if isActiveBucket b then 1 else 0)"
  shows "\<not> shm_inv t"
proof -
  have "(of_nat (cnt isActiveBucket (buckets t)) :: 32 word) = of_nat (cnt isActiveBucket (buckets s)) - of_bool (isActiveBucket b) + 1"
    using assms(2-4) by (simp add: cnt_update idx_Some_iff)
  then show ?thesis using assms(1,5) by (auto simp: shm_inv_def counters_ok_def)
qed

text \<open>What the evictor finds when it finishes: the bucket of \<open>owns_eviction\<close>.\<close>

lemma owns_evictionE:
  assumes "owns_eviction s a i"
  obtains e b where "idx a (activeStatus s) = Some e" "idx i (buckets s) = Some b" "pid e \<noteq> InvalidPid" "isUsedBucket b"
    "isEvictingBucket b" "evictLoadActiveId b = a" "evictFileId e = b_fileId b" "a_fileBlockIndex e = b_fileBlockIndex b"
  using assms by (auto simp: owns_eviction_def)

lemma run5_owns: "owns_eviction run5 1 0" "\<not> stolen run5 1"
proof -
  show st: "\<not> stolen run5 1" using run5_not_stolen by (auto simp: stolen_def)
  have "pend_ok (run5, [1 \<mapsto> 0])" using reachable_inv [OF cfg0_bounds run_reachable(2)] by (simp add: proto_inv_def)
  then show "owns_eviction run5 1 0" using pend_okD [of run5 "[1 \<mapsto> 0]" 1 0] st by simp
qed

lemma run5_inv: "shm_inv run5"
  using reachable_inv [OF cfg0_bounds run_reachable(2)] by (simp add: proto_inv_def)

text \<open>
  C33 Deleting a block that is being evicted breaks the region, whatever its state: the deletion frees the
  bucket, the evictor is not told and finishes with success, the bucket is freed a second time, and the
  statistics count two more free buckets where there is one more.
\<close>

theorem delete_while_evicting_breaks:
  assumes "shm_inv s" and "owns_eviction s a i" and "\<not> stolen s a"
    and "bk_bucketId blk = i" and "idx i (buckets s) = Some b"
  shows "\<exists>s1 s2. deleteBlocks [blk] (b_fileId b) s = (Inr (), s1) \<and> evictBucketFinishAndTryFree i a s1 = (Inr 0, s2) \<and>
    numFreeBuckets (header s2) = numFreeBuckets (header s) + 2 \<and>
    int (cnt isFreeBucket (buckets s2)) = int (cnt isFreeBucket (buckets s)) + 1 \<and> \<not> shm_inv s2"
proof -
  from assms(2,5) obtain e where e: "idx a (activeStatus s) = Some e" "pid e \<noteq> InvalidPid" "isUsedBucket b" "isEvictingBucket b"
    by (auto elim: owns_evictionE)
  let ?c = "setBucketFree ShareMemBucket_reset"
  have ns: "\<not> isEvictBucketStolen e" using assms(3) e by (auto simp: stolen_def)
  define s1 where "s1 = s\<lparr>buckets := (buckets s)[nat i := ?c], header := (header s)\<lparr>
    numUsedBuckets := numUsedBuckets (header s) - 1, numFreeBuckets := numFreeBuckets (header s) + 1\<rparr>\<rparr>"
  define s2 where "s2 = snd (evictBucketFinishAndTryFree i a s1)"
  have del: "deleteBlocks [blk] (b_fileId b) s = (Inr (), s1)"
    using assms(4,5) e(3) by (simp add: deleteBlocks_def deleteBlock_shm_def run_simps readBucket_def modBucket_def writeBucket_def
        modHeader_def s1_def)
  have inv1: "shm_inv s1" using wp_run [OF deleteBlocks_keeps [OF assms(1)] del] .
  have b1: "idx i (buckets s1) = Some ?c" "isFreeBucket ?c" using assms(5) by (simp_all add: s1_def flag_simps)
  have fin: "evictBucketFinishAndTryFree i a s1 = (Inr 0, s2)" "buckets s2 = (buckets s1)[nat i := ?c]"
    "numFreeBuckets (header s2) = numFreeBuckets (header s1) + 1"
    using e(1) ns b1(1) by (simp_all add: s2_def evictBucketFinishAndTryFree_def resetEvictInfo_def run_simps modStatus_def readStatus_def
        writeStatus_def readBucket_def modBucket_def writeBucket_def modHeader_def Let_def flag_simps s1_def)
  have "\<not> isFreeBucket b" using e(3) by (simp add: type_simps)
  then have "int (cnt isFreeBucket (buckets s1)) = int (cnt isFreeBucket (buckets s)) + 1"
    using assms(5) b1(2) by (simp add: s1_def cnt_update idx_Some_iff)
  moreover have "buckets s2 = buckets s1" using fin(2) by (simp add: s1_def)
  moreover have "numFreeBuckets (header s2) = numFreeBuckets (header s) + 2" using fin(3) by (simp add: s1_def)
  ultimately show ?thesis using del fin(1) free_count_broken [OF inv1 b1 b1(2) fin(2,3)] by auto
qed

theorem delete_while_evicting_breaks_witness:
  "\<exists>s1 s2. deleteBlocks [blk0] file0 run5 = (Inr (), s1) \<and> evictBucketFinishAndTryFree 0 1 s1 = (Inr 0, s2) \<and>
    numFreeBuckets (header s2) = numFreeBuckets (header run5) + 2 \<and> \<not> shm_inv s2"
proof -
  from run5_bucket obtain b where "idx 0 (buckets run5) = Some b" "b_fileId b = file0" by auto
  then show ?thesis using delete_while_evicting_breaks [OF run5_inv run5_owns, of blk0 b] by (auto simp: blk0_def)
qed

text \<open>The owner of a block takes its bucket back from the evictor.\<close>

lemma activate_steals:
  assumes "shm_inv s" and "owns_eviction s a i" and "idx i (buckets s) = Some b" and "bk_bucketId blk = i"
    and "bk_blockId blk = b_fileBlockIndex b" and "valid_activeId own"
  obtains s1 c e where "activateBucket (b_fileId b) blk own w s = (Inr 1, s1)" and "shm_inv s1"
    and "idx i (buckets s1) = Some c" and "isActiveBucket c" and "isEvictingBucket c" and "evictLoadActiveId c = a"
    and "b_fileId c = b_fileId b" and "b_fileBlockIndex c = b_fileBlockIndex b" and "marks c = {#own#}" and "table_ok c"
    and "idx a (activeStatus s1) = Some e" and "isEvictBucketStolen e"
proof -
  from assms(2,3) obtain e where e: "idx a (activeStatus s) = Some e" "isUsedBucket b" "isEvictingBucket b" "evictLoadActiveId b = a"
    "evictFileId e = b_fileId b" "a_fileBlockIndex e = b_fileBlockIndex b"
    by (auto elim: owns_evictionE)
  let ?b = "setBucketActive b"
  have "bucket_ok b" using shm_invD(4) [OF assms(1,3)] .
  then have idle: "table_ok ?b" "noActiveReadWrite ?b" "isActiveBucket ?b" using e(2) by (auto simp: bucket_ok_def type_simps flag_simps)
  obtain c where c: "mark w own ?b = Inr c" using mark_idle [OF idle(1,2) assms(6)] by blast
  note m = mark_ok [OF idle(1) assms(6) c]
  define s1 where "s1 = s\<lparr>buckets := (buckets s)[nat i := c], activeStatus := (activeStatus s)[nat a := setBucketStolen e],
    header := (header s)\<lparr>numEvictingBuckets := numEvictingBuckets (header s) - 1, numActiveBuckets := numActiveBuckets (header s) + 1\<rparr>\<rparr>"
  have run: "activateBucket (b_fileId b) blk own w s = (Inr 1, s1)"
    using assms(3-5) e c by (simp add: activateBucket_def Let_def run_simps readBucket_def modBucket_def writeBucket_def callBucket_def
        readStatus_def modStatus_def writeStatus_def modHeader_def s1_def)
  have "evictor_known s x" if "idx (bk_bucketId blk) (buckets s) = Some x" for x
    using that assms(3,4) e by (auto simp: evictor_known_def)
  from wp_run [OF activateBucket_keeps [OF assms(1,6) this] run] have inv: "shm_inv s1" by simp
  have at: "idx i (buckets s1) = Some c" "idx a (activeStatus s1) = Some (setBucketStolen e)"
    using assms(3) e(1) by (simp_all add: s1_def)
  have flags: "isActiveBucket c" "isEvictingBucket c" using idle(3) e(3) same_flags [OF m(3)] by (simp_all add: flag_simps)
  have rest: "evictLoadActiveId c = a" "b_fileId c = b_fileId b" "b_fileBlockIndex c = b_fileBlockIndex b"
    using m(4-6) e(4) by (simp_all add: setBucketActive_def)
  have "marks c = {#own#}" using m(2) idle(2) by (simp add: marks_empty_iff)
  then show ?thesis using that [OF run inv at(1) flags rest _ m(1) at(2)] by (simp add: flag_simps)
qed

text \<open>The evictor learns that its bucket was taken back; its slot forgets the eviction.\<close>

lemma finish_stolen:
  assumes "idx a (activeStatus s) = Some e" and "isEvictBucketStolen e" and "shm_inv s"
  obtains s' e' where "evictBucketFinishAndTryAcquire i a f w s = (Inr 2, s')" and "evictBucketFinishAndTryFree i a s = (Inr 2, s')"
    and "buckets s' = buckets s" and "header s' = header s" and "shm_inv s'" and "idx a (activeStatus s') = Some e'"
    and "\<not> isEvictBucketStolen e'" and "a_fileBlockIndex e' = InvalidBlockId"
proof -
  let ?e = "unsetBucketStolen (unsetEvicting (e\<lparr>evictFileId := FileId_reset, a_fileBlockIndex := InvalidBlockId\<rparr>))"
  define s' where "s' = s\<lparr>activeStatus := (activeStatus s)[nat a := ?e]\<rparr>"
  have "evictBucketFinishAndTryAcquire i a f w s = (Inr 2, s')" "evictBucketFinishAndTryFree i a s = (Inr 2, s')"
    using assms(1,2) by (simp_all add: evictBucketFinishAndTryAcquire_def evictBucketFinishAndTryFree_def resetEvictInfo_def run_simps
        modStatus_def readStatus_def writeStatus_def flag_simps s'_def)
  moreover have "shm_inv s'" by (rule shm_inv_frame [OF assms(3)]) (simp_all add: s'_def)
  moreover have "idx a (activeStatus s') = Some ?e" using assms(1) by (simp add: s'_def)
  moreover have "\<not> isEvictBucketStolen ?e" "a_fileBlockIndex ?e = InvalidBlockId"
    by (simp add: flag_simps, simp add: unsetBucketStolen_def unsetEvicting_def)
  ultimately show ?thesis using that [of s' ?e] by (simp add: s'_def)
qed

text \<open>
  C20 Finishing an eviction a second time takes the bucket away from its owner. The owner of a block takes its
  bucket back while it is being evicted, the evictor finishes and is told so by the result 2. When it then
  finishes the same eviction again, as \<^verbatim>\<open>acquireNewBlocks\<close> does when free buckets were enough meanwhile, the
  call succeeds: the bucket now belongs to the evictor's file, the owner's activation is gone although the
  owner still uses the bucket, and the invariant is broken.
\<close>

theorem second_finish_takes_bucket:
  assumes "shm_inv s" and "owns_eviction s a i" and "idx i (buckets s) = Some b" and "bk_bucketId blk = i"
    and "bk_blockId blk = b_fileBlockIndex b" and "valid_activeId own" and "valid_activeId a"
  shows "\<exists>s1 s2 s3 c rc. activateBucket (b_fileId b) blk own w s = (Inr 1, s1) \<and>
    evictBucketFinishAndTryAcquire i a f w' s1 = (Inr 2, s2) \<and> evictBucketFinishAndTryAcquire i a f w' s2 = (Inr rc, s3) \<and>
    rc \<noteq> 2 \<and> idx i (buckets s3) = Some c \<and> b_fileId c = f \<and> marks c = {#a#} \<and> \<not> shm_inv s3"
proof -
  obtain s1 c1 e1 where s1: "activateBucket (b_fileId b) blk own w s = (Inr 1, s1)" "shm_inv s1" "idx i (buckets s1) = Some c1"
    "isActiveBucket c1" "idx a (activeStatus s1) = Some e1" "isEvictBucketStolen e1"
    using activate_steals [OF assms(1-6)] by metis
  obtain s2 e2 where s2: "evictBucketFinishAndTryAcquire i a f w' s1 = (Inr 2, s2)" "buckets s2 = buckets s1" "shm_inv s2"
    "idx a (activeStatus s2) = Some e2" "\<not> isEvictBucketStolen e2"
    using finish_stolen [OF s1(5,6,2)] by metis
  have i: "idx i (buckets s2) = Some c1" using s1(3) s2(2) by simp
  let ?r = "(setBucketActive ShareMemBucket_reset)\<lparr>b_fileId := f\<rparr>"
  have r: "table_ok ?r" "noActiveReadWrite ?r" "isActiveBucket ?r" using bucket_ok_reset(1) by (simp_all add: bucket_ok_def flag_simps type_simps)
  obtain c where c: "mark w' a ?r = Inr c" using mark_idle [OF r(1,2) assms(7)] by blast
  note m = mark_ok [OF r(1) assms(7) c]
  let ?e = "unsetEvicting (e2\<lparr>evictFileId := FileId_reset, a_fileBlockIndex := InvalidBlockId\<rparr>)"
  define s3 where "s3 = s2\<lparr>activeStatus := (activeStatus s2)[nat a := ?e], buckets := (buckets s2)[nat i := c], header := (header s2)\<lparr>
    numEvictingBuckets := numEvictingBuckets (header s2) - 1, numActiveBuckets := numActiveBuckets (header s2) + 1\<rparr>\<rparr>"
  have run: "evictBucketFinishAndTryAcquire i a f w' s2 = (Inr (if isDeletedBucket c1 then 1 else 0), s3)"
    using s2(4,5) i c by (simp add: evictBucketFinishAndTryAcquire_def resetEvictInfo_def run_simps modStatus_def readStatus_def writeStatus_def
        readBucket_def modBucket_def writeBucket_def callBucket_def modHeader_def Let_def flag_simps s3_def)
  have "isActiveBucket c" using r(3) same_flags(2) [OF m(3)] by simp
  then have "\<not> shm_inv s3" using s1(4) by (intro active_count_broken [OF s2(3) i, of c]) (simp_all add: s3_def)
  moreover have "idx i (buckets s3) = Some c" "b_fileId c = f" using i m(4) by (simp_all add: s3_def)
  moreover have "marks c = {#a#}" using m(2) r(2) by (simp add: marks_empty_iff)
  ultimately show ?thesis using s1(1) s2(1) run by fastforce
qed

theorem second_finish_takes_bucket_witness:
  "\<exists>s1 s2 s3 c rc. activateBucket file0 blk0 0 True run5 = (Inr 1, s1) \<and>
    evictBucketFinishAndTryAcquire 0 1 FileId_new False s1 = (Inr 2, s2) \<and>
    evictBucketFinishAndTryAcquire 0 1 FileId_new False s2 = (Inr rc, s3) \<and> rc \<noteq> 2 \<and> idx 0 (buckets s3) = Some c \<and>
    b_fileId c = FileId_new \<and> marks c = {#1#} \<and> \<not> shm_inv s3"
proof -
  from run5_bucket obtain b where b: "idx 0 (buckets run5) = Some b" "b_fileId b = file0" "b_fileBlockIndex b = 0" by auto
  then show ?thesis using second_finish_takes_bucket [OF run5_inv run5_owns(1) b(1), of blk0 0 True FileId_new False]
    by (simp add: blk0_def valid_activeId_def)
qed

text \<open>Activating a used bucket whose evicting flag is set and whose evictor has forgotten it.\<close>

lemma forgotten_eviction_throws:
  assumes "shm_inv s" and "idx i (buckets s) = Some d" and "isUsedBucket d" and "isEvictingBucket d" and "evictLoadActiveId d = a"
    and "idx a (activeStatus s) = Some e" and "a_fileBlockIndex e \<noteq> b_fileBlockIndex d"
    and "bk_bucketId blk = i" and "bk_blockId blk = b_fileBlockIndex d" and "valid_activeId own"
  shows "\<exists>t y. activateBucket (b_fileId d) blk own w s = (Inl (Exn GopherwoodSharedMemException), t) \<and>
    idx i (buckets t) = Some y \<and> isActiveBucket y \<and> marks y = {#own#} \<and> \<not> shm_inv t"
proof -
  let ?d = "setBucketActive d"
  have "bucket_ok d" using shm_invD(4) [OF assms(1,2)] .
  then have idle: "table_ok ?d" "noActiveReadWrite ?d" "isActiveBucket ?d" using assms(3) by (auto simp: bucket_ok_def type_simps flag_simps)
  obtain y where y: "mark w own ?d = Inr y" using mark_idle [OF idle(1,2) assms(10)] by blast
  note m = mark_ok [OF idle(1) assms(10) y]
  define t where "t = s\<lparr>buckets := (buckets s)[nat i := y]\<rparr>"
  have run: "activateBucket (b_fileId d) blk own w s = (Inl (Exn GopherwoodSharedMemException), t)"
    using assms(2-9) y by (simp add: activateBucket_def Let_def run_simps readBucket_def modBucket_def writeBucket_def callBucket_def
        readStatus_def t_def)
  have act: "isActiveBucket y" using idle(3) same_flags(2) [OF m(3)] by simp
  have "\<not> isActiveBucket d" using assms(3) by (simp add: type_simps)
  then have "\<not> shm_inv t" by (intro active_count_broken [OF assms(1,2) act]) (simp_all add: t_def)
  moreover have "idx i (buckets t) = Some y" using assms(2) by (simp add: t_def)
  moreover have "marks y = {#own#}" using m(2) idle(2) by (simp add: marks_empty_iff)
  ultimately show ?thesis using run act by blast
qed

text \<open>
  C34 A bucket that its owner takes back from an evictor keeps its evicting flag. In any region: the owner
  activates the block, the evictor is told so when it finishes, the owner leaves the block, and the bucket is
  used and still marked for eviction. When the owner comes back, \<^verbatim>\<open>activateBucket\<close> takes the bucket for one under
  eviction, finds an evictor that knows nothing of it, and throws after it has made the bucket active and
  marked it, so the statistics no longer fit the buckets. (No other process acts in between.)
\<close>

theorem stolen_bucket_stays_evicting:
  assumes "shm_inv s" and "owns_eviction s a i" and "idx i (buckets s) = Some b" and "bk_bucketId blk = i"
    and "bk_blockId blk = b_fileBlockIndex b" and "bk_blockId blk \<noteq> InvalidBlockId" and "valid_activeId own"
  shows "\<exists>s1 s2 s3 s4 used c d. activateBucket (b_fileId b) blk own w s = (Inr 1, s1) \<and>
    evictBucketFinishAndTryFree i a s1 = (Inr 2, s2) \<and> inactivateBuckets [blk] (b_fileId b) own w s2 = (Inr used, s3) \<and>
    idx i (buckets s3) = Some c \<and> isUsedBucket c \<and> isEvictingBucket c \<and>
    activateBucket (b_fileId b) blk own w s3 = (Inl (Exn GopherwoodSharedMemException), s4) \<and>
    idx i (buckets s4) = Some d \<and> isActiveBucket d \<and> marks d = {#own#} \<and> \<not> shm_inv s4"
proof -
  obtain s1 c1 e1 where s1: "activateBucket (b_fileId b) blk own w s = (Inr 1, s1)" "shm_inv s1" "idx i (buckets s1) = Some c1"
    "isActiveBucket c1" "isEvictingBucket c1" "evictLoadActiveId c1 = a" "marks c1 = {#own#}" "table_ok c1"
    "idx a (activeStatus s1) = Some e1" "isEvictBucketStolen e1"
    using activate_steals [OF assms(1-5,7)] by metis
  obtain s2 e2 where s2: "evictBucketFinishAndTryFree i a s1 = (Inr 2, s2)" "buckets s2 = buckets s1" "shm_inv s2"
    "idx a (activeStatus s2) = Some e2" "a_fileBlockIndex e2 = InvalidBlockId"
    using finish_stolen [OF s1(9,10,2)] by metis
  let ?c = "c1\<lparr>b_fileId := b_fileId b, b_fileBlockIndex := bk_blockId blk, usageCount := int16 (usageCount c1 + bk_usageCount blk)\<rparr>"
  have "table_ok ?c" "own \<in># marks ?c" using s1(7,8) by simp_all
  from unmark_present [OF this(1) assms(7) this(2), of w] obtain c2 where c2: "unmark w own ?c = Inr c2" "marks c2 = {#}"
    using s1(7) by auto
  note u = unmark_ok [OF c2(1)]
  have idle: "noActiveReadWrite c2" using c2(2) by (simp add: marks_empty_iff)
  let ?d = "setBucketUsed c2"
  define s3 where "s3 = s2\<lparr>buckets := (buckets s2)[nat i := ?d], header := (header s2)\<lparr>
    numActiveBuckets := numActiveBuckets (header s2) - 1, numUsedBuckets := numUsedBuckets (header s2) + 1\<rparr>\<rparr>"
  have i2: "idx i (buckets s2) = Some c1" using s1(3) s2(2) by simp
  have leave: "inactivateBuckets [blk] (b_fileId b) own w s2 = (Inr [blk\<lparr>bk_state := BUCKET_USED\<rparr>], s3)"
    using i2 s1(4) c2(1) idle assms(4)
    by (simp add: run_simps inactivateBucket_def readBucket_def modBucket_def writeBucket_def callBucket_def modHeader_def s3_def)
  have inv3: "shm_inv s3" using wp_run [OF inactivateBuckets_keeps [OF s2(3)] leave] .
  have d: "idx i (buckets s3) = Some ?d" "isUsedBucket ?d" "isEvictingBucket ?d" "idx a (activeStatus s3) = Some e2"
    using i2 s1(5) s2(4) same_flags(4) [OF u(2)] by (simp_all add: s3_def flag_simps)
  have b: "evictLoadActiveId ?d = a" "b_fileId ?d = b_fileId b" "b_fileBlockIndex ?d = bk_blockId blk"
    using u(3-5) s1(6) by (simp_all add: setBucketUsed_def)
  have "a_fileBlockIndex e2 \<noteq> b_fileBlockIndex ?d" using b(3) s2(5) assms(6) by simp
  from forgotten_eviction_throws [OF inv3 d(1-3) b(1) d(4) this, of blk own w] b(2,3) assms(4,7) obtain s4 y where
    "activateBucket (b_fileId b) blk own w s3 = (Inl (Exn GopherwoodSharedMemException), s4)"
    "idx i (buckets s4) = Some y" "isActiveBucket y" "marks y = {#own#}" "\<not> shm_inv s4" by auto
  then show ?thesis using s1(1) s2(1) leave d(1-3) by blast
qed

theorem stolen_bucket_stays_evicting_witness:
  "\<exists>s1 s2 s3 s4 used c d. activateBucket file0 blk0 0 True run5 = (Inr 1, s1) \<and>
    evictBucketFinishAndTryFree 0 1 s1 = (Inr 2, s2) \<and> inactivateBuckets [blk0] file0 0 True s2 = (Inr used, s3) \<and>
    idx 0 (buckets s3) = Some c \<and> isUsedBucket c \<and> isEvictingBucket c \<and>
    activateBucket file0 blk0 0 True s3 = (Inl (Exn GopherwoodSharedMemException), s4) \<and>
    idx 0 (buckets s4) = Some d \<and> isActiveBucket d \<and> marks d = {#0#} \<and> \<not> shm_inv s4"
proof -
  from run5_bucket obtain b where b: "idx 0 (buckets run5) = Some b" "b_fileId b = file0" "b_fileBlockIndex b = 0" by auto
  then show ?thesis using stolen_bucket_stays_evicting [OF run5_inv run5_owns(1) b(1), of blk0 0 True]
    by (simp add: blk0_def valid_activeId_def InvalidBlockId_def)
qed

end
