(* ===== verification/GW_ClockSweep.thy ===== *)
theory GW_ClockSweep
  imports GW_SharedMemProps
begin

text \<open>
  Which bucket the clock sweep of \<^verbatim>\<open>SharedMemoryContext::markBucketEvicting\<close> evicts. The loop walks around the
  buckets and counts their usage down; the definition here looks at the buckets once. The bucket that
  the loop finds is the evictable one with the least usage, and of those with the same usage the
  first one after the hand.
\<close>

definition clock_dist :: "int \<Rightarrow> int \<Rightarrow> nat \<Rightarrow> nat" where
  "clock_dist n hand i = nat ((int i - hand) mod n)"

text \<open>How many buckets the hand passes before bucket \<open>i\<close> can be taken.\<close>

definition clock_weight :: "int \<Rightarrow> int \<Rightarrow> ShareMemBucket list \<Rightarrow> nat \<Rightarrow> nat" where
  "clock_weight n hand bs i = nat (usageCount (bs ! i)) * nat n + clock_dist n hand i"

definition reference_victim :: "int \<Rightarrow> int \<Rightarrow> ShareMemBucket list \<Rightarrow> nat option" where
  "reference_victim n hand bs =
     (let es = filter (\<lambda>i. evictable (bs ! i)) [0..<length bs]
      in find (\<lambda>i. list_all (\<lambda>j. clock_weight n hand bs i \<le> clock_weight n hand bs j) es) es)"

section \<open>The hand moves\<close>

lemma clock_dist_if:
  assumes "0 \<le> hand" and "hand < n" and "int i < n"
  shows "clock_dist n hand i = nat (if hand \<le> int i then int i - hand else int i - hand + n)"
proof (cases "hand \<le> int i")
  case False
  have "(int i - hand) mod n = (int i - hand + n) mod n" by simp
  also have "\<dots> = int i - hand + n" using False assms by (intro mod_pos_pos_trivial) simp_all
  finally show ?thesis using False by (simp add: clock_dist_def)
qed (use assms in \<open>simp add: clock_dist_def\<close>)

lemma clock_dist_less: "0 \<le> hand \<Longrightarrow> hand < n \<Longrightarrow> clock_dist n hand i < nat n"
  by (simp add: clock_dist_def)

lemma clock_dist_next:
  assumes "0 \<le> hand" and "hand < n" and "int i < n"
  shows "clock_dist n ((hand + 1) mod n) i = (if int i = hand then nat n - 1 else clock_dist n hand i - 1)"
proof -
  have h': "(hand + 1) mod n = (if hand + 1 = n then 0 else hand + 1)" using assms by auto
  have "0 \<le> (hand + 1) mod n" "(hand + 1) mod n < n" using assms by simp_all
  note new = clock_dist_if [OF this assms(3)]
  show ?thesis unfolding new clock_dist_if [OF assms] unfolding h' using assms by (auto split: if_splits)
qed

text \<open>In a step of the hand that finds no victim every weight becomes less by one.\<close>

lemma clock_weight_step:
  assumes "int (length bs) = n" and "0 \<le> hand" and "hand < n" and "i < length bs" and "evictable (bs ! i)"
    and "bs' = (if evictable (bs ! nat hand) then bs[nat hand := (bs ! nat hand)\<lparr>usageCount := usageCount (bs ! nat hand) - 1\<rparr>] else bs)"
    and "\<not> (evictable (bs ! nat hand) \<and> usageCount (bs ! nat hand) \<le> 0)"
  shows "clock_weight n hand bs i = Suc (clock_weight n ((hand + 1) mod n) bs' i)"
proof (cases "int i = hand")
  case True
  then have h: "nat hand = i" by simp
  have u: "usageCount (bs ! i) > 0" using assms(5,7) h by simp
  then have "nat (usageCount (bs ! i)) = Suc (nat (usageCount (bs ! i) - 1))" by simp
  moreover have "bs' ! i = (bs ! i)\<lparr>usageCount := usageCount (bs ! i) - 1\<rparr>" using assms(4-6) h by simp
  moreover have "0 < nat n" using assms by simp
  ultimately show ?thesis
    using clock_dist_next [OF assms(2,3), of i] clock_dist_if [OF assms(2,3), of i] True assms(1,4)
    by (simp add: clock_weight_def)
next
  case False
  then have "nat hand \<noteq> i" using assms(2) by simp
  then have "bs' ! i = bs ! i" using assms(6) by simp
  moreover have "0 < clock_dist n hand i" using clock_dist_if [OF assms(2,3), of i] False assms(1-4) by (auto split: if_splits)
  ultimately show ?thesis using clock_dist_next [OF assms(2,3), of i] False assms(1,4) by (simp add: clock_weight_def)
qed

text \<open>The bucket under the hand, when it has no usage left, is the lightest one.\<close>

lemma clock_weight_zero:
  assumes "int (length bs) = n" and "0 \<le> hand" and "hand < n" and "v < length bs" and "clock_weight n hand bs v = 0"
  shows "int v = hand"
  using assms clock_dist_if [OF assms(2,3), of v] by (auto simp: clock_weight_def split: if_splits)

lemma sweep_takes_lightest:
  assumes "int (length bs) = n" and "0 \<le> hand" and "hand < n" and "within n t hand bs"
    and "v < length bs" and "evictable (bs ! v)"
    and "\<And>j. j < length bs \<Longrightarrow> evictable (bs ! j) \<Longrightarrow> clock_weight n hand bs v \<le> clock_weight n hand bs j"
  shows "\<exists>bs'. sweep n t hand bs = (Inr (int v), (int v + 1) mod n, bs') \<and>
    (\<forall>i < length bs. evictable (bs ! i) \<longrightarrow>
       nat (usageCount (bs' ! i)) = (clock_weight n hand bs i - clock_weight n hand bs v) div nat n) \<and>
    (\<forall>i < length bs. \<not> evictable (bs ! i) \<longrightarrow> bs' ! i = bs ! i)"
  using assms
proof (induction n t hand bs rule: sweep.induct)
  case (1 n t hand bs)
  let ?b = "bs ! nat hand" and ?h = "(hand + 1) mod n"
  let ?bs = "if evictable ?b then bs[nat hand := ?b\<lparr>usageCount := usageCount ?b - 1\<rparr>] else bs"
  let ?w = "clock_weight n hand bs" and ?w' = "clock_weight n ?h ?bs"
  have inb: "nat hand < length bs" and h': "0 \<le> ?h" "?h < n"
    and eq: "(if hand + 1 \<ge> n then 0 else hand + 1) = ?h"
    using "1.prems" next_hand by auto
  show ?case
  proof (cases "evictable ?b \<and> usageCount ?b \<le> 0")
    case True
    have "?w (nat hand) = 0" using True "1.prems"(2,3) by (simp add: clock_weight_def clock_dist_def)
    then have w0: "?w v = 0" using "1.prems"(7) [OF inb] True by simp
    then have "int v = hand" using clock_weight_zero [OF "1.prems"(1,2,3,5)] by simp
    moreover have "nat (usageCount (bs ! i)) = (?w i - ?w v) div nat n" for i
      using clock_dist_less [OF "1.prems"(2,3)] "1.prems"(2,3) by (simp add: w0) (simp add: clock_weight_def)
    ultimately show ?thesis using True by (simp add: sweep_step [OF "1.prems"(1-3)] Let_def)
  next
    case False
    have ev: "evictable (?bs ! i) = evictable (bs ! i)" if "i < length bs" for i
      using that by (cases "nat hand = i") auto
    have step: "?w i = Suc (?w' i)" if "i < length bs" "evictable (bs ! i)" for i
      using that False "1.prems" by (intro clock_weight_step) auto
    have len: "int (length ?bs) = n" using "1.prems"(1) by simp
    have least: "?w' v \<le> ?w' j" if "j < length ?bs" "evictable (?bs ! j)" for j
      using "1.prems"(7) [of j] step [of j] step [OF "1.prems"(5,6)] that ev [of j] by (simp split: if_splits)
    have wi: "within n (if evictable ?b then nat n else t - 1) ?h ?bs"
    proof (cases "evictable ?b")
      case True
      then have "list_ex evictable ?bs" using inb ev [OF inb] by (auto simp: list_ex_length intro!: exI [of _ "nat hand"])
      from within_all [OF len h' this] True show ?thesis by simp
    qed (use within_next [OF "1.prems"(4,2,3)] in simp)
    have "\<exists>bs'. sweep n (if evictable ?b then nat n else t - 1) ?h ?bs = (Inr (int v), (int v + 1) mod n, bs') \<and>
        (\<forall>i < length ?bs. evictable (?bs ! i) \<longrightarrow> nat (usageCount (bs' ! i)) = (?w' i - ?w' v) div nat n) \<and>
        (\<forall>i < length ?bs. \<not> evictable (?bs ! i) \<longrightarrow> bs' ! i = ?bs ! i)"
    proof (cases "evictable ?b")
      case True
      then show ?thesis
        using "1.IH"(1) [OF _ refl refl] False inb h' len wi least "1.prems"(2,3,5,6) ev [OF "1.prems"(5)] unfolding eq
        by (simp add: evictable_def)
    next
      case no: False
      have "t - 1 \<noteq> 0" using wi no by (auto simp: within_def)
      with no show ?thesis
        using "1.IH"(2) [OF _ refl refl] inb h' wi least "1.prems"(1-3,5,6) unfolding eq
        by (auto simp: evictable_def)
    qed
    then obtain bs' where bs': "sweep n (if evictable ?b then nat n else t - 1) ?h ?bs = (Inr (int v), (int v + 1) mod n, bs')"
      "\<And>i. i < length bs \<Longrightarrow> evictable (bs ! i) \<Longrightarrow> nat (usageCount (bs' ! i)) = (?w' i - ?w' v) div nat n"
      "\<And>i. i < length bs \<Longrightarrow> \<not> evictable (bs ! i) \<Longrightarrow> bs' ! i = ?bs ! i"
      using ev by auto
    have "sweep n t hand bs = (Inr (int v), (int v + 1) mod n, bs')"
      using bs'(1) False wi by (auto simp: sweep_step [OF "1.prems"(1-3)] Let_def within_def split: if_splits)
    moreover have "bs' ! i = bs ! i" if "i < length bs" "\<not> evictable (bs ! i)" for i
      using bs'(3) [OF that] that by (cases "nat hand = i") auto
    moreover have "nat (usageCount (bs' ! i)) = (?w i - ?w v) div nat n" if "i < length bs" "evictable (bs ! i)" for i
      using bs'(2) [OF that] step [OF that] step [OF "1.prems"(5,6)] by simp
    ultimately show ?thesis by blast
  qed
qed

lemma find_SomeD: "find P xs = Some x \<Longrightarrow> x \<in> set xs \<and> P x"
  by (induction xs) (auto split: if_splits)

text \<open>
  C14 The clock sweep and the reference agree: from any position of the hand the loop of \<^verbatim>\<open>markBucketEvicting\<close>
  stops at the evictable bucket with the least usage, the first such after the hand, and throws when no
  bucket is evictable.
\<close>

theorem clock_sweep_reference:
  assumes "int (length bs) = n" and "0 \<le> hand" and "hand < n"
  shows "fst (sweep n (nat n) hand bs) =
    (case reference_victim n hand bs of None \<Rightarrow> Inl (Exn GopherwoodSharedMemException) | Some v \<Rightarrow> Inr (int v))"
proof -
  let ?es = "filter (\<lambda>i. evictable (bs ! i)) [0..<length bs]" and ?w = "clock_weight n hand bs"
  show ?thesis
  proof (cases "reference_victim n hand bs")
    case (Some v)
    then have v: "v < length bs" "evictable (bs ! v)" "\<And>j. j < length bs \<Longrightarrow> evictable (bs ! j) \<Longrightarrow> ?w v \<le> ?w j"
      by (auto simp: reference_victim_def Let_def list_all_iff dest!: find_SomeD)
    then have "within n (nat n) hand bs" using assms by (intro within_all) (auto simp: list_ex_length)
    from sweep_takes_lightest [OF assms this v] Some show ?thesis by auto
  next
    case None
    have "?es = []"
    proof (rule ccontr)
      assume "?es \<noteq> []"
      then have "hd ?es \<in> set ?es" by (rule hd_in_set)
      then obtain v where "v \<in> set ?es" "\<And>j. j \<in> set ?es \<Longrightarrow> ?w v \<le> ?w j"
        using ex_has_least_nat [of "\<lambda>i. i \<in> set ?es" _ ?w] by blast
      then show False using None by (auto simp: reference_victim_def Let_def find_None_iff list_all_iff)
    qed
    then have "\<not> list_ex evictable bs" by (auto simp: list_ex_length filter_empty_conv)
    from sweep_none [OF assms this, of "nat n"] None show ?thesis by simp
  qed
qed

definition three_buckets :: "ShareMemBucket list" where
  "three_buckets = map (\<lambda>u. (setBucketUsed ShareMemBucket_reset)\<lparr>usageCount := u\<rparr>) [1, 2, 1]"

theorem clock_sweep_reference_witness:
  "reference_victim 3 1 three_buckets = Some 2 \<and> fst (sweep 3 (nat 3) 1 three_buckets) = Inr 2"
proof -
  have "reference_victim 3 1 three_buckets = Some 2" by code_simp
  then show ?thesis using clock_sweep_reference [of three_buckets 3 1] by (simp add: three_buckets_def)
qed

end
