(* ===== verification/GW_LRUCache.thy ===== *)
theory GW_LRUCache
  imports GW_Common "HOL-Library.AList"
begin

text \<open>
  \<^verbatim>\<open>src/common/LRUCache.cpp\<close>: the cache of a file's active blocks, a doubly linked list in order of
  use together with a hash map from keys to list nodes. A list node is a value with an address;
  the map holds addresses, as the iterators of the source do, and the list operations that
  take an iterator search for its node. The data structure is shown to refine a plain list of
  key-value pairs, the most recently used first.
\<close>

record ('k, 'v) LRUCache =
  cache_items_list :: "(nat \<times> 'k \<times> 'v) list"
  cache_items_map :: "('k \<times> nat) list"
  max_size :: nat
  next_node :: nat

text \<open>
  \<open>next_node\<close> is the address the next allocated node gets; the hash map is an association list,
  its order is not observable.
\<close>

definition LRUCache_new :: "nat \<Rightarrow> ('k, 'v) LRUCache" where
  "LRUCache_new m = \<lparr>cache_items_list = [], cache_items_map = [], max_size = m, next_node = 0\<rparr>"

section \<open>List and map primitives\<close>

definition list_erase :: "nat \<Rightarrow> (nat \<times> 'k \<times> 'v) list \<Rightarrow> (nat \<times> 'k \<times> 'v) list" where
  "list_erase it xs = filter (\<lambda>(a, _). a \<noteq> it) xs"

definition list_splice_front :: "nat \<Rightarrow> (nat \<times> 'k \<times> 'v) list \<Rightarrow> (nat \<times> 'k \<times> 'v) list" where
  "list_splice_front it xs = filter (\<lambda>(a, _). a = it) xs @ filter (\<lambda>(a, _). a \<noteq> it) xs"

definition node_key :: "nat \<times> 'k \<times> 'v \<Rightarrow> 'k" where
  "node_key n = fst (snd n)"

section \<open>The operations of the class\<close>

definition lru_size :: "('k, 'v) LRUCache \<Rightarrow> nat" where
  "lru_size c = length (cache_items_map c)"

definition lru_maxSize :: "('k, 'v) LRUCache \<Rightarrow> nat" where
  "lru_maxSize c = max_size c"

definition lru_exists :: "'k \<Rightarrow> ('k, 'v) LRUCache \<Rightarrow> bool" where
  "lru_exists key c = (map_of (cache_items_map c) key \<noteq> None)"

text \<open>
  The last node leaves the map and the list. The key that is reported is \<^verbatim>\<open>last->first\<close>, read after
  \<^verbatim>\<open>pop_back\<close> has freed the node: C++ leaves the value of that read undefined. What the freed memory
  reads as is the parameter \<open>freed\<close>, a function of the key that the node held.
\<close>

definition drop_last :: "('k \<Rightarrow> 'k) \<Rightarrow> ('k, 'v) LRUCache \<Rightarrow> 'k \<times> ('k, 'v) LRUCache" where
  "drop_last freed c =
     (let l = node_key (last (cache_items_list c))
      in (freed l, c\<lparr>cache_items_map := AList.delete l (cache_items_map c),
               cache_items_list := butlast (cache_items_list c)\<rparr>))"

primrec remove_loop :: "('k \<Rightarrow> 'k) \<Rightarrow> nat \<Rightarrow> ('k, 'v) LRUCache \<Rightarrow> 'k list \<times> ('k, 'v) LRUCache" where
  "remove_loop freed 0 c = ([], c)"
| "remove_loop freed (Suc n) c =
     (let (k, c1) = drop_last freed c; (ks, c2) = remove_loop freed n c1 in (k # ks, c2))"

definition lru_removeNumOfKeys :: "('k \<Rightarrow> 'k) \<Rightarrow> nat \<Rightarrow> ('k, 'v) LRUCache \<Rightarrow> 'k list \<times> ('k, 'v) LRUCache" where
  "lru_removeNumOfKeys freed num c = remove_loop freed (if num > lru_size c then lru_size c else num) c"

definition lru_adjustSize :: "('k \<Rightarrow> 'k) \<Rightarrow> bool \<Rightarrow> nat \<Rightarrow> (('k, 'v) LRUCache, gw_error, 'k list) gw" where
  "lru_adjustSize freed ndebug newSize =
     seqE (assertE ndebug (newSize > 0))
    (bindE (getsE lru_size) (\<lambda>currSize.
     bindE (if newSize < currSize
            then (\<lambda>c. case lru_removeNumOfKeys freed (currSize - newSize) c of (ks, c') \<Rightarrow> (Inr ks, c'))
            else retE []) (\<lambda>removed.
     seqE (modifyE (\<lambda>c. c\<lparr>max_size := newSize\<rparr>))
     (retE removed))))"

definition lru_deleteObject :: "'k \<Rightarrow> ('k, 'v) LRUCache \<Rightarrow> ('k, 'v) LRUCache" where
  "lru_deleteObject key c =
     (case map_of (cache_items_map c) key of
        None \<Rightarrow> c
      | Some it \<Rightarrow> c\<lparr>cache_items_list := list_erase it (cache_items_list c),
                     cache_items_map := AList.delete key (cache_items_map c)\<rparr>)"

definition lru_put :: "('k \<Rightarrow> 'k) \<Rightarrow> 'k \<Rightarrow> 'v \<Rightarrow> ('k, 'v) LRUCache \<Rightarrow> 'k list \<times> ('k, 'v) LRUCache" where
  "lru_put freed key value c =
     (let c1 = (case map_of (cache_items_map c) key of
                  None \<Rightarrow> c
                | Some it \<Rightarrow> c\<lparr>cache_items_list := list_erase it (cache_items_list c),
                               cache_items_map := AList.delete key (cache_items_map c)\<rparr>);
          c2 = c1\<lparr>cache_items_list := (next_node c1, key, value) # cache_items_list c1,
                  cache_items_map := AList.update key (next_node c1) (cache_items_map c1),
                  next_node := next_node c1 + 1\<rparr>
      in if length (cache_items_map c2) > max_size c2
         then let (k, c3) = drop_last freed c2 in ([k], c3)
         else ([], c2))"

definition lru_getAllKeyObject :: "('k, 'v) LRUCache \<Rightarrow> 'k list" where
  "lru_getAllKeyObject c = map node_key (cache_items_list c)"

definition lru_get :: "'k \<Rightarrow> ('k, 'v) LRUCache \<Rightarrow> bool \<times> ('k, 'v) LRUCache" where
  "lru_get key c =
     (case map_of (cache_items_map c) key of
        None \<Rightarrow> (False, c)
      | Some it \<Rightarrow> (True, c\<lparr>cache_items_list := list_splice_front it (cache_items_list c)\<rparr>))"

section \<open>The invariant and the abstraction\<close>

definition node_entry :: "nat \<times> 'k \<times> 'v \<Rightarrow> 'k \<times> nat" where
  "node_entry n = (node_key n, fst n)"

definition lru_inv :: "('k, 'v) LRUCache \<Rightarrow> bool" where
  "lru_inv c \<longleftrightarrow>
     distinct (map fst (cache_items_list c)) \<and> distinct (map node_key (cache_items_list c)) \<and>
     distinct (map fst (cache_items_map c)) \<and>
     set (cache_items_map c) = node_entry ` set (cache_items_list c) \<and>
     (\<forall>n \<in> set (cache_items_list c). fst n < next_node c)"

definition lru_abs :: "('k, 'v) LRUCache \<Rightarrow> ('k \<times> 'v) list" where
  "lru_abs c = map snd (cache_items_list c)"

lemma lru_inv_new: "lru_inv (LRUCache_new m)" "lru_abs (LRUCache_new m) = []"
  by (simp_all add: lru_inv_def LRUCache_new_def lru_abs_def)

lemma node_key_abs: "map fst (lru_abs c) = map node_key (cache_items_list c)"
  by (simp add: lru_abs_def node_key_def)

text \<open>The map finds the node of a key, and only that.\<close>

lemma map_find:
  assumes "lru_inv c"
  shows "map_of (cache_items_map c) k = Some a \<longleftrightarrow> (\<exists>v. (a, k, v) \<in> set (cache_items_list c))"
proof -
  have "map_of (cache_items_map c) k = Some a \<longleftrightarrow> (k, a) \<in> set (cache_items_map c)"
    using assms by (simp add: lru_inv_def)
  also have "\<dots> \<longleftrightarrow> (k, a) \<in> node_entry ` set (cache_items_list c)"
    using assms by (simp add: lru_inv_def)
  also have "\<dots> \<longleftrightarrow> (\<exists>v. (a, k, v) \<in> set (cache_items_list c))"
    by (force simp: node_entry_def node_key_def image_iff)
  finally show ?thesis .
qed

lemma map_find_None:
  assumes "lru_inv c"
  shows "map_of (cache_items_map c) k = None \<longleftrightarrow> k \<notin> fst ` set (lru_abs c)"
proof -
  have "k \<in> fst ` set (lru_abs c) \<longleftrightarrow> (\<exists>a v. (a, k, v) \<in> set (cache_items_list c))"
    by (force simp: lru_abs_def)
  then show ?thesis using map_find [OF assms] by (metis not_Some_eq)
qed

lemma lru_size_abs:
  assumes "lru_inv c"
  shows "lru_size c = length (lru_abs c)"
proof -
  have "length (cache_items_map c) = card (set (cache_items_map c))"
    using assms by (metis distinct_card distinct_map lru_inv_def)
  also have "\<dots> = card (node_entry ` set (cache_items_list c))"
    using assms by (simp add: lru_inv_def)
  also have "\<dots> = card (set (cache_items_list c))"
    using assms
    by (intro card_image) (auto simp: lru_inv_def node_entry_def distinct_map inj_on_def)
  also have "\<dots> = length (cache_items_list c)"
    using assms by (metis distinct_card distinct_map lru_inv_def)
  finally show ?thesis by (simp add: lru_size_def lru_abs_def)
qed

lemma same_node:
  assumes "lru_inv c" and "(it, key, v) \<in> set (cache_items_list c)" and "n \<in> set (cache_items_list c)"
  shows "fst n = it \<longleftrightarrow> node_key n = key"
proof -
  have "fst n = it \<longleftrightarrow> n = (it, key, v)"
    using assms by (auto simp: lru_inv_def distinct_map inj_on_def)
  moreover have "node_key n = key \<longleftrightarrow> n = (it, key, v)"
    using assms inj_onD [of node_key "set (cache_items_list c)" n "(it, key, v)"]
    by (auto simp: lru_inv_def distinct_map node_key_def)
  ultimately show ?thesis by simp
qed

lemma erase_node:
  assumes "lru_inv c" and "(it, key, v) \<in> set (cache_items_list c)"
  shows "list_erase it (cache_items_list c) = filter (\<lambda>n. node_key n \<noteq> key) (cache_items_list c)"
    and "list_splice_front it (cache_items_list c) =
      filter (\<lambda>n. node_key n = key) (cache_items_list c) @ filter (\<lambda>n. node_key n \<noteq> key) (cache_items_list c)"
proof -
  have "filter (\<lambda>(a, _). a \<noteq> it) (cache_items_list c) = filter (\<lambda>n. node_key n \<noteq> key) (cache_items_list c)"
    "filter (\<lambda>(a, _). a = it) (cache_items_list c) = filter (\<lambda>n. node_key n = key) (cache_items_list c)"
    by (rule filter_cong [OF refl], simp add: split_beta same_node [OF assms])+
  then show "list_erase it (cache_items_list c) = filter (\<lambda>n. node_key n \<noteq> key) (cache_items_list c)"
    "list_splice_front it (cache_items_list c) =
      filter (\<lambda>n. node_key n = key) (cache_items_list c) @ filter (\<lambda>n. node_key n \<noteq> key) (cache_items_list c)"
    by (simp_all add: list_erase_def list_splice_front_def)
qed

lemma filter_abs: "map snd (filter (\<lambda>n. node_key n \<noteq> k) xs) = filter (\<lambda>p. fst p \<noteq> k) (map snd xs)"
  by (simp add: filter_map o_def node_key_def)

lemma delete_entries:
  "set (AList.delete k (cache_items_map c)) = {p \<in> set (cache_items_map c). fst p \<noteq> k}"
  by (auto simp: AList.delete_eq)

lemma lru_inv_delete:
  assumes "lru_inv c"
  shows "lru_inv (c\<lparr>cache_items_list := filter (\<lambda>n. node_key n \<noteq> k) (cache_items_list c),
    cache_items_map := AList.delete k (cache_items_map c)\<rparr>)"
proof -
  have "distinct (map fst (AList.delete k (cache_items_map c)))"
    using assms AList.distinct_delete by (auto simp: lru_inv_def)
  moreover have "set (AList.delete k (cache_items_map c)) =
      node_entry ` set (filter (\<lambda>n. node_key n \<noteq> k) (cache_items_list c))"
    using assms by (auto simp: delete_entries lru_inv_def node_entry_def)
  ultimately show ?thesis
    using assms by (simp add: lru_inv_def distinct_map_filter)
qed

lemma lru_deleteObject_refines:
  assumes "lru_inv c"
  shows "lru_inv (lru_deleteObject k c)"
    and "lru_abs (lru_deleteObject k c) = filter (\<lambda>p. fst p \<noteq> k) (lru_abs c)"
proof (atomize (full), cases "map_of (cache_items_map c) k")
  case None
  then have "k \<notin> fst ` set (lru_abs c)" using map_find_None [OF assms] by simp
  then have "filter (\<lambda>p. fst p \<noteq> k) (lru_abs c) = lru_abs c" by (force simp: filter_id_conv)
  with None assms show "lru_inv (lru_deleteObject k c) \<and>
      lru_abs (lru_deleteObject k c) = filter (\<lambda>p. fst p \<noteq> k) (lru_abs c)"
    by (simp add: lru_deleteObject_def)
next
  case (Some it)
  then obtain v where "(it, k, v) \<in> set (cache_items_list c)" using map_find [OF assms] by blast
  from erase_node(1) [OF assms this] Some lru_inv_delete [OF assms, of k]
  show "lru_inv (lru_deleteObject k c) \<and>
      lru_abs (lru_deleteObject k c) = filter (\<lambda>p. fst p \<noteq> k) (lru_abs c)"
    by (simp add: lru_deleteObject_def lru_abs_def filter_abs)
qed

lemma drop_last_refines:
  assumes "lru_inv c" and "lru_abs c \<noteq> []"
  shows "fst (drop_last freed c) = freed (fst (last (lru_abs c)))" and "lru_inv (snd (drop_last freed c))"
    and "lru_abs (snd (drop_last freed c)) = butlast (lru_abs c)" and "max_size (snd (drop_last freed c)) = max_size c"
proof -
  let ?xs = "cache_items_list c"
  have ne: "?xs \<noteq> []" using assms(2) by (auto simp: lru_abs_def)
  let ?k = "node_key (last ?xs)"
  have split: "?xs = butlast ?xs @ [last ?xs]" using ne by simp
  have "distinct (map node_key (butlast ?xs @ [last ?xs]))"
    using assms(1) split by (metis lru_inv_def)
  then have "?k \<notin> node_key ` set (butlast ?xs)" by simp
  then have "\<forall>n \<in> set (butlast ?xs). node_key n \<noteq> ?k" by (metis imageI)
  then have "filter (\<lambda>n. node_key n \<noteq> ?k) (butlast ?xs @ [last ?xs]) = butlast ?xs"
    by simp
  then have "butlast ?xs = filter (\<lambda>n. node_key n \<noteq> ?k) ?xs" using split by metis
  then show "lru_inv (snd (drop_last freed c))"
    using lru_inv_delete [OF assms(1), of ?k] by (simp add: drop_last_def Let_def lru_inv_def)
  show "fst (drop_last freed c) = freed (fst (last (lru_abs c)))"
    using ne by (simp add: drop_last_def Let_def lru_abs_def last_map node_key_def)
  show "lru_abs (snd (drop_last freed c)) = butlast (lru_abs c)"
    by (simp add: drop_last_def Let_def lru_abs_def map_butlast)
  show "max_size (snd (drop_last freed c)) = max_size c" by (simp add: drop_last_def Let_def)
qed

section \<open>The abstract cache\<close>

text \<open>The specification: a list of pairs with distinct keys, the most recently used first.\<close>

definition spec_remove :: "nat \<Rightarrow> ('k \<times> 'v) list \<Rightarrow> 'k list \<times> ('k \<times> 'v) list" where
  "spec_remove n xs = (map fst (take n (rev xs)), take (length xs - n) xs)"

definition spec_put :: "nat \<Rightarrow> 'k \<Rightarrow> 'v \<Rightarrow> ('k \<times> 'v) list \<Rightarrow> 'k list \<times> ('k \<times> 'v) list" where
  "spec_put m k v xs =
     (let ys = (k, v) # filter (\<lambda>p. fst p \<noteq> k) xs
      in if length ys > m then spec_remove 1 ys else ([], ys))"

definition spec_get :: "'k \<Rightarrow> ('k \<times> 'v) list \<Rightarrow> ('k \<times> 'v) list" where
  "spec_get k xs = filter (\<lambda>p. fst p = k) xs @ filter (\<lambda>p. fst p \<noteq> k) xs"

lemma remove_loop_refines:
  assumes "lru_inv c" and "n \<le> length (lru_abs c)"
  shows "fst (remove_loop freed n c) = map (\<lambda>p. freed (fst p)) (take n (rev (lru_abs c)))"
    and "lru_inv (snd (remove_loop freed n c))"
    and "lru_abs (snd (remove_loop freed n c)) = take (length (lru_abs c) - n) (lru_abs c)"
    and "max_size (snd (remove_loop freed n c)) = max_size c"
proof (atomize (full), use assms in \<open>induction n arbitrary: c\<close>)
  case 0
  then show ?case by simp
next
  case (Suc n)
  obtain k c1 where d: "drop_last freed c = (k, c1)" by (cases "drop_last freed c") auto
  have ne: "lru_abs c \<noteq> []" using Suc.prems by auto
  note r = drop_last_refines [OF Suc.prems(1) ne, of freed, unfolded d, simplified]
  have "n \<le> length (lru_abs c1)" using Suc.prems r by simp
  note ih = Suc.IH [OF r(2) this]
  obtain xs x where abs: "lru_abs c = xs @ [x]" using ne by (metis append_butlast_last_id)
  show ?case using ih r d by (simp add: Let_def split_beta abs)
qed

lemma lru_removeNumOfKeys_refines:
  assumes "lru_inv c"
  shows "(fst (lru_removeNumOfKeys freed n c), lru_abs (snd (lru_removeNumOfKeys freed n c))) = map_prod (map freed) id (spec_remove n (lru_abs c))"
    and "lru_inv (snd (lru_removeNumOfKeys freed n c))"
    and "max_size (snd (lru_removeNumOfKeys freed n c)) = max_size c"
proof -
  let ?n = "if n > lru_size c then lru_size c else n"
  have "?n \<le> length (lru_abs c)" using lru_size_abs [OF assms] by simp
  note r = remove_loop_refines [OF assms this, of freed]
  show "lru_inv (snd (lru_removeNumOfKeys freed n c))" "max_size (snd (lru_removeNumOfKeys freed n c)) = max_size c"
    using r by (simp_all add: lru_removeNumOfKeys_def)
  show "(fst (lru_removeNumOfKeys freed n c), lru_abs (snd (lru_removeNumOfKeys freed n c))) = map_prod (map freed) id (spec_remove n (lru_abs c))"
    using r(1,3) lru_size_abs [OF assms] by (simp add: lru_removeNumOfKeys_def spec_remove_def)
qed

lemma alist_update_new: "k \<notin> fst ` set xs \<Longrightarrow> AList.update k v xs = xs @ [(k, v)]"
  by (induction xs) auto

lemma push_front_inv:
  assumes "lru_inv c" and "k \<notin> fst ` set (lru_abs c)"
  shows "lru_inv (c\<lparr>cache_items_list := (next_node c, k, v) # cache_items_list c,
    cache_items_map := AList.update k (next_node c) (cache_items_map c), next_node := next_node c + 1\<rparr>)"
proof -
  have k: "k \<notin> node_key ` set (cache_items_list c)"
    using assms(2) by (metis list.set_map node_key_abs)
  moreover have "fst ` set (cache_items_map c) = node_key ` set (cache_items_list c)"
    using assms(1) by (force simp: lru_inv_def node_entry_def image_iff)
  ultimately have "k \<notin> fst ` set (cache_items_map c)" by simp
  note upd = alist_update_new [OF this, of "next_node c"]
  show ?thesis using assms(1) k \<open>k \<notin> fst ` set (cache_items_map c)\<close> unfolding upd
    by (force simp: lru_inv_def node_entry_def node_key_def less_Suc_eq)
qed

lemma lru_put_unfold:
  "lru_put freed k v c =
     (let c1 = lru_deleteObject k c;
          c2 = c1\<lparr>cache_items_list := (next_node c1, k, v) # cache_items_list c1,
                  cache_items_map := AList.update k (next_node c1) (cache_items_map c1),
                  next_node := next_node c1 + 1\<rparr>
      in if lru_size c2 > max_size c2 then let (k, c3) = drop_last freed c2 in ([k], c3) else ([], c2))"
  by (simp add: lru_put_def lru_deleteObject_def lru_size_def cong: if_cong)

lemma max_size_delete: "max_size (lru_deleteObject k c) = max_size c"
  by (simp add: lru_deleteObject_def split: option.splits)

lemma lru_put_refines:
  assumes "lru_inv c"
  shows "(fst (lru_put freed k v c), lru_abs (snd (lru_put freed k v c))) = map_prod (map freed) id (spec_put (max_size c) k v (lru_abs c))"
    and "lru_inv (snd (lru_put freed k v c))" and "max_size (snd (lru_put freed k v c)) = max_size c"
proof -
  define c1 where "c1 = lru_deleteObject k c"
  define c2 where "c2 = c1\<lparr>cache_items_list := (next_node c1, k, v) # cache_items_list c1,
    cache_items_map := AList.update k (next_node c1) (cache_items_map c1), next_node := next_node c1 + 1\<rparr>"
  have c1: "lru_inv c1" "lru_abs c1 = filter (\<lambda>p. fst p \<noteq> k) (lru_abs c)" "max_size c1 = max_size c"
    using lru_deleteObject_refines [OF assms] by (simp_all add: c1_def max_size_delete)
  have inv2: "lru_inv c2" unfolding c2_def using c1 by (intro push_front_inv) auto
  have abs2: "lru_abs c2 = (k, v) # filter (\<lambda>p. fst p \<noteq> k) (lru_abs c)" "max_size c2 = max_size c"
    using c1 by (simp_all add: c2_def lru_abs_def)
  have put: "lru_put freed k v c =
      (if length (lru_abs c2) > max_size c2 then let (k, c3) = drop_last freed c2 in ([k], c3) else ([], c2))"
    unfolding lru_put_unfold lru_size_abs [OF inv2, symmetric] c1_def [symmetric] Let_def c2_def [symmetric]
    by (rule refl)
  have ne: "lru_abs c2 \<noteq> []" using abs2 by simp
  note d = drop_last_refines [OF inv2 ne, of freed]
  show "lru_inv (snd (lru_put freed k v c))" "max_size (snd (lru_put freed k v c)) = max_size c"
    using inv2 d(2,4) abs2 by (auto simp: put split_beta Let_def)
  have "spec_put (max_size c) k v (lru_abs c) =
      (if length (lru_abs c2) > max_size c2 then spec_remove 1 (lru_abs c2) else ([], lru_abs c2))"
    by (simp only: spec_put_def abs2 Let_def)
  moreover have "spec_remove 1 (lru_abs c2) = ([fst (last (lru_abs c2))], butlast (lru_abs c2))"
    using ne by (cases "lru_abs c2" rule: rev_cases) (simp_all add: spec_remove_def)
  ultimately show "(fst (lru_put freed k v c), lru_abs (snd (lru_put freed k v c))) = map_prod (map freed) id (spec_put (max_size c) k v (lru_abs c))"
    using d(1,3) by (simp add: put split_beta Let_def)
qed

lemma lru_get_refines:
  assumes "lru_inv c"
  shows "fst (lru_get k c) = (k \<in> fst ` set (lru_abs c)) \<and> lru_inv (snd (lru_get k c)) \<and>
    lru_abs (snd (lru_get k c)) = spec_get k (lru_abs c) \<and> max_size (snd (lru_get k c)) = max_size c"
proof (cases "map_of (cache_items_map c) k")
  case None
  then have k: "k \<notin> fst ` set (lru_abs c)" using map_find_None [OF assms] by simp
  then have "filter (\<lambda>p. fst p = k) (lru_abs c) = []" "filter (\<lambda>p. fst p \<noteq> k) (lru_abs c) = lru_abs c"
    by (force simp: filter_empty_conv, force simp: filter_id_conv)
  with None k assms show ?thesis
    by (simp add: lru_get_def spec_get_def)
next
  case (Some it)
  then obtain v where v: "(it, k, v) \<in> set (cache_items_list c)" using map_find [OF assms] by blast
  have k: "k \<in> fst ` set (lru_abs c)" using Some map_find_None [OF assms] by (metis option.distinct(1))
  let ?l = "filter (\<lambda>n. node_key n = k) (cache_items_list c) @ filter (\<lambda>n. node_key n \<noteq> k) (cache_items_list c)"
  have "lru_inv (c\<lparr>cache_items_list := ?l\<rparr>)"
    using assms by (auto simp: lru_inv_def distinct_map_filter distinct_map inj_on_def)
  with Some k erase_node(2) [OF assms v] show ?thesis
    by (simp add: lru_get_def spec_get_def lru_abs_def filter_map o_def node_key_def)
qed

lemma lru_exists_refines: "lru_inv c \<Longrightarrow> lru_exists k c = (k \<in> fst ` set (lru_abs c))"
  using map_find_None [of c k] by (auto simp: lru_exists_def)

section \<open>What users of the cache rely on\<close>

text \<open>
  The contract under which \<^verbatim>\<open>FileActiveStatus\<close> uses the cache. \<open>abs\<close> is the list of cached
  pairs, the most recently used first; a key that is dropped is reported as \<open>reported\<close> gives it.
\<close>

locale recency_cache =
  fixes reported :: "'k \<Rightarrow> 'k"
    and put :: "'k \<Rightarrow> 'v \<Rightarrow> 'c \<Rightarrow> 'k list \<times> 'c"
    and remove :: "nat \<Rightarrow> 'c \<Rightarrow> 'k list \<times> 'c"
    and present :: "'k \<Rightarrow> 'c \<Rightarrow> bool"
    and csize :: "'c \<Rightarrow> nat"
    and cap :: "'c \<Rightarrow> nat"
    and inv :: "'c \<Rightarrow> bool"
    and abs :: "'c \<Rightarrow> ('k \<times> 'v) list"
  assumes put_spec: "inv c \<Longrightarrow> (fst (put k v c), abs (snd (put k v c))) = map_prod (map reported) id (spec_put (cap c) k v (abs c))"
    and put_inv: "inv c \<Longrightarrow> inv (snd (put k v c))"
    and put_cap: "inv c \<Longrightarrow> cap (snd (put k v c)) = cap c"
    and remove_spec: "inv c \<Longrightarrow> (fst (remove n c), abs (snd (remove n c))) = map_prod (map reported) id (spec_remove n (abs c))"
    and remove_inv: "inv c \<Longrightarrow> inv (snd (remove n c))"
    and remove_cap: "inv c \<Longrightarrow> cap (snd (remove n c)) = cap c"
    and present_spec: "inv c \<Longrightarrow> present k c = (k \<in> fst ` set (abs c))"
    and size_spec: "inv c \<Longrightarrow> csize c = length (abs c)"
begin

lemma put_abs: "inv c \<Longrightarrow> abs (snd (put k v c)) = snd (spec_put (cap c) k v (abs c))"
  using put_spec [of c k v] by (simp add: prod_eq_iff)

lemma put_evicted: "inv c \<Longrightarrow> fst (put k v c) = map reported (fst (spec_put (cap c) k v (abs c)))"
  using put_spec [of c k v] by (simp add: prod_eq_iff)

lemma remove_abs: "inv c \<Longrightarrow> abs (snd (remove n c)) = take (length (abs c) - n) (abs c)"
  using remove_spec [of c n] by (simp add: prod_eq_iff spec_remove_def)

lemma remove_keys: "inv c \<Longrightarrow> fst (remove n c) = map reported (map fst (take n (rev (abs c))))"
  using remove_spec [of c n] by (simp add: prod_eq_iff spec_remove_def)

text \<open>The cache never outgrows its capacity, and a key that was put is there.\<close>

lemma put_bounded:
  assumes "inv c" and "csize c \<le> cap c" and "0 < cap c"
  shows "csize (snd (put k v c)) \<le> cap (snd (put k v c))"
proof -
  have "length (filter (\<lambda>p. fst p \<noteq> k) (abs c)) \<le> cap c"
    using order_trans [OF length_filter_le, of "abs c" "cap c" "\<lambda>p. fst p \<noteq> k"] assms(1,2)
    by (simp add: size_spec)
  then have "length (snd (spec_put (cap c) k v (abs c))) \<le> cap c"
    by (simp add: spec_put_def Let_def spec_remove_def)
  then show ?thesis using assms by (simp add: size_spec put_inv put_abs put_cap)
qed

lemma put_present:
  assumes "inv c" and "0 < cap c"
  shows "present k (snd (put k v c))"
proof -
  let ?ys = "(k, v) # filter (\<lambda>p. fst p \<noteq> k) (abs c)"
  have "(k, v) \<in> set (snd (spec_put (cap c) k v (abs c)))"
    using assms(2) by (auto simp: spec_put_def Let_def spec_remove_def take_Cons')
  then have "(k, v) \<in> set (abs (snd (put k v c)))" using put_abs [OF assms(1)] by simp
  then show ?thesis using present_spec [OF put_inv [OF assms(1)]] by force
qed

text \<open>Removing takes entries from the end of the list and reports each of them once, the oldest first.\<close>

lemma remove_partition:
  assumes "inv c"
  shows "map (\<lambda>p. reported (fst p)) (abs c) = map (\<lambda>p. reported (fst p)) (abs (snd (remove n c))) @ rev (fst (remove n c))"
proof -
  have "rev (take n (rev (abs c))) = drop (length (abs c) - n) (abs c)"
    by (simp add: rev_take)
  then show ?thesis
    using assms by (simp add: remove_abs remove_keys rev_map o_def flip: map_append)
qed

lemma remove_size:
  assumes "inv c"
  shows "csize (snd (remove n c)) = csize c - n" and "length (fst (remove n c)) = min n (csize c)"
  using assms by (simp_all add: size_spec remove_inv remove_abs remove_keys)

text \<open>Keys put into an empty cache with enough room come out in the order they went in.\<close>

lemma put_all_abs:
  assumes "inv c" and "length (abs c) + length ps \<le> cap c" and "distinct (map fst ps)"
    and "fst ` set ps \<inter> fst ` set (abs c) = {}"
  shows "inv (fold (\<lambda>p c. snd (put (fst p) (snd p) c)) ps c) \<and>
    abs (fold (\<lambda>p c. snd (put (fst p) (snd p) c)) ps c) = rev ps @ abs c"
  using assms
proof (induction ps arbitrary: c)
  case Nil
  then show ?case by simp
next
  case (Cons p ps)
  let ?c = "snd (put (fst p) (snd p) c)"
  have "fst p \<notin> fst ` set (abs c)" using Cons.prems(4) by auto
  then have "filter (\<lambda>q. fst q \<noteq> fst p) (abs c) = abs c"
    unfolding filter_id_conv by (metis imageI)
  then have abs: "abs ?c = p # abs c"
    using Cons.prems(1,2) by (simp add: put_abs spec_put_def Let_def)
  have "inv ?c" "cap ?c = cap c" using Cons.prems(1) by (simp_all add: put_inv put_cap)
  then show ?case using Cons.IH [of ?c] Cons.prems abs by auto
qed

lemma fifo:
  assumes "inv c" and "abs c = []" and "length ps \<le> cap c" and "distinct (map fst ps)"
  shows "fst (remove n (fold (\<lambda>p c. snd (put (fst p) (snd p) c)) ps c)) = map reported (map fst (take n ps))"
  using put_all_abs [of c ps] assms by (simp add: remove_keys)

end

interpretation lru: recency_cache freed "lru_put freed" "lru_removeNumOfKeys freed" lru_exists lru_size lru_maxSize lru_inv lru_abs
  for freed :: "'k \<Rightarrow> 'k"
  by unfold_locales
    (simp_all add: lru_put_refines lru_removeNumOfKeys_refines lru_exists_refines lru_size_abs lru_maxSize_def)

section \<open>Properties of the cache\<close>

text \<open>
  C18 The cache refines a list of entries in order of use: putting a key moves it to the front with
  its new value and drops the least recently used entry when the capacity is exceeded; the linked
  list and the hash map stay consistent. One key is reported then, but the code reads it from the
  node it has just freed: it is whatever the freed memory reads as, and the key that was dropped
  only as long as that memory is left alone.
\<close>

theorem lru_put_refinement:
  assumes "lru_inv c"
  shows "lru_inv (snd (lru_put freed k v c)) \<and>
    (let ys = (k, v) # filter (\<lambda>p. fst p \<noteq> k) (lru_abs c) in
     (fst (lru_put freed k v c), lru_abs (snd (lru_put freed k v c))) =
       (if length ys > lru_maxSize c then ([freed (fst (last ys))], butlast ys) else ([], ys)))"
proof -
  let ?ys = "(k, v) # filter (\<lambda>p. fst p \<noteq> k) (lru_abs c)"
  have "fst (spec_remove 1 ?ys) = [fst (last ?ys)]" "snd (spec_remove 1 ?ys) = butlast ?ys"
    unfolding spec_remove_def fst_conv snd_conv butlast_conv_take
    by (simp_all add: take_Suc hd_rev del: rev.simps last.simps)
  then have "spec_remove 1 ?ys = ([fst (last ?ys)], butlast ?ys)" by (simp only: prod_eq_iff fst_conv snd_conv)
  then show ?thesis
    using lru.put_spec [OF assms, of freed k v] lru.put_inv [OF assms, of freed k v] by (simp add: spec_put_def Let_def)
qed

definition cache2 :: "(int, int) LRUCache" where
  "cache2 = snd (lru_put id 2 20 (snd (lru_put id 1 10 (LRUCache_new 2))))"

text \<open>An allocator that clears what it frees.\<close>

definition freed0 :: "int \<Rightarrow> int" where
  "freed0 k = 0"

lemma cache2_inv: "lru_inv cache2"
  unfolding cache2_def by (intro lru_put_refines(2) lru_inv_new)

lemma cache2_abs: "lru_abs cache2 = [(2, 20), (1, 10)]" "lru_maxSize cache2 = 2"
  by (code_simp, code_simp)

theorem lru_put_refinement_witness:
  "lru_inv (snd (lru_put freed0 3 30 cache2)) \<and> fst (lru_put freed0 3 30 cache2) = [0] \<and>
   lru_abs (snd (lru_put freed0 3 30 cache2)) = [(3, 30), (2, 20)]"
  using lru_put_refinement [OF cache2_inv, of freed0 3 30] by (simp add: cache2_abs Let_def freed0_def)

text \<open>
  \<^verbatim>\<open>removeNumOfKeys\<close> drops the least recently used entries, oldest first, and reports each of them once,
  as its freed node reads; all others stay in their order.
\<close>

theorem lru_remove_oldest:
  assumes "lru_inv c"
  shows "map (\<lambda>p. freed (fst p)) (lru_abs c) =
      map (\<lambda>p. freed (fst p)) (lru_abs (snd (lru_removeNumOfKeys freed n c))) @ rev (fst (lru_removeNumOfKeys freed n c)) \<and>
    length (fst (lru_removeNumOfKeys freed n c)) = min n (lru_size c) \<and> lru_inv (snd (lru_removeNumOfKeys freed n c))"
  using lru.remove_partition [OF assms] lru.remove_size(2) [OF assms] lru.remove_inv [OF assms] by blast

theorem lru_remove_oldest_witness:
  "map fst (lru_abs (snd (lru_removeNumOfKeys id 1 cache2))) @ rev (fst (lru_removeNumOfKeys id 1 cache2)) = [2, 1] \<and>
   length (fst (lru_removeNumOfKeys id 1 cache2)) = min 1 (lru_size cache2)"
  using lru_remove_oldest [OF cache2_inv, of id 1] by (simp add: cache2_abs)

text \<open>
  Blocks that entered the cache and were not used since leave it in the order in which they
  entered, and are reported as the freed nodes read.
\<close>

theorem lru_fifo:
  assumes "length ps \<le> m" and "distinct (map fst ps)"
  shows "fst (lru_removeNumOfKeys freed n (fold (\<lambda>p c. snd (lru_put freed (fst p) (snd p) c)) ps (LRUCache_new m))) =
    map freed (map fst (take n ps))"
  using assms by (intro lru.fifo) (simp_all add: lru_inv_new lru_maxSize_def, simp add: LRUCache_new_def)

theorem lru_fifo_witness:
  "fst (lru_removeNumOfKeys id 2 (fold (\<lambda>p c. snd (lru_put id (fst p) (snd p) c)) [(5, 1), (6, 2), (7 :: int, 3 :: int)]
     (LRUCache_new 4))) = [5, 6]"
  using lru_fifo [of "[(5, 1), (6, 2), (7 :: int, 3 :: int)]" 4 id 2] by simp

text \<open>
  A cache within its capacity stays within it, and the key that was put is in it.
\<close>

theorem lru_put_bounded:
  assumes "lru_inv c" and "lru_size c \<le> lru_maxSize c" and "0 < lru_maxSize c"
  shows "lru_size (snd (lru_put freed k v c)) \<le> lru_maxSize (snd (lru_put freed k v c)) \<and> lru_exists k (snd (lru_put freed k v c))"
  using lru.put_bounded [OF assms] lru.put_present [OF assms(1,3)] by blast

theorem lru_put_bounded_witness:
  "lru_size (snd (lru_put id 3 30 cache2)) \<le> lru_maxSize (snd (lru_put id 3 30 cache2)) \<and>
   lru_exists 3 (snd (lru_put id 3 30 cache2))"
  using lru_put_bounded [OF cache2_inv, of id 3 30] lru_size_abs [OF cache2_inv] by (simp add: cache2_abs)

end
