(* ===== verification/GW_PosixFile.thy ===== *)
theory GW_PosixFile
  imports GW_Common
begin

text \<open>
  The part of the POSIX file interface that Gopherwood calls: a store of directory entries and
  inodes, and \<^verbatim>\<open>open\<close>, \<^verbatim>\<open>access\<close>, \<^verbatim>\<open>lseek\<close>, \<^verbatim>\<open>read\<close>, \<^verbatim>\<open>write\<close>, \<^verbatim>\<open>ftruncate\<close> and \<^verbatim>\<open>remove\<close> over it. A file
  descriptor is an inode with an offset of its own, so two processes that opened a file see
  each other's writes but not each other's offsets. Opening can fail, and a full device makes
  writes short; both are given by the store.
\<close>

record FileStore =
  dirents :: "(string \<times> nat) list"
  inodes :: "byte list list"
  openFails :: "string \<Rightarrow> bool"
  diskFree :: nat

record Fd =
  fd_inode :: nat
  fd_off :: nat

definition file_bytes :: "FileStore \<Rightarrow> nat \<Rightarrow> byte list" where
  "file_bytes st i = (if i < length (inodes st) then inodes st ! i else [])"

definition set_bytes :: "nat \<Rightarrow> byte list \<Rightarrow> FileStore \<Rightarrow> FileStore" where
  "set_bytes i bs st = st\<lparr>inodes := (inodes st)[i := bs]\<rparr>"

definition posix_access :: "string \<Rightarrow> FileStore \<Rightarrow> bool" where
  "posix_access path st = (map_of (dirents st) path \<noteq> None)"

text \<open>\<^verbatim>\<open>open(path, O_CREAT | O_RDWR)\<close>; \<open>None\<close> is the descriptor -1.\<close>

definition posix_open :: "string \<Rightarrow> FileStore \<Rightarrow> Fd option \<times> FileStore" where
  "posix_open path st =
     (if openFails st path then (None, st)
      else case map_of (dirents st) path of
        Some i \<Rightarrow> (Some \<lparr>fd_inode = i, fd_off = 0\<rparr>, st)
      | None \<Rightarrow> (Some \<lparr>fd_inode = length (inodes st), fd_off = 0\<rparr>,
                 st\<lparr>dirents := (path, length (inodes st)) # dirents st, inodes := inodes st @ [[]]\<rparr>))"

text \<open>\<^verbatim>\<open>lseek\<close> with \<^verbatim>\<open>SEEK_SET\<close> and with \<^verbatim>\<open>SEEK_END\<close>; a negative target fails and moves nothing.\<close>

datatype whence = SEEK_SET | SEEK_END

definition posix_lseek :: "int \<Rightarrow> whence \<Rightarrow> FileStore \<Rightarrow> Fd \<Rightarrow> Fd" where
  "posix_lseek offset w st fd =
     (let target = (case w of SEEK_SET \<Rightarrow> offset
                    | SEEK_END \<Rightarrow> int (length (file_bytes st (fd_inode fd))) + offset)
      in if target < 0 then fd else fd\<lparr>fd_off := nat target\<rparr>)"

definition posix_read :: "nat \<Rightarrow> FileStore \<Rightarrow> Fd \<Rightarrow> byte list \<times> Fd" where
  "posix_read n st fd =
     (let bs = take n (drop (fd_off fd) (file_bytes st (fd_inode fd)))
      in (bs, fd\<lparr>fd_off := fd_off fd + length bs\<rparr>))"

text \<open>Bytes stored at an offset; a gap before it reads as zeros.\<close>

definition store_at :: "nat \<Rightarrow> byte list \<Rightarrow> byte list \<Rightarrow> byte list" where
  "store_at off bs f =
     take off (f @ replicate (off - length f) 0) @ bs @ drop (off + length bs) f"

text \<open>
  \<^verbatim>\<open>write\<close>: what exceeds the end of the file needs space on the device; the result is the
  number of bytes written, -1 when there was no room for any.
\<close>

definition posix_write :: "byte list \<Rightarrow> FileStore \<Rightarrow> Fd \<Rightarrow> int \<times> FileStore \<times> Fd" where
  "posix_write bs st fd =
     (let f = file_bytes st (fd_inode fd);
          inplace = min (length bs) (length f - fd_off fd);
          n = min (length bs) (inplace + diskFree st)
      in if n = 0 \<and> bs \<noteq> [] then (- 1, st, fd)
         else (int n,
               (set_bytes (fd_inode fd) (store_at (fd_off fd) (take n bs) f) st)
                 \<lparr>diskFree := diskFree st - (n - min n inplace)\<rparr>,
               fd\<lparr>fd_off := fd_off fd + n\<rparr>))"

definition posix_ftruncate0 :: "FileStore \<Rightarrow> Fd \<Rightarrow> FileStore" where
  "posix_ftruncate0 st fd =
     (set_bytes (fd_inode fd) [] st)\<lparr>diskFree := diskFree st + length (file_bytes st (fd_inode fd))\<rparr>"

definition posix_remove :: "string \<Rightarrow> FileStore \<Rightarrow> FileStore" where
  "posix_remove path st = st\<lparr>dirents := filter (\<lambda>(p, _). p \<noteq> path) (dirents st)\<rparr>"

section \<open>Laws\<close>

lemma file_bytes_set [simp]:
  "i < length (inodes st) \<Longrightarrow> file_bytes (set_bytes i bs st) i = bs"
  "i \<noteq> j \<Longrightarrow> file_bytes (set_bytes i bs st) j = file_bytes st j"
  by (simp_all add: file_bytes_def set_bytes_def)

lemma file_bytes_frame [simp]:
  "file_bytes (st\<lparr>diskFree := d\<rparr>) i = file_bytes st i" "file_bytes (st\<lparr>dirents := e\<rparr>) i = file_bytes st i"
  by (simp_all add: file_bytes_def)

lemma store_at_end: "store_at (length f) bs f = f @ bs"
  by (simp add: store_at_def)

lemma length_store_at: "length (store_at off bs f) = max (length f) (off + length bs)"
  by (simp add: store_at_def)

lemma store_at_read:
  "take (length bs) (drop off (store_at off bs f)) = bs"
  by (simp add: store_at_def min_def)

text \<open>A write at the end of the file with enough space appends.\<close>

lemma posix_write_append:
  assumes "fd_off fd = length (file_bytes st (fd_inode fd))" and "length bs \<le> diskFree st"
  shows "posix_write bs st fd =
    (int (length bs),
     (set_bytes (fd_inode fd) (file_bytes st (fd_inode fd) @ bs) st)\<lparr>diskFree := diskFree st - length bs\<rparr>,
     fd\<lparr>fd_off := fd_off fd + length bs\<rparr>)"
  using assms by (simp add: posix_write_def Let_def store_at_end)

text \<open>The bytes written are read back from where they were written.\<close>

lemma posix_write_read:
  assumes "posix_write bs st fd = (int (length bs), st', fd')" and "fd_inode fd < length (inodes st)"
  shows "fst (posix_read (length bs) st' fd) = bs" and "fd_off fd' = fd_off fd + length bs"
proof -
  define f where "f = file_bytes st (fd_inode fd)"
  define n where "n = min (length bs) (min (length bs) (length f - fd_off fd) + diskFree st)"
  have n: "n = length bs"
    using assms(1) by (auto simp: posix_write_def Let_def f_def n_def split: if_splits)
  have "file_bytes st' (fd_inode fd) = store_at (fd_off fd) bs f"
    "fd_off fd' = fd_off fd + length bs"
    using assms n by (auto simp: posix_write_def Let_def f_def n_def split: if_splits)
  then show "fst (posix_read (length bs) st' fd) = bs" "fd_off fd' = fd_off fd + length bs"
    using store_at_read [of bs "fd_off fd" f] by (simp_all add: posix_read_def Let_def)
qed

end
