(* ===== verification/GW_Manifest.thy ===== *)
theory GW_Manifest
  imports GW_BlockStatus GW_PosixFile
begin

unbundle bit_operations_syntax

text \<open>
  \<^verbatim>\<open>src/core/Manifest.h\<close> and \<^verbatim>\<open>Manifest.cpp\<close>: the log of a file's block states. A record is a 24-byte
  header followed by 12-byte block records, all written with one \<^verbatim>\<open>write\<close> and read through a
  4096-byte buffer. The state of an operation is the file store and the \<^verbatim>\<open>Manifest\<close> object with its
  descriptor and its buffer.
\<close>

section \<open>Log records\<close>

definition rt_acquireNewBlock :: "8 word" where "rt_acquireNewBlock = 0"
definition rt_inactiveBlock :: "8 word" where "rt_inactiveBlock = 1"
definition rt_activeBlock :: "8 word" where "rt_activeBlock = 2"
definition rt_releaseBlock :: "8 word" where "rt_releaseBlock = 3"
definition rt_loadBlock :: "8 word" where "rt_loadBlock = 4"
definition rt_extendBlock :: "8 word" where "rt_extendBlock = 5"
definition rt_evictBlock :: "8 word" where "rt_evictBlock = 6"
definition rt_fullStatus :: "8 word" where "rt_fullStatus = 7"
definition rt_updateEof :: "8 word" where "rt_updateEof = 8"
definition rt_invalidLog :: "8 word" where "rt_invalidLog = 100"

lemmas record_types = rt_acquireNewBlock_def rt_inactiveBlock_def rt_activeBlock_def rt_releaseBlock_def
  rt_loadBlock_def rt_extendBlock_def rt_evictBlock_def rt_fullStatus_def rt_updateEof_def
  rt_invalidLog_def

definition MANIFEST_RECORD_EYECATCHER :: "16 word" where
  "MANIFEST_RECORD_EYECATCHER = 0xCAED"

text \<open>Every member of the union \<^verbatim>\<open>RecOpaque\<close> is one \<^verbatim>\<open>int64_t\<close>; the header holds its 64 bits.\<close>

record RecordHeader =
  recordLength :: "64 word"
  eyecatcher :: "16 word"
  rh_type :: "8 word"
  rh_flags :: "8 word"
  numBlocks :: "32 word"
  opaque :: "64 word"

definition sizeof_RecordHeader :: nat where
  "sizeof_RecordHeader = 24"

definition BUFFER_SIZE :: nat where
  "BUFFER_SIZE = 4 * 1024"

definition RecordHeader_bytes :: "RecordHeader \<Rightarrow> byte list" where
  "RecordHeader_bytes h =
     le_bytes 8 (recordLength h) @ le_bytes 2 (eyecatcher h) @ le_bytes 1 (rh_type h) @
     le_bytes 1 (rh_flags h) @ le_bytes 4 (numBlocks h) @ le_bytes 8 (opaque h)"

definition RecordHeader_cast :: "byte list \<Rightarrow> RecordHeader" where
  "RecordHeader_cast bs =
     \<lparr>recordLength = le_word (take 8 bs), eyecatcher = le_word (take 2 (drop 8 bs)),
      rh_type = le_word (take 1 (drop 10 bs)), rh_flags = le_word (take 1 (drop 11 bs)),
      numBlocks = le_word (take 4 (drop 12 bs)), opaque = le_word (take 8 (drop 16 bs))\<rparr>"

primrec blocks_log :: "16 word \<Rightarrow> Block list \<Rightarrow> gw_error + byte list" where
  "blocks_log pad [] = Inr []"
| "blocks_log pad (b # bs) =
     (case toLogFormat pad b of Inl e \<Rightarrow> Inl e
      | Inr x \<Rightarrow> (case blocks_log pad bs of Inl e \<Rightarrow> Inl e | Inr y \<Rightarrow> Inr (x @ y)))"

definition serializeManifestLog ::
  "16 word \<Rightarrow> Block list \<Rightarrow> 8 word \<Rightarrow> 64 word \<Rightarrow> gw_error + byte list" where
  "serializeManifestLog pad blocks type op =
     (let header = \<lparr>recordLength = of_nat (sizeof_RecordHeader + length blocks * sizeof_BlockRecord),
                    eyecatcher = MANIFEST_RECORD_EYECATCHER, rh_type = type, rh_flags = 0,
                    numBlocks = of_nat (length blocks), opaque = op\<rparr>
      in case blocks_log pad blocks of
           Inl e \<Rightarrow> Inl e
         | Inr bytes \<Rightarrow>
             (let logRecord = RecordHeader_bytes header @ bytes
              in if (of_nat (length logRecord) :: 64 word) \<noteq> recordLength header
                 then Inl (Exn GopherwoodIOException) else Inr logRecord))"

section \<open>The Manifest object\<close>

record Manifest =
  mFilePath :: string
  mFD :: "Fd option"
  mBuffer :: "byte list"

type_synonym 'a mfM = "(FileStore \<times> Manifest, gw_error, 'a) gw"

definition getManifestFileName :: "string \<Rightarrow> FileId \<Rightarrow> string" where
  "getManifestFileName dir fileId =
     dir @ MANIFEST_FOLDER @ ''/'' @ decimal (unat (hashcode fileId)) @ ''-''
       @ decimal (unat (collisionId fileId))"

definition mfOpen :: "unit mfM" where
  "mfOpen = (\<lambda>(st, m).
     case posix_open (mFilePath m) st of
       (None, st') \<Rightarrow> (Inl (Exn GopherwoodIOException), (st', m\<lparr>mFD := None\<rparr>))
     | (Some fd, st') \<Rightarrow> (Inr (), (st', m\<lparr>mFD := Some fd\<rparr>)))"

definition mfSeek :: "int \<Rightarrow> whence \<Rightarrow> unit mfM" where
  "mfSeek offset flag = modifyE (\<lambda>(st, m). (st, m\<lparr>mFD := map_option (posix_lseek offset flag st) (mFD m)\<rparr>))"

definition mfWrite :: "byte list \<Rightarrow> unit mfM" where
  "mfWrite rec = (\<lambda>(st, m).
     case mFD m of
       None \<Rightarrow> (Inl (Exn GopherwoodIOException), (st, m))
     | Some fd \<Rightarrow> (case posix_write rec st fd of (len, st', fd') \<Rightarrow>
         (if len = - 1 \<or> len \<noteq> int (length rec) then Inl (Exn GopherwoodIOException) else Inr (),
          (st', m\<lparr>mFD := Some fd'\<rparr>))))"

text \<open>
  \<^verbatim>\<open>mfRead(mBuffer + at, size)\<close>. A negative size is a \<^verbatim>\<open>size_t\<close> beyond what \<^verbatim>\<open>read\<close> accepts, and it fails.
\<close>

definition mfRead :: "nat \<Rightarrow> int \<Rightarrow> int mfM" where
  "mfRead at sz = (\<lambda>(st, m).
     case mFD m of
       None \<Rightarrow> (Inr (- 1), (st, m))
     | Some fd \<Rightarrow>
         if sz < 0 then (Inr (- 1), (st, m))
         else (case posix_read (nat sz) st fd of (bs, fd') \<Rightarrow>
           (Inr (int (length bs)), (st, m\<lparr>mFD := Some fd', mBuffer := store_at at bs (mBuffer m)\<rparr>))))"

definition mfTruncate :: "unit mfM" where
  "mfTruncate =
     seqE (modifyE (\<lambda>(st, m). (case mFD m of None \<Rightarrow> st | Some fd \<Rightarrow> posix_ftruncate0 st fd, m)))
     (mfSeek 0 SEEK_SET)"

definition mfClose :: "unit mfM" where
  "mfClose = modifyE (\<lambda>(st, m). (st, m\<lparr>mFD := None\<rparr>))"

definition mfRemove :: "unit mfM" where
  "mfRemove = modifyE (\<lambda>(st, m). (posix_remove (mFilePath m) st, m))"

definition mf_destroy :: "unit mfM" where
  "mf_destroy = seqE mfClose mfRemove"

text \<open>The constructor; \<open>garbage\<close> is what \<^verbatim>\<open>malloc\<close> left in the buffer.\<close>

definition Manifest_new :: "byte list \<Rightarrow> string \<Rightarrow> FileStore \<Rightarrow> (gw_error + Manifest) \<times> FileStore" where
  "Manifest_new garbage path st =
     (case seqE mfOpen (mfSeek 0 SEEK_SET)
             (st, \<lparr>mFilePath = path, mFD = None, mBuffer = take BUFFER_SIZE (garbage @ replicate BUFFER_SIZE 0)\<rparr>) of
        (Inl e, (st', _)) \<Rightarrow> (Inl e, st')
      | (Inr _, (st', m)) \<Rightarrow> (Inr m, st'))"

section \<open>Writing log records\<close>

definition logRecord :: "16 word \<Rightarrow> Block list \<Rightarrow> 8 word \<Rightarrow> 64 word \<Rightarrow> unit mfM" where
  "logRecord pad blocks type op = bindE (pureE (serializeManifestLog pad blocks type op)) mfWrite"

definition logAcquireNewBlock :: "16 word \<Rightarrow> Block list \<Rightarrow> unit mfM" where
  "logAcquireNewBlock pad blocks = logRecord pad blocks rt_acquireNewBlock 0"

definition logExtendBlock :: "16 word \<Rightarrow> Block list \<Rightarrow> 64 word \<Rightarrow> unit mfM" where
  "logExtendBlock pad blocks eof = logRecord pad blocks rt_extendBlock eof"

definition logUpdateEof :: "16 word \<Rightarrow> 64 word \<Rightarrow> unit mfM" where
  "logUpdateEof pad eof = logRecord pad [] rt_updateEof eof"

definition logReleaseBucket :: "16 word \<Rightarrow> Block list \<Rightarrow> unit mfM" where
  "logReleaseBucket pad blocks = logRecord pad blocks rt_releaseBlock 0"

definition logInactivateBucket :: "16 word \<Rightarrow> Block list \<Rightarrow> unit mfM" where
  "logInactivateBucket pad blocks = logRecord pad blocks rt_inactiveBlock 0"

definition logActivateBucket :: "16 word \<Rightarrow> Block \<Rightarrow> unit mfM" where
  "logActivateBucket pad block = logRecord pad [block] rt_activeBlock 0"

definition logEvcitBlock :: "16 word \<Rightarrow> Block \<Rightarrow> unit mfM" where
  "logEvcitBlock pad block = logRecord pad [block] rt_evictBlock 0"

definition logLoadBlock :: "16 word \<Rightarrow> Block \<Rightarrow> unit mfM" where
  "logLoadBlock pad block = logRecord pad [block] rt_loadBlock 0"

definition logFullStatus :: "16 word \<Rightarrow> Block list \<Rightarrow> 64 word \<Rightarrow> unit mfM" where
  "logFullStatus pad blocks eof = seqE mfTruncate (logRecord pad blocks rt_fullStatus eof)"

section \<open>Reading log records\<close>

text \<open>The loop over the block records in the buffer.\<close>

primrec fetch_blocks :: "nat \<Rightarrow> byte list \<Rightarrow> gw_error + Block list" where
  "fetch_blocks 0 buf = Inr []"
| "fetch_blocks (Suc n) buf =
     (if length buf < sizeof_BlockRecord then Inl BadAccess
      else case toBlockFormat (BlockRecord_cast (take sizeof_BlockRecord buf)) of
        Inl e \<Rightarrow> Inl e
      | Inr b \<Rightarrow> (case fetch_blocks n (drop sizeof_BlockRecord buf) of
          Inl e \<Rightarrow> Inl e | Inr bs \<Rightarrow> Inr (b # bs)))"

text \<open>
  At the end of the log the code returns a header whose type is \<^verbatim>\<open>invalidLog\<close> and whose other
  fields are not set; here that header is \<open>None\<close>.
\<close>

definition fetchOneLogRecord :: "(RecordHeader option \<times> Block list) mfM" where
  "fetchOneLogRecord =
     bindE (mfRead 0 10) (\<lambda>bytesRead.
     if bytesRead = 0 then retE (None, [])
     else bindE (getsE (\<lambda>(st, m). mBuffer m)) (\<lambda>buf.
       let recLength = sint (le_word (take 8 buf) :: 64 word);
           eye = (le_word (take 2 (drop 8 buf)) :: 16 word)
       in if recLength > int BUFFER_SIZE then THROW GopherwoodException
          else if bytesRead = - 1 \<or> bytesRead \<noteq> 10 \<or> eye \<noteq> MANIFEST_RECORD_EYECATCHER
          then THROW GopherwoodException
          else bindE (mfRead 10 (recLength - 10)) (\<lambda>rest.
            if rest \<noteq> recLength - 10 then THROW GopherwoodException
            else bindE (getsE (\<lambda>(st, m). mBuffer m)) (\<lambda>buf.
              let header = RecordHeader_cast buf
              in bindE (pureE (fetch_blocks (unat (numBlocks header)) (drop sizeof_RecordHeader buf)))
                   (\<lambda>blocks. retE (Some header, blocks))))))"

section \<open>Round trip of a log record\<close>

lemma length_RecordHeader_bytes [simp]: "length (RecordHeader_bytes h) = sizeof_RecordHeader"
  by (simp add: RecordHeader_bytes_def sizeof_RecordHeader_def)

lemma RecordHeader_cast_bytes: "RecordHeader_cast (RecordHeader_bytes h @ rest) = h"
proof -
  let ?b = "RecordHeader_bytes h @ rest"
  have "le_word (take 8 ?b) = recordLength h" "le_word (take 2 (drop 8 ?b)) = eyecatcher h"
    "le_word (take 1 (drop 10 ?b)) = rh_type h" "le_word (take 1 (drop 11 ?b)) = rh_flags h"
    "le_word (take 4 (drop 12 ?b)) = numBlocks h" "le_word (take 8 (drop 16 ?b)) = opaque h"
    by (simp_all add: RecordHeader_bytes_def le_word_le_bytes_exact)
  then show ?thesis by (simp add: RecordHeader_cast_def)
qed

lemma RecordHeader_first_bytes:
  "le_word (take 8 (RecordHeader_bytes h @ rest)) = recordLength h"
  "le_word (take 2 (drop 8 (RecordHeader_bytes h @ rest))) = eyecatcher h"
  by (simp_all add: RecordHeader_bytes_def le_word_le_bytes_exact)

text \<open>What a record keeps of a block: everything but the usage count.\<close>

abbreviation logged :: "Block \<Rightarrow> Block" where
  "logged b \<equiv> b\<lparr>bk_usageCount := 0\<rparr>"

lemma blocks_log_ok:
  assumes "list_all block_ok bs"
  shows "\<exists>bytes. blocks_log pad bs = Inr bytes \<and> length bytes = length bs * sizeof_BlockRecord \<and>
    (\<forall>rest. fetch_blocks (length bs) (bytes @ rest) = Inr (map logged bs))"
  using assms
proof (induction bs)
  case Nil
  then show ?case by simp
next
  case (Cons b bs)
  then obtain bytes where ih: "blocks_log pad bs = Inr bytes" "length bytes = length bs * sizeof_BlockRecord"
    "\<And>rest. fetch_blocks (length bs) (bytes @ rest) = Inr (map logged bs)" by auto
  from Cons.prems have "block_ok b" by simp
  from toLogFormat_ok [OF this, of pad] obtain r
    where r: "toLogFormat pad b = Inr (BlockRecord_bytes r)" "toBlockFormat r = Inr (logged b)" by blast
  have cast: "BlockRecord_cast (BlockRecord_bytes r) = r"
    using BlockRecord_cast_bytes [of r "[]"] by simp
  have "fetch_blocks (length (b # bs)) ((BlockRecord_bytes r @ bytes) @ rest) = Inr (map logged (b # bs))" for rest
    using r(2) ih(3) [of rest] by (simp add: cast)
  moreover have "blocks_log pad (b # bs) = Inr (BlockRecord_bytes r @ bytes)"
    "length (BlockRecord_bytes r @ bytes) = length (b # bs) * sizeof_BlockRecord"
    using ih r by simp_all
  ultimately show ?case by blast
qed

definition record_header :: "8 word \<Rightarrow> nat \<Rightarrow> 64 word \<Rightarrow> RecordHeader" where
  "record_header type n op =
     \<lparr>recordLength = of_nat (sizeof_RecordHeader + n * sizeof_BlockRecord),
      eyecatcher = MANIFEST_RECORD_EYECATCHER, rh_type = type, rh_flags = 0,
      numBlocks = of_nat n, opaque = op\<rparr>"

text \<open>The largest number of blocks whose record fits into the buffer.\<close>

definition MAX_RECORD_BLOCKS :: nat where
  "MAX_RECORD_BLOCKS = (BUFFER_SIZE - sizeof_RecordHeader) div sizeof_BlockRecord"

lemma MAX_RECORD_BLOCKS_val: "MAX_RECORD_BLOCKS = 339"
  by (simp add: MAX_RECORD_BLOCKS_def BUFFER_SIZE_def sizeof_RecordHeader_def sizeof_BlockRecord_def)

lemma serialize_ok:
  assumes "list_all block_ok bs"
  obtains bytes where "serializeManifestLog pad bs type op =
      Inr (RecordHeader_bytes (record_header type (length bs) op) @ bytes)"
    and "length bytes = length bs * sizeof_BlockRecord"
    and "\<And>rest. fetch_blocks (length bs) (bytes @ rest) = Inr (map logged bs)"
proof -
  from blocks_log_ok [OF assms, of pad] obtain bytes
    where b: "blocks_log pad bs = Inr bytes" "length bytes = length bs * sizeof_BlockRecord"
      "\<And>rest. fetch_blocks (length bs) (bytes @ rest) = Inr (map logged bs)" by blast
  then have "serializeManifestLog pad bs type op =
      Inr (RecordHeader_bytes (record_header type (length bs) op) @ bytes)"
    by (simp add: serializeManifestLog_def record_header_def Let_def)
  with b that show ?thesis by blast
qed

lemma sint_of_nat_64: "n < 2 ^ 63 \<Longrightarrow> sint (of_nat n :: 64 word) = int n"
  by (simp add: sint_uint uint_nat unat_of_nat take_bit_nat_eq_self_iff signed_take_bit_int_eq_self)

text \<open>The buffer after the two reads of \<^verbatim>\<open>fetchOneLogRecord\<close>.\<close>

lemma two_reads:
  assumes "10 \<le> length rec"
  shows "store_at 10 (drop 10 rec) (store_at 0 (take 10 rec) buf) = rec @ drop (length rec) buf"
proof -
  have "store_at 0 (take 10 rec) buf = take 10 rec @ drop 10 buf"
    using assms by (simp add: store_at_def min_def)
  then have "store_at 10 (drop 10 rec) (store_at 0 (take 10 rec) buf) =
      take 10 rec @ drop 10 rec @ drop (length rec) buf"
    using assms by (simp add: store_at_def)
  then show ?thesis by (metis append_assoc append_take_drop_id)
qed

lemma fetch_record:
  assumes "list_all block_ok bs" and "length bs \<le> MAX_RECORD_BLOCKS"
    and "serializeManifestLog pad bs type op = Inr rec"
    and "mFD m = Some fd" and "drop (fd_off fd) (file_bytes st (fd_inode fd)) = rec @ rest"
    and "length (mBuffer m) = BUFFER_SIZE"
  shows "\<exists>buf. length buf = BUFFER_SIZE \<and>
    fetchOneLogRecord (st, m) =
      (Inr (Some (record_header type (length bs) op), map logged bs),
       (st, m\<lparr>mFD := Some (fd\<lparr>fd_off := fd_off fd + length rec\<rparr>), mBuffer := buf\<rparr>))"
proof -
  let ?h = "record_header type (length bs) op"
  from serialize_ok [OF assms(1), of pad type op] obtain bytes
    where rec: "rec = RecordHeader_bytes ?h @ bytes" and len: "length bytes = length bs * sizeof_BlockRecord"
      and fb: "\<And>rest. fetch_blocks (length bs) (bytes @ rest) = Inr (map logged bs)"
    using assms(3) by auto
  have n: "length bs \<le> 339" using assms(2) by (simp add: MAX_RECORD_BLOCKS_val)
  have L: "length rec = 24 + length bs * 12" "10 \<le> length rec"
    using rec len by (simp_all add: sizeof_RecordHeader_def sizeof_BlockRecord_def)
  have rl: "sint (recordLength ?h) = int (length rec)"
    using n L sint_of_nat_64 [of "24 + length bs * 12"]
    by (simp add: record_header_def sizeof_RecordHeader_def sizeof_BlockRecord_def)
  have nb: "unat (numBlocks ?h) = length bs"
    using n by (simp add: record_header_def unat_of_nat take_bit_nat_eq_self)
  let ?buf = "rec @ drop (length rec) (mBuffer m)"
  have buf0: "store_at 0 (take 10 rec) (mBuffer m) = take 10 rec @ drop 10 (mBuffer m)"
    using L by (simp add: store_at_def min_def)
  have first: "le_word (take 8 (take 10 rec @ x)) = recordLength ?h"
    "le_word (take 2 (drop 8 (take 10 rec @ x))) = eyecatcher ?h" for x
    using RecordHeader_first_bytes [of ?h bytes] L(2) unfolding rec [symmetric]
    by (simp_all add: take_drop min_def)
  have r1: "mfRead 0 10 (st, m) = (Inr 10, (st, m\<lparr>mFD := Some (fd\<lparr>fd_off := fd_off fd + 10\<rparr>),
      mBuffer := take 10 rec @ drop 10 (mBuffer m)\<rparr>))"
    using assms(4,5) L(2) buf0 by (simp add: mfRead_def posix_read_def Let_def min_def)
  have "drop (fd_off fd + 10) (file_bytes st (fd_inode fd)) = drop 10 rec @ rest"
    using assms(5) L(2) by (metis (no_types, lifting) add.commute append_eq_append_conv_if
        append_take_drop_id drop_append drop_drop diff_is_0_eq drop0)
  then have r2: "mfRead 10 (int (length rec) - 10) (st, m\<lparr>mFD := Some (fd\<lparr>fd_off := fd_off fd + 10\<rparr>),
      mBuffer := take 10 rec @ drop 10 (mBuffer m)\<rparr>) =
      (Inr (int (length rec) - 10), (st, m\<lparr>mFD := Some (fd\<lparr>fd_off := fd_off fd + length rec\<rparr>),
         mBuffer := ?buf\<rparr>))"
    using L two_reads [OF L(2), of "mBuffer m"] unfolding buf0
    by (simp add: mfRead_def posix_read_def Let_def nat_diff_distrib of_nat_diff)
  have "RecordHeader_cast ?buf = ?h" using RecordHeader_cast_bytes [of ?h] unfolding rec by simp
  moreover have "drop sizeof_RecordHeader ?buf = bytes @ drop (length rec) (mBuffer m)"
    unfolding rec by simp
  moreover have "length ?buf = BUFFER_SIZE" using L n assms(6) by (simp add: BUFFER_SIZE_def)
  moreover have "eyecatcher ?h = MANIFEST_RECORD_EYECATCHER" by (simp add: record_header_def)
  ultimately show ?thesis
    using r1 r2 first rl nb fb n L
    by (intro exI [of _ ?buf]) (simp add: fetchOneLogRecord_def run_simps Let_def BUFFER_SIZE_def)
qed

section \<open>The end of the log, torn and oversized records\<close>

lemma fetch_end:
  assumes "mFD m = Some fd" and "drop (fd_off fd) (file_bytes st (fd_inode fd)) = []"
  shows "fetchOneLogRecord (st, m) = (Inr (None, []), (st, m))"
proof -
  have "store_at 0 [] (mBuffer m) = mBuffer m" by (simp add: store_at_def)
  moreover have "m\<lparr>mFD := Some fd, mBuffer := mBuffer m\<rparr> = m" using assms(1) by simp
  ultimately have "mfRead 0 10 (st, m) = (Inr 0, (st, m))"
    using assms by (simp add: mfRead_def posix_read_def Let_def)
  then show ?thesis by (simp add: fetchOneLogRecord_def run_simps)
qed

text \<open>The first read of a record of which at least ten bytes are there.\<close>

lemma fetch_first_read:
  assumes "mFD m = Some fd" and "drop (fd_off fd) (file_bytes st (fd_inode fd)) = rec @ rest"
    and "10 \<le> length rec"
  shows "mfRead 0 10 (st, m) = (Inr 10, (st, m\<lparr>mFD := Some (fd\<lparr>fd_off := fd_off fd + 10\<rparr>),
      mBuffer := take 10 rec @ drop 10 (mBuffer m)\<rparr>))"
  using assms by (simp add: mfRead_def posix_read_def Let_def min_def store_at_def)

lemma first_bytes_take:
  assumes "10 \<le> k" and "k \<le> 24 + n"  and "length bytes = n"
  shows "le_word (take 8 (take 10 (take k (RecordHeader_bytes h @ bytes)) @ x)) = recordLength h"
    "le_word (take 2 (drop 8 (take 10 (take k (RecordHeader_bytes h @ bytes)) @ x))) = eyecatcher h"
proof -
  have "take 10 (take k (RecordHeader_bytes h @ bytes)) = take 10 (RecordHeader_bytes h @ bytes)"
    using assms(1) by (simp add: min_def)
  moreover have "take 8 (take 10 r @ x) = take 8 r" "take 2 (drop 8 (take 10 r @ x)) = take 2 (drop 8 r)"
    if "10 \<le> length r" for r :: "byte list"
    using that by (simp_all add: take_drop min_def)
  ultimately show "le_word (take 8 (take 10 (take k (RecordHeader_bytes h @ bytes)) @ x)) = recordLength h"
    "le_word (take 2 (drop 8 (take 10 (take k (RecordHeader_bytes h @ bytes)) @ x))) = eyecatcher h"
    using RecordHeader_first_bytes [of h bytes] by (simp_all add: sizeof_RecordHeader_def)
qed


text \<open>A record of which only a part was written is never taken for a record.\<close>

lemma fetch_torn:
  assumes "list_all block_ok bs" and "length bs < 2 ^ 32"
    and "serializeManifestLog pad bs type op = Inr rec"
    and "0 < k" and "k < length rec"
    and "mFD m = Some fd" and "drop (fd_off fd) (file_bytes st (fd_inode fd)) = take k rec"
  shows "fst (fetchOneLogRecord (st, m)) = Inl (Exn GopherwoodException)"
proof (cases "k < 10")
  case True
  have "\<exists>m'. mfRead 0 10 (st, m) = (Inr (int k), (st, m'))"
    using assms(4-7) True by (simp add: mfRead_def posix_read_def Let_def min_def)
  then show ?thesis using True assms(4) by (auto simp: fetchOneLogRecord_def run_simps Let_def)
next
  case False
  let ?h = "record_header type (length bs) op"
  from serialize_ok [OF assms(1), of pad type op] obtain bytes
    where rec: "rec = RecordHeader_bytes ?h @ bytes" and len: "length bytes = length bs * sizeof_BlockRecord"
    using assms(3) by auto
  have L: "length rec = 24 + length bs * 12"
    using rec len by (simp add: sizeof_RecordHeader_def sizeof_BlockRecord_def)
  have rl: "sint (recordLength ?h) = int (length rec)"
    using assms(2) L sint_of_nat_64 [of "24 + length bs * 12"]
    by (simp add: record_header_def sizeof_RecordHeader_def sizeof_BlockRecord_def)
  have first: "le_word (take 8 (take 10 (take k rec) @ x)) = recordLength ?h" for x
    using first_bytes_take(1) [of k "length bytes" bytes ?h x] False L len rec assms(5)
    by (simp add: sizeof_BlockRecord_def)
  let ?m1 = "m\<lparr>mFD := Some (fd\<lparr>fd_off := fd_off fd + 10\<rparr>),
    mBuffer := take 10 (take k rec) @ drop 10 (mBuffer m)\<rparr>"
  have r1: "mfRead 0 10 (st, m) = (Inr 10, (st, ?m1))"
    using fetch_first_read [of m fd st "take k rec" "[]"] assms(5-7) False by simp
  have "length (drop (fd_off fd + 10) (file_bytes st (fd_inode fd))) < length rec - 10"
    using arg_cong [OF assms(7), of length] assms(5) False by simp
  then have "\<exists>n m2. mfRead 10 (int (length rec) - 10) (st, ?m1) = (Inr n, (st, m2)) \<and> n \<noteq> int (length rec) - 10"
    using L by (auto simp: mfRead_def posix_read_def Let_def)
  then show ?thesis
    using r1 first rl by (auto simp: fetchOneLogRecord_def run_simps Let_def)
qed

section \<open>Appending\<close>

lemma logRecord_append:
  assumes "serializeManifestLog pad bs type op = Inr rec" and "mFD m = Some fd"
    and "fd_off fd = length (file_bytes st (fd_inode fd))" and "length rec \<le> diskFree st"
  shows "logRecord pad bs type op (st, m) =
    (Inr (), ((set_bytes (fd_inode fd) (file_bytes st (fd_inode fd) @ rec) st)
                \<lparr>diskFree := diskFree st - length rec\<rparr>,
              m\<lparr>mFD := Some (fd\<lparr>fd_off := fd_off fd + length rec\<rparr>)\<rparr>))"
  using assms by (simp add: logRecord_def run_simps mfWrite_def posix_write_append)

section \<open>Manifest file names\<close>

lemma getManifestFileName_inj:
  assumes "getManifestFileName dir f = getManifestFileName dir g"
  shows "f = g"
proof -
  have dash: "CHR ''-'' \<notin> set (decimal n)" for n
    by (rule decimal_not_in) simp
  have "decimal (unat (hashcode f)) @ CHR ''-'' # decimal (unat (collisionId f)) =
      decimal (unat (hashcode g)) @ CHR ''-'' # decimal (unat (collisionId g))"
    using assms by (simp add: getManifestFileName_def)
  from split_at_char [OF dash dash this] have "unat (hashcode f) = unat (hashcode g)"
    "unat (collisionId f) = unat (collisionId g)" using decimal_inj by blast+
  then show ?thesis by (simp add: FileId_eq_iff word_unat_eq_iff)
qed

section \<open>Properties of the manifest log\<close>

text \<open>A record that was appended, as a reader that has read everything before it finds it.\<close>

lemma appended_tail:
  assumes "fd_inode fd < length (inodes st)"
  shows "drop (length (file_bytes st (fd_inode fd)))
      (file_bytes ((set_bytes (fd_inode fd) (file_bytes st (fd_inode fd) @ rec) st)\<lparr>diskFree := d\<rparr>) (fd_inode fd)) = rec"
  using assms by simp

text \<open>
  C9 A log record written by one process is read back by any other that has read the log up to it:
  the type, the opaque value and every block, less the usage counts, which are not logged.
  This holds for records of at most 339 blocks.
\<close>

theorem log_record_round_trip:
  assumes "list_all block_ok bs" and "length bs \<le> 339"
    and "mFD m = Some fd" and "fd_inode fd < length (inodes st)" and "fd_off fd = length (file_bytes st (fd_inode fd))"
    and "24 + 12 * length bs \<le> diskFree st"
    and "mFD r = Some rfd" and "fd_inode rfd = fd_inode fd" and "fd_off rfd = fd_off fd" and "length (mBuffer r) = BUFFER_SIZE"
  shows "\<exists>st' m' r'. logRecord pad bs type op (st, m) = (Inr (), (st', m')) \<and>
    fetchOneLogRecord (st', r) =
      (Inr (Some (record_header type (length bs) op), map (\<lambda>b. b\<lparr>bk_usageCount := 0\<rparr>) bs), (st', r'))"
proof -
  have n: "length bs \<le> MAX_RECORD_BLOCKS" using assms(2) by (simp add: MAX_RECORD_BLOCKS_val)
  from serialize_ok [OF assms(1), of pad type op] obtain bytes where
    ser: "serializeManifestLog pad bs type op = Inr (RecordHeader_bytes (record_header type (length bs) op) @ bytes)"
      and len: "length bytes = length bs * sizeof_BlockRecord" by blast
  define rec where "rec = RecordHeader_bytes (record_header type (length bs) op) @ bytes"
  have "length rec \<le> diskFree st"
    using assms(6) len by (simp add: rec_def sizeof_RecordHeader_def sizeof_BlockRecord_def)
  note w = logRecord_append [OF ser [folded rec_def] assms(3,5) this]
  let ?st = "(set_bytes (fd_inode fd) (file_bytes st (fd_inode fd) @ rec) st)\<lparr>diskFree := diskFree st - length rec\<rparr>"
  have "drop (fd_off rfd) (file_bytes ?st (fd_inode rfd)) = rec @ []"
    using appended_tail [OF assms(4)] assms(5,8,9) by simp
  from fetch_record [OF assms(1) n ser [folded rec_def] assms(7) this assms(10)] w show ?thesis by blast
qed

text \<open>An empty manifest, open for writing and for reading, and a block to log.\<close>

definition log_store :: FileStore where
  "log_store = \<lparr>dirents = [(''m'', 0)], inodes = [[]], openFails = (\<lambda>_. False), diskFree = 8192\<rparr>"

definition log_manifest :: Manifest where
  "log_manifest = \<lparr>mFilePath = ''m'', mFD = Some \<lparr>fd_inode = 0, fd_off = 0\<rparr>, mBuffer = replicate BUFFER_SIZE 0\<rparr>"

definition log_block :: Block where
  "log_block = Block_new 3 5 True BUCKET_USED"

lemma log_block_ok: "list_all block_ok (replicate n log_block)"
  by (simp add: list_all_iff log_block_def Block_new_def block_ok_def)

lemma log_manifest_facts:
  "mFD log_manifest = Some \<lparr>fd_inode = 0, fd_off = 0\<rparr>" "length (mBuffer log_manifest) = BUFFER_SIZE"
  "file_bytes log_store 0 = []" "length (inodes log_store) = 1" "diskFree log_store = 8192"
  by (simp_all add: log_manifest_def log_store_def file_bytes_def)

theorem log_record_round_trip_witness:
  "\<exists>st' m' r'. logRecord 0 [log_block, log_block] rt_inactiveBlock 77 (log_store, log_manifest) = (Inr (), (st', m')) \<and>
    fetchOneLogRecord (st', log_manifest) =
      (Inr (Some (record_header rt_inactiveBlock 2 77), [log_block, log_block]), (st', r'))"
proof -
  have "log_block\<lparr>bk_usageCount := 0\<rparr> = log_block" by (simp add: log_block_def Block_new_def)
  then show ?thesis
    using log_record_round_trip [of "[log_block, log_block]" log_manifest "\<lparr>fd_inode = 0, fd_off = 0\<rparr>" log_store
        log_manifest "\<lparr>fd_inode = 0, fd_off = 0\<rparr>" 0 rt_inactiveBlock 77] log_block_ok [of 2]
    by (simp add: log_manifest_facts numeral_2_eq_2)
qed



text \<open>
  C29 A record of which only a proper part reached the file, because the writer died or the device
  was full, is never taken for a record: the reader throws.
\<close>

theorem torn_record_refused:
  assumes "list_all block_ok bs" and "length bs < 2 ^ 32" and "serializeManifestLog pad bs type op = Inr rec"
    and "0 < k" and "k < length rec"
    and "mFD m = Some fd" and "drop (fd_off fd) (file_bytes st (fd_inode fd)) = take k rec"
  shows "fst (fetchOneLogRecord (st, m)) = Inl (Exn GopherwoodException)"
  by (rule fetch_torn [OF assms])

theorem torn_record_refused_witness:
  "\<exists>rec. serializeManifestLog 0 [log_block] rt_evictBlock 0 = Inr rec \<and> 30 < length rec \<and>
    fst (fetchOneLogRecord (set_bytes 0 (take 30 rec) log_store, log_manifest)) = Inl (Exn GopherwoodException)"
proof -
  have ok: "list_all block_ok [log_block]" using log_block_ok [of 1] by simp
  from serialize_ok [OF this, of 0 rt_evictBlock 0] obtain bytes where
    ser: "serializeManifestLog 0 [log_block] rt_evictBlock 0 = Inr (RecordHeader_bytes (record_header rt_evictBlock 1 0) @ bytes)"
      and len: "length bytes = sizeof_BlockRecord" by auto
  define rec where "rec = RecordHeader_bytes (record_header rt_evictBlock 1 0) @ bytes"
  have "30 < length rec" using len by (simp add: rec_def sizeof_RecordHeader_def sizeof_BlockRecord_def)
  moreover have "file_bytes (set_bytes 0 (take 30 rec) log_store) 0 = take 30 rec"
    by (simp add: log_manifest_facts)
  ultimately show ?thesis
    using torn_record_refused [OF ok _ ser [folded rec_def], of 30 log_manifest "\<lparr>fd_inode = 0, fd_off = 0\<rparr>"
        "set_bytes 0 (take 30 rec) log_store"] ser [folded rec_def]
    by (simp add: log_manifest_facts)
qed

text \<open>Different files have different manifests.\<close>

theorem manifest_names_distinct:
  "getManifestFileName dir f = getManifestFileName dir g \<longleftrightarrow> f = g"
  using getManifestFileName_inj by blast

end
