(* ===== verification/GW_BlockIO.thy ===== *)
theory GW_BlockIO
  imports GW_BlockStatus GW_PosixFile
begin

text \<open>
  \<^verbatim>\<open>src/block\<close>: reading and writing the data of a block. The local space is one file divided into
  buckets of \<^verbatim>\<open>LOCAL_BUCKET_SIZE\<close> bytes, reached through one descriptor with one offset; evicted
  blocks are objects of an object store. The client library of the object store (liboss2) is
  not part of the repository: its calls are the record \<open>OssApi\<close>, a parameter of the model, over a
  state \<open>'o\<close> that is not looked into.
\<close>

record 'o OssApi =
  ossPutObject :: "string \<Rightarrow> string \<Rightarrow> 'o \<Rightarrow> nat option \<times> 'o"
  ossWrite :: "nat \<Rightarrow> byte list \<Rightarrow> int \<Rightarrow> 'o \<Rightarrow> int \<times> 'o"
  ossCloseObject :: "nat \<Rightarrow> 'o \<Rightarrow> 'o"
  ossHeadObject :: "string \<Rightarrow> string \<Rightarrow> 'o \<Rightarrow> nat option \<times> 'o"
  ossGetObject :: "string \<Rightarrow> string \<Rightarrow> int \<Rightarrow> int \<Rightarrow> 'o \<Rightarrow> nat option \<times> 'o"
  ossRead :: "nat \<Rightarrow> int \<Rightarrow> 'o \<Rightarrow> byte list option \<times> 'o"
  ossDeleteObject :: "string \<Rightarrow> string \<Rightarrow> 'o \<Rightarrow> int \<times> 'o"

text \<open>
  \<open>None\<close> stands for a null object and for the -1 of \<^verbatim>\<open>ossRead\<close>. The lengths that \<^verbatim>\<open>ossWrite\<close> and \<^verbatim>\<open>ossRead\<close> take
  and the count that \<^verbatim>\<open>ossWrite\<close> returns are \<^verbatim>\<open>int32_t\<close>; the callers pass \<^verbatim>\<open>int64_t\<close> values, which are
  narrowed. The rest of what a worker is given: the settings, the host name, the bucket name of the store (\<^verbatim>\<open>FileSystem::OSS_BUCKET\<close>).
\<close>

record 'o IOEnv =
  io_cfg :: Configuration
  io_oss :: "'o OssApi"
  io_host :: string
  io_bucket :: string

type_synonym ('o, 'a) ioM = "(FileStore \<times> Fd \<times> 'o, gw_error, 'a) gw"

section \<open>LocalBlockReader and LocalBlockWriter\<close>

text \<open>\<^verbatim>\<open>lseek(mLocalSpaceFD, offset, SEEK_SET)\<close> and its result.\<close>

definition local_seek :: "int \<Rightarrow> ('o, int) ioM" where
  "local_seek offset = (\<lambda>(st, fd, oss).
     if offset < 0 then (Inr (- 1), (st, fd, oss))
     else (Inr offset, (st, posix_lseek offset SEEK_SET st fd, oss)))"

text \<open>\<^verbatim>\<open>read(mLocalSpaceFD, buffer, n)\<close>, the count it returns and the bytes.\<close>

definition local_read :: "int \<Rightarrow> ('o, int \<times> byte list) ioM" where
  "local_read n = (\<lambda>(st, fd, oss).
     if n < 0 then (Inr (- 1, []), (st, fd, oss))
     else case posix_read (nat n) st fd of
       (bs, fd') \<Rightarrow> (Inr (int (length bs), bs), (st, fd', oss)))"

definition local_write :: "byte list \<Rightarrow> ('o, int) ioM" where
  "local_write bs = (\<lambda>(st, fd, oss).
     case posix_write bs st fd of (n, st', fd') \<Rightarrow> (Inr n, (st', fd', oss)))"

text \<open>The methods of the two classes return \<^verbatim>\<open>int\<close>.\<close>

definition readLocal :: "int \<Rightarrow> ('o, int \<times> byte list) ioM" where
  "readLocal n = bindE (local_read n) (\<lambda>(res, bs). retE (int32 res, bs))"

definition writeLocal :: "byte list \<Rightarrow> ('o, int) ioM" where
  "writeLocal bs = bindE (local_write bs) (\<lambda>res. retE (int32 res))"

section \<open>BlockInputStream and BlockOutputStream\<close>

definition getLocalSpaceOffset :: "Configuration \<Rightarrow> BlockInfo \<Rightarrow> int" where
  "getLocalSpaceOffset cfg info = bi_bucketId info * LOCAL_BUCKET_SIZE cfg + bi_offset info"

definition block_remaining :: "Configuration \<Rightarrow> BlockInfo \<Rightarrow> int" where
  "block_remaining cfg info = LOCAL_BUCKET_SIZE cfg - bi_offset info"

text \<open>
  \<^verbatim>\<open>BlockInputStream::read\<close>: the count, the bytes and the stream's block with its new offset. A
  block that is not local is not read; the result stays -1 and the offset moves by it.
\<close>

definition BlockInputStream_read ::
  "Configuration \<Rightarrow> int \<Rightarrow> BlockInfo \<Rightarrow> ('o, (int \<times> byte list) \<times> BlockInfo) ioM" where
  "BlockInputStream_read cfg n info =
     bindE (if bi_isLocal info
            then seqE (local_seek (getLocalSpaceOffset cfg info)) (readLocal n)
            else retE (- 1, [])) (\<lambda>(cnt, bs).
     let info' = info\<lparr>bi_offset := bi_offset info + cnt\<rparr>
     in seqE (assertE (NDEBUG cfg) (bi_offset info' \<le> LOCAL_BUCKET_SIZE cfg))
          (retE ((cnt, bs), info')))"

definition BlockOutputStream_write ::
  "Configuration \<Rightarrow> byte list \<Rightarrow> BlockInfo \<Rightarrow> ('o, int \<times> BlockInfo) ioM" where
  "BlockOutputStream_write cfg bs info =
     bindE (if bi_isLocal info
            then seqE (local_seek (getLocalSpaceOffset cfg info)) (writeLocal bs)
            else retE (- 1)) (\<lambda>written.
     let info' = info\<lparr>bi_offset := bi_offset info + written\<rparr>
     in seqE (assertE (NDEBUG cfg) (bi_offset info' \<le> LOCAL_BUCKET_SIZE cfg))
          (retE (written, info')))"

section \<open>OssBlockWorker\<close>

definition getOssObjectName :: "string \<Rightarrow> BlockInfo \<Rightarrow> string" where
  "getOssObjectName hostname info =
     ''gopherwood/'' @ hostname @ ''/'' @ FileId_toString (bi_fileId info) @ ''/'' @ decimal_int (bi_blockId info)"

text \<open>A call into the library.\<close>

definition ossE :: "('o \<Rightarrow> 'a \<times> 'o) \<Rightarrow> ('o, 'a) ioM" where
  "ossE f = (\<lambda>(st, fd, oss). case f oss of (x, oss') \<Rightarrow> (Inr x, (st, fd, oss')))"

definition writeBlock :: "'o IOEnv \<Rightarrow> BlockInfo \<Rightarrow> ('o, unit) ioM" where
  "writeBlock env info =
     bindE (local_seek (bi_bucketId info * LOCAL_BUCKET_SIZE (io_cfg env))) (\<lambda>rc.
     if rc = - 1 then THROW GopherwoodIOException
     else bindE (local_read (bi_dataSize info)) (\<lambda>(rc, buffer).
     if rc \<noteq> bi_dataSize info then THROW GopherwoodIOException
     else bindE (ossE (ossPutObject (io_oss env) (io_bucket env) (getOssObjectName (io_host env) info)))
       (\<lambda>remoteBlock. case remoteBlock of
          None \<Rightarrow> THROW GopherwoodIOException
        | Some h \<Rightarrow> bindE (ossE (ossWrite (io_oss env) h buffer (int32 (bi_dataSize info)))) (\<lambda>written.
            if int32 written \<noteq> bi_dataSize info then THROW GopherwoodIOException
            else ossE (\<lambda>oss. ((), ossCloseObject (io_oss env) h oss))))))"

text \<open>
  The \<^verbatim>\<open>do ... while\<close> loop of \<^verbatim>\<open>readBlock\<close>; it ends because \<^verbatim>\<open>bytesToRead\<close> falls. Result: the bytes in the
  buffer, or \<open>None\<close> when \<^verbatim>\<open>ossRead\<close> failed. More bytes than were asked for overrun the buffer.
\<close>

function readBlock_loop :: "'o OssApi \<Rightarrow> nat \<Rightarrow> nat \<Rightarrow> byte list \<Rightarrow> 'o \<Rightarrow> (gw_error + byte list option) \<times> 'o" where
  "readBlock_loop api h bytesToRead got oss =
     (case ossRead api h (int32 (int bytesToRead)) oss of
        (None, oss') \<Rightarrow> (Inr None, oss')
      | (Some bs, oss') \<Rightarrow>
          if length bs > bytesToRead then (Inl BadAccess, oss')
          else if bs \<noteq> [] \<and> bytesToRead - length bs > 0
          then readBlock_loop api h (bytesToRead - length bs) (got @ bs) oss'
          else (Inr (Some (got @ bs)), oss'))"
  by pat_completeness auto
termination
  by (relation "measure (\<lambda>(api, h, n, got, oss). n)") auto

declare readBlock_loop.simps [simp del]

definition readBlock :: "'o IOEnv \<Rightarrow> BlockInfo \<Rightarrow> ('o, int) ioM" where
  "readBlock env info =
     (let name = getOssObjectName (io_host env) info; api = io_oss env in
      bindE (ossE (ossHeadObject api (io_bucket env) name)) (\<lambda>headResult. case headResult of
        None \<Rightarrow> THROW GopherwoodIOException
      | Some objectSize \<Rightarrow>
          bindE (ossE (ossGetObject api (io_bucket env) name 0 (int objectSize - 1))) (\<lambda>remoteBlock.
          case remoteBlock of
            None \<Rightarrow> THROW GopherwoodIOException
          | Some h \<Rightarrow>
              bindE (ossE (readBlock_loop api h objectSize [])) (\<lambda>r.
              bindE (pureE r) (\<lambda>got.
              seqE (ossE (\<lambda>oss. ((), ossCloseObject api h oss)))
              (case got of
                 None \<Rightarrow> THROW GopherwoodIOException
               | Some buffer \<Rightarrow>
                   if length buffer \<noteq> objectSize then THROW GopherwoodIOException
                   else bindE (local_seek (bi_bucketId info * LOCAL_BUCKET_SIZE (io_cfg env))) (\<lambda>rc.
                     if rc = - 1 then THROW GopherwoodIOException
                     else bindE (local_write buffer) (\<lambda>rc.
                       if rc \<noteq> int objectSize then THROW GopherwoodIOException
                       else retE (int objectSize)))))))))"

definition oss_deleteBlock :: "'o IOEnv \<Rightarrow> BlockInfo \<Rightarrow> ('o, unit) ioM" where
  "oss_deleteBlock env info =
     bindE (ossE (ossDeleteObject (io_oss env) (io_bucket env) (getOssObjectName (io_host env) info))) (\<lambda>rc.
     if rc = - 1 then THROW GopherwoodIOException else retE ())"

section \<open>What the local space holds\<close>

text \<open>
  The local space as a reader of the file sees it: the byte at a position, zero beyond its end.
\<close>

definition byte_at :: "byte list \<Rightarrow> nat \<Rightarrow> byte" where
  "byte_at f k = (if k < length f then f ! k else 0)"

lemma byte_at_store:
  "byte_at (store_at off bs f) k = (if off \<le> k \<and> k < off + length bs then bs ! (k - off) else byte_at f k)"
  by (auto simp: byte_at_def store_at_def nth_append min_def)

text \<open>The position of a block's byte, and that buckets do not overlap.\<close>

lemma bucket_positions_disjoint:
  fixes i j size a b :: nat
  assumes "i \<noteq> j" and "a < size" and "b < size"
  shows "i * size + a \<noteq> j * size + b"
proof
  assume "i * size + a = j * size + b"
  then have "(i * size + a) div size = (j * size + b) div size" by simp
  with assms show False by simp
qed

lemma local_seek_run:
  "0 \<le> off \<Longrightarrow> local_seek off (st, fd, oss) = (Inr off, (st, fd\<lparr>fd_off := nat off\<rparr>, oss))"
  by (simp add: local_seek_def posix_lseek_def)

lemma local_read_run:
  assumes "0 \<le> n" and "fd_off fd + nat n \<le> length (file_bytes st (fd_inode fd))"
  shows "local_read n (st, fd, oss) =
    (Inr (n, take (nat n) (drop (fd_off fd) (file_bytes st (fd_inode fd)))),
     (st, fd\<lparr>fd_off := fd_off fd + nat n\<rparr>, oss))"
proof -
  have "min (length (file_bytes st (fd_inode fd)) - fd_off fd) (nat n) = nat n" using assms(2) by simp
  with assms(1) show ?thesis by (simp add: local_read_def posix_read_def Let_def)
qed

text \<open>A write with enough room on the device stores every byte, and only those.\<close>

lemma local_write_run:
  assumes "fd_inode fd < length (inodes st)" and "length bs \<le> diskFree st"
  obtains st' where "local_write bs (st, fd, oss) =
      (Inr (int (length bs)), (st', fd\<lparr>fd_off := fd_off fd + length bs\<rparr>, oss))"
    and "file_bytes st' (fd_inode fd) = store_at (fd_off fd) bs (file_bytes st (fd_inode fd))"
    and "\<And>i. i \<noteq> fd_inode fd \<Longrightarrow> file_bytes st' i = file_bytes st i"
    and "length (inodes st') = length (inodes st)"
proof -
  let ?f = "file_bytes st (fd_inode fd)"
  let ?in = "min (length bs) (length ?f - fd_off fd)"
  have n: "min (length bs) (?in + diskFree st) = length bs" using assms(2) by simp
  show ?thesis
    by (rule that [of "(set_bytes (fd_inode fd) (store_at (fd_off fd) bs ?f) st)
          \<lparr>diskFree := diskFree st - (length bs - min (length bs) ?in)\<rparr>"])
      (use assms n in \<open>auto simp: local_write_def posix_write_def Let_def set_bytes_def file_bytes_def\<close>)
qed

text \<open>Whatever a write does, it changes no byte outside the range it was asked to write.\<close>

lemma posix_write_outside:
  assumes "posix_write bs st fd = (c, st', fd')" and "fd_inode fd < length (inodes st)"
    and "\<not> (fd_off fd \<le> k \<and> k < fd_off fd + length bs)"
  shows "byte_at (file_bytes st' (fd_inode fd)) k = byte_at (file_bytes st (fd_inode fd)) k"
    and "i \<noteq> fd_inode fd \<Longrightarrow> file_bytes st' i = file_bytes st i"
proof -
  define f where "f = file_bytes st (fd_inode fd)"
  define n where "n = min (length bs) (min (length bs) (length f - fd_off fd) + diskFree st)"
  define d where "d = diskFree st - (n - min n (min (length bs) (length f - fd_off fd)))"
  have "posix_write bs st fd = (if n = 0 \<and> bs \<noteq> [] then (- 1, st, fd)
      else (int n, (set_bytes (fd_inode fd) (store_at (fd_off fd) (take n bs) f) st)\<lparr>diskFree := d\<rparr>,
        fd\<lparr>fd_off := fd_off fd + n\<rparr>))"
    by (simp only: posix_write_def Let_def f_def n_def d_def)
  with assms(1) have st': "st' = st \<or>
      st' = (set_bytes (fd_inode fd) (store_at (fd_off fd) (take n bs) (file_bytes st (fd_inode fd))) st)\<lparr>diskFree := d\<rparr>"
    by (simp add: f_def split: if_splits)
  show "byte_at (file_bytes st' (fd_inode fd)) k = byte_at (file_bytes st (fd_inode fd)) k"
    using st' assms(2,3) by (elim disjE) (auto simp: byte_at_store)
  show "file_bytes st' i = file_bytes st i" if "i \<noteq> fd_inode fd"
    using st' that by (elim disjE) simp_all
qed

text \<open>Reading from a position that the file reaches, byte by byte.\<close>

lemma take_drop_bytes:
  "off + n \<le> length f \<Longrightarrow> take n (drop off f) = map (\<lambda>k. byte_at f (off + k)) [0..<n]"
  by (rule nth_equalityI) (simp_all add: byte_at_def)

section \<open>Local blocks\<close>

text \<open>
  A block written through \<^verbatim>\<open>BlockOutputStream\<close> is read back by \<^verbatim>\<open>BlockInputStream\<close> from the same place,
  by any descriptor of the local space and whatever its offset was; both streams advance the
  block's offset by the bytes transferred.
\<close>

theorem local_block_round_trip:
  assumes "bi_isLocal info" and "0 \<le> bi_bucketId info" and "0 \<le> bi_offset info"
    and "bi_offset info + int (length bs) \<le> LOCAL_BUCKET_SIZE cfg"
    and "length bs < 2 ^ 31" and "fd_inode fd < length (inodes st)" and "length bs \<le> diskFree st"
    and "fd_inode fd2 = fd_inode fd"
  shows "\<exists>st' fd'. BlockOutputStream_write cfg bs info (st, fd, oss) =
      (Inr (int (length bs), info\<lparr>bi_offset := bi_offset info + int (length bs)\<rparr>), (st', fd', oss)) \<and>
    fst (BlockInputStream_read cfg (int (length bs)) info (st', fd2, oss2)) =
      Inr ((int (length bs), bs), info\<lparr>bi_offset := bi_offset info + int (length bs)\<rparr>)"
proof -
  define off where "off = getLocalSpaceOffset cfg info"
  have off: "0 \<le> off" using assms(2-4) by (simp add: off_def getLocalSpaceOffset_def)
  have i32: "int32 (int (length bs)) = int (length bs)" using assms(5) by (simp add: int32_id)
  let ?fd = "fd\<lparr>fd_off := nat off\<rparr>"
  from local_write_run [of ?fd st bs oss] assms(6,7) obtain st' where w:
    "local_write bs (st, ?fd, oss) = (Inr (int (length bs)), (st', ?fd\<lparr>fd_off := nat off + length bs\<rparr>, oss))"
    "file_bytes st' (fd_inode fd) = store_at (nat off) bs (file_bytes st (fd_inode fd))"
    by auto
  have r: "local_read (int (length bs)) (st', fd2\<lparr>fd_off := nat off\<rparr>, oss2) =
      (Inr (int (length bs), bs), (st', fd2\<lparr>fd_off := nat off + length bs\<rparr>, oss2))"
    using w(2) assms(8) by (subst local_read_run) (auto simp: length_store_at store_at_read)
  show ?thesis
    using assms(1,4) off w(1) r
    by (simp add: BlockOutputStream_write_def BlockInputStream_read_def run_simps Let_def off_def [symmetric]
        local_seek_run writeLocal_def readLocal_def i32)
qed

text \<open>A local space of two buckets of eight bytes, empty, with room for forty bytes.\<close>

definition space0 :: FileStore where
  "space0 = \<lparr>dirents = [(LOCAL_SPACE_FILE, 0)], inodes = [[]], openFails = (\<lambda>_. False), diskFree = 40\<rparr>"

definition space_cfg :: Configuration where
  "space_cfg = \<lparr>NUMBER_OF_BLOCKS = 2, LOCAL_BUCKET_SIZE = 8, CUR_CONNECTION = 1, MAX_CONNECTION = 4,
     PRE_ALLOCATE_BUCKET_NUM = 1, PRE_ACTIVATE_BLOCK_NUM = 1, NDEBUG = False\<rparr>"

definition space_fd :: Fd where
  "space_fd = \<lparr>fd_inode = 0, fd_off = 3\<rparr>"

definition space_block :: "int \<Rightarrow> int \<Rightarrow> BlockInfo" where
  "space_block bucket off = \<lparr>bi_fileId = \<lparr>hashcode = 7, collisionId = 0\<rparr>, bi_blockId = 4, bi_bucketId = bucket,
     bi_offset = off, bi_dataSize = 2, bi_isLocal = True\<rparr>"

theorem local_block_round_trip_witness:
  "\<exists>st' fd'. BlockOutputStream_write space_cfg [9, 8, 7] (space_block 1 2) (space0, space_fd, ()) =
      (Inr (3, space_block 1 5), (st', fd', ())) \<and>
    fst (BlockInputStream_read space_cfg 3 (space_block 1 2) (st', space_fd, ())) =
      Inr ((3, [9, 8, 7]), space_block 1 5)"
  using local_block_round_trip [of "space_block 1 2" "[9, 8, 7]" space_cfg space_fd space0 space_fd "()" "()"]
  by (simp add: space_block_def space_cfg_def space_fd_def space0_def)

text \<open>
  Writing a block within its bucket leaves every byte of every other bucket, and every other
  file, as it was: buckets are isolated from each other.
\<close>

theorem local_write_isolated:
  assumes "0 \<le> bi_bucketId info" and "0 \<le> bi_offset info"
    and "bi_offset info + int (length bs) \<le> LOCAL_BUCKET_SIZE cfg"
    and "fd_inode fd < length (inodes st)"
    and "BlockOutputStream_write cfg bs info (st, fd, oss) = (r, (st', fd', oss'))"
    and "j \<noteq> nat (bi_bucketId info)" and "o' < nat (LOCAL_BUCKET_SIZE cfg)"
  shows "byte_at (file_bytes st' (fd_inode fd)) (j * nat (LOCAL_BUCKET_SIZE cfg) + o') =
      byte_at (file_bytes st (fd_inode fd)) (j * nat (LOCAL_BUCKET_SIZE cfg) + o') \<and>
    (i \<noteq> fd_inode fd \<longrightarrow> file_bytes st' i = file_bytes st i)"
proof (cases "bi_isLocal info")
  case False
  then show ?thesis using assms(5)
    by (auto simp: BlockOutputStream_write_def run_simps Let_def split: if_splits)
next
  case True
  define off where "off = nat (bi_bucketId info) * nat (LOCAL_BUCKET_SIZE cfg) + nat (bi_offset info)"
  have size: "0 \<le> LOCAL_BUCKET_SIZE cfg" using assms(2,3) by simp
  have offi: "getLocalSpaceOffset cfg info = int off"
    using assms(1,2) size by (simp add: getLocalSpaceOffset_def off_def)
  have fits: "nat (bi_offset info) + length bs \<le> nat (LOCAL_BUCKET_SIZE cfg)" using assms(2,3) by simp
  obtain c fd1 where w: "posix_write bs st (fd\<lparr>fd_off := off\<rparr>) = (c, st', fd1)"
    using assms(5) True
    by (auto simp: BlockOutputStream_write_def run_simps Let_def offi local_seek_run writeLocal_def local_write_def
        split: prod.splits if_splits)
  have "\<not> (off \<le> k \<and> k < off + length bs)" if k: "k = j * nat (LOCAL_BUCKET_SIZE cfg) + o'" for k
  proof
    assume in_range: "off \<le> k \<and> k < off + length bs"
    define a where "a = nat (bi_offset info) + (k - off)"
    have "k - off < length bs" using in_range by linarith
    then have a: "a < nat (LOCAL_BUCKET_SIZE cfg)" using fits unfolding a_def by linarith
    have "k = nat (bi_bucketId info) * nat (LOCAL_BUCKET_SIZE cfg) + a" using in_range by (simp add: a_def off_def)
    with bucket_positions_disjoint [OF assms(6,7) a] k show False by simp
  qed
  with posix_write_outside [OF w] assms(4) show ?thesis by simp
qed

theorem local_write_isolated_witness:
  "\<exists>r st' fd'. BlockOutputStream_write space_cfg [9, 8, 7] (space_block 1 2) (space0, space_fd, ()) = (r, (st', fd', ())) \<and>
    byte_at (file_bytes st' 0) 5 = byte_at (file_bytes space0 0) 5"
proof -
  obtain r st' fd' where w: "BlockOutputStream_write space_cfg [9, 8, 7] (space_block 1 2) (space0, space_fd, ()) =
      (r, (st', fd', ()))" by (metis prod.exhaust unit.exhaust)
  have "byte_at (file_bytes st' (fd_inode space_fd)) (0 * nat (LOCAL_BUCKET_SIZE space_cfg) + 5) =
      byte_at (file_bytes space0 (fd_inode space_fd)) (0 * nat (LOCAL_BUCKET_SIZE space_cfg) + 5)"
    using local_write_isolated [OF _ _ _ _ w, of 0 5] by (simp add: space_block_def space_cfg_def space_fd_def space0_def)
  with w show ?thesis by (auto simp: space_fd_def space_cfg_def)
qed

section \<open>Evicted blocks\<close>

text \<open>
  What the code relies on of the object store when the store serves its requests: an upload that
  is written and closed becomes the object, the head request gives its size, a download of the
  whole range delivers its bytes in order, in pieces of any positive length. Nothing is said of
  lengths that are not positive \<^verbatim>\<open>int32_t\<close> values. \<open>objs\<close> are the
  stored objects, \<open>up\<close> the object and bytes of an upload, \<open>down\<close> what a download still delivers.
\<close>

definition oss_laws :: "'o OssApi \<Rightarrow> ('o \<Rightarrow> string \<times> string \<Rightarrow> byte list option) \<Rightarrow>
    ('o \<Rightarrow> nat \<Rightarrow> ((string \<times> string) \<times> byte list) option) \<Rightarrow> ('o \<Rightarrow> nat \<Rightarrow> byte list option) \<Rightarrow> bool" where
  "oss_laws api objs up down \<longleftrightarrow>
     (\<forall>b n os. \<exists>h os'. ossPutObject api b n os = (Some h, os') \<and> up os' h = Some ((b, n), [])) \<and>
     (\<forall>h k c d os. up os h = Some (k, c) \<and> length d < 2 ^ 31 \<longrightarrow>
        (\<exists>os'. ossWrite api h d (int (length d)) os = (int (length d), os') \<and> up os' h = Some (k, c @ d))) \<and>
     (\<forall>h k c os. up os h = Some (k, c) \<longrightarrow> objs (ossCloseObject api h os) k = Some c) \<and>
     (\<forall>b n c os. objs os (b, n) = Some c \<longrightarrow>
        (\<exists>os'. ossHeadObject api b n os = (Some (length c), os') \<and> objs os' (b, n) = Some c)) \<and>
     (\<forall>b n c os. objs os (b, n) = Some c \<and> c \<noteq> [] \<longrightarrow>
        (\<exists>h os'. ossGetObject api b n 0 (int (length c) - 1) os = (Some h, os') \<and> down os' h = Some c)) \<and>
     (\<forall>h c n os. down os h = Some c \<and> c \<noteq> [] \<and> 0 < n \<and> n < 2 ^ 31 \<longrightarrow>
        (\<exists>m os'. 0 < m \<and> int m \<le> n \<and> m \<le> length c \<and> ossRead api h n os = (Some (take m c), os') \<and>
           down os' h = Some (drop m c)))"

lemma oss_put:
  assumes "oss_laws api objs up down"
  obtains h os' where "ossPutObject api b n os = (Some h, os')" and "up os' h = Some ((b, n), [])"
  using assms unfolding oss_laws_def by (elim conjE) meson

lemma oss_write:
  assumes "oss_laws api objs up down" and "up os h = Some (k, c)" and "length d < 2 ^ 31"
  obtains os' where "ossWrite api h d (int (length d)) os = (int (length d), os')" and "up os' h = Some (k, c @ d)"
  using assms unfolding oss_laws_def by (elim conjE) meson

lemma oss_close:
  "oss_laws api objs up down \<Longrightarrow> up os h = Some (k, c) \<Longrightarrow> objs (ossCloseObject api h os) k = Some c"
  unfolding oss_laws_def by blast

lemma oss_head:
  assumes "oss_laws api objs up down" and "objs os (b, n) = Some c"
  obtains os' where "ossHeadObject api b n os = (Some (length c), os')" and "objs os' (b, n) = Some c"
  using assms unfolding oss_laws_def by (elim conjE) meson

lemma oss_get:
  assumes "oss_laws api objs up down" and "objs os (b, n) = Some c" and "c \<noteq> []"
  obtains h os' where "ossGetObject api b n 0 (int (length c) - 1) os = (Some h, os')" and "down os' h = Some c"
  using assms unfolding oss_laws_def by (elim conjE) meson

lemma oss_read:
  assumes "oss_laws api objs up down" and "down os h = Some c" and "c \<noteq> []" and "0 < n" and "n < 2 ^ 31"
  obtains m os' where "0 < m" and "int m \<le> n" and "m \<le> length c" and "ossRead api h n os = (Some (take m c), os')"
    and "down os' h = Some (drop m c)"
  using assms unfolding oss_laws_def by (elim conjE) meson

lemma int32_nat: "n < 2 ^ 31 \<Longrightarrow> int32 (int n) = int n"
  by (simp add: int32_id)

text \<open>The download loop ends with the whole object, however it is cut into pieces.\<close>

lemma readBlock_loop_complete:
  assumes "oss_laws api objs up down" and "down os h = Some c" and "c \<noteq> []" and "length c < 2 ^ 31"
  shows "\<exists>os'. readBlock_loop api h (length c) got os = (Inr (Some (got @ c)), os')"
  using assms(2-4)
proof (induction c arbitrary: got os rule: measure_induct_rule [of length])
  case (less c)
  have "0 < int (length c)" "int (length c) < 2 ^ 31" using less.prems by auto
  from oss_read [OF assms(1) less.prems(1,2) this] this obtain m os' where m: "0 < m" "m \<le> length c"
    "ossRead api h (int32 (int (length c))) os = (Some (take m c), os')" "down os' h = Some (drop m c)"
    by (metis int32_nat less.prems(3) of_nat_le_iff)
  show ?case
  proof (cases "m = length c")
    case True
    then show ?thesis using m by (subst readBlock_loop.simps) simp
  next
    case False
    with m have "drop m c \<noteq> []" "length (drop m c) < length c" "length (drop m c) < 2 ^ 31" using less.prems by auto
    from less.IH [OF this(2) m(4) this(1,3), of "got @ take m c"] m False show ?thesis
      by (subst readBlock_loop.simps) (simp add: min_def)
  qed
qed

text \<open>Writing out a block that the local space holds.\<close>

lemma writeBlock_stores:
  assumes "oss_laws (io_oss env) objs up down"
    and "0 \<le> bi_bucketId info" and "0 \<le> LOCAL_BUCKET_SIZE (io_cfg env)" and "0 \<le> bi_dataSize info"
    and "nat (bi_bucketId info * LOCAL_BUCKET_SIZE (io_cfg env)) + nat (bi_dataSize info)
           \<le> length (file_bytes st (fd_inode fd))" and "bi_dataSize info < 2 ^ 31"
  shows "\<exists>fd1 oss1. writeBlock env info (st, fd, oss) = (Inr (), (st, fd1, oss1)) \<and>
    objs oss1 (io_bucket env, getOssObjectName (io_host env) info) =
      Some (take (nat (bi_dataSize info))
        (drop (nat (bi_bucketId info * LOCAL_BUCKET_SIZE (io_cfg env))) (file_bytes st (fd_inode fd))))"
proof -
  define off where "off = bi_bucketId info * LOCAL_BUCKET_SIZE (io_cfg env)"
  define bs where "bs = take (nat (bi_dataSize info)) (drop (nat off) (file_bytes st (fd_inode fd)))"
  have off: "0 \<le> off" using assms(2,3) by (simp add: off_def)
  have len: "int (length bs) = bi_dataSize info"
    using assms(4,5) unfolding bs_def off_def [symmetric] by simp
  have r: "local_read (bi_dataSize info) (st, fd\<lparr>fd_off := nat off\<rparr>, oss) =
      (Inr (bi_dataSize info, bs), (st, fd\<lparr>fd_off := nat off + nat (bi_dataSize info)\<rparr>, oss))"
    using assms(4,5) by (subst local_read_run) (simp_all add: bs_def off_def)
  from oss_put [OF assms(1)] obtain h o1 where p:
    "ossPutObject (io_oss env) (io_bucket env) (getOssObjectName (io_host env) info) oss = (Some h, o1)"
    "up o1 h = Some ((io_bucket env, getOssObjectName (io_host env) info), [])" .
  have "length bs < 2 ^ 31" using len assms(6) by simp
  from oss_write [OF assms(1) p(2) this] obtain o2 where w:
    "ossWrite (io_oss env) h bs (int (length bs)) o1 = (int (length bs), o2)"
    "up o2 h = Some ((io_bucket env, getOssObjectName (io_host env) info), [] @ bs)" .
  have "int32 (bi_dataSize info) = bi_dataSize info" using assms(4,6) by (simp add: int32_id)
  with oss_close [OF assms(1) w(2)] off r p(1) w(1) len show ?thesis
    unfolding off_def [symmetric] bs_def [symmetric]
    by (simp add: writeBlock_def run_simps local_seek_run ossE_def off_def [symmetric])
qed

text \<open>Loading the block into a bucket.\<close>

lemma readBlock_loads:
  assumes "oss_laws (io_oss env) objs up down"
    and "objs oss (io_bucket env, getOssObjectName (io_host env) info) = Some c" and "c \<noteq> []"
    and "0 \<le> bi_bucketId info" and "0 \<le> LOCAL_BUCKET_SIZE (io_cfg env)"
    and "fd_inode fd < length (inodes st)" and "length c \<le> diskFree st" and "length c < 2 ^ 31"
  shows "\<exists>st' fd' oss'. readBlock env info (st, fd, oss) = (Inr (int (length c)), (st', fd', oss')) \<and>
    file_bytes st' (fd_inode fd) =
      store_at (nat (bi_bucketId info * LOCAL_BUCKET_SIZE (io_cfg env))) c (file_bytes st (fd_inode fd))"
proof -
  define off where "off = bi_bucketId info * LOCAL_BUCKET_SIZE (io_cfg env)"
  have off: "0 \<le> off" using assms(4,5) by (simp add: off_def)
  from oss_head [OF assms(1,2)] obtain o1 where h:
    "ossHeadObject (io_oss env) (io_bucket env) (getOssObjectName (io_host env) info) oss = (Some (length c), o1)"
    "objs o1 (io_bucket env, getOssObjectName (io_host env) info) = Some c" .
  from oss_get [OF assms(1) h(2) assms(3)] obtain hd o2 where g:
    "ossGetObject (io_oss env) (io_bucket env) (getOssObjectName (io_host env) info) 0 (int (length c) - 1) o1 = (Some hd, o2)"
    "down o2 hd = Some c" .
  from readBlock_loop_complete [OF assms(1) g(2) assms(3,8), of "[]"] obtain o3 where l:
    "readBlock_loop (io_oss env) hd (length c) [] o2 = (Inr (Some c), o3)" by auto
  from local_write_run [of "fd\<lparr>fd_off := nat off\<rparr>" st c "ossCloseObject (io_oss env) hd o3"] assms(6,7)
  obtain st' where w: "local_write c (st, fd\<lparr>fd_off := nat off\<rparr>, ossCloseObject (io_oss env) hd o3) =
      (Inr (int (length c)), (st', fd\<lparr>fd_off := nat off + length c\<rparr>, ossCloseObject (io_oss env) hd o3))"
    "file_bytes st' (fd_inode fd) = store_at (nat off) c (file_bytes st (fd_inode fd))"
    by auto
  show ?thesis
    using h(1) g(1) l w off
    by (simp add: readBlock_def Let_def run_simps ossE_def local_seek_run off_def [symmetric])
qed

text \<open>
  C8 A block of less than 2 GiB that is evicted to the object store and loaded again, into any bucket, of
  the same or another process, at any later time at which nobody has replaced its object, is the
  block that was evicted: the load returns its size and the bucket holds its bytes. The object store
  serves the requests, and there is room on the disk. The bound is that of the \<^verbatim>\<open>int32_t\<close> lengths of the
  object store.
\<close>

theorem evict_load_round_trip:
  assumes "oss_laws (io_oss env) objs up down"
    and "0 \<le> bi_bucketId info" and "0 \<le> LOCAL_BUCKET_SIZE (io_cfg env)" and "0 < bi_dataSize info"
    and "nat (bi_bucketId info * LOCAL_BUCKET_SIZE (io_cfg env)) + nat (bi_dataSize info)
           \<le> length (file_bytes st (fd_inode fd))"
    and "bi_fileId info2 = bi_fileId info" and "bi_blockId info2 = bi_blockId info" and "0 \<le> bi_bucketId info2"
    and "fd_inode fd2 < length (inodes st2)" and "nat (bi_dataSize info) \<le> diskFree st2" and "bi_dataSize info < 2 ^ 31"
  shows "\<exists>fd1 oss1. writeBlock env info (st, fd, oss) = (Inr (), (st, fd1, oss1)) \<and>
    (\<forall>oss2. objs oss2 = objs oss1 \<longrightarrow>
      (\<exists>st3 fd3 oss3. readBlock env info2 (st2, fd2, oss2) = (Inr (bi_dataSize info), (st3, fd3, oss3)) \<and>
         take (nat (bi_dataSize info))
           (drop (nat (bi_bucketId info2 * LOCAL_BUCKET_SIZE (io_cfg env))) (file_bytes st3 (fd_inode fd2))) =
         take (nat (bi_dataSize info))
           (drop (nat (bi_bucketId info * LOCAL_BUCKET_SIZE (io_cfg env))) (file_bytes st (fd_inode fd)))))"
proof -
  define c where "c = take (nat (bi_dataSize info))
    (drop (nat (bi_bucketId info * LOCAL_BUCKET_SIZE (io_cfg env))) (file_bytes st (fd_inode fd)))"
  have name: "getOssObjectName (io_host env) info2 = getOssObjectName (io_host env) info"
    using assms(6,7) by (simp add: getOssObjectName_def)
  have size: "0 \<le> bi_dataSize info" using assms(4) by simp
  have len: "length c = nat (bi_dataSize info)" using assms(5) by (simp add: c_def)
  then have c: "c \<noteq> []" "length c \<le> diskFree st2" "length c < 2 ^ 31" using assms(4,10,11) by auto
  from writeBlock_stores [OF assms(1-3) size assms(5,11), of oss, folded c_def] obtain fd1 oss1 where w:
    "writeBlock env info (st, fd, oss) = (Inr (), (st, fd1, oss1))"
    "objs oss1 (io_bucket env, getOssObjectName (io_host env) info) = Some c" by blast
  have "\<exists>st3 fd3 oss3. readBlock env info2 (st2, fd2, oss2) = (Inr (bi_dataSize info), (st3, fd3, oss3)) \<and>
         take (nat (bi_dataSize info))
           (drop (nat (bi_bucketId info2 * LOCAL_BUCKET_SIZE (io_cfg env))) (file_bytes st3 (fd_inode fd2))) = c"
    if "objs oss2 = objs oss1" for oss2
  proof -
    have "objs oss2 (io_bucket env, getOssObjectName (io_host env) info2) = Some c" using w(2) that name by simp
    from readBlock_loads [OF assms(1) this c(1) assms(8,3,9) c(2,3)] obtain st3 fd3 oss3 where
      "readBlock env info2 (st2, fd2, oss2) = (Inr (int (length c)), (st3, fd3, oss3))"
      "file_bytes st3 (fd_inode fd2) =
        store_at (nat (bi_bucketId info2 * LOCAL_BUCKET_SIZE (io_cfg env))) c (file_bytes st2 (fd_inode fd2))" by blast
    with store_at_read [of c] size show ?thesis unfolding len by auto
  qed
  with w(1) show ?thesis unfolding c_def [symmetric] by blast
qed

text \<open>An object store in memory that delivers two bytes at a time.\<close>

type_synonym mem_store =
  "(string \<times> string \<Rightarrow> byte list option) \<times> ((string \<times> string) \<times> byte list) option \<times> byte list option"

definition mem_oss :: "mem_store OssApi" where
  "mem_oss =
     \<lparr>ossPutObject = (\<lambda>b n (m, u, d). (Some 0, (m, Some ((b, n), []), d))),
      ossWrite = (\<lambda>h bs n (m, u, d). case u of
          None \<Rightarrow> (- 1, (m, u, d)) | Some (k, c) \<Rightarrow> (n, (m, Some (k, c @ take (nat n) bs), d))),
      ossCloseObject = (\<lambda>h (m, u, d). if h = 0 then (case u of
          None \<Rightarrow> (m, u, d) | Some (k, c) \<Rightarrow> (m(k \<mapsto> c), None, d)) else (m, u, None)),
      ossHeadObject = (\<lambda>b n (m, u, d). (map_option length (m (b, n)), (m, u, d))),
      ossGetObject = (\<lambda>b n from to (m, u, d). case m (b, n) of
          None \<Rightarrow> (None, (m, u, d))
        | Some c \<Rightarrow> (Some 1, (m, u, Some (take (nat (to - from + 1)) (drop (nat from) c))))),
      ossRead = (\<lambda>h n (m, u, d). case d of
          None \<Rightarrow> (None, (m, u, d)) | Some c \<Rightarrow> (Some (take (min (nat n) 2) c), (m, u, Some (drop (min (nat n) 2) c)))),
      ossDeleteObject = (\<lambda>b n (m, u, d). if m (b, n) = None then (- 1, (m, u, d)) else (0, (m((b, n) := None), u, d)))\<rparr>"

definition mem_up :: "mem_store \<Rightarrow> nat \<Rightarrow> ((string \<times> string) \<times> byte list) option" where
  "mem_up os h = (if h = 0 then fst (snd os) else None)"

definition mem_down :: "mem_store \<Rightarrow> nat \<Rightarrow> byte list option" where
  "mem_down os h = (if h = 1 then snd (snd os) else None)"

lemma take_drop_min: "take (min (length c) k) c = take k c" "drop (min (length c) k) c = drop k c"
  by (simp_all add: min_def)

lemma mem_oss_laws: "oss_laws mem_oss fst mem_up mem_down"
proof -
  have "\<exists>m os'. 0 < m \<and> int m \<le> n \<and> m \<le> length c \<and> ossRead mem_oss h n os = (Some (take m c), os') \<and>
      mem_down os' h = Some (drop m c)" if "mem_down os h = Some c" "c \<noteq> []" "0 < n" for h n os and c :: "byte list"
    using that
    by (intro exI [of _ "min (length c) (min (nat n) 2)"]) (auto simp: mem_oss_def mem_down_def take_drop_min split: prod.splits if_splits)
  then show ?thesis
    by (auto simp: oss_laws_def mem_oss_def mem_up_def mem_down_def split: prod.splits if_splits)
qed

definition mem_env :: "mem_store IOEnv" where
  "mem_env = \<lparr>io_cfg = space_cfg, io_oss = mem_oss, io_host = ''h'', io_bucket = ''b''\<rparr>"

definition space1 :: FileStore where
  "space1 = space0\<lparr>inodes := [[1, 2, 3, 4, 5, 6, 7, 8, 9, 10]]\<rparr>"

theorem evict_load_round_trip_witness:
  "\<exists>fd1 oss1. writeBlock mem_env (space_block 1 0) (space1, space_fd, (Map.empty, None, None)) =
      (Inr (), (space1, fd1, oss1)) \<and>
    (\<exists>st3 fd3 oss3. readBlock mem_env (space_block 0 0) (space0, space_fd, oss1) = (Inr 2, (st3, fd3, oss3)) \<and>
       take 2 (file_bytes st3 0) = [9, 10])"
proof -
  have v: "io_cfg mem_env = space_cfg" "LOCAL_BUCKET_SIZE space_cfg = 8" "fd_inode space_fd = 0"
    "bi_dataSize (space_block b 0) = 2" "bi_bucketId (space_block b 0) = b"
    "file_bytes space1 0 = [1, 2, 3, 4, 5, 6, 7, 8, 9, 10]" "length (inodes space0) = 1" "diskFree space0 = 40"
    "bi_fileId (space_block b 0) = \<lparr>hashcode = 7, collisionId = 0\<rparr>" "bi_blockId (space_block b 0) = 4"
    for b
    by (simp_all add: mem_env_def space_cfg_def space_fd_def space_block_def space1_def space0_def file_bytes_def)
  have laws: "oss_laws (io_oss mem_env) fst mem_up mem_down" using mem_oss_laws by (simp add: mem_env_def)
  have "\<exists>fd1 oss1. writeBlock mem_env (space_block 1 0) (space1, space_fd, (Map.empty, None, None)) =
      (Inr (), (space1, fd1, oss1)) \<and>
    (\<forall>oss2. fst oss2 = fst oss1 \<longrightarrow>
      (\<exists>st3 fd3 oss3. readBlock mem_env (space_block 0 0) (space0, space_fd, oss2) = (Inr 2, (st3, fd3, oss3)) \<and>
       take 2 (file_bytes st3 0) = [9, 10]))"
    using evict_load_round_trip [OF laws, of "space_block 1 0" space1 space_fd "space_block 0 0" space_fd space0
      "(Map.empty, None, None)"] by (simp add: v)
  then show ?thesis by blast
qed

section \<open>Errors and names\<close>

text \<open>
  Whatever the object store answers, writing a block out either succeeds or throws
  \<^verbatim>\<open>GopherwoodIOException\<close>, and it changes nothing in the local space: a failed eviction loses no data.
\<close>

theorem writeBlock_keeps_local:
  "fst (writeBlock env info (st, fd, oss)) \<in> {Inr (), Inl (Exn GopherwoodIOException)} \<and>
   fst (snd (writeBlock env info (st, fd, oss))) = st"
  by (simp add: writeBlock_def run_simps local_seek_def local_read_def ossE_def posix_read_def Let_def
      split: prod.splits option.splits)

text \<open>
  A block of 2 GiB or more is never evicted, whatever the object store answers: its size does not fit the
  \<^verbatim>\<open>int\<close> that the count written is stored in.
\<close>

theorem large_block_not_evicted:
  assumes "2 ^ 31 \<le> bi_dataSize info"
  shows "fst (writeBlock env info s) = Inl (Exn GopherwoodIOException)"
proof -
  have "int32 x \<noteq> bi_dataSize info" for x using assms int32_range [of x] by auto
  then show ?thesis
    by (cases s) (simp add: writeBlock_def run_simps local_seek_def local_read_def ossE_def split: prod.splits option.splits)
qed

theorem large_block_not_evicted_witness:
  "fst (writeBlock mem_env ((space_block 1 0)\<lparr>bi_dataSize := 2 ^ 31\<rparr>) (space1, space_fd, (Map.empty, None, None))) =
     Inl (Exn GopherwoodIOException)"
  by (rule large_block_not_evicted) simp

text \<open>
  C31 Whatever the object store answers, loading a block writes the local space only when the whole
  object has arrived: any other outcome than that of the final write leaves the local space as it was, and
  the store's bytes are exactly those of the object's length.
\<close>

theorem readBlock_all_or_nothing:
  assumes "readBlock env info (st, fd, oss) = (r, (st', fd', oss'))" and "st' \<noteq> st"
  shows "\<exists>n buffer o1 o2 h. ossHeadObject (io_oss env) (io_bucket env) (getOssObjectName (io_host env) info) oss = (Some n, o1) \<and>
    ossGetObject (io_oss env) (io_bucket env) (getOssObjectName (io_host env) info) 0 (int n - 1) o1 = (Some h, o2) \<and>
    fst (readBlock_loop (io_oss env) h n [] o2) = Inr (Some buffer) \<and> length buffer = n"
  using assms
  by (auto simp: readBlock_def Let_def run_simps local_seek_def ossE_def split: prod.splits option.splits if_splits sum.splits)

theorem readBlock_all_or_nothing_witness:
  "\<exists>n buffer o1 o2 h. ossHeadObject mem_oss ''b'' (getOssObjectName ''h'' (space_block 0 0))
      ([(''b'', getOssObjectName ''h'' (space_block 0 0)) \<mapsto> [5, 6]], None, None) = (Some n, o1) \<and>
    ossGetObject mem_oss ''b'' (getOssObjectName ''h'' (space_block 0 0)) 0 (int n - 1) o1 = (Some h, o2) \<and>
    fst (readBlock_loop mem_oss h n [] o2) = Inr (Some buffer) \<and> length buffer = n"
proof -
  let ?oss = "([(''b'', getOssObjectName ''h'' (space_block 0 0)) \<mapsto> [5, 6]], None, None) :: mem_store"
  have laws: "oss_laws (io_oss mem_env) fst mem_up mem_down" using mem_oss_laws by (simp add: mem_env_def)
  have v: "io_cfg mem_env = space_cfg" "LOCAL_BUCKET_SIZE space_cfg = 8" "fd_inode space_fd = 0"
    "bi_bucketId (space_block 0 0) = 0" "length (inodes space0) = 1" "diskFree space0 = 40" "file_bytes space0 0 = []"
    "io_bucket mem_env = ''b''" "io_host mem_env = ''h''" "io_oss mem_env = mem_oss"
    by (simp_all add: mem_env_def space_cfg_def space_fd_def space_block_def space0_def file_bytes_def)
  from readBlock_loads [OF laws, of ?oss "space_block 0 0" "[5, 6]" space_fd space0] obtain st' fd' oss' where
    r: "readBlock mem_env (space_block 0 0) (space0, space_fd, ?oss) = (Inr 2, (st', fd', oss'))"
      "file_bytes st' 0 = [5, 6]" by (auto simp: v store_at_def)
  have "st' \<noteq> space0" using r(2) v(7) by auto
  from readBlock_all_or_nothing [OF r(1) this] show ?thesis by (simp only: v)
qed

lemma decimal_int_no_slash: "CHR ''/'' \<notin> set (decimal_int i)"
  by (simp add: decimal_int_def decimal_not_in)

lemma decimal_int_inj: "decimal_int i = decimal_int j \<Longrightarrow> i = j"
proof -
  have dash: "decimal n \<noteq> CHR ''-'' # xs" for n xs
    using decimal_not_in [of "CHR ''-''" n] by auto
  assume "decimal_int i = decimal_int j"
  then show "i = j"
    using dash decimal_inj by (auto simp: decimal_int_def split: if_splits dest!: decimal_inj) (metis dash)+
qed

text \<open>
  Blocks of different files, or different blocks of a file, have different object names, as long
  as files are told apart by their hash code (\<^verbatim>\<open>FileSystem::makeFileId\<close> gives every file collision id 0).
\<close>

theorem object_names_distinct:
  assumes "getOssObjectName host i = getOssObjectName host j"
    and "collisionId (bi_fileId i) = collisionId (bi_fileId j)"
  shows "bi_fileId i = bi_fileId j \<and> bi_blockId i = bi_blockId j"
proof -
  have slash: "CHR ''/'' \<notin> set (FileId_toString f)" for f
    by (simp add: FileId_toString_def decimal_not_in)
  have "FileId_toString (bi_fileId i) @ CHR ''/'' # decimal_int (bi_blockId i) =
      FileId_toString (bi_fileId j) @ CHR ''/'' # decimal_int (bi_blockId j)"
    using assms(1) by (simp add: getOssObjectName_def)
  from split_at_char [OF slash slash this] have
    s: "FileId_toString (bi_fileId i) = FileId_toString (bi_fileId j)" "decimal_int (bi_blockId i) = decimal_int (bi_blockId j)"
    by blast+
  then have "unat (hashcode (bi_fileId i)) = unat (hashcode (bi_fileId j))"
    using assms(2) by (auto simp: FileId_toString_def dest: decimal_inj)
  with assms(2) decimal_int_inj [OF s(2)] show ?thesis by (simp add: FileId_eq_iff word_unat_eq_iff)
qed

theorem object_names_distinct_witness:
  "getOssObjectName ''h'' (space_block 0 0) = getOssObjectName ''h'' (space_block 1 5) \<and>
   bi_fileId (space_block 0 0) = bi_fileId (space_block 1 5) \<and> bi_blockId (space_block 0 0) = bi_blockId (space_block 1 5)"
proof -
  have "getOssObjectName ''h'' (space_block 0 0) = getOssObjectName ''h'' (space_block 1 5)"
    by (simp add: getOssObjectName_def space_block_def)
  with object_names_distinct [OF this] show ?thesis by (simp add: space_block_def)
qed

text \<open>
  Two files that differ in their collision id can share an object name: the name prints the hash
  code and the collision id with nothing between them.
\<close>

theorem object_names_collide:
  "\<exists>i j. bi_fileId i \<noteq> bi_fileId j \<and> getOssObjectName host i = getOssObjectName host j"
proof -
  let ?i = "(space_block 0 0)\<lparr>bi_fileId := \<lparr>hashcode = 1, collisionId = 11\<rparr>\<rparr>"
  let ?j = "(space_block 0 0)\<lparr>bi_fileId := \<lparr>hashcode = 11, collisionId = 1\<rparr>\<rparr>"
  have "decimal 11 = [digit 1, digit 1]" "decimal 1 = [digit 1]" by (subst decimal.simps, simp add: decimal.simps)+
  then have "getOssObjectName host ?i = getOssObjectName host ?j"
    by (simp add: getOssObjectName_def FileId_toString_def space_block_def)
  moreover have "bi_fileId ?i \<noteq> bi_fileId ?j" by simp
  ultimately show ?thesis by blast
qed

end
