(* ===== verification/GW_FileActiveStatus.thy ===== *)
theory GW_FileActiveStatus
  imports GW_SharedMemContext GW_LRUCache GW_Manifest GW_BlockIO
begin

text \<open>
  \<^verbatim>\<open>src/core/FileActiveStatus.cpp\<close> and \<^verbatim>\<open>BaseActiveStatus.cpp\<close>: the state of one opening of a file and all
  its operations. The world of an operation is what processes share (the shared memory region,
  the file store, the object store), what the process has (the descriptor of the local space,
  the queue of its thread pool) and the \<^verbatim>\<open>FileActiveStatus\<close> object itself.

  Concurrency: other processes act whenever this one does not hold the lock of the shared memory.
  \<open>w_sched\<close> lists what they do, one change of the shared part for every time the process takes
  the lock; theorems quantify over it. Load tasks run when the file's thread waits for them.
\<close>

record FileActiveStatus =
  mFileId :: FileId
  mManifest :: Manifest
  mLRUCache :: "(int, int) LRUCache option"
  mIsWrite :: bool
  mIsDelete :: bool
  mIsSequence :: bool
  mShouldDestroy :: bool
  mPos :: int
  mEof :: int
  mBlockArray :: "Block list"
  mPreAllocatedBuckets :: "Block list"
  mLoadingBuckets :: "Block list"
  mLoadMutex :: bool
  mActiveId :: int
  mNumEvicted :: "32 word"
  mNumLoaded :: "32 word"
  mNumActivated :: "32 word"

type_synonym 'o shared = "SharedMemoryContext \<times> FileStore \<times> 'o"

text \<open>The administrator's registration and its count of evicted blocks.\<close>

record AdminActiveStatus =
  ad_activeId :: int
  ad_numEvicted :: "32 word"

record 'o World =
  w_shm :: SharedMemoryContext
  w_store :: FileStore
  w_oss :: 'o
  w_sched :: "('o shared \<Rightarrow> 'o shared) list"
  w_localFd :: Fd
  w_tasks :: "BlockInfo list"
  w_file :: FileActiveStatus
  w_admin :: AdminActiveStatus

text \<open>
  The process: settings and object store, pid, whether \<^verbatim>\<open>OssBuilder::buildContext\<close> succeeds, the
  uninitialised bytes that the manifest code writes and reads, what a freed node of the cache reads
  as, and the rounds that loops are followed for.
\<close>

record 'o Env =
  e_io :: "'o IOEnv"
  e_pid :: int
  e_buildContext :: bool
  e_pad :: "16 word"
  e_garbage :: "byte list"
  e_freed :: "int \<Rightarrow> int"
  e_fuel :: nat

abbreviation e_cfg :: "'o Env \<Rightarrow> Configuration" where
  "e_cfg env \<equiv> io_cfg (e_io env)"

type_synonym ('o, 'a) faM = "('o World, gw_error, 'a) gw"

section \<open>Access to the parts of the world\<close>

definition shmE :: "'a shmM \<Rightarrow> ('o, 'a) faM" where
  "shmE m = zoomE w_shm (\<lambda>x w. w\<lparr>w_shm := x\<rparr>) m"

definition modFile :: "(FileActiveStatus \<Rightarrow> FileActiveStatus) \<Rightarrow> ('o, unit) faM" where
  "modFile f = modifyE (\<lambda>w. w\<lparr>w_file := f (w_file w)\<rparr>)"

definition getFile :: "(FileActiveStatus \<Rightarrow> 'a) \<Rightarrow> ('o, 'a) faM" where
  "getFile f = getsE (\<lambda>w. f (w_file w))"

definition mfE :: "'a mfM \<Rightarrow> ('o, 'a) faM" where
  "mfE m = zoomE (\<lambda>w. (w_store w, mManifest (w_file w)))
     (\<lambda>(st, mf) w. w\<lparr>w_store := st, w_file := (w_file w)\<lparr>mManifest := mf\<rparr>\<rparr>) m"

definition ioE :: "('o, 'a) ioM \<Rightarrow> ('o, 'a) faM" where
  "ioE m = zoomE (\<lambda>w. (w_store w, w_localFd w, w_oss w))
     (\<lambda>(st, fd, oss) w. w\<lparr>w_store := st, w_localFd := fd, w_oss := oss\<rparr>) m"

definition lruE :: "((int, int) LRUCache, gw_error, 'a) gw \<Rightarrow> ('o, 'a) faM" where
  "lruE m = (\<lambda>w. case mLRUCache (w_file w) of
     None \<Rightarrow> (Inl BadAccess, w)
   | Some c \<Rightarrow> (case m c of (r, c') \<Rightarrow> (r, w\<lparr>w_file := (w_file w)\<lparr>mLRUCache := Some c'\<rparr>\<rparr>)))"

definition removeNumOfKeys :: "'o Env \<Rightarrow> nat \<Rightarrow> ('o, int list) faM" where
  "removeNumOfKeys env n = lruE (\<lambda>c. case lru_removeNumOfKeys (e_freed env) n c of (ks, c') \<Rightarrow> (Inr ks, c'))"

text \<open>The callers of \<^verbatim>\<open>put\<close> ignore the key it reports.\<close>

definition lruPut :: "int \<Rightarrow> int \<Rightarrow> ('o, unit) faM" where
  "lruPut k v = lruE (\<lambda>c. (Inr (), snd (lru_put id k v c)))"

text \<open>\<^verbatim>\<open>mBlockArray[i]\<close>, read and written.\<close>

definition readBlockArray :: "int \<Rightarrow> ('o, Block) faM" where
  "readBlockArray i = (\<lambda>w. case idx i (mBlockArray (w_file w)) of
     None \<Rightarrow> (Inl BadAccess, w) | Some b \<Rightarrow> (Inr b, w))"

definition writeBlockArray :: "int \<Rightarrow> Block \<Rightarrow> ('o, unit) faM" where
  "writeBlockArray i b = (\<lambda>w. case idx i (mBlockArray (w_file w)) of
     None \<Rightarrow> (Inl BadAccess, w)
   | Some _ \<Rightarrow> (Inr (), w\<lparr>w_file := (w_file w)\<lparr>mBlockArray := (mBlockArray (w_file w))[nat i := b]\<rparr>\<rparr>))"

primrec readBlocks :: "int list \<Rightarrow> ('o, Block list) faM" where
  "readBlocks [] = retE []"
| "readBlocks (i # is) = bindE (readBlockArray i) (\<lambda>b. bindE (readBlocks is) (\<lambda>bs. retE (b # bs)))"

text \<open>
  \<^verbatim>\<open>mLoadMutex\<close>. Every other holder releases it, so a thread waits for ever exactly when an exception
  left it locked.
\<close>

definition lockLoadMutex :: "('o, unit) faM" where
  "lockLoadMutex = bindE (getFile mLoadMutex) (\<lambda>locked.
     if locked then throwE OutOfFuel else modFile (\<lambda>f. f\<lparr>mLoadMutex := True\<rparr>))"

definition unlockLoadMutex :: "('o, unit) faM" where
  "unlockLoadMutex = modFile (\<lambda>f. f\<lparr>mLoadMutex := False\<rparr>)"

section \<open>Replaying the manifest log\<close>

text \<open>
  The \<^verbatim>\<open>switch\<close> of \<^verbatim>\<open>catchUpManifestLogs\<close> on one record, as a function of the block array and the end of
  file.
\<close>

definition set_state :: "8 word \<Rightarrow> Block \<Rightarrow> Block list \<Rightarrow> gw_error + Block list" where
  "set_state st b arr = (case idx (bk_blockId b) arr of
     None \<Rightarrow> Inl BadAccess
   | Some x \<Rightarrow> Inr (arr[nat (bk_blockId b) := x\<lparr>bk_state := st\<rparr>]))"

definition first_block :: "Block list \<Rightarrow> gw_error + Block" where
  "first_block bs = (case bs of [] \<Rightarrow> Inl BadAccess | b # _ \<Rightarrow> Inr b)"

definition replay :: "Configuration \<Rightarrow> RecordHeader \<Rightarrow> Block list \<Rightarrow> Block list \<times> int \<Rightarrow>
    gw_error + Block list \<times> int" where
  "replay cfg hdr blocks s =
     (let (arr, eof) = s;
          one = (\<lambda>r. if \<not> NDEBUG cfg \<and> numBlocks hdr \<noteq> 1 then Inl AssertAbort else r) in
      if \<not> NDEBUG cfg \<and> unat (numBlocks hdr) \<noteq> length blocks then Inl AssertAbort
      else if rh_type hdr = rt_activeBlock
      then (case foldS (set_state BUCKET_ACTIVE) blocks arr of Inl e \<Rightarrow> Inl e | Inr a \<Rightarrow> Inr (a, eof))
      else if rh_type hdr = rt_inactiveBlock
      then (case foldS (set_state BUCKET_USED) blocks arr of Inl e \<Rightarrow> Inl e | Inr a \<Rightarrow> Inr (a, eof))
      else if rh_type hdr = rt_acquireNewBlock then Inr (arr, eof)
      else if rh_type hdr = rt_releaseBlock then Inr (arr, eof)
      else if rh_type hdr = rt_extendBlock
      then one (case first_block blocks of Inl e \<Rightarrow> Inl e
                | Inr b \<Rightarrow> Inr (arr @ [b], sint (opaque hdr)))
      else if rh_type hdr = rt_evictBlock
      then one (case first_block blocks of Inl e \<Rightarrow> Inl e
                | Inr b \<Rightarrow> (case idx (bk_blockId b) arr of None \<Rightarrow> Inl BadAccess
                  | Some x \<Rightarrow> if isLocal x \<and> bk_state x = BUCKET_USED
                              then Inr (arr[nat (bk_blockId b) := b], eof)
                              else Inl (Exn GopherwoodException)))
      else if rh_type hdr = rt_loadBlock
      then one (case first_block blocks of Inl e \<Rightarrow> Inl e
                | Inr b \<Rightarrow> (case idx (bk_blockId b) arr of None \<Rightarrow> Inl BadAccess
                  | Some x \<Rightarrow> if \<not> isLocal x then Inr (arr[nat (bk_blockId b) := b], eof)
                              else Inl (Exn GopherwoodException)))
      else if rh_type hdr = rt_fullStatus then Inr (arr @ blocks, sint (opaque hdr))
      else if rh_type hdr = rt_updateEof
      then (if \<not> NDEBUG cfg \<and> numBlocks hdr \<noteq> 0 then Inl AssertAbort
            else Inr (arr, sint (opaque hdr)))
      else Inl (Exn GopherwoodNotImplException))"

text \<open>
  The loop. Every record takes at least ten bytes of the file, so as many rounds as the file has
  bytes are enough.
\<close>

primrec catchUp_loop :: "Configuration \<Rightarrow> nat \<Rightarrow> ('o, unit) faM" where
  "catchUp_loop cfg 0 = throwE OutOfFuel"
| "catchUp_loop cfg (Suc n) =
     bindE (mfE fetchOneLogRecord) (\<lambda>(hdr, blocks).
     case hdr of
       None \<Rightarrow> retE ()
     | Some h \<Rightarrow>
         if rh_type h = rt_invalidLog then retE ()
         else bindE (getFile (\<lambda>f. (mBlockArray f, mEof f))) (\<lambda>s.
              bindE (pureE (replay cfg h blocks s)) (\<lambda>(arr, eof).
              seqE (modFile (\<lambda>f. f\<lparr>mBlockArray := arr, mEof := eof\<rparr>))
              (catchUp_loop cfg n))))"

definition log_fuel :: "'o World \<Rightarrow> nat" where
  "log_fuel w = (case mFD (mManifest (w_file w)) of
     None \<Rightarrow> 1 | Some fd \<Rightarrow> length (file_bytes (w_store w) (fd_inode fd)) + 1)"

definition catchUpManifestLogs :: "Configuration \<Rightarrow> ('o, unit) faM" where
  "catchUpManifestLogs cfg = bindE (getsE log_fuel) (catchUp_loop cfg)"

section \<open>Critical sections\<close>

text \<open>Other processes act until the lock is taken.\<close>

definition interfere :: "('o, unit) faM" where
  "interfere = modifyE (\<lambda>w. case w_sched w of
     [] \<Rightarrow> w
   | f # fs \<Rightarrow> (case f (w_shm w, w_store w, w_oss w) of
       (shm, st, oss) \<Rightarrow> w\<lparr>w_shm := shm, w_store := st, w_oss := oss, w_sched := fs\<rparr>))"

text \<open>
  \<^verbatim>\<open>SHARED_MEM_BEGIN\<close> ... \<^verbatim>\<open>SHARED_MEM_END\<close>: lock, catch up with the log, the statements, unlock; an
  exception unlocks and is thrown on.
\<close>

definition sharedMem :: "'o Env \<Rightarrow> ('o, 'a) faM \<Rightarrow> ('o, 'a) faM" where
  "sharedMem env body =
     catchExn
       (seqE interfere (seqE (shmE shm_lock) (seqE (catchUpManifestLogs (e_cfg env))
         (bindE body (\<lambda>x. seqE (shmE shm_unlock) (retE x))))))
       (\<lambda>c. seqE (shmE shm_unlock) (THROW c))"

section \<open>Registration and getters\<close>

definition registInSharedMem :: "'o Env \<Rightarrow> ('o, unit) faM" where
  "registInSharedMem env =
     bindE (getFile (\<lambda>f. f)) (\<lambda>f.
     bindE (shmE (registFile (e_pid env) (mFileId f) (mIsWrite f) (mIsDelete f))) (\<lambda>activeId.
     seqE (modFile (\<lambda>f. f\<lparr>mActiveId := activeId\<rparr>))
     (if activeId = - 1 then THROW GopherwoodSharedMemException else retE ())))"

definition unregistInSharedMem :: "'o Env \<Rightarrow> bool \<Rightarrow> ('o, unit) faM" where
  "unregistInSharedMem env isCancel =
     bindE (getFile mActiveId) (\<lambda>activeId.
     if activeId = - 1 then retE ()
     else bindE (shmE (unregistFile activeId (e_pid env))) (\<lambda>(rc, destroy).
       seqE (whenE destroy (modFile (\<lambda>f. f\<lparr>mShouldDestroy := True\<rparr>)))
       (if rc \<noteq> 0 then seqE (shmE shm_unlock) (THROW GopherwoodSharedMemException)
        else seqE (whenE isCancel (modFile (\<lambda>f. f\<lparr>mShouldDestroy := True\<rparr>)))
                  (modFile (\<lambda>f. f\<lparr>mActiveId := - 1\<rparr>)))))"

definition getNumBlocks :: "FileActiveStatus \<Rightarrow> int" where
  "getNumBlocks f = int32 (int (length (mBlockArray f)))"

definition getCurBlockId :: "Configuration \<Rightarrow> FileActiveStatus \<Rightarrow> int" where
  "getCurBlockId cfg f = int32 (mPos f sdiv LOCAL_BUCKET_SIZE cfg)"

definition getCurBlockOffset :: "Configuration \<Rightarrow> FileActiveStatus \<Rightarrow> int" where
  "getCurBlockOffset cfg f = mPos f smod LOCAL_BUCKET_SIZE cfg"

definition getCurQuota :: "('o, int) faM" where
  "getCurQuota = bindE (lruE (getsE lru_maxSize)) (\<lambda>n. retE (int32 (int n)))"

definition getNumAcquiredBuckets :: "('o, int) faM" where
  "getNumAcquiredBuckets =
     bindE (lruE (getsE lru_size)) (\<lambda>n.
     bindE (getFile (\<lambda>f. length (mPreAllocatedBuckets f) + length (mLoadingBuckets f))) (\<lambda>k.
     retE (int32 (int (n + k)))))"

definition isMyActiveBlock :: "int \<Rightarrow> ('o, bool) faM" where
  "isMyActiveBlock blockId = lruE (getsE (lru_exists blockId))"

definition isBlockLoading :: "int \<Rightarrow> ('o, bool) faM" where
  "isBlockLoading blockId = getFile (\<lambda>f. list_ex (\<lambda>b. bk_blockId b = blockId) (mLoadingBuckets f))"

section \<open>End of file\<close>

definition getSharedMemEof :: "Configuration \<Rightarrow> ('o, unit) faM" where
  "getSharedMemEof cfg =
     bindE (getFile (\<lambda>f. int (length (mBlockArray f)))) (\<lambda>numBlocks.
     bindE (readBlockArray (numBlocks - 1)) (\<lambda>endBlock.
     bindE (getFile mFileId) (\<lambda>fileId.
     bindE (shmE (getBucketDataSize cfg (bk_bucketId endBlock) fileId (numBlocks - 1))) (\<lambda>lastDataSize.
     let shareMemEof = (numBlocks - 1) * LOCAL_BUCKET_SIZE cfg + lastDataSize
     in modFile (\<lambda>f. if shareMemEof > mEof f then f\<lparr>mEof := shareMemEof\<rparr> else f)))))"

definition logEof :: "'o Env \<Rightarrow> ('o, unit) faM" where
  "logEof env = bindE (getFile mEof) (\<lambda>eof. mfE (logUpdateEof (e_pad env) (word_of_int eof)))"

definition updateCurBlockSize :: "'o Env \<Rightarrow> ('o, unit) faM" where
  "updateCurBlockSize env =
     bindE (getFile mEof) (\<lambda>eofBeforeCatchUp.
     seqE (assertE (NDEBUG (e_cfg env)) (eofBeforeCatchUp > 0))
     (sharedMem env
       (bindE (getFile (\<lambda>f. f)) (\<lambda>f.
        if eofBeforeCatchUp = mEof f
        then let numBlocks = int (length (mBlockArray f)) in
             bindE (readBlockArray (numBlocks - 1)) (\<lambda>endBlock.
             shmE (updateBucketDataSize (e_cfg env) (bk_bucketId endBlock)
                     (mEof f - (numBlocks - 1) * LOCAL_BUCKET_SIZE (e_cfg env)) (mFileId f) (mActiveId f)))
        else if eofBeforeCatchUp < mEof f then retE ()
        else THROW GopherwoodInternalException))))"

definition setPosition :: "'o Env \<Rightarrow> int \<Rightarrow> ('o, unit) faM" where
  "setPosition env pos =
     seqE (modFile (\<lambda>f. f\<lparr>mPos := pos\<rparr>))
     (bindE (getFile mEof) (\<lambda>eof.
      whenE (pos > eof) (seqE (modFile (\<lambda>f. f\<lparr>mEof := pos\<rparr>)) (updateCurBlockSize env))))"

definition fa_flush :: "'o Env \<Rightarrow> ('o, unit) faM" where
  "fa_flush env =
     bindE (getFile mEof) (\<lambda>eofBeforeCatchUp.
     sharedMem env
       (bindE (getFile (\<lambda>f. f)) (\<lambda>f.
        if eofBeforeCatchUp \<le> mEof f
        then bindE (readBlockArray (int (length (mBlockArray f)) - 1)) (\<lambda>last.
             if isLocal last \<and> bk_state last = BUCKET_ACTIVE
             then seqE (getSharedMemEof (e_cfg env)) (logEof env)
             else retE ())
        else THROW GopherwoodInternalException)))"

section \<open>Acquiring buckets\<close>

text \<open>
  Step 0 and step 1 of \<^verbatim>\<open>acquireNewBlocks\<close>: from the quota, the number of free and used buckets, the
  buckets the file holds and the size of its cache, the new quota, how many blocks to inactivate
  and how many buckets to acquire. All numbers are \<^verbatim>\<open>uint32_t\<close>; \<open>lruSize\<close> is a \<^verbatim>\<open>size_t\<close>.
\<close>

definition acquirePolicy :: "Configuration \<Rightarrow> bool \<Rightarrow> 32 word \<Rightarrow> 32 word \<Rightarrow> 32 word \<Rightarrow> 32 word \<Rightarrow> nat \<Rightarrow>
    gw_error + 32 word \<times> 32 word \<times> 32 word" where
  "acquirePolicy cfg isSequence quota numFree numUsed numAcquired lruSize =
     (let pre = PRE_ALLOCATE_BUCKET_NUM cfg;
          numAvailable = numFree + numUsed;
          newQuota = (if isSequence \<and> quota > pre then pre else quota)
      in if \<not> NDEBUG cfg \<and> quota = 0 then Inl AssertAbort
         else if numAcquired < newQuota
         then if numAvailable > 0
              then let tmp0 = newQuota - numAcquired;
                       tmp = (if tmp0 > pre then pre else tmp0);
                       acquire = (if numAvailable > tmp then tmp else numAvailable)
                   in Inr (newQuota,
                           if numAcquired + acquire > newQuota then numAcquired + acquire - newQuota else 0,
                           acquire)
              else if lruSize = 0 then Inl (Exn GopherwoodNotImplException)
              else Inr (newQuota, 1, 1)
         else if numAcquired = newQuota
         then if lruSize = 0 then Inl (Exn GopherwoodNotImplException)
              else if numFree > 0
              then let tmp = (if newQuota > pre then pre else newQuota);
                       acquire0 = (if numFree > tmp then tmp else numFree);
                       acquire = (if unat acquire0 > lruSize then of_nat lruSize else acquire0)
                   in Inr (newQuota, acquire, acquire)
              else Inr (newQuota, 1, 1)
         else if unat (numAcquired - newQuota + 1) > lruSize then Inl (Exn GopherwoodNotImplException)
         else Inr (newQuota, numAcquired - newQuota + 1, 1))"

text \<open>
  The loop over the blocks that a call of \<^verbatim>\<open>inactivateBuckets\<close> turned to used: the state is updated,
  and when the last block of the file is among them the end of file is logged.
\<close>

definition turnedToUsed :: "'o Env \<Rightarrow> Block list \<Rightarrow> ('o, unit) faM" where
  "turnedToUsed env blocks = forE blocks (\<lambda>b.
     bindE (readBlockArray (bk_blockId b)) (\<lambda>x.
     seqE (writeBlockArray (bk_blockId b) (x\<lparr>bk_state := bk_state b\<rparr>))
     (bindE (getFile (\<lambda>f. length (mBlockArray f))) (\<lambda>n.
      whenE (unat (word_of_int (bk_blockId b) + 1 :: 32 word) = n)
        (seqE (getSharedMemEof (e_cfg env)) (logEof env))))))"

text \<open>Inactivating the least recently used blocks, as steps 2 and \<^verbatim>\<open>activateBlock\<close> do it.\<close>

definition inactivateLRU :: "'o Env \<Rightarrow> nat \<Rightarrow> ('o, unit) faM" where
  "inactivateLRU env n =
     bindE (removeNumOfKeys env n) (\<lambda>blockIds.
     bindE (readBlocks blockIds) (\<lambda>blocks.
     bindE (getFile (\<lambda>f. f)) (\<lambda>f.
     bindE (shmE (inactivateBuckets blocks (mFileId f) (mActiveId f) (mIsWrite f))) (\<lambda>used.
     seqE (turnedToUsed env used)
     (mfE (logInactivateBucket (e_pad env) used))))))"

definition newBlock :: "int \<Rightarrow> Block" where
  "newBlock bucketId = Block_new bucketId InvalidBlockId True BUCKET_ACTIVE"

definition addPreAllocated :: "Block list \<Rightarrow> ('o, unit) faM" where
  "addPreAllocated bs = modFile (\<lambda>f. f\<lparr>mPreAllocatedBuckets := mPreAllocatedBuckets f @ bs,
     mNumActivated := mNumActivated f + of_nat (length bs)\<rparr>)"

definition acquireFree :: "32 word \<Rightarrow> ('o, Block list) faM" where
  "acquireFree n =
     bindE (getFile (\<lambda>f. f)) (\<lambda>f.
     bindE (shmE (acquireFreeBucket (mActiveId f) (sint n) (mFileId f) (mIsWrite f))) (\<lambda>ids.
     seqE (addPreAllocated (map newBlock ids)) (retE (map newBlock ids))))"

definition startEvict :: "('o, BlockInfo) faM" where
  "startEvict = bindE (getFile mActiveId) (\<lambda>a. shmE (markBucketEvicting a))"

text \<open>The first critical section; its result is what is left to acquire and the block being evicted.\<close>

definition acquireSection1 :: "'o Env \<Rightarrow> ('o, 32 word \<times> BlockInfo option) faM" where
  "acquireSection1 env =
     bindE (getsE (\<lambda>w. header (w_shm w))) (\<lambda>h.
     bindE getNumAcquiredBuckets (\<lambda>acquired.
     bindE (lruE (getsE lru_size)) (\<lambda>lruSize.
     bindE (getFile mIsSequence) (\<lambda>isSequence.
     bindE (pureE (acquirePolicy (e_cfg env) isSequence (calcDynamicQuotaNum (e_cfg env))
              (numFreeBuckets h) (numUsedBuckets h) (word_of_int acquired) lruSize))
       (\<lambda>(newQuota, numToInactivate, numToAcquire).
     seqE (whenE (numToInactivate > 0) (inactivateLRU env (unat numToInactivate)))
     (bindE (lruE (lru_adjustSize (e_freed env) (NDEBUG (e_cfg env)) (unat newQuota))) (\<lambda>overflow.
      if overflow \<noteq> [] then THROW GopherwoodInternalException
      else if numToAcquire > 0
      then let numAcquireFree = (if numToAcquire > numFreeBuckets h then numFreeBuckets h else numToAcquire) in
           bindE (acquireFree numAcquireFree) (\<lambda>blocks.
           seqE (mfE (logAcquireNewBlock (e_pad env) blocks))
           (if sint (numToAcquire - numAcquireFree) > 0
            then bindE startEvict (\<lambda>info. retE (numToAcquire - numAcquireFree, Some info))
            else retE (numToAcquire - numAcquireFree, None)))
      else retE (0, None))))))))"

text \<open>
  \<^verbatim>\<open>logEvictBlock\<close>: the eviction is logged in the manifest of the file that owned the block. For
  another file the manifest is opened, and never closed.
\<close>

definition logEvictBlock :: "'o Env \<Rightarrow> BlockInfo \<Rightarrow> ('o, unit) faM" where
  "logEvictBlock env info =
     (let block = Block_new InvalidBucketId (bi_blockId info) False BUCKET_FREE in
      bindE (getFile mFileId) (\<lambda>fileId.
      if fileId = bi_fileId info
      then seqE (mfE (logEvcitBlock (e_pad env) block)) (writeBlockArray (bk_blockId block) block)
      else (\<lambda>w.
        let path = getManifestFileName (workDir (w_shm w)) (bi_fileId info)
        in if \<not> posix_access path (w_store w) then (Inl (Exn GopherwoodInvalidParmException), w)
           else case Manifest_new (e_garbage env) path (w_store w) of
             (Inl e, st) \<Rightarrow> (Inl e, w\<lparr>w_store := st\<rparr>)
           | (Inr m, st) \<Rightarrow>
               (case seqE (mfSeek 0 SEEK_END) (logEvcitBlock (e_pad env) block) (st, m) of
                  (r, (st', _)) \<Rightarrow> (r, w\<lparr>w_store := st'\<rparr>)))))"

text \<open>
  One round of the second loop. \<open>ev\<close> is the block being evicted, \<open>None\<close> for \<^verbatim>\<open>evicting == false\<close>;
  it stays set when the bucket was taken back (return code 2).
\<close>

definition finishEvict :: "'o Env \<Rightarrow> 32 word \<Rightarrow> BlockInfo \<Rightarrow>
    ('o, 32 word \<times> BlockInfo option \<times> Block list) faM" where
  "finishEvict env numToAcquire info =
     bindE (getFile (\<lambda>f. f)) (\<lambda>f.
     bindE (shmE (evictBucketFinishAndTryAcquire (bi_bucketId info) (mActiveId f) (mFileId f) (mIsWrite f)))
       (\<lambda>rc.
     bindE (if rc = 0 \<or> rc = 1
            then seqE (addPreAllocated [newBlock (bi_bucketId info)])
                   (retE (numToAcquire - 1, None, [newBlock (bi_bucketId info)]))
            else retE (numToAcquire, Some info, [])) (\<lambda>res.
     seqE (whenE (rc = 0) (seqE (logEvictBlock env info)
                               (modFile (\<lambda>f. f\<lparr>mNumEvicted := mNumEvicted f + 1\<rparr>))))
    (seqE (whenE (rc = 1 \<or> rc = 2) (ioE (oss_deleteBlock (e_io env) info)))
     (retE res)))))"

definition acquireRound :: "'o Env \<Rightarrow> 32 word \<times> BlockInfo option \<Rightarrow> ('o, 32 word \<times> BlockInfo option) faM" where
  "acquireRound env s =
     (let (numToAcquire, ev) = s in
      seqE (case ev of None \<Rightarrow> retE () | Some info \<Rightarrow> ioE (writeBlock (e_io env) info))
      (sharedMem env
        (bindE (case ev of None \<Rightarrow> retE (numToAcquire, None, [])
                | Some info \<Rightarrow> finishEvict env numToAcquire info) (\<lambda>(num, ev', evicted).
         bindE (getsE (\<lambda>w. numFreeBuckets (header (w_shm w)))) (\<lambda>numFree.
         let numAcquireFree = (if num > numFree then numFree else num) in
         bindE (if numAcquireFree > 0
                then bindE (acquireFree numAcquireFree) (\<lambda>bs. retE (num - numAcquireFree, evicted @ bs))
                else retE (num, evicted)) (\<lambda>(num', blocksForLog).
         seqE (mfE (logAcquireNewBlock (e_pad env) blocksForLog))
         (if num' > 0 then bindE startEvict (\<lambda>info. retE (num', Some info)) else retE (num', ev'))))))))"

primrec acquire_rounds :: "'o Env \<Rightarrow> nat \<Rightarrow> 32 word \<times> BlockInfo option \<Rightarrow> ('o, unit) faM" where
  "acquire_rounds env 0 s = throwE OutOfFuel"
| "acquire_rounds env (Suc n) s =
     (if fst s > 0 \<or> snd s \<noteq> None then bindE (acquireRound env s) (acquire_rounds env n) else retE ())"

definition acquireNewBlocks :: "'o Env \<Rightarrow> ('o, unit) faM" where
  "acquireNewBlocks env =
     bindE (sharedMem env (acquireSection1 env)) (\<lambda>s.
     seqE (acquire_rounds env (e_fuel env) s)
     (bindE (getFile mPreAllocatedBuckets) (\<lambda>pre.
      if pre = [] then THROW GopherwoodException else retE ())))"

section \<open>Extending, loading and activating blocks\<close>

definition popPreAllocated :: "('o, Block) faM" where
  "popPreAllocated = (\<lambda>w. case mPreAllocatedBuckets (w_file w) of
     [] \<Rightarrow> (Inl BadAccess, w)
   | b # bs \<Rightarrow> (Inr b, w\<lparr>w_file := (w_file w)\<lparr>mPreAllocatedBuckets := bs\<rparr>\<rparr>))"

definition ensurePreAllocated :: "'o Env \<Rightarrow> ('o, unit) faM" where
  "ensurePreAllocated env =
     bindE (getFile mPreAllocatedBuckets) (\<lambda>pre. whenE (pre = []) (acquireNewBlocks env))"

definition extendOneBlock :: "'o Env \<Rightarrow> ('o, unit) faM" where
  "extendOneBlock env =
     seqE (ensurePreAllocated env)
    (bindE popPreAllocated (\<lambda>b0.
     bindE (getFile getNumBlocks) (\<lambda>n.
     let b = b0\<lparr>bk_blockId := n\<rparr> in
     seqE (modFile (\<lambda>f. f\<lparr>mBlockArray := mBlockArray f @ [b]\<rparr>))
    (seqE (lruPut (bk_blockId b) (bk_bucketId b))
     (sharedMem env
       (bindE (getFile (\<lambda>f. f)) (\<lambda>f.
        seqE (shmE (updateActiveFileInfo [b] (mFileId f)))
        (mfE (logExtendBlock (e_pad env) [b] (word_of_int (mEof f)))))))))))"

text \<open>
  \<^verbatim>\<open>loadBlock\<close>, run by a thread of the pool: the transfer, then under the load mutex the loop over
  \<^verbatim>\<open>mLoadingBuckets\<close>, which erases while it counts. It calls the shared memory without its lock.
\<close>

definition eraseLoading :: "nat \<Rightarrow> ('o, unit) faM" where
  "eraseLoading i = modFile (\<lambda>f. f\<lparr>mLoadingBuckets := take i (mLoadingBuckets f) @ drop (Suc i) (mLoadingBuckets f)\<rparr>)"

definition loadSucceeded :: "'o Env \<Rightarrow> BlockInfo \<Rightarrow> int \<Rightarrow> nat \<Rightarrow> Block \<Rightarrow> ('o, unit) faM" where
  "loadSucceeded env info blockSize i theBlock =
     bindE (getFile (\<lambda>f. f)) (\<lambda>f.
     seqE (shmE (markLoadFinish (e_cfg env) (bi_bucketId info) (mActiveId f) (mFileId f)))
    (seqE (shmE (updateBucketDataSize (e_cfg env) (bi_bucketId info) blockSize (mFileId f) (mActiveId f)))
    (seqE (eraseLoading i)
    (seqE (lruPut (bk_blockId theBlock) (bk_bucketId theBlock))
    (seqE (writeBlockArray (bk_blockId theBlock) theBlock)
    (seqE (mfE (logLoadBlock (e_pad env) theBlock))
          (modFile (\<lambda>f. f\<lparr>mNumLoaded := mNumLoaded f + 1\<rparr>))))))))"

definition loadFailed :: "'o Env \<Rightarrow> BlockInfo \<Rightarrow> nat \<Rightarrow> Block \<Rightarrow> ('o, unit) faM" where
  "loadFailed env info i theBlock =
     bindE (getFile (\<lambda>f. f)) (\<lambda>f.
     seqE (shmE (markLoadFinish (e_cfg env) (bi_bucketId info) (mActiveId f) (mFileId f)))
    (seqE (eraseLoading i)
          (modFile (\<lambda>f. f\<lparr>mPreAllocatedBuckets :=
             theBlock\<lparr>bk_blockId := InvalidBlockId\<rparr> # mPreAllocatedBuckets f\<rparr>))))"

definition transferBlock :: "'o Env \<Rightarrow> BlockInfo \<Rightarrow> ('o, int option) faM" where
  "transferBlock env info =
     catchExn
       (if \<not> e_buildContext env then THROW GopherwoodInvalidParmException
        else bindE (ioE (readBlock (e_io env) info)) (\<lambda>blockSize.
             seqE (ioE (oss_deleteBlock (e_io env) (info\<lparr>bi_bucketId := - 1\<rparr>)))
             (retE (Some blockSize))))
       (\<lambda>_. retE None)"

definition fa_loadBlock :: "'o Env \<Rightarrow> BlockInfo \<Rightarrow> ('o, unit) faM" where
  "fa_loadBlock env info =
     bindE (transferBlock env info) (\<lambda>loaded.
     seqE lockLoadMutex
    (bindE (getFile (\<lambda>f. length (mLoadingBuckets f))) (\<lambda>n.
     seqE (forE [0..<n] (\<lambda>i.
       bindE (getFile mLoadingBuckets) (\<lambda>ls.
       whenE (i < length ls \<and> bk_blockId (ls ! i) = bi_blockId info)
         (case loaded of
            Some blockSize \<Rightarrow> loadSucceeded env info blockSize i (ls ! i)
          | None \<Rightarrow> loadFailed env info i (ls ! i)))))
     unlockLoadMutex)))"

text \<open>
  The part of \<^verbatim>\<open>activateBlock\<close> that makes room within the quota: inactivate one cached block, or
  give a pre-allocated bucket back.
\<close>

definition makeRoom :: "'o Env \<Rightarrow> ('o, unit) faM" where
  "makeRoom env =
     bindE getNumAcquiredBuckets (\<lambda>n.
     bindE getCurQuota (\<lambda>q.
     if n = q
     then bindE (lruE (getsE lru_size)) (\<lambda>k.
          if k > 0 then inactivateLRU env 1
          else bindE (getFile mPreAllocatedBuckets) (\<lambda>pre.
            if pre \<noteq> []
            then seqE (modFile (\<lambda>f. f\<lparr>mPreAllocatedBuckets := butlast (mPreAllocatedBuckets f)\<rparr>))
                (seqE (shmE (releaseBuckets [last pre]))
                      (mfE (logReleaseBucket (e_pad env) [last pre])))
            else THROW GopherwoodInternalException))
     else if n > q then THROW GopherwoodInternalException
     else retE ()))"

text \<open>
  \<^verbatim>\<open>activateBlock\<close>: 1 activated, 2 loaded by others, -1 loading started (the code's comment says 3).
  The block to load is taken off the front of the pre-allocated list; the code goes on using its
  address after that, and the model uses its value.
\<close>

definition activateBlock :: "'o Env \<Rightarrow> int \<Rightarrow> ('o, int) faM" where
  "activateBlock env blockId =
     seqE (ensurePreAllocated env)
    (bindE (sharedMem env
       (bindE (readBlockArray blockId) (\<lambda>blk.
        bindE (getFile (\<lambda>f. f)) (\<lambda>f.
        if \<not> isLocal blk
        then (case mPreAllocatedBuckets f of
           [] \<Rightarrow> throwE BadAccess
         | p # _ \<Rightarrow>
             bindE (shmE (markBucketLoading (e_cfg env) (bk_bucketId p) blockId (mActiveId f) (mFileId f)))
               (\<lambda>marked.
             if marked then bindE popPreAllocated (\<lambda>p. retE (- 1, Some (p\<lparr>bk_blockId := blockId\<rparr>)))
             else retE (2, None)))
        else if bk_state blk = BUCKET_USED \<or> bk_state blk = BUCKET_ACTIVE
        then seqE (makeRoom env)
            (bindE (readBlockArray blockId) (\<lambda>blk.
             bindE (shmE (activateBucket (mFileId f) blk (mActiveId f) (mIsWrite f))) (\<lambda>rc.
             seqE (if rc = 1 then mfE (logActivateBucket (e_pad env) blk)
                   else if rc = - 1 then THROW GopherwoodException else retE ())
            (seqE (lruPut (bk_blockId blk) (bk_bucketId blk))
             (retE (1, None))))))
        else THROW GopherwoodInternalException)))) (\<lambda>(returnType, loading).
     case loading of
       None \<Rightarrow> retE returnType
     | Some theLoadingBlock \<Rightarrow>
         bindE (getFile mFileId) (\<lambda>fileId.
         seqE (modifyE (\<lambda>w. w\<lparr>w_tasks := w_tasks w @
                 [\<lparr>bi_fileId = fileId, bi_blockId = blockId, bi_bucketId = bk_bucketId theLoadingBlock,
                   bi_offset = InvalidBlockOffset, bi_dataSize = 0, bi_isLocal = False\<rparr>]\<rparr>))
        (seqE (modFile (\<lambda>f. f\<lparr>mLoadingBuckets := mLoadingBuckets f @ [theLoadingBlock]\<rparr>))
         (retE returnType)))))"

section \<open>The entry points\<close>

text \<open>The pre-activation loop of \<^verbatim>\<open>adjustActiveBlock\<close>.\<close>

primrec preActivate :: "'o Env \<Rightarrow> int \<Rightarrow> nat \<Rightarrow> nat \<Rightarrow> ('o, unit) faM" where
  "preActivate env curBlockId counter 0 = retE ()"
| "preActivate env curBlockId counter (Suc left) =
     bindE (getFile getNumBlocks) (\<lambda>n.
     if curBlockId + int counter + 1 > n then retE ()
     else bindE (isMyActiveBlock (curBlockId + int counter)) (\<lambda>mine.
       seqE (if mine then retE ()
             else bindE (isBlockLoading (curBlockId + int counter)) (\<lambda>loading.
               if loading then retE ()
               else seqE (activateBlock env (curBlockId + int counter)) (retE ())))
       (preActivate env curBlockId (Suc counter) left)))"

text \<open>
  A thread of the pool takes the first task of the queue and runs it; an exception ends up in
  the task's future, which nobody reads.
\<close>

definition runTask :: "'o Env \<Rightarrow> ('o, unit) faM" where
  "runTask env = bindE (getsE w_tasks) (\<lambda>ts. case ts of
     [] \<Rightarrow> retE ()
   | t # ts' \<Rightarrow> seqE (modifyE (\<lambda>w. w\<lparr>w_tasks := ts'\<rparr>)) 
            (catchExn (fa_loadBlock env t) (\<lambda>_. retE ())))"

text \<open>The wait for the block; while the thread sleeps the pool works.\<close>

primrec waitActive :: "'o Env \<Rightarrow> int \<Rightarrow> nat \<Rightarrow> ('o, unit) faM" where
  "waitActive env curBlockId 0 = throwE OutOfFuel"
| "waitActive env curBlockId (Suc n) =
     seqE lockLoadMutex
    (bindE (isMyActiveBlock curBlockId) (\<lambda>mine.
     bindE (if mine then retE True
            else bindE (isBlockLoading curBlockId) (\<lambda>loading.
              if loading then retE False
              else bindE (activateBlock env curBlockId) (\<lambda>rc. retE (rc = 1)))) (\<lambda>finished.
     seqE unlockLoadMutex
     (if finished then retE () else seqE (runTask env) (waitActive env curBlockId n)))))"

definition adjustActiveBlock :: "'o Env \<Rightarrow> int \<Rightarrow> ('o, unit) faM" where
  "adjustActiveBlock env curBlockId =
     seqE lockLoadMutex
    (bindE (getFile getNumBlocks) (\<lambda>n.
     seqE (if curBlockId + 1 > n then extendOneBlock env
           else bindE getCurQuota (\<lambda>q.
             preActivate env curBlockId 0
               (nat (if q > PRE_ACTIVATE_BLOCK_NUM (e_cfg env) then PRE_ACTIVATE_BLOCK_NUM (e_cfg env) else q))))
    (bindE (isMyActiveBlock curBlockId) (\<lambda>mine.
     seqE unlockLoadMutex
     (whenE (\<not> mine) (waitActive env curBlockId (e_fuel env)))))))"

definition getCurBlockInfo :: "'o Env \<Rightarrow> ('o, BlockInfo) faM" where
  "getCurBlockInfo env =
     bindE (getFile (getCurBlockId (e_cfg env))) (\<lambda>curBlockId.
     seqE (adjustActiveBlock env curBlockId)
    (bindE (readBlockArray curBlockId) (\<lambda>b.
     seqE (writeBlockArray curBlockId (b\<lparr>bk_usageCount := int16 (bk_usageCount b + 1)\<rparr>))
    (bindE (getFile (\<lambda>f. f)) (\<lambda>f.
     bindE (readBlockArray (mPos f sdiv LOCAL_BUCKET_SIZE (e_cfg env))) (\<lambda>block.
     retE \<lparr>bi_fileId = mFileId f, bi_blockId = bk_blockId block, bi_bucketId = bk_bucketId block,
           bi_offset = getCurBlockOffset (e_cfg env) f, bi_dataSize = 0, bi_isLocal = isLocal block\<rparr>))))))"

record GWFileInfo =
  fileSize :: int
  maxQuota :: "32 word"
  curQuota :: "32 word"
  fi_numBlocks :: "32 word"
  numActivated :: "32 word"
  numEvicted :: "32 word"
  numLoaded :: "32 word"

definition getStatistics :: "('o, GWFileInfo) faM" where
  "getStatistics =
     bindE (lruE (getsE lru_maxSize)) (\<lambda>m.
     bindE getNumAcquiredBuckets (\<lambda>acquired.
     getFile (\<lambda>f. \<lparr>fileSize = mEof f, maxQuota = of_nat m, curQuota = word_of_int acquired,
       fi_numBlocks = of_nat (length (mBlockArray f)), numActivated = mNumActivated f,
       numEvicted = mNumEvicted f, numLoaded = mNumLoaded f\<rparr>)))"

text \<open>
  The check of the block states when the last opening of a file to be destroyed is closed: the
  local and the remote blocks, or an exception.
\<close>

primrec splitBlocks :: "Block list \<Rightarrow> gw_error + Block list \<times> Block list" where
  "splitBlocks [] = Inr ([], [])"
| "splitBlocks (b # bs) =
     (if isLocal b \<and> bk_state b = BUCKET_USED
      then (case splitBlocks bs of Inl e \<Rightarrow> Inl e | Inr (l, r) \<Rightarrow> Inr (b # l, r))
      else if isLocal b then Inl (Exn GopherwoodException)
      else (case splitBlocks bs of Inl e \<Rightarrow> Inl e | Inr (l, r) \<Rightarrow> Inr (l, b # r)))"

definition fa_close :: "'o Env \<Rightarrow> bool \<Rightarrow> ('o, unit) faM" where
  "fa_close env isCancel =
     bindE (sharedMem env
       (bindE (lruE (getsE lru_size)) (\<lambda>n.
        bindE (removeNumOfKeys env n) (\<lambda>activeBlockIds.
        bindE (readBlocks activeBlockIds) (\<lambda>activeBlocks.
        bindE (getFile (\<lambda>f. f)) (\<lambda>f.
        seqE (whenE (mPreAllocatedBuckets f \<noteq> [])
               (seqE (shmE (releaseBuckets (mPreAllocatedBuckets f)))
                     (mfE (logReleaseBucket (e_pad env) (mPreAllocatedBuckets f)))))
       (bindE (shmE (inactivateBuckets activeBlocks (mFileId f) (mActiveId f) (mIsWrite f))) (\<lambda>used.
        seqE (turnedToUsed env used)
       (seqE (whenE (used \<noteq> []) (mfE (logInactivateBucket (e_pad env) used)))
       (seqE (unregistInSharedMem env isCancel)
       (bindE (shmE (isFileOpening (e_cfg env) (mFileId f))) (\<lambda>opening.
        bindE (getFile (\<lambda>f. f)) (\<lambda>f.
        bindE (if \<not> opening
               then if mShouldDestroy f
                    then bindE (pureE (splitBlocks (mBlockArray f))) (\<lambda>(localBlocks, remoteBlocks).
                         seqE (shmE (deleteBlocks localBlocks (mFileId f)))
                        (seqE (mfE mf_destroy) (retE remoteBlocks)))
                    else seqE (mfE (logFullStatus (e_pad env) (mBlockArray f) (word_of_int (mEof f))))
                              (retE [])
               else seqE (modFile (\<lambda>f. f\<lparr>mShouldDestroy := False\<rparr>)) (retE [])) (\<lambda>remoteBlocks.
        seqE (modFile (\<lambda>f. f\<lparr>mBlockArray := [], mLRUCache := None\<rparr>))
        (retE remoteBlocks))))))))))))))) (\<lambda>remoteBlocks.
     bindE (getFile (\<lambda>f. f)) (\<lambda>f.
     whenE (mShouldDestroy f)
       (forE remoteBlocks (\<lambda>b.
          ioE (oss_deleteBlock (e_io env)
            \<lparr>bi_fileId = mFileId f, bi_blockId = bk_blockId b, bi_bucketId = bk_bucketId b,
             bi_offset = InvalidBlockOffset, bi_dataSize = 0, bi_isLocal = isLocal b\<rparr>)))))"

section \<open>Opening a file\<close>

datatype ActiveStatusType = writeFile | readFile | deleteFile

definition quotaSize :: "Configuration \<Rightarrow> bool \<Rightarrow> 32 word" where
  "quotaSize cfg isSequence =
     (if isSequence
      then (if getCurQuotaSize cfg > PRE_ALLOCATE_BUCKET_NUM cfg then PRE_ALLOCATE_BUCKET_NUM cfg
            else getCurQuotaSize cfg)
      else getCurQuotaSize cfg)"

text \<open>The constructor; the old object in the world is what the new one replaces.\<close>

definition FileActiveStatus_new :: "'o Env \<Rightarrow> FileId \<Rightarrow> bool \<Rightarrow> bool \<Rightarrow> ActiveStatusType \<Rightarrow> ('o, unit) faM" where
  "FileActiveStatus_new env fileId isCreate isSequence type = (\<lambda>w.
     let path = getManifestFileName (workDir (w_shm w)) fileId
     in if \<not> isCreate \<and> \<not> posix_access path (w_store w)
        then (Inl (Exn GopherwoodInvalidParmException), w)
        else case Manifest_new (e_garbage env) path (w_store w) of
          (Inl e, st) \<Rightarrow> (Inl e, w\<lparr>w_store := st\<rparr>)
        | (Inr m, st) \<Rightarrow>
            sharedMem env (registInSharedMem env)
              (w\<lparr>w_store := st,
                 w_file := \<lparr>mFileId = fileId, mManifest = m,
                   mLRUCache = Some (LRUCache_new (unat (quotaSize (e_cfg env) isSequence))),
                   mIsWrite = (type = writeFile), mIsDelete = (type = deleteFile),
                   mIsSequence = isSequence, mShouldDestroy = False, mPos = 0, mEof = 0,
                   mBlockArray = [], mPreAllocatedBuckets = [], mLoadingBuckets = [],
                   mLoadMutex = False, mActiveId = - 1, mNumEvicted = 0, mNumLoaded = 0, mNumActivated = 0\<rparr>\<rparr>))"

end
