(* ===== verification/GW_File.thy ===== *)
theory GW_File
  imports GW_FileActiveStatus
begin

unbundle bit_operations_syntax

text \<open>
  \<^verbatim>\<open>src/file/InputStream.cpp\<close>, \<^verbatim>\<open>OutputStream.cpp\<close> and \<^verbatim>\<open>File.cpp\<close>: the byte streams of an open file and
  the operations of its handle. The state is the world, whose \<^verbatim>\<open>FileActiveStatus\<close> belongs to the
  file, and the file object with its streams.
\<close>

definition GW_RDONLY :: "32 word" where "GW_RDONLY = 0x00000000"
definition GW_WRONLY :: "32 word" where "GW_WRONLY = 0x00000001"
definition GW_RDWR :: "32 word" where "GW_RDWR = 0x00000002"
definition GW_CREAT :: "32 word" where "GW_CREAT = 0x00000004"
definition GW_SEQACC :: "32 word" where "GW_SEQACC = 0x00020000"
definition OPEN_TYPE_MASK :: "32 word" where "OPEN_TYPE_MASK = 0x00000003"

lemmas open_flags = GW_RDONLY_def GW_WRONLY_def GW_RDWR_def GW_CREAT_def GW_SEQACC_def OPEN_TYPE_MASK_def

record Stream =
  s_pos :: int
  s_info :: BlockInfo

record File =
  f_id :: FileId
  f_name :: string
  f_flags :: "32 word"
  f_in :: Stream
  f_out :: "Stream option"

type_synonym ('o, 'a) fileM = "('o World \<times> File, gw_error, 'a) gw"

definition liftW :: "('o, 'a) faM \<Rightarrow> ('o, 'a) fileM" where
  "liftW m = zoomE fst (\<lambda>w (_, f). (w, f)) m"

definition noBlock :: BlockInfo where
  "noBlock = \<lparr>bi_fileId = FileId_reset, bi_blockId = InvalidBlockId, bi_bucketId = InvalidBucketId,
     bi_offset = InvalidBlockOffset, bi_dataSize = 0, bi_isLocal = False\<rparr>"

definition Stream_new :: Stream where
  "Stream_new = \<lparr>s_pos = 0, s_info = noBlock\<rparr>"

definition canWrite :: "32 word \<Rightarrow> bool" where
  "canWrite fl \<longleftrightarrow> fl AND GW_WRONLY \<noteq> 0 \<or> fl AND GW_RDWR \<noteq> 0"

definition File_new :: "FileId \<Rightarrow> string \<Rightarrow> 32 word \<Rightarrow> File" where
  "File_new fileId fileName flags =
     \<lparr>f_id = fileId, f_name = fileName, f_flags = flags, f_in = Stream_new,
      f_out = (if canWrite flags then Some Stream_new else None)\<rparr>"

section \<open>InputStream\<close>

definition setIn :: "(Stream \<Rightarrow> Stream) \<Rightarrow> ('o, unit) fileM" where
  "setIn g = modifyE (\<lambda>(w, f). (w, f\<lparr>f_in := g (f_in f)\<rparr>))"

definition in_updateBlockStream :: "'o Env \<Rightarrow> ('o, unit) fileM" where
  "in_updateBlockStream env =
     bindE (liftW (getCurBlockInfo env)) (\<lambda>info.
     seqE (setIn (\<lambda>s. s\<lparr>s_info := info\<rparr>))
     (bindE (liftW (getFile mPos)) (\<lambda>pos. setIn (\<lambda>s. s\<lparr>s_pos := pos\<rparr>))))"

text \<open>
  The loop of \<^verbatim>\<open>InputStream::read\<close>. \<open>buf\<close> is the caller's buffer so far; a count of -1 moves the
  position in the buffer back, and data stored before its start is an access out of bounds.
\<close>

primrec in_loop :: "'o Env \<Rightarrow> nat \<Rightarrow> bool \<Rightarrow> int \<Rightarrow> int \<Rightarrow> byte list \<Rightarrow> ('o, byte list) fileM" where
  "in_loop env 0 needUpdate bytesToRead bytesRead buf =
     (if bytesToRead > 0 then throwE OutOfFuel else retE buf)"
| "in_loop env (Suc n) needUpdate bytesToRead bytesRead buf =
     (if bytesToRead > 0
      then seqE (whenE needUpdate (in_updateBlockStream env))
          (bindE (getsE (\<lambda>(w, f). s_info (f_in f))) (\<lambda>info.
           let rem = block_remaining (e_cfg env) info; fits = (bytesToRead \<le> rem) in
           bindE (liftW (ioE (BlockInputStream_read (e_cfg env) (if fits then bytesToRead else rem) info)))
             (\<lambda>((cnt, bs), info').
           if bytesRead < 0 \<and> bs \<noteq> [] then throwE BadAccess
           else seqE (setIn (\<lambda>s. s\<lparr>s_info := info', s_pos := s_pos s + cnt\<rparr>))
               (bindE (getsE (\<lambda>(w, f). s_pos (f_in f))) (\<lambda>pos.
                seqE (liftW (setPosition env pos))
                (in_loop env n (\<not> fits) (bytesToRead - cnt) (bytesRead + cnt)
                   (store_at (nat bytesRead) bs buf)))))))
      else retE buf)"

definition InputStream_read :: "'o Env \<Rightarrow> int \<Rightarrow> ('o, byte list) fileM" where
  "InputStream_read env n = in_loop env (e_fuel env) True n 0 []"

section \<open>OutputStream\<close>

definition getOut :: "('o, Stream) fileM" where
  "getOut = (\<lambda>(w, f). case f_out f of None \<Rightarrow> (Inl BadAccess, (w, f)) | Some s \<Rightarrow> (Inr s, (w, f)))"

definition setOut :: "(Stream \<Rightarrow> Stream) \<Rightarrow> ('o, unit) fileM" where
  "setOut g = modifyE (\<lambda>(w, f). (w, f\<lparr>f_out := map_option g (f_out f)\<rparr>))"

definition out_updateBlockStream :: "'o Env \<Rightarrow> ('o, unit) fileM" where
  "out_updateBlockStream env =
     bindE (liftW (getCurBlockInfo env)) (\<lambda>info.
     seqE (setOut (\<lambda>s. s\<lparr>s_info := info\<rparr>))
     (bindE (liftW (getFile mPos)) (\<lambda>pos. setOut (\<lambda>s. s\<lparr>s_pos := pos\<rparr>))))"

text \<open>
  One write to the current block. The second assertion of the source compares with
  \<^verbatim>\<open>remaining()\<close> after the write has moved the offset.
\<close>

definition out_write :: "'o Env \<Rightarrow> byte list \<Rightarrow> bool \<Rightarrow> bool \<Rightarrow> int \<Rightarrow> int \<Rightarrow> ('o, int) fileM" where
  "out_write env data isSeek fits bytesToWrite bytesWritten =
     bindE getOut (\<lambda>s.
     let rem = block_remaining (e_cfg env) (s_info s); n = (if fits then bytesToWrite else rem) in
     if isSeek then retE n
     else bindE (liftW (ioE (BlockOutputStream_write (e_cfg env)
                   (take (nat n) (drop (nat bytesWritten) data)) (s_info s)))) (\<lambda>(written, info').
          seqE (setOut (\<lambda>s. s\<lparr>s_info := info'\<rparr>))
         (seqE (assertE (NDEBUG (e_cfg env))
                  (written = (if fits then bytesToWrite else block_remaining (e_cfg env) info')))
          (retE written))))"

primrec out_loop :: "'o Env \<Rightarrow> nat \<Rightarrow> byte list \<Rightarrow> bool \<Rightarrow> bool \<Rightarrow> int \<Rightarrow> int \<Rightarrow> ('o, unit) fileM" where
  "out_loop env 0 data isSeek needUpdate bytesToWrite bytesWritten =
     (if bytesToWrite > 0 then throwE OutOfFuel else retE ())"
| "out_loop env (Suc n) data isSeek needUpdate bytesToWrite bytesWritten =
     (if bytesToWrite > 0
      then seqE (whenE needUpdate (out_updateBlockStream env))
          (bindE getOut (\<lambda>s.
           let fits = (bytesToWrite \<le> block_remaining (e_cfg env) (s_info s)) in
           bindE (out_write env data isSeek fits bytesToWrite bytesWritten) (\<lambda>written.
           if written = - 1 then THROW GopherwoodException
           else seqE (setOut (\<lambda>s. s\<lparr>s_pos := s_pos s + written\<rparr>))
               (bindE getOut (\<lambda>s.
                seqE (liftW (setPosition env (s_pos s)))
                (out_loop env n data isSeek (\<not> fits) (bytesToWrite - written) (bytesWritten + written)))))))
      else retE ())"

definition OutputStream_write :: "'o Env \<Rightarrow> byte list \<Rightarrow> int \<Rightarrow> bool \<Rightarrow> ('o, unit) fileM" where
  "OutputStream_write env data n isSeek =
     seqE getOut (out_loop env (e_fuel env) data isSeek True n 0)"

section \<open>File\<close>

definition File_remaining :: "'o Env \<Rightarrow> ('o, int) fileM" where
  "File_remaining env =
     bindE (liftW (getFile (\<lambda>f. (mEof f, mPos f)))) (\<lambda>(eof, pos).
     seqE (assertE (NDEBUG (e_cfg env)) (eof \<ge> pos)) (retE (eof - pos)))"

definition File_read :: "'o Env \<Rightarrow> int \<Rightarrow> ('o, int \<times> byte list) fileM" where
  "File_read env n =
     bindE (File_remaining env) (\<lambda>rem.
     let bytesToRead = (if n < rem then n else rem) in
     if bytesToRead = 0 then retE (0, [])
     else bindE (InputStream_read env bytesToRead) (\<lambda>bs. retE (bytesToRead, bs)))"

definition File_write :: "'o Env \<Rightarrow> byte list \<Rightarrow> ('o, unit) fileM" where
  "File_write env data = OutputStream_write env data (int (length data)) False"

definition File_flush :: "'o Env \<Rightarrow> ('o, unit) fileM" where
  "File_flush env =
     bindE (getsE (\<lambda>(w, f). f_flags f)) (\<lambda>fl.
     if fl AND OPEN_TYPE_MASK = GW_RDONLY then THROW GopherwoodInvalidParmException
     else seqE getOut (liftW (fa_flush env)))"

datatype seek_mode = Seek_Set | Seek_Cur | Seek_End | Seek_Other

definition File_seek :: "'o Env \<Rightarrow> int \<Rightarrow> seek_mode \<Rightarrow> ('o, int) fileM" where
  "File_seek env pos mode =
     bindE (liftW (getFile (\<lambda>f. (mEof f, mPos f)))) (\<lambda>(eof, cur).
     let target = (case mode of Seek_Set \<Rightarrow> pos | Seek_Cur \<Rightarrow> cur + pos | Seek_End \<Rightarrow> eof + pos
                   | Seek_Other \<Rightarrow> - 1)
     in if 0 \<le> target \<and> target \<le> eof
        then seqE (liftW (setPosition env target)) (retE target)
        else if target > eof
        then bindE (getsE (\<lambda>(w, f). f_flags f)) (\<lambda>fl.
             if canWrite fl
             then seqE (liftW (setPosition env eof))
                 (seqE (OutputStream_write env [] (target - eof) True) (retE target))
             else THROW GopherwoodInvalidParmException)
        else THROW GopherwoodInvalidParmException)"

text \<open>The streams' \<^verbatim>\<open>close\<close> only synchronises the local space file.\<close>

definition File_close :: "'o Env \<Rightarrow> bool \<Rightarrow> ('o, unit) fileM" where
  "File_close env isCancel = liftW (fa_close env isCancel)"

definition File_getFileInfo :: "('o, GWFileInfo) fileM" where
  "File_getFileInfo = liftW getStatistics"

end
