(* ===== verification/GW_AdminActiveStatus.thy ===== *)
theory GW_AdminActiveStatus
  imports GW_FileActiveStatus
begin

text \<open>
  \<^verbatim>\<open>src/core/AdminActiveStatus.cpp\<close>: the registration of a file system handle, the statistics of the
  shared memory, and the eviction of blocks on request. Its critical sections lock and unlock
  without catching up a manifest.
\<close>

definition adminMem :: "('o, 'a) faM \<Rightarrow> ('o, 'a) faM" where
  "adminMem body =
     catchExn
       (seqE interfere (seqE (shmE shm_lock) (bindE body (\<lambda>x. seqE (shmE shm_unlock) (retE x)))))
       (\<lambda>c. seqE (shmE shm_unlock) (THROW c))"

definition modAdmin :: "(AdminActiveStatus \<Rightarrow> AdminActiveStatus) \<Rightarrow> ('o, unit) faM" where
  "modAdmin f = modifyE (\<lambda>w. w\<lparr>w_admin := f (w_admin w)\<rparr>)"

definition admin_regist :: "'o Env \<Rightarrow> ('o, unit) faM" where
  "admin_regist env =
     bindE (shmE (registAdmin (e_pid env))) (\<lambda>activeId.
     seqE (modAdmin (\<lambda>a. a\<lparr>ad_activeId := activeId\<rparr>))
     (if activeId = - 1 then THROW GopherwoodSharedMemException else retE ()))"

definition admin_unregist :: "'o Env \<Rightarrow> ('o, unit) faM" where
  "admin_unregist env =
     bindE (getsE (\<lambda>w. ad_activeId (w_admin w))) (\<lambda>activeId.
     if activeId = - 1 then retE ()
     else bindE (shmE (unregistAdmin activeId (e_pid env))) (\<lambda>rc.
       if rc \<noteq> 0 then seqE (shmE shm_unlock) (THROW GopherwoodSharedMemException)
       else modAdmin (\<lambda>a. a\<lparr>ad_activeId := - 1\<rparr>)))"

definition AdminActiveStatus_new :: "'o Env \<Rightarrow> ('o, unit) faM" where
  "AdminActiveStatus_new env =
     seqE (modAdmin (\<lambda>_. \<lparr>ad_activeId = - 1, ad_numEvicted = 0\<rparr>)) (adminMem (admin_regist env))"

record GWSysInfo =
  si_numFreeBuckets :: "32 word"
  si_numActiveBuckets :: "32 word"
  si_numUsedBuckets :: "32 word"
  si_numLoadingBuckets :: "32 word"
  si_numEvictingBuckets :: "32 word"
  si_numAdminActiveStatus :: "32 word"
  si_numFileActiveStatus :: "32 word"

definition getShareMemStatistic :: "('o, GWSysInfo) faM" where
  "getShareMemStatistic = adminMem
     (bindE (shmE getActiveBucketNum) (\<lambda>active.
      bindE (shmE getEvictingBucketNum) (\<lambda>evicting.
      bindE (shmE getUsedBucketNum) (\<lambda>used.
      bindE (shmE getFreeBucketNum) (\<lambda>free.
      bindE (shmE getLoadingBucketNum) (\<lambda>loading.
      bindE (shmE getAdminActiveStatusNum) (\<lambda>admins.
      bindE (shmE getFileActiveStatusNum) (\<lambda>files.
      retE \<lparr>si_numFreeBuckets = word_of_int free, si_numActiveBuckets = word_of_int active,
            si_numUsedBuckets = word_of_int used, si_numLoadingBuckets = word_of_int loading,
            si_numEvictingBuckets = word_of_int evicting, si_numAdminActiveStatus = word_of_int admins,
            si_numFileActiveStatus = word_of_int files\<rparr>))))))))"

definition admin_logEvictBlock :: "'o Env \<Rightarrow> BlockInfo \<Rightarrow> ('o, unit) faM" where
  "admin_logEvictBlock env info = (\<lambda>w.
     let block = Block_new InvalidBucketId (bi_blockId info) False BUCKET_FREE;
         path = getManifestFileName (workDir (w_shm w)) (bi_fileId info)
     in if \<not> posix_access path (w_store w) then (Inl (Exn GopherwoodInvalidParmException), w)
        else case Manifest_new (e_garbage env) path (w_store w) of
          (Inl e, st) \<Rightarrow> (Inl e, w\<lparr>w_store := st\<rparr>)
        | (Inr m, st) \<Rightarrow>
            (case seqE (mfSeek 0 SEEK_END) (logEvcitBlock (e_pad env) block) (st, m) of
               (r, (st', _)) \<Rightarrow> (r, w\<lparr>w_store := st'\<rparr>)))"

text \<open>
  One round of the loop of \<^verbatim>\<open>evictNumOfBlocks\<close>. \<open>found\<close> is the block found by this or an earlier
  round; while none was found the code finishes the eviction of an uninitialised bucket id.
\<close>

definition evictRound :: "'o Env \<Rightarrow> BlockInfo option \<Rightarrow> ('o, BlockInfo option) faM" where
  "evictRound env found =
     bindE (adminMem
       (bindE (shmE getUsedBucketNum) (\<lambda>n.
        if n > 0
        then bindE (getsE (\<lambda>w. ad_activeId (w_admin w))) (\<lambda>a.
             bindE (shmE (markBucketEvicting a)) (\<lambda>info. retE (Some info)))
        else retE found))) (\<lambda>found'.
     case found' of
       None \<Rightarrow> throwE BadAccess
     | Some info \<Rightarrow>
         seqE (ioE (writeBlock (e_io env) info))
        (seqE (adminMem
          (bindE (getsE (\<lambda>w. ad_activeId (w_admin w))) (\<lambda>a.
           bindE (shmE (evictBucketFinishAndTryFree (bi_bucketId info) a)) (\<lambda>rc.
           if rc = 0
           then seqE (admin_logEvictBlock env info)
                     (modAdmin (\<lambda>a. a\<lparr>ad_numEvicted := ad_numEvicted a + 1\<rparr>))
           else if rc = 1 \<or> rc = 2 then ioE (oss_deleteBlock (e_io env) info)
           else retE ()))))
         (retE found')))"

primrec evict_rounds :: "'o Env \<Rightarrow> nat \<Rightarrow> int \<Rightarrow> BlockInfo option \<Rightarrow> ('o, int) faM" where
  "evict_rounds env 0 numToEvict found = throwE OutOfFuel"
| "evict_rounds env (Suc n) numToEvict found =
     (if numToEvict > 0 then bindE (evictRound env found) (evict_rounds env n numToEvict) else retE 0)"

definition evictNumOfBlocks :: "'o Env \<Rightarrow> int \<Rightarrow> ('o, int) faM" where
  "evictNumOfBlocks env num = evict_rounds env (e_fuel env) num None"

text \<open>
  The counters that would end the loop are never changed: with a positive argument it does
  not return, whatever the number of rounds.
\<close>

lemma evict_rounds_no_return: "0 < num \<Longrightarrow> fst (evict_rounds env n num found w) \<noteq> Inr k"
proof (induction n arbitrary: found w)
  case 0
  then show ?case by (simp add: run_simps)
next
  case (Suc n)
  then show ?case by (auto simp: run_simps split: prod.splits sum.splits)
qed

end
