(* ===== verification/GW_FileSystem.thy ===== *)
theory GW_FileSystem
  imports GW_File GW_AdminActiveStatus GW_SharedMemEvict
begin

unbundle bit_operations_syntax

text \<open>
  \<^verbatim>\<open>src/file/FileSystem.cpp\<close>, \<^verbatim>\<open>src/core/ActiveStatusContext.cpp\<close> and
  the C interface \<^verbatim>\<open>src/client/Gopherwood.cpp\<close>: opening, deleting and looking up files by name, and
  the functions of the library with their return values and \<^verbatim>\<open>errno\<close>.

  The hash of a file name comes from the C++ library (\<^verbatim>\<open>std::hash\<close>) and is a parameter.
\<close>

section \<open>ActiveStatusContext and FileSystem\<close>

definition createFileActiveStatus :: "'o Env \<Rightarrow> FileId \<Rightarrow> bool \<Rightarrow> bool \<Rightarrow> ('o, unit) faM" where
  "createFileActiveStatus env fileId isWrite isSequence =
     FileActiveStatus_new env fileId True isSequence (if isWrite then writeFile else readFile)"

definition openFileActiveStatus :: "'o Env \<Rightarrow> FileId \<Rightarrow> bool \<Rightarrow> bool \<Rightarrow> ('o, unit) faM" where
  "openFileActiveStatus env fileId isWrite isSequence =
     FileActiveStatus_new env fileId False isSequence (if isWrite then writeFile else readFile)"

definition deleteFileActiveStatus :: "'o Env \<Rightarrow> FileId \<Rightarrow> ('o, unit) faM" where
  "deleteFileActiveStatus env fileId = FileActiveStatus_new env fileId False False deleteFile"

definition makeFileId :: "(string \<Rightarrow> 64 word) \<Rightarrow> string \<Rightarrow> FileId" where
  "makeFileId hasher filePath = \<lparr>hashcode = hasher filePath, collisionId = 0\<rparr>"

definition fs_exists :: "(string \<Rightarrow> 64 word) \<Rightarrow> string \<Rightarrow> 'o World \<Rightarrow> bool" where
  "fs_exists hasher fileName w =
     posix_access (getManifestFileName (workDir (w_shm w)) (makeFileId hasher fileName)) (w_store w)"

definition CreateFile :: "'o Env \<Rightarrow> (string \<Rightarrow> 64 word) \<Rightarrow> string \<Rightarrow> 32 word \<Rightarrow> bool \<Rightarrow> ('o, File) faM" where
  "CreateFile env hasher fileName flags isWrite =
     (let fileId = makeFileId hasher fileName in
      seqE (createFileActiveStatus env fileId isWrite (flags AND GW_SEQACC \<noteq> 0))
      (retE (File_new fileId fileName flags)))"

definition OpenFile :: "'o Env \<Rightarrow> (string \<Rightarrow> 64 word) \<Rightarrow> string \<Rightarrow> 32 word \<Rightarrow> bool \<Rightarrow> ('o, File) faM" where
  "OpenFile env hasher fileName flags isWrite =
     (let fileId = makeFileId hasher fileName in
      seqE (openFileActiveStatus env fileId isWrite (flags AND GW_SEQACC \<noteq> 0))
      (retE (File_new fileId fileName flags)))"

definition CloseFile :: "'o Env \<Rightarrow> ('o, unit) fileM" where
  "CloseFile env = File_close env False"

definition DeleteFile :: "'o Env \<Rightarrow> (string \<Rightarrow> 64 word) \<Rightarrow> string \<Rightarrow> ('o, unit) faM" where
  "DeleteFile env hasher fileName =
     seqE (deleteFileActiveStatus env (makeFileId hasher fileName)) (fa_close env False)"

section \<open>The C interface\<close>

definition EINTERNAL :: int where "EINTERNAL = 255"
definition EGOPHERWOOD :: int where "EGOPHERWOOD = 100"
definition ESYNC :: int where "ESYNC = 101"
definition EINVALIDPARM :: int where "EINVALIDPARM = 102"
definition ESHRMEM :: int where "ESHRMEM = 103"
definition ENOTIMPL :: int where "ENOTIMPL = 104"
definition EOSS :: int where "EOSS = 105"
definition ENOMEM :: int where "ENOMEM = 12"
definition EINVAL :: int where "EINVAL = 22"

lemmas errno_values = EINTERNAL_def EGOPHERWOOD_def ESYNC_def EINVALIDPARM_def ESHRMEM_def ENOTIMPL_def
  EOSS_def ENOMEM_def EINVAL_def

text \<open>The \<^verbatim>\<open>catch\<close> clauses of \<^verbatim>\<open>handleException\<close> in their order; the first that fits sets \<^verbatim>\<open>errno\<close>.\<close>

definition catch_clauses :: "(exn_class \<times> int) list" where
  "catch_clauses =
     [(GopherwoodInvalidParmException, EINVALIDPARM), (GopherwoodNotImplException, ENOTIMPL),
      (GopherwoodSharedMemException, ESHRMEM), (GopherwoodSyncException, ESYNC),
      (GopherwoodOSSException, EOSS), (GopherwoodInternalException, EINTERNAL),
      (GopherwoodException, EGOPHERWOOD), (StdBadAlloc, ENOMEM), (StdException, EINTERNAL)]"

definition handleException :: "exn_class \<Rightarrow> int option" where
  "handleException c = map_option snd (find (\<lambda>(d, _). instance_of c d) catch_clauses)"

text \<open>
  A library function runs its body, and turns an exception into its error value and \<^verbatim>\<open>errno\<close>. The
  state is that of the body together with \<^verbatim>\<open>errno\<close>.
\<close>

definition api :: "('s, gw_error, 'a) gw \<Rightarrow> 'a \<Rightarrow> ('s \<times> int, gw_error, 'a) gw" where
  "api body failed = (\<lambda>(s, errno).
     case body s of
       (Inr x, s') \<Rightarrow> (Inr x, (s', errno))
     | (Inl (Exn c), s') \<Rightarrow> (case handleException c of
         Some e \<Rightarrow> (Inr failed, (s', e))
       | None \<Rightarrow> (Inl (Exn c), (s', errno)))
     | (Inl e, s') \<Rightarrow> (Inl e, (s', errno)))"

record GWContextConfig =
  cc_numBlocks :: int
  cc_blockSize :: int
  cc_numPreDefinedConcurrency :: int
  cc_severity :: int

text \<open>The checks and assignments of \<^verbatim>\<open>gwCreateContext\<close>; \<open>Inl\<close> is the \<^verbatim>\<open>errno\<close> of a refused parameter.\<close>

definition gwCreateContext_config :: "string \<Rightarrow> GWContextConfig option \<Rightarrow> Configuration \<Rightarrow> int + Configuration" where
  "gwCreateContext_config dir config cfg =
     (if dir = [] then Inl EINVAL
      else case config of
        None \<Rightarrow> Inr cfg
      | Some c \<Rightarrow>
          if \<not> cc_numBlocks c > 0 then Inl EINVAL
          else if \<not> cc_blockSize c > 0 then Inl EINVAL
          else if \<not> cc_numPreDefinedConcurrency c > 0 then Inl EINVAL
          else if \<not> (cc_severity c \<ge> 0 \<and> cc_severity c < 5) then Inl EINVAL
          else Inr (cfg\<lparr>NUMBER_OF_BLOCKS := cc_numBlocks c, LOCAL_BUCKET_SIZE := cc_blockSize c,
                        CUR_CONNECTION := cc_numPreDefinedConcurrency c\<rparr>))"

definition gwOpenFile :: "'o Env \<Rightarrow> (string \<Rightarrow> 64 word) \<Rightarrow> string \<Rightarrow> 32 word \<Rightarrow>
    ('o World \<times> int, gw_error, File option) gw" where
  "gwOpenFile env hasher fileName flags =
     api (bindE (if flags AND GW_CREAT \<noteq> 0 then CreateFile env hasher fileName flags (canWrite flags)
                 else OpenFile env hasher fileName flags (canWrite flags)) (\<lambda>f. retE (Some f))) None"

definition gwRead :: "'o Env \<Rightarrow> int \<Rightarrow> (('o World \<times> File) \<times> int, gw_error, int \<times> byte list) gw" where
  "gwRead env n = api (File_read env n) (- 1, [])"

definition gwWrite :: "'o Env \<Rightarrow> byte list \<Rightarrow> (('o World \<times> File) \<times> int, gw_error, int) gw" where
  "gwWrite env data = api (seqE (File_write env data) (retE (int (length data)))) (- 1)"

definition gwSeek :: "'o Env \<Rightarrow> int \<Rightarrow> seek_mode \<Rightarrow> (('o World \<times> File) \<times> int, gw_error, int) gw" where
  "gwSeek env pos mode = api (File_seek env pos mode) (- 1)"

definition gwFlush :: "'o Env \<Rightarrow> (('o World \<times> File) \<times> int, gw_error, int) gw" where
  "gwFlush env = api (seqE (File_flush env) (retE 0)) (- 1)"

definition gwCloseFile :: "'o Env \<Rightarrow> (('o World \<times> File) \<times> int, gw_error, int) gw" where
  "gwCloseFile env = api (seqE (CloseFile env) (retE 0)) (- 1)"

definition gwCancelFile :: "'o Env \<Rightarrow> (('o World \<times> File) \<times> int, gw_error, int) gw" where
  "gwCancelFile env = api (seqE (File_close env True) (retE 0)) (- 1)"

definition gwDeleteFile :: "'o Env \<Rightarrow> (string \<Rightarrow> 64 word) \<Rightarrow> string \<Rightarrow> ('o World \<times> int, gw_error, int) gw" where
  "gwDeleteFile env hasher filePath = api (seqE (DeleteFile env hasher filePath) (retE 0)) (- 1)"

definition gwStatFile :: "(('o World \<times> File) \<times> int, gw_error, int \<times> GWFileInfo option) gw" where
  "gwStatFile = api (bindE File_getFileInfo (\<lambda>i. retE (0, Some i))) (- 1, None)"

definition gwGetSysStat :: "('o World \<times> int, gw_error, int \<times> GWSysInfo option) gw" where
  "gwGetSysStat = api (bindE getShareMemStatistic (\<lambda>i. retE (0, Some i))) (- 1, None)"

definition gwEvictBlocks :: "'o Env \<Rightarrow> int \<Rightarrow> ('o World \<times> int, gw_error, int) gw" where
  "gwEvictBlocks env num = (\<lambda>(w, errno).
     if \<not> (num > 0 \<and> num < NUMBER_OF_BLOCKS (e_cfg env)) then (Inr (- 1), (w, EINVAL))
     else api (evictNumOfBlocks env num) (- 1) (w, errno))"

definition gwFileExists :: "(string \<Rightarrow> 64 word) \<Rightarrow> string \<Rightarrow> 'o World \<Rightarrow> bool" where
  "gwFileExists hasher fileName w = fs_exists hasher fileName w"

section \<open>Error codes\<close>

text \<open>No exception escapes the C interface.\<close>

lemma handleException_total: "\<exists>e. handleException c = Some e"
proof -
  have "instance_of c StdException" by (cases c) (simp_all add: instance_of.simps)
  then have "find (\<lambda>(d, _). instance_of c d) catch_clauses \<noteq> None"
    by (auto simp: find_None_iff catch_clauses_def)
  then show ?thesis by (auto simp: handleException_def)
qed

lemma handleException_values:
  "handleException c = Some (case c of
     GopherwoodInvalidParmException \<Rightarrow> EINVALIDPARM | GopherwoodNotImplException \<Rightarrow> ENOTIMPL
   | GopherwoodSharedMemException \<Rightarrow> ESHRMEM | GopherwoodSyncException \<Rightarrow> ESYNC
   | GopherwoodOSSException \<Rightarrow> EOSS | GopherwoodInternalException \<Rightarrow> EINTERNAL
   | StdBadAlloc \<Rightarrow> ENOMEM | StdException \<Rightarrow> EINTERNAL | _ \<Rightarrow> EGOPHERWOOD)"
  by (cases c) (simp_all add: handleException_def catch_clauses_def instance_of.simps)

end
