(* ===== verification/GW_OssBuilder.thy ===== *)
theory GW_OssBuilder
  imports GW_Common
begin

text \<open>
  \<^verbatim>\<open>src/common/OssBuilder.cpp\<close> and \<^verbatim>\<open>ObjectStorInfo.h\<close>: the settings of the object store, read from a properties
  file, and the choice of the settings of one provider. The file system is a function from paths to
  file contents, the environment a function from names to values; \<^verbatim>\<open>ossInitContext\<close> of the
  object store library is a parameter.
\<close>

section \<open>Strings\<close>

text \<open>\<^verbatim>\<open>std::string::find\<close> of a string: is there an occurrence, at any place?\<close>

fun contains :: "string \<Rightarrow> string \<Rightarrow> bool" where
  "contains key [] = (key = [])"
| "contains key (c # cs) = (take (length key) (c # cs) = key \<or> contains key cs)"

text \<open>
  \<^verbatim>\<open>mkey.substr(mkey.find('=') + 1)\<close>: the text after the first \<^verbatim>\<open>=\<close>. Without one \<^verbatim>\<open>find\<close> returns the greatest
  \<^verbatim>\<open>size_type\<close>, the sum wraps around to 0, and the result is the whole line.
\<close>

definition after_eq :: "string \<Rightarrow> string" where
  "after_eq line = (if CHR ''='' \<in> set line then tl (dropWhile (\<lambda>c. c \<noteq> CHR ''='') line) else line)"

text \<open>What \<^verbatim>\<open>strcmp\<close> sees of a string: the characters before the first zero byte.\<close>

definition c_str :: "string \<Rightarrow> string" where
  "c_str s = takeWhile (\<lambda>c. c \<noteq> CHR 0x00) s"

text \<open>The lines that the loop over \<^verbatim>\<open>getline\<close> sees: one more than there are line ends, the last may be empty.\<close>

fun lines :: "string \<Rightarrow> string list" where
  "lines [] = [[]]"
| "lines (c # cs) = (if c = CHR 0x0A then [] # lines cs
     else case lines cs of [] \<Rightarrow> [[c]] | l # ls \<Rightarrow> (c # l) # ls)"

text \<open>
  \<^verbatim>\<open>sstr >> v\<close> for an \<^verbatim>\<open>int64_t\<close>: white space is skipped, then a sign and decimal digits are read. Nothing
  but white space leaves the variable as it was, no digits store 0, and a number outside the range
  stores the nearest bound.
\<close>

definition is_space :: "char \<Rightarrow> bool" where
  "is_space c = (c \<in> {CHR 0x20, CHR 0x09, CHR 0x0A, CHR 0x0B, CHR 0x0C, CHR 0x0D})"

definition digit_value :: "char \<Rightarrow> nat option" where
  "digit_value c = (let n = of_char c :: nat in if 48 \<le> n \<and> n \<le> 57 then Some (n - 48) else None)"

fun read_digits :: "string \<Rightarrow> nat \<Rightarrow> nat" where
  "read_digits [] acc = acc"
| "read_digits (c # cs) acc = (case digit_value c of None \<Rightarrow> acc | Some d \<Rightarrow> read_digits cs (10 * acc + d))"

definition clamp64 :: "int \<Rightarrow> int" where
  "clamp64 i = max (- (2 ^ 63)) (min (2 ^ 63 - 1) i)"

definition stream_int64 :: "string \<Rightarrow> int \<Rightarrow> int" where
  "stream_int64 s old = (case dropWhile is_space s of
     [] \<Rightarrow> old
   | c # cs \<Rightarrow> clamp64 (if c = CHR ''-'' then - int (read_digits cs 0)
                     else if c = CHR ''+'' then int (read_digits cs 0)
                     else int (read_digits (c # cs) 0)))"

section \<open>ObjectStorInfo\<close>

record ObjectStorInfo =
  object_stor_type :: string
  liboss_access_key_id :: string
  liboss_secret_access_key :: string
  liboss_appid :: string
  liboss_zone :: string
  liboss_write_buffer :: int
  liboss_read_buffer :: int
  qs_access_key_id :: string
  qs_secret_access_key :: string
  qs_zone :: string
  qs_write_buffer :: int
  qs_read_buffer :: int
  s3_access_key_id :: string
  s3_secret_access_key :: string
  s3_zone :: string
  s3_write_buffer :: int
  s3_read_buffer :: int
  txcos_access_key_id :: string
  txcos_secret_access_key :: string
  txcos_appid :: string
  txcos_zone :: string
  txcos_write_buffer :: int
  txcos_read_buffer :: int
  alioss_access_key_id :: string
  alioss_secret_access_key :: string
  alioss_zone :: string
  alioss_write_buffer :: int
  alioss_read_buffer :: int

text \<open>The initial values: strings are empty but the application id, the buffers have 8 and 32 MB.\<close>

definition ObjectStorInfo_new :: ObjectStorInfo where
  "ObjectStorInfo_new = \<lparr>object_stor_type = [], liboss_access_key_id = [], liboss_secret_access_key = [],
     liboss_appid = '' '', liboss_zone = [], liboss_write_buffer = 8388608, liboss_read_buffer = 33554432,
     qs_access_key_id = [], qs_secret_access_key = [], qs_zone = [],
     qs_write_buffer = 8388608, qs_read_buffer = 33554432,
     s3_access_key_id = [], s3_secret_access_key = [], s3_zone = [],
     s3_write_buffer = 8388608, s3_read_buffer = 33554432,
     txcos_access_key_id = [], txcos_secret_access_key = [], txcos_appid = [], txcos_zone = [],
     txcos_write_buffer = 8388608, txcos_read_buffer = 33554432,
     alioss_access_key_id = [], alioss_secret_access_key = [], alioss_zone = [],
     alioss_write_buffer = 8388608, alioss_read_buffer = 33554432\<rparr>"

record OssBuilder =
  mOssInfo :: ObjectStorInfo
  mBucket :: string

section \<open>Reading the properties file\<close>

text \<open>
  The file is tested for one key after the other, in the order of the source; a setting is its key
  and what its branch does with the text after the \<^verbatim>\<open>=\<close>.
\<close>

type_synonym setting = "string \<times> (string \<Rightarrow> OssBuilder \<Rightarrow> OssBuilder)"

definition info_setting :: "string \<Rightarrow> (string \<Rightarrow> ObjectStorInfo \<Rightarrow> ObjectStorInfo) \<Rightarrow> setting" where
  "info_setting key f = (key, \<lambda>v b. b\<lparr>mOssInfo := f v (mOssInfo b)\<rparr>)"

definition liboss_settings :: "setting list" where
  "liboss_settings =
     [info_setting ''oss.type'' (\<lambda>v i. i\<lparr>object_stor_type := v\<rparr>),
      (''oss.bucket'', \<lambda>v b. b\<lparr>mBucket := v\<rparr>)]"

definition qingstor_settings :: "setting list" where
  "qingstor_settings =
     [info_setting ''fs.qingstor.accessKeyId'' (\<lambda>v i. i\<lparr>qs_access_key_id := v\<rparr>),
      info_setting ''fs.qingstor.secretAccessKey'' (\<lambda>v i. i\<lparr>qs_secret_access_key := v\<rparr>),
      info_setting ''fs.qingstor.zone'' (\<lambda>v i. i\<lparr>qs_zone := v\<rparr>),
      info_setting ''fs.qingstor.write_buffer'' (\<lambda>v i. i\<lparr>qs_write_buffer := stream_int64 v (qs_write_buffer i)\<rparr>),
      info_setting ''fs.qingstor.read_buffer'' (\<lambda>v i. i\<lparr>qs_read_buffer := stream_int64 v (qs_read_buffer i)\<rparr>)]"

definition s3_settings :: "setting list" where
  "s3_settings =
     [info_setting ''aws.accessKeyId'' (\<lambda>v i. i\<lparr>s3_access_key_id := v\<rparr>),
      info_setting ''aws.secretKey'' (\<lambda>v i. i\<lparr>s3_secret_access_key := v\<rparr>),
      info_setting ''alluxio.underfs.s3.endpoint'' (\<lambda>v i. i\<lparr>s3_zone := v\<rparr>),
      info_setting ''fs.s3.write_buffer'' (\<lambda>v i. i\<lparr>s3_write_buffer := stream_int64 v (s3_write_buffer i)\<rparr>),
      info_setting ''fs.s3.read_buffer'' (\<lambda>v i. i\<lparr>s3_read_buffer := stream_int64 v (s3_read_buffer i)\<rparr>)]"

definition txcos_settings :: "setting list" where
  "txcos_settings =
     [info_setting ''fs.txcos.accessKeyId'' (\<lambda>v i. i\<lparr>txcos_access_key_id := v\<rparr>),
      info_setting ''fs.txcos.secretAccessKey'' (\<lambda>v i. i\<lparr>txcos_secret_access_key := v\<rparr>),
      info_setting ''fs.txcos.appid'' (\<lambda>v i. i\<lparr>txcos_appid := v\<rparr>),
      info_setting ''fs.txcos.zone'' (\<lambda>v i. i\<lparr>txcos_zone := v\<rparr>),
      info_setting ''fs.txcos.write_buffer'' (\<lambda>v i. i\<lparr>txcos_write_buffer := stream_int64 v (txcos_write_buffer i)\<rparr>),
      info_setting ''fs.txcos.read_buffer'' (\<lambda>v i. i\<lparr>txcos_read_buffer := stream_int64 v (txcos_read_buffer i)\<rparr>)]"

definition alioss_settings :: "setting list" where
  "alioss_settings =
     [info_setting ''fs.oss.accessKeyId'' (\<lambda>v i. i\<lparr>alioss_access_key_id := v\<rparr>),
      info_setting ''fs.oss.accessKeySecret'' (\<lambda>v i. i\<lparr>alioss_secret_access_key := v\<rparr>),
      info_setting ''fs.oss.zone'' (\<lambda>v i. i\<lparr>alioss_zone := v\<rparr>),
      info_setting ''fs.oss.write_buffer'' (\<lambda>v i. i\<lparr>alioss_write_buffer := stream_int64 v (alioss_write_buffer i)\<rparr>),
      info_setting ''fs.oss.read_buffer'' (\<lambda>v i. i\<lparr>alioss_read_buffer := stream_int64 v (alioss_read_buffer i)\<rparr>)]"

definition settings :: "setting list" where
  "settings = liboss_settings @ qingstor_settings @ s3_settings @ txcos_settings @ alioss_settings"

definition oss_line :: "string \<Rightarrow> OssBuilder \<Rightarrow> OssBuilder" where
  "oss_line mkey b =
     (if mkey \<noteq> [] \<and> hd mkey = CHR ''#'' then b
      else fold (\<lambda>(key, set). if contains key mkey then set (after_eq mkey) else id) settings b)"

text \<open>Where the file is: two environment variables, then a directory that is looked for.\<close>

definition conf_path :: "(string \<Rightarrow> string option) \<Rightarrow> (string \<Rightarrow> bool) \<Rightarrow> string option" where
  "conf_path getenv opendir =
     (case getenv ''GOPHERWOOD_CONF'' of
        Some f \<Rightarrow> Some f
      | None \<Rightarrow> (case getenv ''ALLUXIO_HOME'' of
          Some home \<Rightarrow> Some (home @ ''/conf/alluxio-site.properties'')
        | None \<Rightarrow> if opendir ''/opt/alluxio'' then Some ''/opt/alluxio/conf/alluxio-site.properties'' else None))"

definition buildOssInfo :: "(string \<Rightarrow> string option) \<Rightarrow> (string \<Rightarrow> bool) \<Rightarrow> (string \<Rightarrow> string option) \<Rightarrow>
    OssBuilder \<Rightarrow> gw_error + OssBuilder" where
  "buildOssInfo getenv opendir ifstream b =
     (case conf_path getenv opendir of
        None \<Rightarrow> Inl (Exn GopherwoodException)
      | Some conf_file \<Rightarrow> (case ifstream conf_file of
          None \<Rightarrow> Inl (Exn GopherwoodException)
        | Some content \<Rightarrow> Inr (fold oss_line (lines content) b)))"

section \<open>Choosing the provider\<close>

definition setObjectStorInfo :: "ObjectStorInfo \<Rightarrow> ObjectStorInfo" where
  "setObjectStorInfo i =
     (if c_str (object_stor_type i) = ''QS''
      then i\<lparr>object_stor_type := ''QS'', liboss_access_key_id := qs_access_key_id i,
             liboss_secret_access_key := qs_secret_access_key i, liboss_zone := qs_zone i,
             liboss_write_buffer := qs_write_buffer i, liboss_read_buffer := qs_read_buffer i\<rparr>
      else if c_str (object_stor_type i) = ''S3''
      then i\<lparr>object_stor_type := ''S3B'', liboss_access_key_id := s3_access_key_id i,
             liboss_secret_access_key := s3_secret_access_key i, liboss_zone := s3_zone i,
             liboss_write_buffer := s3_write_buffer i, liboss_read_buffer := s3_read_buffer i\<rparr>
      else if c_str (object_stor_type i) = ''TXCOS''
      then i\<lparr>object_stor_type := ''COS'', liboss_access_key_id := txcos_access_key_id i,
             liboss_secret_access_key := txcos_secret_access_key i, liboss_appid := txcos_appid i,
             liboss_zone := txcos_zone i,
             liboss_write_buffer := txcos_write_buffer i, liboss_read_buffer := txcos_read_buffer i\<rparr>
      else if c_str (object_stor_type i) = ''OSS''
      then i\<lparr>object_stor_type := ''ALI'', liboss_access_key_id := alioss_access_key_id i,
             liboss_secret_access_key := alioss_secret_access_key i, liboss_zone := alioss_zone i,
             liboss_write_buffer := alioss_write_buffer i, liboss_read_buffer := alioss_read_buffer i\<rparr>
      else i)"

definition OssBuilder_new :: "(string \<Rightarrow> string option) \<Rightarrow> (string \<Rightarrow> bool) \<Rightarrow> (string \<Rightarrow> string option) \<Rightarrow>
    gw_error + OssBuilder" where
  "OssBuilder_new getenv opendir ifstream =
     (case buildOssInfo getenv opendir ifstream \<lparr>mOssInfo = ObjectStorInfo_new, mBucket = []\<rparr> of
        Inl e \<Rightarrow> Inl e
      | Inr b \<Rightarrow> Inr (b\<lparr>mOssInfo := setObjectStorInfo (mOssInfo b)\<rparr>))"

text \<open>
  \<^verbatim>\<open>getInstance\<close>: the state is the static \<^verbatim>\<open>instance\<close>. A constructor that throws leaves it empty, and the next
  call reads the file again; a file that changed after a success is not read again.
\<close>

definition getInstance :: "(string \<Rightarrow> string option) \<Rightarrow> (string \<Rightarrow> bool) \<Rightarrow> (string \<Rightarrow> string option) \<Rightarrow>
    (OssBuilder option, gw_error, OssBuilder) gw" where
  "getInstance getenv opendir ifstream =
     bindE (getsE id) (\<lambda>i. case i of
       Some b \<Rightarrow> retE b
     | None \<Rightarrow> bindE (pureE (OssBuilder_new getenv opendir ifstream)) (\<lambda>b. seqE (modifyE (\<lambda>_. Some b)) (retE b)))"

type_synonym 'c oss_init = "string \<Rightarrow> string \<Rightarrow> string \<Rightarrow> string \<Rightarrow> string \<Rightarrow> int \<Rightarrow> int \<Rightarrow> 'c option"

definition buildContext :: "'c oss_init \<Rightarrow> OssBuilder \<Rightarrow> gw_error + 'c" where
  "buildContext ossInitContext b =
     (let i = mOssInfo b in
      case ossInitContext (c_str (object_stor_type i)) (c_str (liboss_zone i)) (c_str (liboss_appid i))
             (c_str (liboss_access_key_id i)) (c_str (liboss_secret_access_key i))
             (liboss_write_buffer i) (liboss_read_buffer i) of
        None \<Rightarrow> Inl (Exn GopherwoodInvalidParmException)
      | Some ctx \<Rightarrow> Inr ctx)"

definition getBucketName :: "OssBuilder \<Rightarrow> string" where
  "getBucketName b = mBucket b"

section \<open>Files of key-value lines\<close>

text \<open>A file as it is meant to be written: one line \<^verbatim>\<open>key=value\<close> for each entry.\<close>

definition conf_line :: "string \<times> string \<Rightarrow> string" where
  "conf_line e = fst e @ CHR ''='' # snd e"

definition conf_text :: "(string \<times> string) list \<Rightarrow> string" where
  "conf_text es = concat (map (\<lambda>e. conf_line e @ [CHR 0x0A]) es)"

text \<open>
  An entry that the code understands as it is meant: its key is known, its value fits on the line, and no
  other key occurs anywhere in the line.
\<close>

definition entry_ok :: "string \<times> string \<Rightarrow> bool" where
  "entry_ok e \<longleftrightarrow> fst e \<in> fst ` set settings \<and> CHR 0x0A \<notin> set (snd e) \<and>
     list_all (\<lambda>k. contains k (conf_line e) \<longrightarrow> k = fst e) (map fst settings)"

definition set_entry :: "string \<times> string \<Rightarrow> OssBuilder \<Rightarrow> OssBuilder" where
  "set_entry e = (case map_of settings (fst e) of None \<Rightarrow> id | Some f \<Rightarrow> f (snd e))"

lemmas settings_defs = settings_def liboss_settings_def qingstor_settings_def s3_settings_def
  txcos_settings_def alioss_settings_def info_setting_def

lemma keys_plain: "list_all (\<lambda>k. k \<noteq> [] \<and> hd k \<noteq> CHR ''#'' \<and> CHR ''='' \<notin> set k \<and> CHR 0x0A \<notin> set k) (map fst settings)"
  by (simp add: settings_defs)

lemma keys_distinct: "distinct (map fst settings)"
  by (simp add: settings_defs)

lemma contains_append: "contains key (key @ s)"
proof (cases "key @ s")
  case (Cons c cs)
  then have "take (length key) (c # cs) = key" by (metis append_eq_conv_conj)
  then show ?thesis using Cons by simp
qed simp

lemma after_eq_line: "CHR ''='' \<notin> set k \<Longrightarrow> after_eq (k @ CHR ''='' # v) = v"
  by (subgoal_tac "dropWhile (\<lambda>c. c \<noteq> CHR ''='') k = []") (auto simp: after_eq_def dropWhile_append3)

lemma lines_snoc: "CHR 0x0A \<notin> set l \<Longrightarrow> lines (l @ CHR 0x0A # rest) = l # lines rest"
  by (induction l) auto

lemma fold_single:
  assumes "distinct (map fst S)" and "\<And>k f. (k, f) \<in> set S \<Longrightarrow> P k \<longleftrightarrow> k = key"
  shows "fold (\<lambda>(k, f). if P k then f v else id) S b = (case map_of S key of None \<Rightarrow> b | Some f \<Rightarrow> f v b)"
  using assms
proof (induction S arbitrary: b)
  case (Cons e S)
  obtain k f where e: "e = (k, f)" by (cases e)
  have "P k \<longleftrightarrow> k = key" using Cons.prems(2) e by auto
  moreover have "map_of S k = None" using Cons.prems(1) e by (simp add: map_of_eq_None_iff)
  moreover have "fold (\<lambda>(k, f). if P k then f v else id) S b' = (case map_of S key of None \<Rightarrow> b' | Some f \<Rightarrow> f v b')" for b'
    using Cons.prems by (intro Cons.IH) auto
  ultimately show ?case using e by (auto split: option.splits)
qed simp

lemma oss_line_entry:
  assumes "entry_ok e"
  shows "oss_line (conf_line e) b = set_entry e b"
proof -
  have key: "fst e \<noteq> []" "hd (fst e) \<noteq> CHR ''#''" "CHR ''='' \<notin> set (fst e)"
    using assms keys_plain by (auto simp: entry_ok_def list_all_iff)
  then have "conf_line e \<noteq> []" "hd (conf_line e) \<noteq> CHR ''#''" by (simp_all add: conf_line_def)
  moreover have "after_eq (conf_line e) = snd e" using key by (simp add: conf_line_def after_eq_line)
  moreover have "fold (\<lambda>(k, f). if contains k (conf_line e) then f (snd e) else id) settings b =
      (case map_of settings (fst e) of None \<Rightarrow> b | Some f \<Rightarrow> f (snd e) b)"
  proof (rule fold_single [OF keys_distinct])
    fix k f
    assume "(k, f) \<in> set settings"
    then have "contains k (conf_line e) \<longrightarrow> k = fst e" using assms by (force simp: entry_ok_def list_all_iff)
    then show "contains k (conf_line e) \<longleftrightarrow> k = fst e" using contains_append by (auto simp: conf_line_def)
  qed
  ultimately show ?thesis by (simp add: oss_line_def set_entry_def cong: if_cong split: option.splits)
qed

lemma oss_lines_entries:
  assumes "list_all entry_ok es"
  shows "fold oss_line (lines (conf_text es)) b = fold set_entry es b"
  using assms
proof (induction es arbitrary: b)
  case Nil
  have "fold (\<lambda>(key, set). if contains key [] then set (after_eq []) else id) settings b = fold (\<lambda>_. id) settings b"
    using keys_plain by (intro fold_cong) (auto simp: list_all_iff)
  moreover have "fold (\<lambda>_. id) S b = b" for S :: "setting list" by (induction S) auto
  ultimately have "fold (\<lambda>(key, set). if contains key [] then set (after_eq []) else id) settings b = b" by simp
  then show ?case by (simp add: conf_text_def oss_line_def)
next
  case (Cons e es)
  have "CHR 0x0A \<notin> set (fst e)" using Cons.prems keys_plain by (auto simp: entry_ok_def list_all_iff)
  then have "CHR 0x0A \<notin> set (conf_line e)" using Cons.prems by (auto simp: conf_line_def entry_ok_def)
  then have "lines (conf_text (e # es)) = conf_line e # lines (conf_text es)"
    by (simp add: conf_text_def lines_snoc)
  then show ?case using Cons by (simp add: oss_line_entry)
qed

text \<open>A field that one key sets, and no other, has the last value of that key.\<close>

lemma fold_field:
  assumes "\<And>e b. fst e \<in> fst ` set settings \<Longrightarrow> get (set_entry e b) = (if fst e = key then snd e else get b)"
    and "list_all entry_ok es" and "distinct (map fst es)"
  shows "get (fold set_entry es b) = (case map_of es key of None \<Rightarrow> get b | Some v \<Rightarrow> v)"
  using assms(2,3)
proof (induction es arbitrary: b)
  case (Cons e es)
  have "get (set_entry e b) = (if fst e = key then snd e else get b)"
    using Cons.prems by (intro assms(1)) (simp add: entry_ok_def)
  moreover have "fst e = key \<Longrightarrow> map_of es key = None" using Cons.prems by (auto simp: map_of_eq_None_iff)
  ultimately show ?case using Cons by (cases e) (auto split: option.splits)
qed simp

lemma set_entry_fields:
  assumes "fst e \<in> fst ` set settings"
  shows "mBucket (set_entry e b) = (if fst e = ''oss.bucket'' then snd e else mBucket b)"
    and "object_stor_type (mOssInfo (set_entry e b)) =
      (if fst e = ''oss.type'' then snd e else object_stor_type (mOssInfo b))"
    and "liboss_appid (mOssInfo (set_entry e b)) = liboss_appid (mOssInfo b)"
    and "qs_access_key_id (mOssInfo (set_entry e b)) =
      (if fst e = ''fs.qingstor.accessKeyId'' then snd e else qs_access_key_id (mOssInfo b))"
    and "qs_secret_access_key (mOssInfo (set_entry e b)) =
      (if fst e = ''fs.qingstor.secretAccessKey'' then snd e else qs_secret_access_key (mOssInfo b))"
    and "qs_zone (mOssInfo (set_entry e b)) = (if fst e = ''fs.qingstor.zone'' then snd e else qs_zone (mOssInfo b))"
    and "s3_access_key_id (mOssInfo (set_entry e b)) =
      (if fst e = ''aws.accessKeyId'' then snd e else s3_access_key_id (mOssInfo b))"
    and "s3_secret_access_key (mOssInfo (set_entry e b)) =
      (if fst e = ''aws.secretKey'' then snd e else s3_secret_access_key (mOssInfo b))"
    and "s3_zone (mOssInfo (set_entry e b)) =
      (if fst e = ''alluxio.underfs.s3.endpoint'' then snd e else s3_zone (mOssInfo b))"
    and "txcos_access_key_id (mOssInfo (set_entry e b)) =
      (if fst e = ''fs.txcos.accessKeyId'' then snd e else txcos_access_key_id (mOssInfo b))"
    and "txcos_secret_access_key (mOssInfo (set_entry e b)) =
      (if fst e = ''fs.txcos.secretAccessKey'' then snd e else txcos_secret_access_key (mOssInfo b))"
    and "txcos_zone (mOssInfo (set_entry e b)) = (if fst e = ''fs.txcos.zone'' then snd e else txcos_zone (mOssInfo b))"
    and "alioss_access_key_id (mOssInfo (set_entry e b)) =
      (if fst e = ''fs.oss.accessKeyId'' then snd e else alioss_access_key_id (mOssInfo b))"
    and "alioss_secret_access_key (mOssInfo (set_entry e b)) =
      (if fst e = ''fs.oss.accessKeySecret'' then snd e else alioss_secret_access_key (mOssInfo b))"
    and "alioss_zone (mOssInfo (set_entry e b)) = (if fst e = ''fs.oss.zone'' then snd e else alioss_zone (mOssInfo b))"
  using assms by (auto simp: settings_defs set_entry_def)

section \<open>The provider's settings reach the object store\<close>

text \<open>For each type: the name the object store library knows it by, and the keys of its settings.\<close>

definition provider :: "string \<Rightarrow> (string \<times> string \<times> string \<times> string) option" where
  "provider t = map_of
     [(''QS'', ''QS'', ''fs.qingstor.accessKeyId'', ''fs.qingstor.secretAccessKey'', ''fs.qingstor.zone''),
      (''S3'', ''S3B'', ''aws.accessKeyId'', ''aws.secretKey'', ''alluxio.underfs.s3.endpoint''),
      (''TXCOS'', ''COS'', ''fs.txcos.accessKeyId'', ''fs.txcos.secretAccessKey'', ''fs.txcos.zone''),
      (''OSS'', ''ALI'', ''fs.oss.accessKeyId'', ''fs.oss.accessKeySecret'', ''fs.oss.zone'')] t"

lemma provider_cases:
  assumes "provider t = Some (name, kid, ksecret, kzone)"
  obtains "t = ''QS''" "name = ''QS''" "kid = ''fs.qingstor.accessKeyId''" "ksecret = ''fs.qingstor.secretAccessKey''"
      "kzone = ''fs.qingstor.zone''"
  | "t = ''S3''" "name = ''S3B''" "kid = ''aws.accessKeyId''" "ksecret = ''aws.secretKey''"
      "kzone = ''alluxio.underfs.s3.endpoint''"
  | "t = ''TXCOS''" "name = ''COS''" "kid = ''fs.txcos.accessKeyId''" "ksecret = ''fs.txcos.secretAccessKey''"
      "kzone = ''fs.txcos.zone''"
  | "t = ''OSS''" "name = ''ALI''" "kid = ''fs.oss.accessKeyId''" "ksecret = ''fs.oss.accessKeySecret''"
      "kzone = ''fs.oss.zone''"
  using assms by (auto simp: provider_def split: if_splits)

text \<open>
  C27 The settings of the configured provider reach the object store: whatever the order of the lines
  of the properties file, the builder ends up with the library's name of the provider, the access
  key, the secret and the zone that the file has under the provider's keys, and with the
  bucket, as long as every line has one key and no other key occurs in it.
\<close>

theorem oss_settings_used:
  assumes "list_all entry_ok es" and "distinct (map fst es)"
    and "conf_path getenv opendir = Some path" and "ifstream path = Some (conf_text es)"
    and "map_of es ''oss.type'' = Some t" and "provider t = Some (name, kid, ksecret, kzone)"
    and "map_of es kid = Some keyId" and "map_of es ksecret = Some secret" and "map_of es kzone = Some zone"
  shows "\<exists>b. OssBuilder_new getenv opendir ifstream = Inr b \<and>
    object_stor_type (mOssInfo b) = name \<and> liboss_access_key_id (mOssInfo b) = keyId \<and>
    liboss_secret_access_key (mOssInfo b) = secret \<and> liboss_zone (mOssInfo b) = zone \<and>
    getBucketName b = (case map_of es ''oss.bucket'' of None \<Rightarrow> [] | Some v \<Rightarrow> v)"
proof -
  define b where "b = fold set_entry es \<lparr>mOssInfo = ObjectStorInfo_new, mBucket = []\<rparr>"
  have new: "OssBuilder_new getenv opendir ifstream = Inr (b\<lparr>mOssInfo := setObjectStorInfo (mOssInfo b)\<rparr>)"
    using assms(3,4) by (simp add: OssBuilder_new_def buildOssInfo_def oss_lines_entries [OF assms(1)] b_def)
  note field = fold_field [OF _ assms(1,2), of "\<lambda>b. g (mOssInfo b)" for g]
  have bucket: "mBucket b = (case map_of es ''oss.bucket'' of None \<Rightarrow> [] | Some v \<Rightarrow> v)"
    using fold_field [OF set_entry_fields(1) assms(1,2)] by (simp add: b_def split: option.splits)
  have type: "object_stor_type (mOssInfo b) = t"
    using field [OF set_entry_fields(2)] assms(5) by (simp add: b_def)
  from assms(6) show ?thesis
  proof (cases rule: provider_cases)
    case 1
    then show ?thesis using new bucket type assms(7-9) field [OF set_entry_fields(4)] field [OF set_entry_fields(5)]
        field [OF set_entry_fields(6)] by (simp add: b_def setObjectStorInfo_def c_str_def getBucketName_def)
  next
    case 2
    then show ?thesis using new bucket type assms(7-9) field [OF set_entry_fields(7)] field [OF set_entry_fields(8)]
        field [OF set_entry_fields(9)] by (simp add: b_def setObjectStorInfo_def c_str_def getBucketName_def)
  next
    case 3
    then show ?thesis using new bucket type assms(7-9) field [OF set_entry_fields(10)] field [OF set_entry_fields(11)]
        field [OF set_entry_fields(12)] by (simp add: b_def setObjectStorInfo_def c_str_def getBucketName_def)
  next
    case 4
    then show ?thesis using new bucket type assms(7-9) field [OF set_entry_fields(13)] field [OF set_entry_fields(14)]
        field [OF set_entry_fields(15)] by (simp add: b_def setObjectStorInfo_def c_str_def getBucketName_def)
  qed
qed

definition conf0 :: "(string \<times> string) list" where
  "conf0 = [(''aws.secretKey'', ''s''), (''oss.bucket'', ''data''), (''alluxio.underfs.s3.endpoint'', ''z''),
     (''oss.type'', ''S3''), (''aws.accessKeyId'', ''k'')]"

lemma conf0_ok: "list_all entry_ok conf0" "distinct (map fst conf0)"
  by (code_simp, code_simp)

theorem oss_settings_used_witness:
  "\<exists>b. OssBuilder_new (\<lambda>_. Some ''/c'') (\<lambda>_. False) (\<lambda>_. Some (conf_text conf0)) = Inr b \<and>
    object_stor_type (mOssInfo b) = ''S3B'' \<and> liboss_access_key_id (mOssInfo b) = ''k'' \<and>
    liboss_secret_access_key (mOssInfo b) = ''s'' \<and> liboss_zone (mOssInfo b) = ''z'' \<and> getBucketName b = ''data''"
  using oss_settings_used [OF conf0_ok, of "\<lambda>_. Some ''/c''" "\<lambda>_. False" "''/c''" "\<lambda>_. Some (conf_text conf0)" "''S3''"]
  by (simp add: conf_path_def provider_def conf0_def)

lemma contains_append2: "contains key v \<Longrightarrow> contains key (u @ v)"
  by (induction u) auto

lemma fold_untouched:
  assumes "\<And>k f b. (k, f) \<in> set S \<Longrightarrow> get (f v b) = get b"
  shows "get (fold (\<lambda>(k, f). if P k then f v else id) S b) = get b"
  using assms
proof (induction S arbitrary: b)
  case (Cons e S)
  have "get (fold (\<lambda>(k, f). if P k then f v else id) S b') = get b'" for b'
    using Cons.IH [of b'] Cons.prems by (meson list.set_intros(2))
  moreover have "get (snd e v b) = get b" using Cons.prems [of "fst e" "snd e"] by simp
  ultimately show ?case by (cases e) simp
qed simp

text \<open>
  A key is looked for in the whole line, its value included: a bucket whose name contains
  \<^verbatim>\<open>oss.type\<close> overwrites the type of the object store with the bucket's name.
\<close>

theorem key_in_value_misread:
  assumes "contains ''oss.type'' v"
  shows "object_stor_type (mOssInfo (oss_line (''oss.bucket='' @ v) b)) = v"
proof -
  let ?line = "''oss.bucket='' @ v"
  let ?rest = "[(''oss.bucket'', \<lambda>v b. b\<lparr>mBucket := v\<rparr>)] @ qingstor_settings @ s3_settings @ txcos_settings @ alioss_settings"
  have c: "contains ''oss.type'' ?line" using assms by (rule contains_append2)
  have v: "after_eq ?line = v" using after_eq_line [of "''oss.bucket''" v] by simp
  have "object_stor_type (mOssInfo (fold (\<lambda>(k, f). if contains k ?line then f v else id) ?rest b')) =
      object_stor_type (mOssInfo b')" for b'
    by (rule fold_untouched [where get = "\<lambda>b. object_stor_type (mOssInfo b)"]) (auto simp: settings_defs)
  then show ?thesis
    using c v by (simp add: oss_line_def settings_def liboss_settings_def info_setting_def cong: if_cong)
qed

theorem key_in_value_misread_witness:
  "object_stor_type (mOssInfo (oss_line ''oss.bucket=my.oss.type''
     \<lparr>mOssInfo = ObjectStorInfo_new\<lparr>object_stor_type := ''S3''\<rparr>, mBucket = []\<rparr>)) = ''my.oss.type''"
  using key_in_value_misread [of "''my.oss.type''"] by simp

end
