(* ===== verification/GW_Messages.thy ===== *)
theory GW_Messages
  imports GW_OssBuilder
begin

text \<open>
  The text of errors and of the log: \<^verbatim>\<open>src/common/Exception.cpp\<close>, \<^verbatim>\<open>ExceptionInternal.h\<close>, \<^verbatim>\<open>ExceptionInternal.cpp\<close> and
  \<^verbatim>\<open>Logger.cpp\<close>. Character arrays are lists with the length of the array, so that termination and
  truncation are part of the model. The text that \<^verbatim>\<open>printf\<close> makes of a format and its arguments,
  the stack trace and \<^verbatim>\<open>strerror_r\<close> are given as strings; running out of memory while a message
  is put together is left out.
\<close>

section \<open>C strings in arrays\<close>

text \<open>\<^verbatim>\<open>strncpy(buf, s, n)\<close>: the string, cut to \<open>n\<close> characters and filled up with zeros; the rest of the array stays.\<close>

definition strncpy :: "nat \<Rightarrow> string \<Rightarrow> string \<Rightarrow> string" where
  "strncpy n s buf = (let t = take n (c_str s) in t @ replicate (n - length t) (CHR 0x00) @ drop n buf)"

text \<open>
  \<^verbatim>\<open>snprintf(buf, n, ...)\<close> into an array from an index on: at most \<open>n - 1\<close> characters and a zero; the
  result is the length of the whole text.
\<close>

definition snprintf :: "nat \<Rightarrow> nat \<Rightarrow> string \<Rightarrow> string \<Rightarrow> string \<times> nat" where
  "snprintf from n text buf =
     (if n = 0 then (buf, length text)
      else let t = take (n - 1) text
           in (take from buf @ t @ CHR 0x00 # drop (from + length t + 1) buf, length text))"

lemma c_str_append: "CHR 0x00 \<notin> set s \<Longrightarrow> c_str (s @ t) = s @ c_str t"
  by (induction s) (auto simp: c_str_def)

lemma c_str_zero [simp]: "c_str (CHR 0x00 # s) = []" "c_str [] = []"
  by (simp_all add: c_str_def)

lemma c_str_no_zero: "CHR 0x00 \<notin> set (c_str s)"
  using set_takeWhileD [of "CHR 0x00" "\<lambda>c. c \<noteq> CHR 0x00" s] by (auto simp: c_str_def)

lemma c_str_id: "CHR 0x00 \<notin> set s \<Longrightarrow> c_str s = s"
  using c_str_append [of s "[]"] by simp

section \<open>Exceptions\<close>

text \<open>
  An exception object: its class, \<^verbatim>\<open>what()\<close>, the \<^verbatim>\<open>detail\<close> of a \<^verbatim>\<open>GopherwoodException\<close>, and the exception that was
  being handled when it was thrown by \<^verbatim>\<open>NESTED_THROW\<close>.
\<close>

datatype exn_object = ExnObject (x_class: exn_class) (x_what: string) (x_detail: string) (x_nested: "exn_object option")

definition GopherwoodException_new :: "exn_class \<Rightarrow> string \<Rightarrow> string \<Rightarrow> int \<Rightarrow> string \<Rightarrow> exn_object option \<Rightarrow> exn_object" where
  "GopherwoodException_new c arg file line stack nested =
     ExnObject c (c_str arg) (c_str file @ '': '' @ decimal_int line @ '': '' @ c_str arg @ [CHR 0x0A] @ c_str stack) nested"

text \<open>
  \<^verbatim>\<open>SkipPathPrefix\<close>: the loop looks for the last separator but not at index 0; without one the
  assertion fails, and when assertions are not compiled the first character is lost.
\<close>

fun skip_loop :: "string \<Rightarrow> nat \<Rightarrow> nat" where
  "skip_loop path 0 = 0"
| "skip_loop path (Suc i) = (if path ! Suc i = CHR ''/'' then Suc i else skip_loop path i)"

definition SkipPathPrefix :: "bool \<Rightarrow> string \<Rightarrow> gw_error + string" where
  "SkipPathPrefix ndebug path =
     (if path = [] then (if ndebug then Inr [] else Inl AssertAbort)
      else let i = skip_loop path (length path - 1)
           in if \<not> ndebug \<and> i = 0 then Inl AssertAbort else Inr (drop (i + 1) path))"

text \<open>\<^verbatim>\<open>ThrowException\<close>, the function behind \<^verbatim>\<open>THROW\<close> and \<^verbatim>\<open>NESTED_THROW\<close>: the object it throws.\<close>

definition ThrowException :: "bool \<Rightarrow> exn_object option \<Rightarrow> string \<Rightarrow> int \<Rightarrow> exn_class \<Rightarrow> string \<Rightarrow> string \<Rightarrow> string \<Rightarrow>
    gw_error + exn_object" where
  "ThrowException ndebug nested f l c exceptionName text stack =
     (case SkipPathPrefix ndebug f of
        Inl e \<Rightarrow> Inl e
      | Inr file \<Rightarrow> Inr (GopherwoodException_new c (exceptionName @ '': '' @ text) file l stack nested))"

text \<open>\<^verbatim>\<open>GetExceptionDetailInternal\<close>, for both overloads: library exceptions have no detail but \<^verbatim>\<open>what()\<close>.\<close>

function detail_text :: "bool \<Rightarrow> exn_object \<Rightarrow> string" where
  "detail_text topLevel e =
     (if topLevel then [] else ''Caused by'' @ [CHR 0x0A])
     @ (if instance_of (x_class e) GopherwoodException then x_detail e else x_what e)
     @ (case x_nested e of None \<Rightarrow> [] | Some n \<Rightarrow> detail_text False n)"
  by pat_completeness auto
termination
proof (relation "measure (\<lambda>(b, e). size e)", goal_cases)
  case (2 topLevel e n)
  then show ?case by (cases e) simp
qed simp

definition GetExceptionDetail :: "exn_object \<Rightarrow> string" where
  "GetExceptionDetail e = c_str (detail_text True e)"

function message_text :: "nat \<Rightarrow> exn_object \<Rightarrow> string" where
  "message_text recursive e =
     replicate recursive (CHR 0x09) @ (if recursive > 0 then ''Caused by: '' else []) @ x_what e
     @ (case x_nested e of None \<Rightarrow> [] | Some n \<Rightarrow> message_text (recursive + 1) n)"
  by pat_completeness auto
termination
proof (relation "measure (\<lambda>(r, e). size e)", goal_cases)
  case (2 recursive e n)
  then show ?case by (cases e) simp
qed simp

definition GetExceptionMessage :: "exn_object \<Rightarrow> string" where
  "GetExceptionMessage e =
     (if instance_of (x_class e) StdBadAlloc then ''Out of memory'' else c_str (message_text 0 e))"

declare detail_text.simps [simp del] message_text.simps [simp del]

section \<open>The last error\<close>

definition ERROR_MESSAGE_BUFFER_SIZE :: nat where "ERROR_MESSAGE_BUFFER_SIZE = 4096"

text \<open>\<^verbatim>\<open>SetErrorMessage\<close> on the array \<^verbatim>\<open>ErrorMessage\<close> of the thread.\<close>

definition SetErrorMessage :: "string \<Rightarrow> string \<Rightarrow> string" where
  "SetErrorMessage msg buf =
     (strncpy (ERROR_MESSAGE_BUFFER_SIZE - 1) msg buf)[ERROR_MESSAGE_BUFFER_SIZE - 1 := CHR 0x00]"

definition SetLastException :: "exn_object \<Rightarrow> string \<Rightarrow> string" where
  "SetLastException e = SetErrorMessage (GetExceptionMessage e)"

definition gwGetLastError :: "string \<Rightarrow> string" where
  "gwGetLastError buf = c_str buf"

text \<open>\<^verbatim>\<open>GetSystemErrorInfo\<close>: the text of \<^verbatim>\<open>strerror_r\<close> in an array of 64 characters.\<close>

definition GetSystemErrorInfo :: "(int \<Rightarrow> string) \<Rightarrow> int \<Rightarrow> string" where
  "GetSystemErrorInfo strerror eno =
     c_str (fst (snprintf 0 64 (''(errno: '' @ decimal_int eno @ '') '' @ c_str (strerror eno)) (replicate 64 (CHR 0x00))))"

text \<open>\<^verbatim>\<open>CheckOperationCanceled\<close> with the callback the user has set, if any.\<close>

definition CheckOperationCanceled :: "bool option \<Rightarrow> gw_error + bool" where
  "CheckOperationCanceled callback =
     (case callback of Some True \<Rightarrow> Inl (Exn GopherwoodCanceled) | _ \<Rightarrow> Inr False)"

lemma strncpy_length: "n \<le> length buf \<Longrightarrow> length (strncpy n s buf) = length buf"
  by (simp add: strncpy_def Let_def)

text \<open>
  C28 Whatever text an error has, and whatever the array held before, \<^verbatim>\<open>gwGetLastError\<close> returns a proper
  string that fits the array: the text of the error, cut after 4095 characters.
\<close>

theorem last_error_fits:
  assumes "length buf = ERROR_MESSAGE_BUFFER_SIZE"
  shows "gwGetLastError (SetErrorMessage msg buf) = take 4095 (c_str msg) \<and>
    length (SetErrorMessage msg buf) = ERROR_MESSAGE_BUFFER_SIZE"
proof -
  define t where "t = take 4095 (c_str msg)"
  have len: "length t \<le> 4095" and nz: "CHR 0x00 \<notin> set t"
    using c_str_no_zero [of msg] by (auto simp: t_def dest: in_set_takeD)
  have "SetErrorMessage msg buf = t @ (replicate (4095 - length t) (CHR 0x00) @ drop 4095 buf)[4095 - length t := CHR 0x00]"
    using len by (simp add: SetErrorMessage_def strncpy_def Let_def ERROR_MESSAGE_BUFFER_SIZE_def list_update_append t_def [symmetric])
  moreover have "c_str ((replicate (4095 - length t) (CHR 0x00) @ drop 4095 buf)[4095 - length t := CHR 0x00]) = []"
  proof (cases "4095 - length t")
    case 0
    have "drop 4095 buf \<noteq> []" using assms by (simp add: ERROR_MESSAGE_BUFFER_SIZE_def)
    then show ?thesis using 0 by (cases "drop 4095 buf") simp_all
  next
    case (Suc k)
    then show ?thesis by simp
  qed
  ultimately show ?thesis
    using nz assms strncpy_length [of 4095 buf msg]
    by (simp add: gwGetLastError_def c_str_append t_def SetErrorMessage_def ERROR_MESSAGE_BUFFER_SIZE_def)
qed

theorem last_error_fits_witness:
  "gwGetLastError (SetErrorMessage ''no space'' (replicate 4096 (CHR ''x''))) = ''no space''"
  using last_error_fits [of "replicate 4096 (CHR ''x'')" "''no space''"]
  by (simp add: ERROR_MESSAGE_BUFFER_SIZE_def c_str_def)

section \<open>The log\<close>

datatype LogSeverity = FATAL | LOG_ERROR | WARNING | INFO | DEBUG1 | DEBUG2 | DEBUG3

text \<open>The enumeration is compared by its numbers, in the order of its declaration.\<close>

primrec severity_number :: "LogSeverity \<Rightarrow> nat" where
  "severity_number FATAL = 0"
| "severity_number LOG_ERROR = 1"
| "severity_number WARNING = 2"
| "severity_number INFO = 3"
| "severity_number DEBUG1 = 4"
| "severity_number DEBUG2 = 5"
| "severity_number DEBUG3 = 6"

lemma severity_number_inj: "severity_number s = severity_number t \<longleftrightarrow> s = t"
  by (cases s; cases t) auto

instantiation LogSeverity :: linorder
begin

definition less_eq_LogSeverity :: "LogSeverity \<Rightarrow> LogSeverity \<Rightarrow> bool" where
  "less_eq_LogSeverity s t = (severity_number s \<le> severity_number t)"

definition less_LogSeverity :: "LogSeverity \<Rightarrow> LogSeverity \<Rightarrow> bool" where
  "less_LogSeverity s t = (severity_number s < severity_number t)"

instance
  by standard (auto simp: less_eq_LogSeverity_def less_LogSeverity_def severity_number_inj)

end

primrec SeverityName :: "LogSeverity \<Rightarrow> string" where
  "SeverityName FATAL = ''FATAL''"
| "SeverityName LOG_ERROR = ''ERROR''"
| "SeverityName WARNING = ''WARNING''"
| "SeverityName INFO = ''INFO''"
| "SeverityName DEBUG1 = ''DEBUG1''"
| "SeverityName DEBUG2 = ''DEBUG2''"
| "SeverityName DEBUG3 = ''DEBUG3''"

record Logger =
  lg_fd :: int
  lg_severity :: LogSeverity

definition Logger_new :: Logger where
  "Logger_new = \<lparr>lg_fd = 2, lg_severity = INFO\<rparr>"

definition setOutputFd :: "int \<Rightarrow> Logger \<Rightarrow> Logger" where
  "setOutputFd f l = l\<lparr>lg_fd := f\<rparr>"

definition setLogSeverity :: "LogSeverity \<Rightarrow> Logger \<Rightarrow> Logger" where
  "setLogSeverity s l = l\<lparr>lg_severity := s\<rparr>"

text \<open>The severities of the C interface; another number changes nothing.\<close>

definition gwSetLogSeverity :: "int \<Rightarrow> Logger \<Rightarrow> Logger" where
  "gwSetLogSeverity severity l =
     (if severity = 0 then setLogSeverity LOG_ERROR l
      else if severity = 1 then setLogSeverity WARNING l
      else if severity = 2 then setLogSeverity INFO l
      else if severity = 3 then setLogSeverity DEBUG1 l
      else if severity = 4 then setLogSeverity DEBUG2 l
      else l)"

text \<open>The local time of a log line, as \<^verbatim>\<open>localtime_r\<close> gives it.\<close>

record log_time =
  tm_year :: nat
  tm_mon :: nat
  tm_mday :: nat
  tm_hour :: nat
  tm_min :: nat
  tm_sec :: nat
  tv_usec :: nat

text \<open>\<^verbatim>\<open>%0nd\<close>: decimal digits, filled up with zeros on the left.\<close>

definition zero_padded :: "nat \<Rightarrow> nat \<Rightarrow> string" where
  "zero_padded n i = replicate (n - length (decimal i)) (CHR ''0'') @ decimal i"

definition InitProcessId :: "nat \<Rightarrow> nat \<Rightarrow> string" where
  "InitProcessId pid thread =
     c_str (fst (snprintf 0 64 (''p'' @ decimal pid @ '', th'' @ decimal thread) (replicate 64 (CHR 0x00))))"

definition log_prefix :: "log_time \<Rightarrow> string \<Rightarrow> LogSeverity \<Rightarrow> string" where
  "log_prefix t processId s =
     zero_padded 4 (tm_year t + 1900) @ ''-'' @ zero_padded 2 (1 + tm_mon t) @ ''-'' @ zero_padded 2 (tm_mday t) @ '' ''
     @ zero_padded 2 (tm_hour t) @ '':'' @ zero_padded 2 (tm_min t) @ '':'' @ zero_padded 2 (tm_sec t) @ ''.''
     @ zero_padded 6 (tv_usec t) @ '', '' @ processId @ '', '' @ SeverityName s @ '' ''"

text \<open>
  \<^verbatim>\<open>Logger::printf\<close>: what it writes to the descriptor, if anything. The buffer has the length of the
  formatted text and 100 characters; the prefix and then the text are printed into it. A prefix
  longer than the buffer makes the remaining size wrap around.
\<close>

definition log_printf :: "log_time \<Rightarrow> string \<Rightarrow> LogSeverity \<Rightarrow> string \<Rightarrow> Logger \<Rightarrow> gw_error + string option" where
  "log_printf t processId s msg l =
     (if s > lg_severity l \<or> lg_fd l < 0 then Inr None
      else let buffer = replicate (length msg + 100) (CHR 0x00);
               (buffer1, size) = snprintf 0 (length buffer) (log_prefix t processId s) buffer
           in if size > length buffer then Inl BadAccess
              else let (buffer2, _) = snprintf size (length buffer - size) msg buffer1
                   in Inr (Some (c_str buffer2 @ [CHR 0x0A])))"

lemma decimal_length: "n < 10 ^ k \<Longrightarrow> 0 < k \<Longrightarrow> length (decimal n) \<le> k"
proof (induction k arbitrary: n)
  case (Suc k)
  show ?case
  proof (cases "n < 10")
    case True
    then show ?thesis by (subst decimal.simps) simp
  next
    case False
    then have "0 < k" "n div 10 < 10 ^ k" using Suc.prems(1) by (cases k; simp)+
    then have "length (decimal (n div 10)) \<le> k" by (intro Suc.IH)
    then show ?thesis using False by (subst decimal.simps) simp
  qed
qed simp

lemma zero_padded_length: "i < 10 ^ n \<Longrightarrow> 0 < n \<Longrightarrow> length (zero_padded n i) = n"
  using decimal_length [of i n] by (simp add: zero_padded_def)

lemma SeverityName_length: "length (SeverityName s) \<le> 7"
  by (cases s) simp_all

text \<open>Text that fits is printed after what was printed before.\<close>

lemma snprintf_fits:
  assumes "length txt < n" and "from + n \<le> length buf" and "CHR 0x00 \<notin> set txt" and "CHR 0x00 \<notin> set (take from buf)"
  shows "c_str (fst (snprintf from n txt buf)) = take from buf @ txt"
    and "take (from + length txt) (fst (snprintf from n txt buf)) = take from buf @ txt"
    and "length (fst (snprintf from n txt buf)) = length buf" and "snd (snprintf from n txt buf) = length txt"
proof -
  have eq: "fst (snprintf from n txt buf) = (take from buf @ txt) @ CHR 0x00 # drop (from + length txt + 1) buf"
    using assms(1) by (simp add: snprintf_def Let_def)
  show "c_str (fst (snprintf from n txt buf)) = take from buf @ txt"
    unfolding eq using assms(3,4) by (subst c_str_append) auto
  show "take (from + length txt) (fst (snprintf from n txt buf)) = take from buf @ txt"
    unfolding eq using assms(2) by simp
  show "length (fst (snprintf from n txt buf)) = length buf"
    unfolding eq using assms(1,2) by simp
qed (use assms(1) in \<open>simp add: snprintf_def Let_def\<close>)

definition time_ok :: "log_time \<Rightarrow> bool" where
  "time_ok t \<longleftrightarrow> tm_year t + 1900 < 10000 \<and> tm_mon t < 12 \<and> tm_mday t \<le> 31 \<and> tm_hour t < 24 \<and> tm_min t < 60 \<and>
     tm_sec t \<le> 60 \<and> tv_usec t < 1000000"

definition process_text :: "nat \<Rightarrow> nat \<Rightarrow> string" where
  "process_text pid thread = ''p'' @ decimal pid @ '', th'' @ decimal thread"

lemma decimal_no_zero: "CHR 0x00 \<notin> set (decimal n)"
  by (rule decimal_not_in) simp

lemma process_text_bounds:
  assumes "pid < 2 ^ 31" and "thread < 2 ^ 64"
  shows "length (process_text pid thread) \<le> 35" and "CHR 0x00 \<notin> set (process_text pid thread)"
proof -
  have "pid < 10 ^ 10" "thread < 10 ^ 20" using assms by simp_all
  then have "length (decimal pid) \<le> 10" "length (decimal thread) \<le> 20" using decimal_length by simp_all
  then show "length (process_text pid thread) \<le> 35" by (simp add: process_text_def)
qed (simp add: process_text_def decimal_no_zero)

lemma InitProcessId_eq:
  assumes "pid < 2 ^ 31" and "thread < 2 ^ 64"
  shows "InitProcessId pid thread = process_text pid thread"
  using snprintf_fits(1) [of "process_text pid thread" 64 0 "replicate 64 (CHR 0x00)"] process_text_bounds [OF assms]
  by (simp add: InitProcessId_def process_text_def)

lemma log_prefix_bounds:
  assumes "time_ok t" and "length pt \<le> 35" and "CHR 0x00 \<notin> set pt"
  shows "length (log_prefix t pt s) \<le> 73" and "CHR 0x00 \<notin> set (log_prefix t pt s)"
proof -
  have "length (zero_padded 4 (tm_year t + 1900)) = 4" "length (zero_padded 6 (tv_usec t)) = 6"
    "length (zero_padded 2 (1 + tm_mon t)) = 2" "length (zero_padded 2 (tm_mday t)) = 2"
    "length (zero_padded 2 (tm_hour t)) = 2" "length (zero_padded 2 (tm_min t)) = 2" "length (zero_padded 2 (tm_sec t)) = 2"
    using assms(1) by (auto simp: time_ok_def intro!: zero_padded_length)
  then show "length (log_prefix t pt s) \<le> 73"
    using assms(2) SeverityName_length [of s] by (simp add: log_prefix_def)
  have "CHR 0x00 \<notin> set (SeverityName s)" by (cases s) simp_all
  then show "CHR 0x00 \<notin> set (log_prefix t pt s)"
    using assms(3) by (simp add: log_prefix_def zero_padded_def decimal_no_zero)
qed

text \<open>
  A log line is never cut: \<^emph>\<open>100 is enough for prefix\<close>, as the comment of the source says. For every
  date before the year 10000, every process and thread id and every text, the line that is
  written is the whole prefix followed by the whole text.
\<close>

theorem log_line_complete:
  assumes "s \<le> lg_severity l" and "0 \<le> lg_fd l" and "time_ok t" and "pid < 2 ^ 31" and "thread < 2 ^ 64"
    and "CHR 0x00 \<notin> set msg"
  shows "log_printf t (InitProcessId pid thread) s msg l =
    Inr (Some (log_prefix t (process_text pid thread) s @ msg @ [CHR 0x0A]))"
proof -
  let ?p = "log_prefix t (process_text pid thread) s" and ?n = "length msg + 100"
  let ?buf = "replicate ?n (CHR 0x00)"
  note p = log_prefix_bounds [OF assms(3) process_text_bounds [OF assms(4,5)], of s]
  obtain buf1 where 1: "snprintf 0 ?n ?p ?buf = (buf1, length ?p)" "take (length ?p) buf1 = ?p" "length buf1 = ?n"
    using snprintf_fits [of ?p ?n 0 ?buf] p by (cases "snprintf 0 ?n ?p ?buf") auto
  have 2: "c_str (fst (snprintf (length ?p) (?n - length ?p) msg buf1)) = ?p @ msg"
    using snprintf_fits(1) [of msg "?n - length ?p" "length ?p" buf1] 1 p assms(6) by simp
  have "\<not> s > lg_severity l" "\<not> lg_fd l < 0" "\<not> length ?p > ?n" using assms(1,2) p by auto
  then show ?thesis
    using 1 2 by (simp add: log_printf_def InitProcessId_eq [OF assms(4,5)] Let_def case_prod_beta)
qed

lemma digits: "digit 0 = CHR ''0''" "digit (Suc 0) = CHR ''1''" "digit 1 = CHR ''1''" "digit 2 = CHR ''2''" "digit 3 = CHR ''3''"
  "digit 4 = CHR ''4''" "digit 5 = CHR ''5''" "digit 6 = CHR ''6''" "digit 7 = CHR ''7''" "digit 8 = CHR ''8''"
  "digit 9 = CHR ''9''"
  by code_simp+

lemma replicate_4: "replicate 4 c = [c, c, c, c]"
  by (simp add: numeral_eq_Suc)

theorem log_line_complete_witness:
  "log_printf \<lparr>tm_year = 118, tm_mon = 4, tm_mday = 7, tm_hour = 9, tm_min = 30, tm_sec = 0, tv_usec = 42\<rparr>
     (InitProcessId 12 34) WARNING ''disk full'' Logger_new =
   Inr (Some (''2018-05-07 09:30:00.000042, p12, th34, WARNING disk full'' @ [CHR 0x0A]))"
proof -
  let ?t = "\<lparr>tm_year = 118, tm_mon = 4, tm_mday = 7, tm_hour = 9, tm_min = 30, tm_sec = 0, tv_usec = 42\<rparr>"
  have "log_prefix ?t (process_text 12 34) WARNING = ''2018-05-07 09:30:00.000042, p12, th34, WARNING ''"
    by (simp add: log_prefix_def zero_padded_def process_text_def decimal.simps digits replicate_4)
  moreover have "WARNING \<le> lg_severity Logger_new" "0 \<le> lg_fd Logger_new" "time_ok ?t"
    by (simp_all add: less_eq_LogSeverity_def Logger_new_def time_ok_def)
  ultimately show ?thesis using log_line_complete [of WARNING Logger_new ?t 12 34 "''disk full''"] by simp
qed

end
