(* ===== verification/GW_Context.thy ===== *)
theory GW_Context
  imports GW_FileSystem GW_Messages GW_OssBuilder
begin

text \<open>
  The life of a context: \<^verbatim>\<open>src/core/SharedMemoryManager.cpp\<close>, the constructor and destructor of
  \<^verbatim>\<open>src/file/FileSystem.cpp\<close>, and \<^verbatim>\<open>gwCreateContext\<close>, \<^verbatim>\<open>gwFormatContext\<close>, \<^verbatim>\<open>gwDestroyContext\<close> and \<^verbatim>\<open>gwHealthCheck\<close> of
  \<^verbatim>\<open>src/client/Gopherwood.cpp\<close>.

  The state is what the machine and the process have before there is a context: whether the named
  region exists (its content is part of the world), who holds the \<^verbatim>\<open>lockf\<close> lock of the file \<^verbatim>\<open>SmLock\<close>,
  and the static variables of the library. All processes are configured with the same number of
  blocks and connections; the code does not check that of a region it maps. Directories are not
  part of the file store, so the \<^verbatim>\<open>mkdir\<close> of the manifest folder has no counterpart.
\<close>

record 'o Host =
  h_world :: "'o World"
  h_regionThere :: bool
  h_lockOwner :: "int option"
  h_config :: Configuration
  h_logger :: Logger
  h_ossBuilder :: "OssBuilder option"
  h_ossContext :: "nat option"
  h_ossBucket :: string

text \<open>The process, its environment and its configuration file, and which calls to the system fail.\<close>

record 'o HostEnv =
  he_env :: "'o Env"
  he_getenv :: "string \<Rightarrow> string option"
  he_opendir :: "string \<Rightarrow> bool"
  he_ifstream :: "string \<Rightarrow> string option"
  he_ossInit :: "nat oss_init"
  he_createFails :: bool
  he_mapFails :: bool

type_synonym ('o, 'a) hostM = "('o Host, gw_error, 'a) gw"

definition worldE :: "('o, 'a) faM \<Rightarrow> ('o, 'a) hostM" where
  "worldE = zoomE h_world (\<lambda>w h. h\<lparr>h_world := w\<rparr>)"

text \<open>The settings are static variables; the process runs with those of the moment.\<close>

definition host_env :: "'o HostEnv \<Rightarrow> 'o Host \<Rightarrow> 'o Env" where
  "host_env he h = (he_env he)\<lparr>e_io := (e_io (he_env he))\<lparr>io_cfg := h_config h\<rparr>\<rparr>"

definition host_open :: "string \<Rightarrow> ('o, Fd option) hostM" where
  "host_open path = (\<lambda>h. case posix_open path (w_store (h_world h)) of
     (fd, st) \<Rightarrow> (Inr fd, h\<lparr>h_world := (h_world h)\<lparr>w_store := st\<rparr>\<rparr>))"

section \<open>SharedMemoryManager\<close>

text \<open>
  \<^verbatim>\<open>lockf(fd, F_LOCK, 0)\<close>: it waits for another process, succeeds again for the same one, and fails
  unnoticed on a descriptor that is not open. Waiting for a process that never unlocks is
  \<open>OutOfFuel\<close>.
\<close>

definition lockf_lock :: "int \<Rightarrow> Fd option \<Rightarrow> ('o, unit) hostM" where
  "lockf_lock p lockFD =
     (case lockFD of
        None \<Rightarrow> retE ()
      | Some _ \<Rightarrow> bindE (getsE h_lockOwner) (\<lambda>owner.
          if owner = None \<or> owner = Some p then modifyE (\<lambda>h. h\<lparr>h_lockOwner := Some p\<rparr>)
          else throwE OutOfFuel))"

definition lockf_unlock :: "int \<Rightarrow> Fd option \<Rightarrow> ('o, unit) hostM" where
  "lockf_unlock p lockFD =
     (case lockFD of
        None \<Rightarrow> retE ()
      | Some _ \<Rightarrow> modifyE (\<lambda>h. if h_lockOwner h = Some p then h\<lparr>h_lockOwner := None\<rparr> else h))"

text \<open>The content of a region that was created and never initialised.\<close>

definition zero_bucket :: ShareMemBucket where
  "zero_bucket = \<lparr>b_flags = 0, b_fileId = FileId_new, usageCount = 0, b_fileBlockIndex = 0, dataSize = 0,
     evictLoadActiveId = 0,
     activeInfos = replicate SMBUCKET_MAX_CONCURRENT_OPEN \<lparr>ai_flags = 0, ai_activeId = 0\<rparr>\<rparr>"

definition zero_region :: "Configuration \<Rightarrow> string \<Rightarrow> SharedMemoryContext" where
  "zero_region cfg dir = \<lparr>header = ShareMemHeader_reset 0 0,
     buckets = replicate (nat (NUMBER_OF_BLOCKS cfg)) zero_bucket,
     activeStatus = replicate (nat (MAX_CONNECTION cfg)) zero_status, workDir = dir\<rparr>"

definition createSharedMemory :: "'o HostEnv \<Rightarrow> string \<Rightarrow> ('o, unit) hostM" where
  "createSharedMemory he dir =
     (if he_createFails he then THROW GopherwoodSyncException
      else modifyE (\<lambda>h. h\<lparr>h_regionThere := True,
             h_world := (h_world h)\<lparr>w_shm := zero_region (h_config h) dir\<rparr>\<rparr>))"

text \<open>
  \<^verbatim>\<open>buildSharedMemoryContext\<close>: the exceptions of creating a region, and of mapping one that exists, are turned
  into \<^verbatim>\<open>GopherwoodSyncException\<close>; those of sizing and mapping a new one are not caught. None of the
  throws passes the unlock at the end. \<^verbatim>\<open>rebuildShmFromManifest\<close> is empty.
\<close>

definition buildSharedMemoryContext :: "'o HostEnv \<Rightarrow> string \<Rightarrow> Fd option \<Rightarrow> ('o, unit) hostM" where
  "buildSharedMemoryContext he dir lockFD =
     seqE (lockf_lock (e_pid (he_env he)) lockFD)
    (bindE (getsE h_regionThere) (\<lambda>shmExist.
     seqE (if \<not> shmExist
           then seqE (createSharedMemory he dir) (if he_mapFails he then THROW StdException else retE ())
           else if he_mapFails he then THROW GopherwoodSyncException else retE ())
    (seqE (modifyE (\<lambda>h. h\<lparr>h_world := (h_world h)\<lparr>w_shm :=
             SharedMemoryContext_new (h_config h) dir (\<not> shmExist) (w_shm (h_world h))\<rparr>\<rparr>))
          (lockf_unlock (e_pid (he_env he)) lockFD))))"

section \<open>FileSystem\<close>

text \<open>\<^verbatim>\<open>initOssContext\<close> with the singleton \<^verbatim>\<open>OssBuilder\<close>.\<close>

definition initOssContext :: "'o HostEnv \<Rightarrow> ('o, unit) hostM" where
  "initOssContext he =
     bindE (zoomE h_ossBuilder (\<lambda>b h. h\<lparr>h_ossBuilder := b\<rparr>) (getInstance (he_getenv he) (he_opendir he) (he_ifstream he)))
       (\<lambda>b. bindE (pureE (buildContext (he_ossInit he) b)) (\<lambda>ctx.
        modifyE (\<lambda>h. h\<lparr>h_ossContext := Some ctx, h_ossBucket := getBucketName b\<rparr>)))"

record FileSystem =
  fs_localSpaceFile :: "Fd option"
  fs_lockFD :: "Fd option"

text \<open>
  The constructor. Nothing is done when the local space or the lock file cannot be opened; the
  descriptor is -1 then. When a later step throws the local space stays open, and so does the lock
  file until a context of the region owns it; afterwards the destructor of that context closes it,
  when the lock is no longer held.
\<close>

definition FileSystem_new :: "'o HostEnv \<Rightarrow> string \<Rightarrow> ('o, FileSystem) hostM" where
  "FileSystem_new he dir =
     bindE (host_open (dir @ ''/'' @ LOCAL_SPACE_FILE)) (\<lambda>localFile.
     bindE (host_open (dir @ ''/SmLock'')) (\<lambda>lockFile.
     seqE (buildSharedMemoryContext he dir lockFile)
    (seqE (initOssContext he)
    (seqE (case localFile of None \<Rightarrow> retE () | Some fd \<Rightarrow> worldE (modifyE (\<lambda>w. w\<lparr>w_localFd := fd\<rparr>)))
    (seqE (\<lambda>h. worldE (AdminActiveStatus_new (host_env he h)) h)
    (retE \<lparr>fs_localSpaceFile = localFile, fs_lockFD = lockFile\<rparr>))))))"

text \<open>A destructor does not throw: an exception in it ends the process.\<close>

definition noexceptE :: "('s, gw_error, 'a) gw \<Rightarrow> ('s, gw_error, 'a) gw" where
  "noexceptE m = catchExn m (\<lambda>_. throwE AssertAbort)"

text \<open>
  The destructor of the file system and of its members: the administrator leaves the region, without
  the lock, and the lock file is closed, which gives up a \<^verbatim>\<open>lockf\<close> lock of the process.
\<close>

definition FileSystem_destroy :: "'o HostEnv \<Rightarrow> FileSystem \<Rightarrow> ('o, unit) hostM" where
  "FileSystem_destroy he fs =
     seqE (noexceptE (\<lambda>h. worldE (admin_unregist (host_env he h)) h))
          (lockf_unlock (e_pid (he_env he)) (fs_lockFD fs))"

text \<open>
  \<^verbatim>\<open>Format\<close>: \<^verbatim>\<open>rm -r workDir/*\<close> by the shell, for a directory name without characters that are special to
  it; names that begin with a dot are not matched by the star.
\<close>

definition in_workDir :: "string \<Rightarrow> string \<Rightarrow> bool" where
  "in_workDir dir path =
     (let d = dir @ ''/'' in take (length d) path = d \<and> length path > length d \<and> path ! length d \<noteq> CHR ''.'')"

definition Format :: "string \<Rightarrow> 'o Host \<Rightarrow> 'o Host" where
  "Format dir h = h\<lparr>h_regionThere := False, h_world := (h_world h)\<lparr>w_store :=
     (w_store (h_world h))\<lparr>dirents := filter (\<lambda>(p, _). \<not> in_workDir dir p) (dirents (w_store (h_world h)))\<rparr>\<rparr>\<rparr>"

section \<open>The C interface\<close>

definition gwCreateContext :: "'o HostEnv \<Rightarrow> string \<Rightarrow> GWContextConfig option \<Rightarrow>
    ('o Host \<times> int, gw_error, FileSystem option) gw" where
  "gwCreateContext he dir config = (\<lambda>(h, errno).
     case gwCreateContext_config dir config (h_config h) of
       Inl e \<Rightarrow> (Inr None, (h, e))
     | Inr cfg \<Rightarrow>
         api (bindE (FileSystem_new he dir) (\<lambda>fs. retE (Some fs))) None
           (h\<lparr>h_config := cfg,
              h_logger := (case config of None \<Rightarrow> h_logger h | Some c \<Rightarrow> gwSetLogSeverity (cc_severity c) (h_logger h))\<rparr>,
            errno))"

definition gwFormatContext :: "string \<Rightarrow> ('o Host \<times> int, gw_error, unit) gw" where
  "gwFormatContext dir = api (modifyE (Format dir)) ()"

definition gwDestroyContext :: "'o HostEnv \<Rightarrow> FileSystem option \<Rightarrow> ('o Host \<times> int, gw_error, int) gw" where
  "gwDestroyContext he fs =
     api (case fs of None \<Rightarrow> retE 0 | Some f \<Rightarrow> seqE (FileSystem_destroy he f) (retE 0)) (- 1)"

definition gwHealthCheck :: "FileSystem \<Rightarrow> int" where
  "gwHealthCheck fs = 0"

end
