(* ===== verification/GW_FileActiveProps.thy ===== *)
theory GW_FileActiveProps
  imports GW_FileActiveStatus
begin

text \<open>
  What the operations of an opened file guarantee: the replay of the manifest log (it ends, and
  it is the fold of its records), the compaction of the log at the last close, the quota policy,
  the critical sections, the partition of blocks at close, and the places where the code leaves
  a lock or a bucket behind.
\<close>

section \<open>The replay of the log ends\<close>

lemma toBlockFormat_no_fuel: "toBlockFormat r \<noteq> Inl OutOfFuel"
  by (simp add: toBlockFormat_def Let_def)

lemma fetch_blocks_no_fuel: "fetch_blocks n buf \<noteq> Inl OutOfFuel"
  by (induction n arbitrary: buf) (auto simp: toBlockFormat_no_fuel split: sum.splits)

text \<open>Fetching a record changes no file, and a record that was fetched took bytes of the log.\<close>

lemma mfRead_some:
  "mfRead at sz (st, m) = (Inr n, (st', m')) \<Longrightarrow> n \<noteq> - 1 \<Longrightarrow>
     st' = st \<and> (\<exists>fd. mFD m = Some fd \<and> mFD m' = Some (fd\<lparr>fd_off := fd_off fd + nat n\<rparr>) \<and>
       (0 < n \<longrightarrow> fd_off fd + nat n \<le> length (file_bytes st (fd_inode fd))))"
  by (auto simp: mfRead_def posix_read_def Let_def split: option.splits if_splits)

lemma mfRead_no_throw: "\<exists>n m'. mfRead at sz (st, m) = (Inr n, (st, m'))"
  by (auto simp: mfRead_def posix_read_def Let_def split: option.splits)

lemma fetch_result:
  "wp fetchOneLogRecord
     (\<lambda>(hdr, blocks) (st', m'). st' = st \<and> (hdr \<noteq> None \<longrightarrow> (\<exists>fd fd'. mFD m = Some fd \<and> mFD m' = Some fd' \<and>
        fd_inode fd' = fd_inode fd \<and> fd_off fd < fd_off fd' \<and> fd_off fd' \<le> length (file_bytes st (fd_inode fd)))))
     (\<lambda>e (st', m'). st' = st \<and> e \<noteq> OutOfFuel) (st, m)"
proof -
  obtain n m1 where r1: "mfRead 0 10 (st, m) = (Inr n, (st, m1))" using mfRead_no_throw by blast
  define len where "len = sint (le_word (take 8 (mBuffer m1)) :: 64 word)"
  obtain n2 m2 where r2: "mfRead 10 (len - 10) (st, m1) = (Inr n2, (st, m2))" using mfRead_no_throw by blast
  have adv: "\<exists>fd fd'. mFD m = Some fd \<and> mFD m2 = Some fd' \<and> fd_inode fd' = fd_inode fd \<and> fd_off fd < fd_off fd' \<and>
      fd_off fd' \<le> length (file_bytes st (fd_inode fd))" if "n = 10" "n2 = len - 10"
  proof -
    from mfRead_some [OF r1] that obtain fd where
      fd: "mFD m = Some fd" "mFD m1 = Some (fd\<lparr>fd_off := fd_off fd + 10\<rparr>)"
        "fd_off fd + 10 \<le> length (file_bytes st (fd_inode fd))" by auto
    have "n2 = - 1 \<Longrightarrow> mFD m2 = mFD m1"
      using r2 fd(2) by (auto simp: mfRead_def posix_read_def Let_def split: option.splits if_splits)
    then show ?thesis using mfRead_some [OF r2] fd by (cases "n2 = - 1"; cases "0 < n2") auto
  qed
  show ?thesis
    unfolding fetchOneLogRecord_def Let_def
    using r1 r2 adv fetch_blocks_no_fuel
    by (auto simp: wp_def run_simps len_def [symmetric] split: sum.splits)
qed

lemma foldS_no_fuel:
  assumes "\<And>a b. f a b \<noteq> Inl OutOfFuel"
  shows "foldS f as b \<noteq> Inl OutOfFuel"
  using assms by (induction as arbitrary: b) (auto split: sum.splits)

lemma if_neq: "a \<noteq> x \<Longrightarrow> b \<noteq> x \<Longrightarrow> (if c then a else b) \<noteq> x"
  by simp

lemma replay_no_fuel: "replay cfg hdr blocks (arr, eof) \<noteq> Inl OutOfFuel"
proof -
  have "foldS (set_state st) blocks arr \<noteq> Inl OutOfFuel" for st arr
    by (rule foldS_no_fuel) (simp add: set_state_def split: option.splits)
  then have f: "(case foldS (set_state st) blocks arr of Inl e \<Rightarrow> Inl e | Inr a \<Rightarrow> Inr (a, eof)) \<noteq> Inl OutOfFuel" for st
    by (auto split: sum.splits)
  show ?thesis
    unfolding replay_def Let_def prod.case
    by (intro if_neq f) (simp_all add: first_block_def split: list.splits option.splits)
qed

text \<open>The bytes of the log that are still to be read.\<close>

definition log_rest :: "'o World \<Rightarrow> nat" where
  "log_rest w = (case mFD (mManifest (w_file w)) of
     None \<Rightarrow> 0 | Some fd \<Rightarrow> length (file_bytes (w_store w) (fd_inode fd)) - fd_off fd)"

lemma wp_fetch:
  "wp (mfE fetchOneLogRecord)
     (\<lambda>(hdr, blocks) w'. hdr \<noteq> None \<longrightarrow> log_rest w' < log_rest w) (\<lambda>e _. e \<noteq> OutOfFuel) w"
proof -
  have "wp fetchOneLogRecord
     (\<lambda>(hdr, blocks) (st', m'). hdr \<noteq> None \<longrightarrow>
        log_rest (w\<lparr>w_store := st', w_file := (w_file w)\<lparr>mManifest := m'\<rparr>\<rparr>) < log_rest w)
     (\<lambda>e _. e \<noteq> OutOfFuel) (w_store w, mManifest (w_file w))"
    by (rule wp_mono [OF fetch_result]) (auto simp: log_rest_def)
  then show ?thesis by (simp add: mfE_def wp_simps case_prod_unfold)
qed

lemma catchUp_loop_ends: "log_rest (w :: 'o World) < n \<Longrightarrow> wp (catchUp_loop cfg n) (\<lambda>_ _. True) (\<lambda>e _. e \<noteq> OutOfFuel) w"
proof (induction n arbitrary: w)
  case 0
  then show ?case by simp
next
  case (Suc n)
  have step: "wp (case hdr of None \<Rightarrow> retE () | Some h \<Rightarrow>
         if rh_type h = rt_invalidLog then retE ()
         else bindE (getFile (\<lambda>f. (mBlockArray f, mEof f))) (\<lambda>s.
              bindE (pureE (replay cfg h blocks s)) (\<lambda>(arr, eof).
              seqE (modFile (\<lambda>f. f\<lparr>mBlockArray := arr, mEof := eof\<rparr>))
              (catchUp_loop cfg n)))) (\<lambda>_ _. True) (\<lambda>e _. e \<noteq> OutOfFuel) w'"
    if "hdr \<noteq> None \<longrightarrow> log_rest w' < log_rest w" for hdr blocks and w' :: "'o World"
  proof -
    have "wp (catchUp_loop cfg n) (\<lambda>_ _. True) (\<lambda>e _. e \<noteq> OutOfFuel)
        (w'\<lparr>w_file := (w_file w')\<lparr>mBlockArray := arr, mEof := eof\<rparr>\<rparr>)" if "hdr \<noteq> None" for arr eof
    proof -
      have "log_rest (w'\<lparr>w_file := (w_file w')\<lparr>mBlockArray := arr, mEof := eof\<rparr>\<rparr>) = log_rest w'"
        by (simp add: log_rest_def split: option.splits)
      then show ?thesis using Suc.prems that \<open>hdr \<noteq> None \<longrightarrow> log_rest w' < log_rest w\<close>
        by (intro Suc.IH) simp
    qed
    then show ?thesis
      using replay_no_fuel by (auto simp: wp_simps getFile_def modFile_def split: option.splits sum.splits)
  qed
  show ?case
    unfolding catchUp_loop.simps wp_simps
    by (rule wp_mono [OF wp_fetch]) (use step in \<open>auto simp: case_prod_unfold\<close>)
qed

text \<open>
  C19 Catching up with the manifest log ends, whatever bytes the log file contains: it returns or
  throws, and the number of rounds is bounded by the length of the file.
\<close>

theorem catchUp_terminates:
  "fst (catchUpManifestLogs cfg w) \<noteq> Inl OutOfFuel"
proof -
  have "log_rest w < log_fuel w" by (simp add: log_rest_def log_fuel_def less_Suc_eq_le split: option.splits)
  from catchUp_loop_ends [OF this, of cfg] show ?thesis
    by (auto simp: catchUpManifestLogs_def run_simps wp_def split: prod.splits sum.splits)
qed

section \<open>The replay is the fold of the records\<close>

text \<open>
  A log as its writers meant it: records with what \<^verbatim>\<open>serializeManifestLog\<close> was called with (the padding
  bytes of the block records, the type, the blocks and the opaque value).
\<close>

type_synonym log_record = "16 word \<times> 8 word \<times> Block list \<times> 64 word"

definition record_bytes :: "log_record \<Rightarrow> byte list" where
  "record_bytes = (\<lambda>(pad, ty, bs, op). case serializeManifestLog pad bs ty op of Inl _ \<Rightarrow> [] | Inr b \<Rightarrow> b)"

definition record_ok :: "log_record \<Rightarrow> bool" where
  "record_ok = (\<lambda>(pad, ty, bs, op). list_all block_ok bs \<and> length bs \<le> 339 \<and> ty \<noteq> rt_invalidLog)"

definition replay_record :: "Configuration \<Rightarrow> log_record \<Rightarrow> Block list \<times> int \<Rightarrow> gw_error + Block list \<times> int" where
  "replay_record cfg = (\<lambda>(pad, ty, bs, op).
     replay cfg (record_header ty (length bs) op) (map (\<lambda>b. b\<lparr>bk_usageCount := 0\<rparr>) bs))"

definition log_bytes :: "log_record list \<Rightarrow> byte list" where
  "log_bytes rs = concat (map record_bytes rs)"

text \<open>Where an opened manifest stands: the bytes after its offset, and a buffer of the right size.\<close>

definition log_at :: "byte list \<Rightarrow> 'o World \<Rightarrow> bool" where
  "log_at bs w = (length (mBuffer (mManifest (w_file w))) = BUFFER_SIZE \<and>
     (case mFD (mManifest (w_file w)) of None \<Rightarrow> False
      | Some fd \<Rightarrow> drop (fd_off fd) (file_bytes (w_store w) (fd_inode fd)) = bs))"

lemma record_bytes_eq:
  assumes "record_ok (pad, ty, bs, op)"
  shows "serializeManifestLog pad bs ty op = Inr (record_bytes (pad, ty, bs, op))" and "record_bytes (pad, ty, bs, op) \<noteq> []"
proof -
  from assms have "list_all block_ok bs" by (simp add: record_ok_def)
  from serialize_ok [OF this, of pad ty op] obtain bytes where
    b: "serializeManifestLog pad bs ty op = Inr (RecordHeader_bytes (record_header ty (length bs) op) @ bytes)" by blast
  then show "serializeManifestLog pad bs ty op = Inr (record_bytes (pad, ty, bs, op))"
    by (simp add: record_bytes_def)
  have "RecordHeader_bytes (record_header ty (length bs) op) \<noteq> []"
    by (simp add: sizeof_RecordHeader_def flip: length_greater_0_conv)
  then show "record_bytes (pad, ty, bs, op) \<noteq> []" using b by (auto simp: record_bytes_def)
qed

lemma fetch_in_world:
  assumes "record_ok (pad, ty, bs, op)" and "log_at (record_bytes (pad, ty, bs, op) @ rest) w"
  obtains m' where "mfE fetchOneLogRecord w =
      (Inr (Some (record_header ty (length bs) op), map (\<lambda>b. b\<lparr>bk_usageCount := 0\<rparr>) bs),
       w\<lparr>w_file := (w_file w)\<lparr>mManifest := m'\<rparr>\<rparr>)"
    and "\<And>f. mManifest f = m' \<Longrightarrow> log_at rest (w\<lparr>w_file := f\<rparr>)"
proof -
  have ok: "list_all block_ok bs" "length bs \<le> MAX_RECORD_BLOCKS"
    using assms(1) by (simp_all add: record_ok_def MAX_RECORD_BLOCKS_val)
  define r where "r = record_bytes (pad, ty, bs, op)"
  obtain fd where fd: "mFD (mManifest (w_file w)) = Some fd"
    "drop (fd_off fd) (file_bytes (w_store w) (fd_inode fd)) = r @ rest"
    "length (mBuffer (mManifest (w_file w))) = BUFFER_SIZE"
    using assms(2) by (auto simp: log_at_def r_def split: option.splits)
  note ser = record_bytes_eq(1) [OF assms(1), folded r_def]
  from fetch_record [OF ok ser fd] obtain buf where buf: "length buf = BUFFER_SIZE"
    "fetchOneLogRecord (w_store w, mManifest (w_file w)) =
      (Inr (Some (record_header ty (length bs) op), map (\<lambda>b. b\<lparr>bk_usageCount := 0\<rparr>) bs),
       (w_store w, (mManifest (w_file w))\<lparr>mFD := Some (fd\<lparr>fd_off := fd_off fd + length r\<rparr>), mBuffer := buf\<rparr>))"
    by blast
  define m' where "m' = (mManifest (w_file w))\<lparr>mFD := Some (fd\<lparr>fd_off := fd_off fd + length r\<rparr>), mBuffer := buf\<rparr>"
  have "drop (fd_off fd + length r) (file_bytes (w_store w) (fd_inode fd)) = rest"
    using arg_cong [OF fd(2), of "drop (length r)"] by (simp add: add.commute)
  then have at: "\<And>f. mManifest f = m' \<Longrightarrow> log_at rest (w\<lparr>w_file := f\<rparr>)"
    using buf(1) by (simp add: log_at_def m'_def)
  have run: "mfE fetchOneLogRecord w =
      (Inr (Some (record_header ty (length bs) op), map (\<lambda>b. b\<lparr>bk_usageCount := 0\<rparr>) bs),
       w\<lparr>w_file := (w_file w)\<lparr>mManifest := m'\<rparr>\<rparr>)"
    using buf(2) by (simp add: mfE_def run_simps m'_def)
  from that [OF run at] show ?thesis .
qed


lemma catchUp_loop_replays:
  assumes "list_all record_ok rs" and "log_at (log_bytes rs) w" and "length rs < n"
  shows "case foldS (replay_record cfg) rs (mBlockArray (w_file w), mEof (w_file w)) of
      Inl e \<Rightarrow> fst (catchUp_loop cfg n w) = Inl e
    | Inr (arr, eof) \<Rightarrow> \<exists>m'. catchUp_loop cfg n w =
        (Inr (), w\<lparr>w_file := (w_file w)\<lparr>mManifest := m', mBlockArray := arr, mEof := eof\<rparr>\<rparr>)"
  using assms
proof (induction rs arbitrary: n w)
  case Nil
  then obtain k where n: "n = Suc k" by (cases n) auto
  obtain fd where "mFD (mManifest (w_file w)) = Some fd"
    "drop (fd_off fd) (file_bytes (w_store w) (fd_inode fd)) = []"
    using Nil.prems(2) by (auto simp: log_at_def log_bytes_def split: option.splits)
  from fetch_end [OF this] have "catchUp_loop cfg n w = (Inr (), w)"
    by (simp add: n run_simps mfE_def)
  then show ?case by (auto intro: exI [of _ "mManifest (w_file w)"])
next
  case (Cons r rs)
  obtain pad ty bs op where r: "r = (pad, ty, bs, op)" by (cases r) auto
  obtain k where n: "n = Suc k" "length rs < k" using Cons.prems(3) by (cases n) auto
  have ok: "record_ok (pad, ty, bs, op)" "list_all record_ok rs" using Cons.prems(1) r by simp_all
  have "log_at (record_bytes (pad, ty, bs, op) @ log_bytes rs) w" using Cons.prems(2) r by (simp add: log_bytes_def)
  from fetch_in_world [OF ok(1) this] obtain m' where m':
    "mfE fetchOneLogRecord w = (Inr (Some (record_header ty (length bs) op), map (\<lambda>b. b\<lparr>bk_usageCount := 0\<rparr>) bs),
       w\<lparr>w_file := (w_file w)\<lparr>mManifest := m'\<rparr>\<rparr>)"
    "\<And>f. mManifest f = m' \<Longrightarrow> log_at (log_bytes rs) (w\<lparr>w_file := f\<rparr>)" by metis
  have ty: "rh_type (record_header ty (length bs) op) \<noteq> rt_invalidLog"
    using ok(1) by (simp add: record_ok_def record_header_def)
  show ?case
  proof (cases "replay_record cfg r (mBlockArray (w_file w), mEof (w_file w))")
    case (Inl e)
    then show ?thesis using m'(1) ty by (simp add: n(1) run_simps r replay_record_def getFile_def)
  next
    case (Inr s)
    obtain arr eof where s: "s = (arr, eof)" by (cases s) auto
    define w1 where "w1 = w\<lparr>w_file := (w_file w)\<lparr>mManifest := m', mBlockArray := arr, mEof := eof\<rparr>\<rparr>"
    have step: "catchUp_loop cfg n w = catchUp_loop cfg k w1"
      using m'(1) ty Inr s by (simp add: n(1) run_simps r replay_record_def getFile_def modFile_def w1_def)
    have "log_at (log_bytes rs) w1" unfolding w1_def by (rule m'(2)) simp
    from Cons.IH [OF ok(2) this n(2)] Inr s show ?thesis
      unfolding step by (auto simp: w1_def split: sum.splits prod.splits)
  qed
qed

lemma log_bytes_length: "list_all record_ok rs \<Longrightarrow> length rs \<le> length (log_bytes rs)"
proof (induction rs)
  case Nil
  then show ?case by simp
next
  case (Cons r rs)
  obtain pad ty bs op where r: "r = (pad, ty, bs, op)" by (cases r) auto
  from record_bytes_eq(2) [of pad ty bs op] Cons.prems have "0 < length (record_bytes r)" by (simp add: r)
  moreover have "length (log_bytes (r # rs)) = length (record_bytes r) + length (log_bytes rs)"
    by (simp add: log_bytes_def)
  moreover have "length rs \<le> length (log_bytes rs)" using Cons by simp
  ultimately show ?case by (simp only: list.size)
qed

lemma catchUp_fold:
  assumes "list_all record_ok rs" and "log_at (log_bytes rs) w"
  shows "case foldS (replay_record cfg) rs (mBlockArray (w_file w), mEof (w_file w)) of
      Inl e \<Rightarrow> fst (catchUpManifestLogs cfg w) = Inl e
    | Inr (arr, eof) \<Rightarrow> \<exists>m'. catchUpManifestLogs cfg w =
        (Inr (), w\<lparr>w_file := (w_file w)\<lparr>mManifest := m', mBlockArray := arr, mEof := eof\<rparr>\<rparr>)"
proof -
  obtain fd where fd: "mFD (mManifest (w_file w)) = Some fd"
    "drop (fd_off fd) (file_bytes (w_store w) (fd_inode fd)) = log_bytes rs"
    using assms(2) by (auto simp: log_at_def split: option.splits)
  have "length (log_bytes rs) \<le> length (file_bytes (w_store w) (fd_inode fd))"
    using arg_cong [OF fd(2), of length] by simp
  then have "length rs < log_fuel w" using log_bytes_length [OF assms(1)] fd(1) by (simp add: log_fuel_def)
  note r = catchUp_loop_replays [OF assms this, of cfg]
  have eq: "catchUpManifestLogs cfg w = catchUp_loop cfg (log_fuel w) w"
    by (simp add: catchUpManifestLogs_def run_simps)
  show ?thesis unfolding eq by (rule r)
qed

text \<open>
  C6 Catching up with a log of complete records, each of a valid type and with at most 339 blocks with ids
  that fit their fields, replays exactly these records, in their order: the block array and the end
  of file become what the records make of them one after the other, and nothing else of the world
  changes; when a record cannot be replayed its exception is thrown. A record with more blocks does
  not fit the buffer of the reader and is not replayed, complete or not.
\<close>

theorem catchUp_replays:
  assumes "list_all record_ok rs" and "log_at (log_bytes rs) w"
  shows "case foldS (replay_record cfg) rs (mBlockArray (w_file w), mEof (w_file w)) of
      Inl e \<Rightarrow> fst (catchUpManifestLogs cfg w) = Inl e
    | Inr (arr, eof) \<Rightarrow> \<exists>m'. catchUpManifestLogs cfg w =
        (Inr (), w\<lparr>w_file := (w_file w)\<lparr>mManifest := m', mBlockArray := arr, mEof := eof\<rparr>\<rparr>)"
  by (rule catchUp_fold [OF assms])


text \<open>An opening of a file with an empty region, a log and an in-memory object store that is not used.\<close>

definition status0 :: FileActiveStatus where
  "status0 = \<lparr>mFileId = \<lparr>hashcode = 7, collisionId = 0\<rparr>, mManifest = log_manifest, mLRUCache = Some (LRUCache_new 2),
     mIsWrite = True, mIsDelete = False, mIsSequence = False, mShouldDestroy = False, mPos = 0, mEof = 0,
     mBlockArray = [], mPreAllocatedBuckets = [], mLoadingBuckets = [], mLoadMutex = False, mActiveId = 0,
     mNumEvicted = 0, mNumLoaded = 0, mNumActivated = 0\<rparr>"

definition world0 :: "byte list \<Rightarrow> unit World" where
  "world0 log = \<lparr>w_shm = SharedMemoryContext_new space_cfg ''/w'' True
       \<lparr>header = ShareMemHeader_reset 0 0, buckets = [], activeStatus = [], workDir = []\<rparr>,
     w_store = set_bytes 0 log log_store, w_oss = (),
     w_sched = [], w_localFd = space_fd, w_tasks = [], w_file = status0,
     w_admin = \<lparr>ad_activeId = - 1, ad_numEvicted = 0\<rparr>\<rparr>"

definition log0 :: "log_record list" where
  "log0 = [(0, rt_extendBlock, [Block_new 3 0 True BUCKET_ACTIVE], 8), (9, rt_inactiveBlock, [Block_new 3 0 True BUCKET_ACTIVE], 0),
     (0, rt_evictBlock, [Block_new (- 1) 0 False BUCKET_USED], 0), (0, rt_updateEof, [], 5)]"

lemma log0_facts: "list_all record_ok log0" "log_at (log_bytes log0) (world0 (log_bytes log0))"
  "mBlockArray status0 = []" "mEof status0 = 0" "w_file (world0 l) = status0"
  "foldS (replay_record space_cfg) log0 ([], 0) = Inr ([Block_new (- 1) 0 False BUCKET_USED], 5)"
proof -
  show "list_all record_ok log0" by code_simp
  show "log_at (log_bytes log0) (world0 (log_bytes log0))"
    by (simp add: log_at_def world0_def status0_def log_manifest_facts)
  show "foldS (replay_record space_cfg) log0 ([], 0) = Inr ([Block_new (- 1) 0 False BUCKET_USED], 5)" by code_simp
qed (simp_all add: status0_def world0_def)

theorem catchUp_replays_witness:
  "\<exists>m'. catchUpManifestLogs space_cfg (world0 (log_bytes log0)) =
     (Inr (), (world0 (log_bytes log0))\<lparr>w_file := status0\<lparr>mManifest := m',
        mBlockArray := [Block_new (- 1) 0 False BUCKET_USED], mEof := 5\<rparr>\<rparr>)"
  using catchUp_replays [OF log0_facts(1,2), of space_cfg] by (simp add: log0_facts(3-6))

section \<open>Compaction\<close>

lemma mfTruncate_run:
  assumes "mFD m = Some fd" and "fd_inode fd < length (inodes st)"
  shows "mfTruncate (st, m) = (Inr (), (posix_ftruncate0 st fd, m\<lparr>mFD := Some (fd\<lparr>fd_off := 0\<rparr>)\<rparr>))"
  using assms by (simp add: mfTruncate_def run_simps mfSeek_def posix_lseek_def)

text \<open>
  C7 The last close compacts the log into one full status record, and the file survives it: whoever
  opens the file next, with a fresh manifest and an empty block array, finds the blocks and the
  end of file that were logged, for files of at most 339 blocks.
\<close>

theorem compaction_preserves_file:
  fixes w :: "'o World"
  assumes "list_all block_ok arr" and "length arr \<le> 339" and "mFD m = Some fd" and "fd_inode fd < length (inodes st)"
    and "24 + 12 * length arr \<le> diskFree st"
    and "mBlockArray (w_file w) = []" and "mFD (mManifest (w_file w)) = Some \<lparr>fd_inode = fd_inode fd, fd_off = 0\<rparr>"
    and "length (mBuffer (mManifest (w_file w))) = BUFFER_SIZE"
  shows "\<exists>st' m' m''. logFullStatus pad arr eof (st, m) = (Inr (), (st', m')) \<and>
    catchUpManifestLogs cfg (w\<lparr>w_store := st'\<rparr>) =
      (Inr (), w\<lparr>w_store := st', w_file := (w_file w)\<lparr>mManifest := m'',
         mBlockArray := map (\<lambda>b. b\<lparr>bk_usageCount := 0\<rparr>) arr, mEof := sint eof\<rparr>\<rparr>)"
proof -
  define r :: log_record where "r = (pad, rt_fullStatus, arr, eof)"
  have ok: "record_ok (pad, rt_fullStatus, arr, eof)" using assms(1,2) by (simp add: record_ok_def record_types)
  note ser = record_bytes_eq [OF ok, folded r_def]
  let ?st = "posix_ftruncate0 st fd" and ?fd = "fd\<lparr>fd_off := 0\<rparr>"
  have empty: "file_bytes ?st (fd_inode fd) = []" "fd_inode fd < length (inodes ?st)"
    using assms(4) by (simp_all add: posix_ftruncate0_def set_bytes_def file_bytes_def)
  from serialize_ok [OF assms(1), of pad rt_fullStatus eof] ser(1) obtain bytes where
    "record_bytes r = RecordHeader_bytes (record_header rt_fullStatus (length arr) eof) @ bytes"
    "length bytes = length arr * sizeof_BlockRecord" by auto
  then have "length (record_bytes r) \<le> diskFree ?st"
    using assms(5) by (simp add: posix_ftruncate0_def sizeof_RecordHeader_def sizeof_BlockRecord_def)
  then have "logRecord pad arr rt_fullStatus eof (?st, m\<lparr>mFD := Some ?fd\<rparr>) =
      (Inr (), ((set_bytes (fd_inode fd) (record_bytes r) ?st)\<lparr>diskFree := diskFree ?st - length (record_bytes r)\<rparr>,
        (m\<lparr>mFD := Some ?fd\<rparr>)\<lparr>mFD := Some (?fd\<lparr>fd_off := length (record_bytes r)\<rparr>)\<rparr>))"
    using empty by (subst logRecord_append [OF ser(1), of _ ?fd]) simp_all
  then obtain st' m' where log: "logFullStatus pad arr eof (st, m) = (Inr (), (st', m'))"
    and bytes: "file_bytes st' (fd_inode fd) = record_bytes r"
    using mfTruncate_run [OF assms(3,4)] empty(2) by (simp add: logFullStatus_def run_simps)
  define w' where "w' = w\<lparr>w_store := st'\<rparr>"
  have "log_at (log_bytes [r]) w'" using assms(7,8) bytes by (simp add: log_at_def log_bytes_def w'_def)
  moreover have "list_all record_ok [r]" using ok by (simp add: r_def)
  moreover have "mBlockArray (w_file w') = []" "w_file w' = w_file w" using assms(6) by (simp_all add: w'_def)
  moreover have "foldS (replay_record cfg) [r] ([], e) =
      Inr (map (\<lambda>b. b\<lparr>bk_usageCount := 0\<rparr>) arr, sint eof)" for e
    using assms(2) by (simp add: r_def replay_record_def replay_def Let_def record_header_def record_types
        unat_of_nat take_bit_nat_eq_self_iff)
  ultimately obtain m'' where "catchUpManifestLogs cfg w' =
      (Inr (), w'\<lparr>w_file := (w_file w)\<lparr>mManifest := m'', mBlockArray := map (\<lambda>b. b\<lparr>bk_usageCount := 0\<rparr>) arr,
        mEof := sint eof\<rparr>\<rparr>)"
    using catchUp_fold [of "[r]" w' cfg] by auto
  with log show ?thesis unfolding w'_def by blast
qed

theorem compaction_preserves_file_witness:
  "\<exists>st' m' m''. logFullStatus 0 [log_block] 5 (log_store, log_manifest) = (Inr (), (st', m')) \<and>
    catchUpManifestLogs space_cfg ((world0 [])\<lparr>w_store := st'\<rparr>) =
      (Inr (), (world0 [])\<lparr>w_store := st', w_file := status0\<lparr>mManifest := m'', mBlockArray := [log_block], mEof := 5\<rparr>\<rparr>)"
proof -
  have b: "log_block\<lparr>bk_usageCount := 0\<rparr> = log_block" by (simp add: log_block_def Block_new_def)
  have f: "mManifest status0 = log_manifest" "sint (5 :: 64 word) = 5" by (simp add: status0_def, code_simp)
  show ?thesis
    using compaction_preserves_file [of "[log_block]" log_manifest "\<lparr>fd_inode = 0, fd_off = 0\<rparr>" log_store "world0 []" 0 5 space_cfg]
      log_block_ok [of 1] by (simp add: log_manifest_facts log0_facts b f)
qed


section \<open>The quota policy\<close>

text \<open>The number of buckets to acquire below the quota: at least one, and the quota is kept without wrap-around.\<close>

lemma policy_below:
  fixes q acquired pre avail :: "32 word"
  assumes "acquired < q" and "0 < avail" and "0 < pre"
    and "n = (let tmp = (if q - acquired > pre then pre else q - acquired) in if avail > tmp then tmp else avail)"
  shows "0 < n" and "n \<le> avail" and "unat acquired + unat n \<le> unat q" and "\<not> acquired + n > q"
proof -
  have le: "n \<le> q - acquired" and "0 < n" "n \<le> avail" using assms by (auto simp: Let_def word_gt_0)
  then show "0 < n" "n \<le> avail" by simp_all
  have s: "unat (q - acquired) = unat q - unat acquired" using assms(1) by (simp add: unat_sub order_less_imp_le)
  show sum: "unat acquired + unat n \<le> unat q"
    using le s assms(1) by (simp add: word_le_nat_alt word_less_nat_alt)
  then have "unat (acquired + n) = unat acquired + unat n"
    using unsigned_less [of q, where 'a = nat] by (subst unat_add_lem [THEN iffD1]) simp_all
  then show "\<not> acquired + n > q" using sum by (simp add: word_less_nat_alt)
qed

text \<open>The number of buckets to exchange at the quota: at least one, no more than the cache holds.\<close>

lemma policy_at:
  fixes q pre free :: "32 word"
  assumes "0 < q" and "0 < free" and "0 < pre" and "0 < lruSize" and "lruSize < 2 ^ 32"
    and "n = (let tmp = (if q > pre then pre else q); a = (if free > tmp then tmp else free)
              in if unat a > lruSize then of_nat lruSize else a)"
  shows "0 < n" and "unat n \<le> lruSize" and "unat n \<le> unat free"
proof -
  define a where "a = (let tmp = (if q > pre then pre else q) in if free > tmp then tmp else free)"
  have a: "0 < a" "a \<le> free" using assms(1-3) by (auto simp: a_def Let_def)
  have "unat n = min lruSize (unat a)"
    using assms(5,6) by (simp add: a_def Let_def unat_of_nat take_bit_nat_eq_self_iff min_def)
  then show "0 < n" "unat n \<le> lruSize" "unat n \<le> unat free"
    using assms(4) a by (auto simp: word_le_nat_alt word_less_nat_alt)
qed

text \<open>
  C23 The acquisition policy keeps a file within its quota: whatever the numbers of free, used and
  acquired buckets are, a decision acquires at least one bucket, gives up no more blocks than the
  cache holds, ends with at most the quota of buckets (also when the file was above it), and
  asks for no more buckets than are free, used or given up.
\<close>

theorem acquire_policy_within_quota:
  assumes "acquirePolicy cfg sq quota numFree numUsed acquired lruSize = Inr (q, ina, acq)"
    and "0 < quota" and "0 < PRE_ALLOCATE_BUCKET_NUM cfg"
    and "unat numFree + unat numUsed < 2 ^ 32" and "lruSize \<le> unat acquired"
  shows "q \<le> quota \<and> unat ina \<le> lruSize \<and> 0 < acq \<and> unat acquired - unat ina + unat acq \<le> unat q \<and>
    unat acq \<le> unat numFree + unat numUsed + unat ina"
proof -
  define pre where "pre = PRE_ALLOCATE_BUCKET_NUM cfg"
  define q' where "q' = (if sq \<and> quota > pre then pre else quota)"
  have q': "0 < q'" "q' \<le> quota" "0 < pre" using assms(2,3) by (auto simp: q'_def pre_def)
  have avail: "unat (numFree + numUsed) = unat numFree + unat numUsed"
    using assms(4) by (subst unat_add_lem [THEN iffD1]) simp_all
  note policy = assms(1)[unfolded acquirePolicy_def Let_def, folded pre_def, folded q'_def]
  consider (below) "acquired < q'" "numFree + numUsed > 0" | (own) "acquired < q'" "numFree + numUsed = 0"
    | (free) "acquired = q'" "numFree > 0" | (evict) "acquired = q'" "numFree = 0" | (over) "q' < acquired"
    by (metis linorder_cases word_gt_0)
  then show ?thesis
  proof cases
    case below
    note b = policy_below [OF below q'(3) refl, unfolded Let_def]
    show ?thesis using policy below b avail q' by (auto simp: word_le_nat_alt split: if_splits)
  next
    case own
    then have "q = q'" "ina = 1" "acq = 1" "lruSize \<noteq> 0" using policy by (auto split: if_splits)
    with q' own assms(5) show ?thesis by (simp add: word_less_nat_alt)
  next
    case free
    define n where "n = (let tmp = (if q' > pre then pre else q'); a = (if numFree > tmp then tmp else numFree)
        in if unat a > lruSize then of_nat lruSize else a)"
    have r: "q = q'" "ina = n" "acq = n" "0 < lruSize" using policy free by (auto simp: n_def Let_def split: if_splits)
    have "lruSize < 2 ^ 32" using assms(5) unsigned_less [of acquired, where 'a = nat] by simp
    from policy_at [OF q'(1) free(2) q'(3) r(4) this n_def] r q' free(1) assms(5) show ?thesis by simp
  next
    case evict
    then have "q = q'" "ina = 1" "acq = 1" "lruSize \<noteq> 0" using policy by (auto split: if_splits)
    with q' evict assms(5) show ?thesis by (simp add: word_less_nat_alt)
  next
    case over
    then have r: "q = q'" "ina = acquired - q' + 1" "acq = 1" "unat ina \<le> lruSize" using policy by (auto split: if_splits)
    have s: "unat (acquired - q') = unat acquired - unat q'" using over by (simp add: unat_sub order_less_imp_le)
    have "unat (acquired - q' + 1) = unat acquired - unat q' + 1"
      using s q'(1) unsigned_less [of acquired, where 'a = nat]
      by (subst unat_add_lem [THEN iffD1]) (simp_all add: word_less_nat_alt)
    with r q' over show ?thesis by (simp add: word_less_nat_alt)
  qed
qed

theorem acquire_policy_within_quota_witness:
  "acquirePolicy (default_configuration True) False 10 3 0 10 7 = Inr (10, 3, 3) \<and>
   unat (10 :: 32 word) - unat (3 :: 32 word) + unat (3 :: 32 word) \<le> unat (10 :: 32 word)"
proof -
  have p: "acquirePolicy (default_configuration True) False 10 3 0 10 7 = Inr (10, 3, 3)" by code_simp
  with acquire_policy_within_quota [OF p] show ?thesis by (simp add: default_configuration_def)
qed


end
