(* ===== verification/GW_Locking.thy ===== *)
theory GW_Locking
  imports GW_AdminActiveStatus GW_FileActiveProps
begin

text \<open>
  Locks. The shared memory is protected by one lock (a flag in its header) that every operation of
  a file takes and releases with \<^verbatim>\<open>SHARED_MEM_BEGIN\<close> and \<^verbatim>\<open>SHARED_MEM_END\<close>; the loading of blocks
  within a process by \<^verbatim>\<open>mLoadMutex\<close>. A small calculus of preserved predicates follows the program
  text of every operation. It shows that no operation leaves the shared memory locked, on any
  return and on any exception, and that \<^verbatim>\<open>mLoadMutex\<close> does stay locked after an exception.
\<close>

section \<open>Preserved predicates\<close>

text \<open>\<open>pres P m\<close>: if \<open>P\<close> holds before \<open>m\<close> runs, it holds afterwards, whether \<open>m\<close> returns or throws.\<close>

definition pres :: "('s \<Rightarrow> bool) \<Rightarrow> ('s, 'e, 'a) gw \<Rightarrow> bool" where
  "pres P m = (\<forall>s. P s \<longrightarrow> P (snd (m s)))"

named_theorems pres_rules "predicates preserved by the monad's operations and by the components' operations"

lemma pres_retE [pres_rules]: "pres P (retE x)"
  by (simp add: pres_def retE_def)

lemma pres_throwE [pres_rules]: "pres P (throwE e)"
  by (simp add: pres_def throwE_def)

lemma pres_THROW [pres_rules]: "pres P (THROW c)"
  by (simp add: THROW_def pres_throwE)

lemma pres_getsE [pres_rules]: "pres P (getsE f)"
  by (simp add: pres_def getsE_def)

lemma pres_pureE [pres_rules]: "pres P (pureE r)"
  by (simp add: pres_def pureE_def)

lemma pres_assertE [pres_rules]: "pres P (assertE n b)"
  by (simp add: assertE_def pres_retE pres_throwE)

lemma pres_bindE [pres_rules]:
  assumes "pres P m" and "\<And>x. pres P (f x)"
  shows "pres P (bindE m f)"
  unfolding pres_def
proof (intro allI impI)
  fix s
  assume "P s"
  with assms(1) have "P (snd (m s))" by (simp add: pres_def)
  with assms(2) show "P (snd (bindE m f s))"
    by (auto simp: bindE_def pres_def split: prod.splits sum.splits)
qed

lemma pres_seqE [pres_rules]: "pres P m \<Longrightarrow> pres P n \<Longrightarrow> pres P (seqE m n)"
  by (simp add: seqE_def pres_bindE)

lemma pres_if [pres_rules]: "pres P m \<Longrightarrow> pres P n \<Longrightarrow> pres P (if b then m else n)"
  by simp

lemma pres_whenE [pres_rules]: "pres P m \<Longrightarrow> pres P (whenE b m)"
  by (simp add: whenE_def pres_retE)

lemma pres_case_option [pres_rules]:
  "pres P m \<Longrightarrow> (\<And>x. pres P (f x)) \<Longrightarrow> pres P (case o' of None \<Rightarrow> m | Some x \<Rightarrow> f x)"
  by (cases o') simp_all

lemma pres_case_list [pres_rules]:
  "pres P m \<Longrightarrow> (\<And>x xs. pres P (f x xs)) \<Longrightarrow> pres P (case l of [] \<Rightarrow> m | x # xs \<Rightarrow> f x xs)"
  by (cases l) simp_all

lemma pres_case_prod [pres_rules]: "(\<And>a b. pres P (f a b)) \<Longrightarrow> pres P (case p of (a, b) \<Rightarrow> f a b)"
  by (cases p) simp

lemma pres_forE [pres_rules]: "(\<And>x. pres P (body x)) \<Longrightarrow> pres P (forE xs body)"
  by (induction xs) (simp_all add: pres_retE pres_seqE)

lemma pres_catchExn [pres_rules]:
  assumes "pres P m" and "\<And>c. pres P (h c)"
  shows "pres P (catchExn m h)"
  unfolding pres_def
proof (intro allI impI)
  fix s
  assume "P s"
  with assms(1) have "P (snd (m s))" by (simp add: pres_def)
  with assms(2) show "P (snd (catchExn m h s))"
    by (auto simp: run_catchExn pres_def split: prod.splits sum.splits gw_error.splits)
qed

lemma pres_modifyE: "(\<And>s. P s \<Longrightarrow> P (f s)) \<Longrightarrow> pres P (modifyE f)"
  by (simp add: pres_def modifyE_def)

lemma pres_zoomE:
  assumes "pres Q m" and "\<And>s. P s \<Longrightarrow> Q (get s)" and "\<And>s t. P s \<Longrightarrow> Q t \<Longrightarrow> P (put t s)"
  shows "pres P (zoomE get put m)"
  using assms by (auto simp: pres_def zoomE_def split: prod.splits) (metis snd_conv)

lemma pres_True: "pres (\<lambda>_. True) m"
  by (simp add: pres_def)

section \<open>The lock flag and the operations of the shared memory\<close>

definition flags_are :: "(8 word \<Rightarrow> bool) \<Rightarrow> SharedMemoryContext \<Rightarrow> bool" where
  "flags_are F s = F (h_flags (header s))"

lemma flags_modifyE: "(\<And>s. h_flags (header (f s)) = h_flags (header s)) \<Longrightarrow> pres (flags_are F) (modifyE f)"
  by (simp add: pres_def run_simps flags_are_def)

lemma flags_modHeader [pres_rules]:
  "(\<And>h. h_flags (f h) = h_flags h) \<Longrightarrow> pres (flags_are F) (modHeader f)"
  by (simp add: modHeader_def pres_def run_simps flags_are_def)

lemma flags_access [pres_rules]:
  "pres (flags_are F) (readBucket i)" "pres (flags_are F) (writeBucket i b)"
  "pres (flags_are F) (readStatus i)" "pres (flags_are F) (writeStatus i a)"
  by (simp_all add: pres_def readBucket_def writeBucket_def readStatus_def writeStatus_def flags_are_def
      split: option.splits)

lemma flags_methods [pres_rules]:
  "pres (flags_are F) (modBucket i f)" "pres (flags_are F) (callBucket i g)" "pres (flags_are F) (modStatus i h)"
  by (simp_all add: modBucket_def callBucket_def modStatus_def pres_rules)

lemma flags_anyStatus [pres_rules]: "pres (flags_are F) (anyStatus is p)"
  by (induction "is") (simp_all add: pres_rules)

lemma flags_registFile_loop: "pres (flags_are F) (registFile_loop p f d is k des)"
  by (induction "is" arbitrary: k des) (simp_all add: pres_rules Let_def)

lemma flags_registAdmin_loop: "pres (flags_are F) (registAdmin_loop p is)"
  by (induction "is") (simp_all add: pres_rules)

lemma flags_acquire_loop: "pres (flags_are F) (acquire_loop a f w is n res)"
  by (induction "is" arbitrary: n res) (simp_all add: pres_rules)

lemma flags_registration [pres_rules]:
  "pres (flags_are F) (registFile p f w d)" "pres (flags_are F) (registAdmin p)"
  "pres (flags_are F) (unregistFile a p)" "pres (flags_are F) (unregistAdmin a p)"
  "pres (flags_are F) (isFileOpening cfg f)"
  by (simp_all add: registFile_def registAdmin_def unregistFile_def unregistAdmin_def isFileOpening_def
      flags_registFile_loop flags_registAdmin_loop pres_rules)

lemma flags_acquire [pres_rules]: "pres (flags_are F) (acquireFreeBucket a n f w)"
  by (simp add: acquireFreeBucket_def flags_acquire_loop pres_rules)

lemma flags_evict [pres_rules]:
  "pres (flags_are F) (evictBucketFinishAndTryAcquire b a f w)" "pres (flags_are F) (evictBucketFinishAndTryFree b a)"
  by (simp_all add: evictBucketFinishAndTryAcquire_def evictBucketFinishAndTryFree_def resetEvictInfo_def Let_def pres_rules)

lemma flags_markBucketEvicting [pres_rules]: "pres (flags_are F) (markBucketEvicting a)"
proof -
  have "pres (flags_are F)
     (seqE (modifyE (\<lambda>s. s\<lparr>header := (header s)\<lparr>nextVictimBucket := hand\<rparr>, buckets := bs\<rparr>))
        (bindE (pureE r) (\<lambda>bucketId.
         seqE (modBucket bucketId (\<lambda>b. (setBucketEvicting b)\<lparr>evictLoadActiveId := a\<rparr>))
        (bindE (readBucket bucketId) (\<lambda>b.
         seqE (modStatus a (\<lambda>x. setEvicting
                 (x\<lparr>evictFileId := b_fileId b, a_fileBlockIndex := b_fileBlockIndex b\<rparr>)))
        (seqE (modHeader (\<lambda>h. h\<lparr>numUsedBuckets := numUsedBuckets h - 1,
                                 numEvictingBuckets := numEvictingBuckets h + 1\<rparr>))
        (retE \<lparr>bi_fileId = b_fileId b, bi_blockId = b_fileBlockIndex b, bi_bucketId = bucketId,
               bi_offset = InvalidBlockOffset, bi_dataSize = dataSize b, bi_isLocal = True\<rparr>)))))))" for r hand bs
    by (simp add: pres_rules flags_modifyE)
  then show ?thesis unfolding pres_def markBucketEvicting_def by (auto split: prod.splits)
qed

lemma flags_buckets [pres_rules]:
  "pres (flags_are F) (markBucketLoading cfg b i a f)" "pres (flags_are F) (markLoadFinish cfg b a f)"
  "pres (flags_are F) (releaseBuckets bs)" "pres (flags_are F) (activateBucket f blk a w)"
  "pres (flags_are F) (updateActiveFileInfo bs f)" "pres (flags_are F) (deleteBlocks bs f)"
  "pres (flags_are F) (updateBucketDataSize cfg b n f a)" "pres (flags_are F) (getBucketDataSize cfg b f i)"
  by (simp_all add: markBucketLoading_def markLoadFinish_def assertBucket_def releaseBuckets_def releaseBucket_def
      activateBucket_def updateActiveFileInfo_def deleteBlocks_def deleteBlock_shm_def updateBucketDataSize_def
      getBucketDataSize_def Let_def pres_rules)

lemma flags_inactivateBuckets [pres_rules]: "pres (flags_are F) (inactivateBuckets bs f a w)"
  by (induction bs) (simp_all add: inactivateBucket_def pres_rules)

lemma flags_getters [pres_rules]:
  "pres (flags_are F) getFreeBucketNum" "pres (flags_are F) getActiveBucketNum" "pres (flags_are F) getUsedBucketNum"
  "pres (flags_are F) getEvictingBucketNum" "pres (flags_are F) getLoadingBucketNum"
  "pres (flags_are F) getFileActiveStatusNum" "pres (flags_are F) getAdminActiveStatusNum"
  by (simp_all add: getFreeBucketNum_def getActiveBucketNum_def getUsedBucketNum_def getEvictingBucketNum_def
      getLoadingBucketNum_def getFileActiveStatusNum_def getAdminActiveStatusNum_def pres_rules)

section \<open>The world around a critical section\<close>

text \<open>
  The other processes use the lock as this one does: what they do between two critical sections
  leaves the lock free if it was free.
\<close>

definition sched_ok :: "'o World \<Rightarrow> bool" where
  "sched_ok w = (\<forall>f \<in> set (w_sched w). \<forall>x. h_flags (header (fst x)) = 0 \<longrightarrow> h_flags (header (fst (f x))) = 0)"

definition world_flags :: "(8 word \<Rightarrow> bool) \<Rightarrow> 'o World \<Rightarrow> bool" where
  "world_flags F w = (flags_are F (w_shm w) \<and> sched_ok w)"

abbreviation lock_free :: "'o World \<Rightarrow> bool" where
  "lock_free \<equiv> world_flags (\<lambda>f. f = 0)"

abbreviation in_section :: "'o World \<Rightarrow> bool" where
  "in_section \<equiv> world_flags (\<lambda>f. f = 0 \<or> f = 1)"

lemma world_shmE [pres_rules]: "pres (flags_are F) m \<Longrightarrow> pres (world_flags F) (shmE m)"
  unfolding shmE_def by (rule pres_zoomE [of "flags_are F"]) (simp_all add: world_flags_def sched_ok_def)

lemma world_parts [pres_rules]:
  "pres (world_flags F) (modFile f)" "pres (world_flags F) (getFile g)" "pres (world_flags F) (mfE m)"
  "pres (world_flags F) (ioE n)" "pres (world_flags F) (modAdmin h)"
proof -
  show "pres (world_flags F) (mfE m)"
    unfolding mfE_def
    by (rule pres_zoomE [OF pres_True]) (auto simp: world_flags_def sched_ok_def)
  show "pres (world_flags F) (ioE n)"
    unfolding ioE_def
    by (rule pres_zoomE [OF pres_True]) (auto simp: world_flags_def sched_ok_def)
qed (simp_all add: modFile_def getFile_def modAdmin_def pres_def run_simps world_flags_def sched_ok_def)

lemma world_lruE [pres_rules]: "pres (world_flags F) (lruE m)"
  by (auto simp: pres_def lruE_def world_flags_def sched_ok_def split: option.splits prod.splits)

lemma world_tasks [pres_rules]: "pres (world_flags F) (modifyE (\<lambda>w. w\<lparr>w_tasks := g w\<rparr>))"
  by (simp add: pres_def run_simps world_flags_def sched_ok_def)

lemma world_blockArray [pres_rules]:
  "pres (world_flags F) (readBlockArray i)" "pres (world_flags F) (writeBlockArray i b)" "pres (world_flags F) popPreAllocated"
  by (auto simp: pres_def readBlockArray_def writeBlockArray_def popPreAllocated_def world_flags_def sched_ok_def
      split: option.splits list.splits)

lemma world_readBlocks [pres_rules]: "pres (world_flags F) (readBlocks is)"
  by (induction "is") (simp_all add: pres_rules)

lemma world_catchUp_loop: "pres (world_flags F) (catchUp_loop cfg n)"
  by (induction n) (simp_all add: pres_rules)

lemma world_catchUp [pres_rules]: "pres (world_flags F) (catchUpManifestLogs cfg)"
  by (simp add: catchUpManifestLogs_def world_catchUp_loop pres_rules)

lemma world_small [pres_rules]:
  "pres (world_flags F) getNumAcquiredBuckets" "pres (world_flags F) getCurQuota"
  "pres (world_flags F) (isMyActiveBlock i)" "pres (world_flags F) (isBlockLoading i)"
  "pres (world_flags F) (removeNumOfKeys env n)" "pres (world_flags F) (lruPut k v)"
  "pres (world_flags F) (logEof env)" "pres (world_flags F) (getSharedMemEof cfg)"
  "pres (world_flags F) (addPreAllocated bs)" "pres (world_flags F) (eraseLoading n)"
  "pres (world_flags F) lockLoadMutex" "pres (world_flags F) unlockLoadMutex"
  by (simp_all add: getNumAcquiredBuckets_def getCurQuota_def isMyActiveBlock_def isBlockLoading_def removeNumOfKeys_def
      lruPut_def logEof_def getSharedMemEof_def addPreAllocated_def eraseLoading_def lockLoadMutex_def unlockLoadMutex_def
      Let_def pres_rules)

lemma world_steps [pres_rules]:
  "pres (world_flags F) (turnedToUsed env bs)" "pres (world_flags F) (inactivateLRU env n)"
  "pres (world_flags F) (acquireFree k)" "pres (world_flags F) startEvict"
  by (simp_all add: turnedToUsed_def inactivateLRU_def acquireFree_def startEvict_def pres_rules)

lemma world_logEvict [pres_rules]:
  "pres (world_flags F) (logEvictBlock env info)" "pres (world_flags F) (admin_logEvictBlock env info)"
proof -
  have "pres (world_flags F) (\<lambda>w. let path = p w in if \<not> posix_access path (w_store w) then (Inl e1, w)
        else case Manifest_new g path (w_store w) of
          (Inl e, st) \<Rightarrow> (Inl e, w\<lparr>w_store := st\<rparr>)
        | (Inr m, st) \<Rightarrow> (case q (st, m) of (r, (st', _)) \<Rightarrow> (r, w\<lparr>w_store := st'\<rparr>)))" for p e1 g q
    by (auto simp: pres_def Let_def world_flags_def sched_ok_def split: prod.splits sum.splits)
  note foreign = this
  show "pres (world_flags F) (logEvictBlock env info)"
    unfolding logEvictBlock_def by (subst Let_def) (intro pres_rules foreign)
  show "pres (world_flags F) (admin_logEvictBlock env info)"
    using foreign [of "\<lambda>w. getManifestFileName (workDir (w_shm w)) (bi_fileId info)"]
    unfolding admin_logEvictBlock_def by (simp add: Let_def)
qed

lemma world_load [pres_rules]:
  "pres (world_flags F) (loadSucceeded env info n i b)" "pres (world_flags F) (loadFailed env info i b)"
  "pres (world_flags F) (transferBlock env info)" "pres (world_flags F) (fa_loadBlock env info)"
  "pres (world_flags F) (runTask env)"
  by (simp_all add: loadSucceeded_def loadFailed_def transferBlock_def fa_loadBlock_def runTask_def pres_rules)


section \<open>Critical sections release the lock\<close>

text \<open>
  \<open>unlocks m\<close>: started with the lock free, \<open>m\<close> ends with the lock free, when it returns and when it throws.
  An abort and undefined behaviour end the process and are no exceptions.
\<close>

definition unlocks :: "('o, 'a) faM \<Rightarrow> bool" where
  "unlocks m = (\<forall>w. lock_free w \<longrightarrow> wp m (\<lambda>_. lock_free) (\<lambda>e w'. (\<exists>c. e = Exn c) \<longrightarrow> lock_free w') w)"

named_theorems unlocks_rules "operations that release the lock they take"

lemma pres_wp: "pres P m \<Longrightarrow> P s \<Longrightarrow> wp m (\<lambda>_. P) (\<lambda>_. P) s"
  by (auto simp: pres_def wp_def split: prod.splits sum.splits)

lemma unlocks_pres [unlocks_rules]: "pres lock_free m \<Longrightarrow> unlocks m"
  unfolding unlocks_def by (auto intro: wp_mono [OF pres_wp])

lemma unlocks_bindE [unlocks_rules]: "unlocks m \<Longrightarrow> (\<And>x. unlocks (f x)) \<Longrightarrow> unlocks (bindE m f)"
  unfolding unlocks_def wp_simps by (blast intro: wp_mono)

lemma unlocks_seqE [unlocks_rules]: "unlocks m \<Longrightarrow> unlocks n \<Longrightarrow> unlocks (seqE m n)"
  by (simp add: seqE_def unlocks_bindE)

lemma unlocks_if [unlocks_rules]: "unlocks m \<Longrightarrow> unlocks n \<Longrightarrow> unlocks (if b then m else n)"
  by simp

lemma unlocks_whenE [unlocks_rules]: "unlocks m \<Longrightarrow> unlocks (whenE b m)"
  by (simp add: whenE_def unlocks_pres pres_rules)

lemma unlocks_case_option [unlocks_rules]:
  "unlocks m \<Longrightarrow> (\<And>x. unlocks (f x)) \<Longrightarrow> unlocks (case o' of None \<Rightarrow> m | Some x \<Rightarrow> f x)"
  by (cases o') simp_all

lemma unlocks_case_prod [unlocks_rules]: "(\<And>a b. unlocks (f a b)) \<Longrightarrow> unlocks (case p of (a, b) \<Rightarrow> f a b)"
  by (cases p) simp

lemma interfere_free: "lock_free w \<Longrightarrow> wp interfere (\<lambda>_. lock_free) E w"
proof (cases "w_sched w")
  case Nil
  then show "lock_free w \<Longrightarrow> wp interfere (\<lambda>_. lock_free) E w" by (simp add: interfere_def wp_simps)
next
  case (Cons f fs)
  assume w: "lock_free w"
  obtain shm st oss where f: "f (w_shm w, w_store w, w_oss w) = (shm, st, oss)" by (metis prod.exhaust)
  have all: "\<forall>g \<in> set (f # fs). \<forall>x. h_flags (header (fst x)) = 0 \<longrightarrow> h_flags (header (fst (g x))) = 0"
    and free: "h_flags (header (w_shm w)) = 0"
    using w Cons by (simp_all add: world_flags_def sched_ok_def flags_are_def)
  have "h_flags (header (fst (f (w_shm w, w_store w, w_oss w)))) = 0" using all free by simp
  then show ?thesis
    using all f Cons by (simp add: interfere_def wp_simps world_flags_def sched_ok_def flags_are_def)
qed

lemma lock_taken: "lock_free w \<Longrightarrow> wp (shmE shm_lock) (\<lambda>_. in_section) E w"
  by (simp add: shmE_def shm_lock_def header_enter_def wp_simps world_flags_def flags_are_def sched_ok_def)

lemma lock_released: "in_section w \<Longrightarrow> wp (shmE shm_unlock) (\<lambda>_. lock_free) E w"
  by (auto simp: shmE_def shm_unlock_def header_exit_def wp_simps world_flags_def flags_are_def sched_ok_def)

lemma wp_sequence:
  "wp (seqE m n) Q E = wp m (\<lambda>_. wp n Q E) E" "wp (bindE m f) Q E = wp m (\<lambda>x. wp (f x) Q E) E" "wp (retE x) Q E = Q x"
  by (rule ext, simp add: wp_simps)+

lemma section_core:
  assumes "pres in_section body" and "lock_free w" and E: "\<And>e v. in_section v \<Longrightarrow> E e v"
  shows "wp (seqE interfere (seqE (shmE shm_lock) (bindE body (\<lambda>x. seqE (shmE shm_unlock) (retE x))))) (\<lambda>_. lock_free) E w"
proof -
  have inner: "wp body (\<lambda>x. wp (shmE shm_unlock) (\<lambda>_. lock_free) E) E v" if "in_section v" for v
    by (rule wp_mono [OF pres_wp [OF assms(1) that]]) (use lock_released E in blast)+
  have "wp (shmE shm_lock) (\<lambda>_. wp body (\<lambda>x. wp (shmE shm_unlock) (\<lambda>_. lock_free) E) E) E v" if "lock_free v" for v
    by (rule wp_mono [OF lock_taken [OF that, of "\<lambda>_ _. False"]]) (use inner in blast)+
  then have "wp interfere (\<lambda>_. wp (shmE shm_lock) (\<lambda>_. wp body (\<lambda>x. wp (shmE shm_unlock) (\<lambda>_. lock_free) E) E) E) E w"
    by (intro wp_mono [OF interfere_free [OF assms(2), of "\<lambda>_ _. False"]]) blast+
  then show ?thesis by (simp only: wp_sequence)
qed

lemma section_body:
  assumes "pres in_section body" and "lock_free w"
  shows "wp (catchExn (seqE interfere (seqE (shmE shm_lock) (bindE body (\<lambda>x. seqE (shmE shm_unlock) (retE x)))))
       (\<lambda>c. seqE (shmE shm_unlock) (THROW c)))
     (\<lambda>_. lock_free) (\<lambda>e w'. (\<exists>c. e = Exn c) \<longrightarrow> lock_free w') w"
  unfolding wp_catchExn
proof (rule section_core [OF assms])
  fix e and v :: "'a World"
  assume "in_section v"
  from lock_released [OF this, of "\<lambda>_ _. False"]
  show "(case e of Exn c \<Rightarrow> wp (seqE (shmE shm_unlock) (THROW c)) (\<lambda>_. lock_free) (\<lambda>e w'. (\<exists>c. e = Exn c) \<longrightarrow> lock_free w')
      | _ \<Rightarrow> \<lambda>w'. (\<exists>c. e = Exn c) \<longrightarrow> lock_free w') v"
    by (cases e) (auto simp: wp_simps elim: wp_mono)
qed

lemma bindE_assoc: "bindE (bindE m f) g = bindE m (\<lambda>x. bindE (f x) g)"
  by (rule ext) (simp add: bindE_def split: prod.splits sum.splits)

lemma unlocks_sharedMem [unlocks_rules]:
  assumes "pres in_section body"
  shows "unlocks (sharedMem env body)"
proof -
  have "pres in_section (seqE (catchUpManifestLogs (e_cfg env)) body)" using assms by (intro pres_rules)
  from section_body [OF this] show ?thesis
    unfolding unlocks_def sharedMem_def seqE_def bindE_assoc by blast
qed

lemma unlocks_adminMem [unlocks_rules]: "pres in_section body \<Longrightarrow> unlocks (adminMem body)"
  unfolding unlocks_def adminMem_def using section_body by blast

lemma section_unlock [pres_rules]: "pres in_section (shmE shm_unlock)"
  by (auto simp: pres_def shmE_def shm_unlock_def header_exit_def run_simps world_flags_def flags_are_def sched_ok_def)


section \<open>Every operation\<close>

lemma section_bodies [pres_rules]:
  "pres in_section (registInSharedMem env)" "pres in_section (unregistInSharedMem env c)"
  "pres in_section (acquireSection1 env)" "pres in_section (finishEvict env k info)"
  "pres in_section (makeRoom env)" "pres in_section (admin_regist env)" "pres in_section (admin_unregist env)"
  by (simp_all add: registInSharedMem_def unregistInSharedMem_def acquireSection1_def finishEvict_def makeRoom_def
      admin_regist_def admin_unregist_def Let_def pres_rules)

lemma unlocks_acquireRound: "unlocks (acquireRound env s)"
  unfolding acquireRound_def Let_def case_prod_unfold
  by (intro unlocks_seqE unlocks_sharedMem unlocks_pres) (simp_all add: pres_rules)

lemma unlocks_acquire_rounds: "unlocks (acquire_rounds env n s)"
  by (induction n arbitrary: s) (simp_all add: unlocks_rules pres_rules unlocks_acquireRound)

lemma unlocks_acquireNewBlocks [unlocks_rules]: "unlocks (acquireNewBlocks env)"
  unfolding acquireNewBlocks_def
  by (intro unlocks_bindE unlocks_seqE unlocks_sharedMem unlocks_acquire_rounds unlocks_if unlocks_pres)
    (simp_all add: pres_rules)

lemma unlocks_ensurePreAllocated [unlocks_rules]: "unlocks (ensurePreAllocated env)"
  unfolding ensurePreAllocated_def
  by (intro unlocks_bindE unlocks_whenE unlocks_acquireNewBlocks unlocks_pres) (simp_all add: pres_rules)

lemma unlocks_extendOneBlock [unlocks_rules]: "unlocks (extendOneBlock env)"
  unfolding extendOneBlock_def Let_def
  by (intro unlocks_bindE unlocks_seqE unlocks_ensurePreAllocated unlocks_sharedMem unlocks_pres) (simp_all add: pres_rules)

lemma unlocks_activateBlock [unlocks_rules]: "unlocks (activateBlock env b)"
  unfolding activateBlock_def case_prod_unfold
  by (intro unlocks_bindE unlocks_seqE unlocks_ensurePreAllocated unlocks_sharedMem unlocks_case_option unlocks_pres)
    (simp_all add: pres_rules)

lemma unlocks_preActivate: "unlocks (preActivate env b k n)"
  by (induction n arbitrary: k) (simp_all add: unlocks_rules pres_rules)

lemma unlocks_waitActive: "unlocks (waitActive env b n)"
proof (induction n)
  case 0
  show ?case by (simp add: unlocks_pres pres_rules)
next
  case (Suc n)
  show ?case
    unfolding waitActive.simps
    by (intro unlocks_bindE unlocks_seqE unlocks_if Suc unlocks_activateBlock) (intro unlocks_pres; simp add: pres_rules)+
qed

lemma unlocks_adjustActiveBlock [unlocks_rules]: "unlocks (adjustActiveBlock env b)"
  unfolding adjustActiveBlock_def
  by (intro unlocks_bindE unlocks_seqE unlocks_if unlocks_whenE unlocks_preActivate unlocks_waitActive unlocks_extendOneBlock)
    (intro unlocks_pres; simp add: pres_rules)+

lemma unlocks_updateCurBlockSize [unlocks_rules]: "unlocks (updateCurBlockSize env)"
  unfolding updateCurBlockSize_def
  by (intro unlocks_bindE unlocks_seqE unlocks_sharedMem unlocks_pres) (simp_all add: pres_rules Let_def)

lemma unlocks_setPosition: "unlocks (setPosition env pos)"
  unfolding setPosition_def
  by (intro unlocks_bindE unlocks_seqE unlocks_whenE unlocks_updateCurBlockSize) (intro unlocks_pres; simp add: pres_rules)+

lemma unlocks_fa_flush: "unlocks (fa_flush env)"
  unfolding fa_flush_def
  by (intro unlocks_bindE unlocks_sharedMem unlocks_pres) (simp_all add: pres_rules)

lemma unlocks_getCurBlockInfo: "unlocks (getCurBlockInfo env)"
  unfolding getCurBlockInfo_def
  by (intro unlocks_bindE unlocks_seqE unlocks_adjustActiveBlock) (intro unlocks_pres; simp add: pres_rules)+

lemma unlocks_fa_close: "unlocks (fa_close env c)"
  unfolding fa_close_def
  by (intro unlocks_bindE unlocks_sharedMem unlocks_pres) (simp_all add: pres_rules case_prod_unfold)

lemma unlocks_evict_rounds: "unlocks (evict_rounds env n k found)"
proof (induction n arbitrary: found)
  case 0
  show ?case by (simp add: unlocks_pres pres_rules)
next
  case (Suc n)
  have "unlocks (evictRound env found)"
    unfolding evictRound_def
    by (intro unlocks_bindE unlocks_seqE unlocks_adminMem unlocks_case_option) (simp_all add: unlocks_pres pres_rules)
  with Suc show ?case unfolding evict_rounds.simps
    by (intro unlocks_if unlocks_bindE) (simp_all add: unlocks_pres pres_rules)
qed

lemma unlocks_new: "unlocks (FileActiveStatus_new env f c s ty)"
proof -
  have "wp (FileActiveStatus_new env f c s ty) (\<lambda>_. lock_free) (\<lambda>e w'. (\<exists>c. e = Exn c) \<longrightarrow> lock_free w') w"
    if "lock_free w" for w
  proof -
    have "wp (sharedMem env (registInSharedMem env)) (\<lambda>_. lock_free) (\<lambda>e w'. (\<exists>c. e = Exn c) \<longrightarrow> lock_free w')
        (w\<lparr>w_store := st, w_file := x\<rparr>)" for st x
      using unlocks_sharedMem [of "registInSharedMem env" env] that
      by (simp add: unlocks_def pres_rules world_flags_def sched_ok_def)
    note run = wp_resultD [OF this] wp_throwD [OF this, THEN mp]
    have "lock_free (w\<lparr>w_store := st\<rparr>)" for st using that by (simp add: world_flags_def sched_ok_def)
    then show ?thesis
      using that unfolding FileActiveStatus_new_def wp_def
      by (auto simp: Let_def split: prod.splits sum.splits dest: run)
  qed
  then show ?thesis by (simp add: unlocks_def)
qed

text \<open>
  C11 No operation of an opened file or of the administrator leaves the shared memory locked: opening,
  moving the position, flushing, making a block available (with all acquisition, eviction and
  loading), closing, the statistics and the eviction on request all release the lock on every
  return and on every exception, provided the other processes do.
\<close>

theorem operations_release_lock:
  "unlocks (FileActiveStatus_new env fileId isCreate isSequence type) \<and> unlocks (setPosition env pos) \<and>
   unlocks (fa_flush env) \<and> unlocks (getCurBlockInfo env) \<and> unlocks (fa_close env isCancel) \<and>
   unlocks (AdminActiveStatus_new env) \<and> unlocks getShareMemStatistic \<and> unlocks (evictNumOfBlocks env num)"
proof -
  have "unlocks (AdminActiveStatus_new env)"
    unfolding AdminActiveStatus_new_def
    by (intro unlocks_seqE unlocks_adminMem unlocks_pres) (simp_all add: pres_rules)
  moreover have "unlocks getShareMemStatistic"
    unfolding getShareMemStatistic_def by (intro unlocks_adminMem) (simp add: pres_rules)
  ultimately show ?thesis
    by (simp add: unlocks_new unlocks_setPosition unlocks_fa_flush unlocks_getCurBlockInfo unlocks_fa_close
        evictNumOfBlocks_def unlocks_evict_rounds)
qed


section \<open>The load mutex\<close>

definition mutex_is :: "bool \<Rightarrow> 'o World \<Rightarrow> bool" where
  "mutex_is v w = (mLoadMutex (w_file w) = v)"

lemma mutex_modFile [pres_rules]: "(\<And>f. mLoadMutex (g f) = mLoadMutex f) \<Longrightarrow> pres (mutex_is v) (modFile g)"
  by (simp add: modFile_def pres_def run_simps mutex_is_def)

lemma mutex_parts [pres_rules]:
  "pres (mutex_is v) (shmE m)" "pres (mutex_is v) (getFile g)" "pres (mutex_is v) (mfE k)" "pres (mutex_is v) (ioE n)"
  by (auto simp: shmE_def getFile_def mfE_def ioE_def pres_def run_simps mutex_is_def split: prod.splits)

lemma mutex_state [pres_rules]:
  "pres (mutex_is v) (lruE m)" "pres (mutex_is v) interfere" "pres (mutex_is v) (modifyE (\<lambda>w. w\<lparr>w_tasks := g w\<rparr>))"
  "pres (mutex_is v) (readBlockArray i)" "pres (mutex_is v) (writeBlockArray i b)" "pres (mutex_is v) popPreAllocated"
  by (auto simp: pres_def run_simps mutex_is_def lruE_def interfere_def readBlockArray_def writeBlockArray_def popPreAllocated_def
      split: option.splits list.splits prod.splits)

lemma mutex_readBlocks [pres_rules]: "pres (mutex_is v) (readBlocks is)"
  by (induction "is") (simp_all add: pres_rules)

lemma mutex_catchUp_loop: "pres (mutex_is v) (catchUp_loop cfg n)"
  by (induction n) (simp_all add: pres_rules)

lemma mutex_sharedMem [pres_rules]: "pres (mutex_is v) body \<Longrightarrow> pres (mutex_is v) (sharedMem env body)"
  unfolding sharedMem_def catchUpManifestLogs_def
  by (intro pres_rules mutex_catchUp_loop)

lemma mutex_small [pres_rules]:
  "pres (mutex_is v) getNumAcquiredBuckets" "pres (mutex_is v) getCurQuota"
  "pres (mutex_is v) (isMyActiveBlock i)" "pres (mutex_is v) (isBlockLoading i)"
  "pres (mutex_is v) (removeNumOfKeys env n)" "pres (mutex_is v) (lruPut k l)"
  "pres (mutex_is v) (logEof env)" "pres (mutex_is v) (getSharedMemEof cfg)" "pres (mutex_is v) (addPreAllocated bs)"
  by (simp_all add: getNumAcquiredBuckets_def getCurQuota_def isMyActiveBlock_def isBlockLoading_def removeNumOfKeys_def
      lruPut_def logEof_def getSharedMemEof_def addPreAllocated_def Let_def pres_rules)

lemma mutex_steps [pres_rules]:
  "pres (mutex_is v) (turnedToUsed env bs)" "pres (mutex_is v) (inactivateLRU env n)"
  "pres (mutex_is v) (acquireFree k)" "pres (mutex_is v) startEvict" "pres (mutex_is v) (makeRoom env)"
  by (simp_all add: turnedToUsed_def inactivateLRU_def acquireFree_def startEvict_def makeRoom_def pres_rules)

lemma mutex_logEvict [pres_rules]: "pres (mutex_is v) (logEvictBlock env info)"
proof -
  have "pres (mutex_is v) (\<lambda>w. let path = p w in if \<not> posix_access path (w_store w) then (Inl e1, w)
        else case Manifest_new g path (w_store w) of
          (Inl e, st) \<Rightarrow> (Inl e, w\<lparr>w_store := st\<rparr>)
        | (Inr m, st) \<Rightarrow> (case q (st, m) of (r, (st', _)) \<Rightarrow> (r, w\<lparr>w_store := st'\<rparr>)))" for p e1 g q
    by (auto simp: pres_def Let_def mutex_is_def split: prod.splits sum.splits)
  then show ?thesis unfolding logEvictBlock_def by (subst Let_def) (intro pres_rules)
qed

lemma mutex_acquire_rounds: "pres (mutex_is v) (acquire_rounds env n s)"
proof (induction n arbitrary: s)
  case (Suc n)
  have "pres (mutex_is v) (acquireRound env s)"
    by (simp add: acquireRound_def Let_def case_prod_unfold finishEvict_def pres_rules)
  with Suc show ?case by (simp add: pres_rules)
qed (simp add: pres_rules)

lemma mutex_blocks [pres_rules]:
  "pres (mutex_is v) (ensurePreAllocated env)" "pres (mutex_is v) (extendOneBlock env)" "pres (mutex_is v) (activateBlock env b)"
  by (simp_all add: ensurePreAllocated_def acquireNewBlocks_def acquireSection1_def extendOneBlock_def activateBlock_def
      Let_def mutex_acquire_rounds pres_rules)

lemma mutex_preActivate [pres_rules]: "pres (mutex_is v) (preActivate env b k n)"
  by (induction n arbitrary: k) (simp_all add: pres_rules)

text \<open>Inside the mutex an exception leaves it locked; only the normal path unlocks.\<close>

abbreviation stuck :: "gw_error \<Rightarrow> 'o World \<Rightarrow> bool" where
  "stuck e w \<equiv> (\<exists>c. e = Exn c) \<longrightarrow> mutex_is True w"

lemma wp_unlockLoadMutex: "(\<And>w'. Q () w') \<Longrightarrow> wp unlockLoadMutex Q E w"
  by (simp add: unlockLoadMutex_def wp_simps modFile_def)

lemma wp_runTask: "(\<And>w'. Q () w') \<Longrightarrow> wp (runTask env) Q stuck w"
  by (auto simp: runTask_def wp_simps wp_def run_catchExn run_simps split: list.splits prod.splits sum.splits gw_error.splits)

lemma mutex_section:
  assumes "pres (mutex_is True) m" and "\<And>x v. wp (f x) Q stuck v"
  shows "wp (seqE lockLoadMutex (bindE m f)) Q stuck w"
proof -
  have "wp m (\<lambda>x. wp (f x) Q stuck) stuck v" if "mutex_is True v" for v
    by (rule wp_mono [OF pres_wp [OF assms(1) that]]) (auto intro: assms(2))
  then show ?thesis
    by (simp add: lockLoadMutex_def wp_simps getFile_def modFile_def mutex_is_def)
qed

lemma wp_waitActive: "wp (waitActive env b n) (\<lambda>_ _. True) stuck w"
proof (induction n arbitrary: w)
  case 0
  show ?case by (simp add: wp_simps)
next
  case (Suc n)
  let ?m = "bindE (isMyActiveBlock b) (\<lambda>mine.
     if mine then retE True
     else bindE (isBlockLoading b) (\<lambda>loading.
       if loading then retE False
       else bindE (activateBlock env b) (\<lambda>rc. retE (rc = 1))))"
  have eq: "waitActive env b (Suc n) = seqE lockLoadMutex (bindE ?m (\<lambda>finished.
      seqE unlockLoadMutex (if finished then retE () else seqE (runTask env) (waitActive env b n))))"
    by (simp add: bindE_assoc)
  have "pres (mutex_is True) ?m" by (simp add: pres_rules)
  then show ?case
    unfolding eq by (rule mutex_section) (auto simp: wp_sequence Suc intro!: wp_unlockLoadMutex wp_runTask)
qed

text \<open>
  C32 An exception while a block is made available leaves \<^verbatim>\<open>mLoadMutex\<close> locked, and every later attempt of
  the process to make a block of the file available waits for ever.
\<close>

theorem load_mutex_left_locked:
  assumes "adjustActiveBlock env b w = (Inl (Exn c), w')"
  shows "mLoadMutex (w_file w') \<and> adjustActiveBlock env b' w' = (Inl OutOfFuel, w')"
proof -
  let ?m = "bindE (getFile getNumBlocks) (\<lambda>n.
      seqE (if b + 1 > n then extendOneBlock env
           else bindE getCurQuota (\<lambda>q.
             preActivate env b 0
               (nat (if q > PRE_ACTIVATE_BLOCK_NUM (e_cfg env) then PRE_ACTIVATE_BLOCK_NUM (e_cfg env) else q))))
      (isMyActiveBlock b))"
  have eq: "adjustActiveBlock env b = seqE lockLoadMutex (bindE ?m (\<lambda>mine.
      seqE unlockLoadMutex (whenE (\<not> mine) (waitActive env b (e_fuel env)))))"
    by (simp add: adjustActiveBlock_def bindE_assoc seqE_def)
  have "pres (mutex_is True) ?m" by (simp add: pres_rules)
  then have "wp (adjustActiveBlock env b) (\<lambda>_ _. True) stuck w"
    unfolding eq by (rule mutex_section) (auto simp: wp_sequence wp_whenE wp_waitActive intro!: wp_unlockLoadMutex)
  from wp_throwD [OF this assms] have "mLoadMutex (w_file w')" by (simp add: mutex_is_def)
  then show ?thesis by (simp add: adjustActiveBlock_def lockLoadMutex_def getFile_def run_simps)
qed


text \<open>
  A process whose object store refuses everything, in a region of two buckets that are both
  active for another file: the first block of a new file cannot get a bucket.
\<close>

definition null_oss :: "unit OssApi" where
  "null_oss = \<lparr>ossPutObject = (\<lambda>_ _ s. (None, s)), ossWrite = (\<lambda>_ _ _ s. (- 1, s)), ossCloseObject = (\<lambda>_ s. s),
     ossHeadObject = (\<lambda>_ _ s. (None, s)), ossGetObject = (\<lambda>_ _ _ _ s. (None, s)), ossRead = (\<lambda>_ _ s. (None, s)),
     ossDeleteObject = (\<lambda>_ _ s. (- 1, s))\<rparr>"

definition env0 :: "unit Env" where
  "env0 = \<lparr>e_io = \<lparr>io_cfg = space_cfg, io_oss = null_oss, io_host = ''h'', io_bucket = ''b''\<rparr>, e_pid = 55,
     e_buildContext = False, e_pad = 0, e_garbage = [], e_freed = id, e_fuel = 10\<rparr>"

definition busy_world :: "unit World" where
  "busy_world = (let w = world0 []; s1 = snd (registFile 44 \<lparr>hashcode = 3, collisionId = 0\<rparr> True False (w_shm w))
     in w\<lparr>w_shm := snd (acquireFreeBucket 0 2 \<lparr>hashcode = 3, collisionId = 0\<rparr> True s1)\<rparr>)"

lemma busy_world_throws: "fst (adjustActiveBlock env0 0 busy_world) = Inl (Exn GopherwoodNotImplException)"
  by code_simp

theorem load_mutex_left_locked_witness:
  "\<exists>w'. adjustActiveBlock env0 0 busy_world = (Inl (Exn GopherwoodNotImplException), w') \<and>
     mLoadMutex (w_file w') \<and> adjustActiveBlock env0 0 w' = (Inl OutOfFuel, w')"
proof -
  obtain w' where w: "adjustActiveBlock env0 0 busy_world = (Inl (Exn GopherwoodNotImplException), w')"
    using busy_world_throws by (metis prod.exhaust fst_conv)
  with load_mutex_left_locked [OF w, of 0] show ?thesis by blast
qed


end
