(* ===== verification/GW_ClientProps.thy ===== *)
theory GW_ClientProps
  imports GW_FileSystem GW_Locking
begin

unbundle bit_operations_syntax

text \<open>
  What a client of the C interface can rely on: reading at the end of the file,
  seeking, opening files that do not exist, accepted configurations; and three calls that do not
  do what their names promise.
\<close>

section \<open>Position and end of file\<close>

text \<open>
  Reading at the end of the file returns 0 bytes and changes nothing, in whatever amount
  the caller asks for.
\<close>

theorem read_at_eof:
  assumes "mPos (w_file w) = mEof (w_file w)" and "0 \<le> n"
  shows "gwRead env n ((w, f), errno) = (Inr (0, []), ((w, f), errno))"
  using assms by (simp add: gwRead_def api_def File_read_def File_remaining_def liftW_def getFile_def run_simps)

theorem read_at_eof_witness:
  "gwRead env0 10 ((world0 [], File_new (mFileId status0) ''a'' GW_RDONLY), 0) =
     (Inr (0, []), ((world0 [], File_new (mFileId status0) ''a'' GW_RDONLY), 0))"
  using read_at_eof [of "world0 []" 10 env0] by (simp add: world0_def status0_def)

lemma run_liftW: "liftW m (w, f) = (case m w of (r, w') \<Rightarrow> (r, (w', f)))"
  by (simp add: liftW_def run_simps)

lemma setPosition_inside:
  "pos \<le> mEof (w_file w) \<Longrightarrow> setPosition env pos w = (Inr (), w\<lparr>w_file := (w_file w)\<lparr>mPos := pos\<rparr>\<rparr>)"
  by (simp add: setPosition_def run_simps modFile_def getFile_def)

text \<open>
  Seeking to a position within the file moves there and nowhere else and returns the new
  position, from each of the three starting points; a target before the start of the file, and for a
  file opened for reading a target beyond its end, is refused with \<^verbatim>\<open>EINVALIDPARM\<close> and moves nothing.
\<close>

theorem seek_outcome:
  assumes "target = (case mode of Seek_Set \<Rightarrow> pos | Seek_Cur \<Rightarrow> mPos (w_file w) + pos
      | Seek_End \<Rightarrow> mEof (w_file w) + pos | Seek_Other \<Rightarrow> - 1)"
    and "target \<le> mEof (w_file w) \<or> \<not> canWrite (f_flags f)"
    and "0 \<le> mEof (w_file w)"
  shows "gwSeek env pos mode ((w, f), errno) =
    (if 0 \<le> target \<and> target \<le> mEof (w_file w)
     then (Inr target, ((w\<lparr>w_file := (w_file w)\<lparr>mPos := target\<rparr>\<rparr>, f), errno))
     else (Inr (- 1), ((w, f), EINVALIDPARM)))"
  using assms
  by (auto simp: gwSeek_def api_def File_seek_def run_liftW run_simps getFile_def Let_def setPosition_inside
      handleException_values split: seek_mode.splits)

theorem seek_outcome_witness:
  "gwSeek env0 (- 3) Seek_End ((world0 [], File_new (mFileId status0) ''a'' GW_RDONLY), 0) =
     (Inr (- 1), ((world0 [], File_new (mFileId status0) ''a'' GW_RDONLY), EINVALIDPARM))"
proof -
  have "mEof (w_file (world0 [])) = 0" by (simp add: world0_def status0_def)
  then show ?thesis using seek_outcome [where mode = Seek_End and pos = "- 3" and target = "- 3" and w = "world0 []"] by simp
qed

section \<open>Opening\<close>

text \<open>
  Opening a file that does not exist, without asking for its creation, returns no handle, sets
  \<^verbatim>\<open>EINVALIDPARM\<close> and leaves no trace: neither a slot in the shared memory nor a manifest.
\<close>

theorem open_missing_file:
  assumes "\<not> gwFileExists hasher name w" and "flags AND GW_CREAT = 0"
  shows "gwOpenFile env hasher name flags (w, errno) = (Inr None, (w, EINVALIDPARM))"
  using assms
  by (simp add: gwOpenFile_def gwFileExists_def fs_exists_def api_def OpenFile_def openFileActiveStatus_def
      FileActiveStatus_new_def run_simps Let_def handleException_values)

theorem open_missing_file_witness:
  "gwOpenFile env0 (\<lambda>_. 5) ''a'' GW_RDWR (world0 [], 0) = (Inr None, (world0 [], EINVALIDPARM))"
proof -
  have "\<not> gwFileExists (\<lambda>_. 5) ''a'' (world0 [])" "GW_RDWR AND GW_CREAT = 0" by code_simp+
  then show ?thesis by (rule open_missing_file)
qed

section \<open>Configuration\<close>

text \<open>
  A context accepts exactly the configurations with a directory, positive sizes and a known log
  level. The quota it gives every file is the number of blocks divided by the number of
  connections, and it is zero, so that no file can get a bucket, when there are more connections
  than blocks; that case is not refused.
\<close>

theorem accepted_configuration:
  assumes "cc_numBlocks c < 2 ^ 31"
  shows "((\<exists>cfg'. gwCreateContext_config dir (Some c) cfg = Inr cfg') \<longleftrightarrow>
      dir \<noteq> [] \<and> 0 < cc_numBlocks c \<and> 0 < cc_blockSize c \<and> 0 < cc_numPreDefinedConcurrency c \<and>
      0 \<le> cc_severity c \<and> cc_severity c < 5) \<and>
    (\<forall>cfg'. gwCreateContext_config dir (Some c) cfg = Inr cfg' \<longrightarrow>
      unat (getCurQuotaSize cfg') = nat (cc_numBlocks c div cc_numPreDefinedConcurrency c) \<and>
      (getCurQuotaSize cfg' = 0 \<longleftrightarrow> cc_numBlocks c < cc_numPreDefinedConcurrency c))"
proof (intro conjI allI impI)
  show "(\<exists>cfg'. gwCreateContext_config dir (Some c) cfg = Inr cfg') \<longleftrightarrow>
      dir \<noteq> [] \<and> 0 < cc_numBlocks c \<and> 0 < cc_blockSize c \<and> 0 < cc_numPreDefinedConcurrency c \<and>
      0 \<le> cc_severity c \<and> cc_severity c < 5"
    by (auto simp: gwCreateContext_config_def)
next
  fix cfg'
  assume "gwCreateContext_config dir (Some c) cfg = Inr cfg'"
  then have v: "0 < cc_numBlocks c" "0 < cc_numPreDefinedConcurrency c"
    "NUMBER_OF_BLOCKS cfg' = cc_numBlocks c" "CUR_CONNECTION cfg' = cc_numPreDefinedConcurrency c"
    by (auto simp: gwCreateContext_config_def split: if_splits)
  show u: "unat (getCurQuotaSize cfg') = nat (cc_numBlocks c div cc_numPreDefinedConcurrency c)"
    using getCurQuotaSize_unat [of cfg'] v assms by simp
  have "getCurQuotaSize cfg' = 0 \<longleftrightarrow> unat (getCurQuotaSize cfg') = 0" by (simp add: unat_eq_0)
  also have "\<dots> \<longleftrightarrow> \<not> 0 < cc_numBlocks c div cc_numPreDefinedConcurrency c" using u by auto
  also have "\<dots> \<longleftrightarrow> cc_numBlocks c < cc_numPreDefinedConcurrency c"
    using pos_imp_zdiv_pos_iff [OF v(2)] by (simp add: not_le)
  finally show "getCurQuotaSize cfg' = 0 \<longleftrightarrow> cc_numBlocks c < cc_numPreDefinedConcurrency c" .
qed

theorem accepted_configuration_witness:
  "\<exists>cfg'. gwCreateContext_config ''/d''
      (Some \<lparr>cc_numBlocks = 4, cc_blockSize = 8, cc_numPreDefinedConcurrency = 5, cc_severity = 2\<rparr>)
      (default_configuration True) = Inr cfg' \<and> getCurQuotaSize cfg' = 0"
proof -
  let ?c = "\<lparr>cc_numBlocks = 4, cc_blockSize = 8, cc_numPreDefinedConcurrency = 5, cc_severity = 2\<rparr>"
  from accepted_configuration [of ?c "''/d''" "default_configuration True"] show ?thesis by auto
qed

section \<open>Calls that do not do what they promise\<close>

text \<open>
  \<^verbatim>\<open>gwWrite\<close> on a handle opened for reading does not report an error: the file has no output stream,
  and the call dereferences a null pointer, whatever is to be written.
\<close>

theorem write_on_reading_handle:
  assumes "\<not> canWrite flags"
  shows "gwWrite env data ((w, File_new fileId name flags), errno) =
    (Inl BadAccess, ((w, File_new fileId name flags), errno))"
  using assms
  by (simp add: gwWrite_def api_def File_write_def OutputStream_write_def run_simps getOut_def File_new_def)

theorem write_on_reading_handle_witness:
  "gwWrite env0 [1] ((world0 [], File_new FileId_new ''a'' GW_RDONLY), 0) =
     (Inl BadAccess, ((world0 [], File_new FileId_new ''a'' GW_RDONLY), 0))"
proof -
  have "\<not> canWrite GW_RDONLY" by code_simp
  then show ?thesis by (rule write_on_reading_handle)
qed

text \<open>
  C40 \<^verbatim>\<open>gwEvictBlocks\<close> never succeeds: with an accepted number of blocks its loop has no end but an
  exception, so the only value it returns is -1.
\<close>

theorem evict_never_succeeds:
  assumes "gwEvictBlocks env num (w, errno) = (Inr k, s')"
  shows "k = - 1"
proof (cases "num > 0 \<and> num < NUMBER_OF_BLOCKS (e_cfg env)")
  case False
  then show ?thesis using assms by (simp add: gwEvictBlocks_def split: if_splits)
next
  case True
  then have "fst (evictNumOfBlocks env num w) \<noteq> Inr j" for j
    by (simp add: evictNumOfBlocks_def evict_rounds_no_return)
  then show ?thesis
    using assms True
    by (auto simp: gwEvictBlocks_def api_def split: prod.splits sum.splits gw_error.splits option.splits)
qed

text \<open>A region with one used bucket and an administrator, whose object store refuses the block.\<close>

definition evict_world :: "unit World" where
  "evict_world =
     (let w = world0 []; f = \<lparr>hashcode = 7, collisionId = 0\<rparr>;
          s1 = snd (acquireFreeBucket 0 1 f True (snd (registFile 55 f True False (w_shm w))));
          s2 = snd (inactivateBuckets [Block_new 0 0 True BUCKET_ACTIVE] f 0 True s1);
          s3 = snd (registAdmin 55 s2)
      in w\<lparr>w_shm := s3, w_admin := \<lparr>ad_activeId = 1, ad_numEvicted = 0\<rparr>\<rparr>)"

lemma evict_world_run: "fst (gwEvictBlocks env0 1 (evict_world, 0)) = Inr (- 1)"
  by code_simp

theorem evict_never_succeeds_witness:
  "\<exists>k s'. gwEvictBlocks env0 1 (evict_world, 0) = (Inr k, s') \<and> k = - 1"
proof -
  obtain k s' where "gwEvictBlocks env0 1 (evict_world, 0) = (Inr k, s')"
    using evict_world_run by (metis prod.exhaust fst_conv)
  with evict_never_succeeds [OF this] show ?thesis by blast
qed

end
