(* ===== verification/GW_ContextProps.thy ===== *)
theory GW_ContextProps
  imports GW_Context GW_ClientProps
begin

unbundle bit_operations_syntax

text \<open>
  Properties of contexts: creating one and destroying it leaves the region as it was; a creation that
  fails keeps the lock that all other processes wait for. The last section is about every function
  of the C interface: how it reports the exceptions of its body.
\<close>

section \<open>The administrator's slot\<close>


text \<open>The first free slot, and the region with the administrator in it.\<close>

definition free_slot :: "SharedMemoryContext \<Rightarrow> nat option" where
  "free_slot s = (case filter (\<lambda>i. pid (activeStatus s ! i) = InvalidPid) [0..<length (activeStatus s)] of
     [] \<Rightarrow> None | i # _ \<Rightarrow> Some i)"







section \<open>Building the region\<close>



section \<open>Creating and destroying a context\<close>

text \<open>The settings of the object store can be read, or have been, and the object store accepts them.\<close>

definition oss_ready :: "'o HostEnv \<Rightarrow> OssBuilder option \<Rightarrow> bool" where
  "oss_ready he ob \<longleftrightarrow> (case getInstance (he_getenv he) (he_opendir he) (he_ifstream he) ob of
     (Inl _, _) \<Rightarrow> False
   | (Inr b, _) \<Rightarrow> (case buildContext (he_ossInit he) b of Inl _ \<Rightarrow> False | Inr _ \<Rightarrow> True))"





text \<open>A configuration a region can be created with; a region that is there is sound, not locked and has a free slot.\<close>

definition region_ready :: "Configuration \<Rightarrow> 'o Host \<Rightarrow> bool" where
  "region_ready cfg h \<longleftrightarrow>
     (if h_regionThere h
      then shm_inv (w_shm (h_world h)) \<and> h_flags (header (w_shm (h_world h))) = 0 \<and> free_slot (w_shm (h_world h)) \<noteq> None
      else 0 < NUMBER_OF_BLOCKS cfg \<and> NUMBER_OF_BLOCKS cfg < 2 ^ 31 \<and> 0 < MAX_CONNECTION cfg \<and> MAX_CONNECTION cfg < 32768)"




text \<open>A machine without a region, a configuration file, and a process.\<close>

definition host0 :: "unit Host" where
  "host0 = \<lparr>h_world = world0 [], h_regionThere = False, h_lockOwner = None, h_config = space_cfg,
     h_logger = Logger_new, h_ossBuilder = None, h_ossContext = None, h_ossBucket = []\<rparr>"

definition host_env0 :: "unit HostEnv" where
  "host_env0 = \<lparr>he_env = env0, he_getenv = (\<lambda>_. Some ''/c''), he_opendir = (\<lambda>_. False),
     he_ifstream = (\<lambda>_. Some ''oss.type=S3''), he_ossInit = (\<lambda>_ _ _ _ _ _ _. Some 1),
     he_createFails = False, he_mapFails = False\<rparr>"

lemma host0_facts:
  "gwCreateContext_config ''/w'' None (h_config host0) = Inr space_cfg"
  "\<not> he_createFails host_env0" "\<not> he_mapFails host_env0" "h_lockOwner host0 = None" "w_sched (h_world host0) = []"
  "oss_ready host_env0 (h_ossBuilder host0)" "region_ready space_cfg host0"
proof -
  show "oss_ready host_env0 (h_ossBuilder host0)"
    by (simp add: oss_ready_def getInstance_def run_simps host_env0_def host0_def OssBuilder_new_def buildOssInfo_def
        conf_path_def buildContext_def Let_def)
qed (simp_all add: host0_def host_env0_def gwCreateContext_config_def world0_def region_ready_def space_cfg_def default_configuration_def)


section \<open>Failures keep the lock\<close>

lemma posix_open_openFails: "posix_open path st = (fd, st') \<Longrightarrow> openFails st' = openFails st"
  by (auto simp: posix_open_def split: if_splits option.splits)

text \<open>The constructor up to the region, when the lock file can be opened.\<close>

lemma FileSystem_build:
  fixes h :: "'o Host"
  assumes "\<not> openFails (w_store (h_world h)) (dir @ ''/SmLock'')"
  shows "\<exists>fd st. openFails st = openFails (w_store (h_world h)) \<and>
    (\<forall>e g. buildSharedMemoryContext he dir (Some fd) (h\<lparr>h_world := (h_world h)\<lparr>w_store := st\<rparr>\<rparr>) = (Inl e, g) \<longrightarrow>
      FileSystem_new he dir h = (Inl e, g))"
proof -
  obtain lf st1 where o1: "posix_open (dir @ ''/'' @ LOCAL_SPACE_FILE) (w_store (h_world h)) = (lf, st1)" by fastforce
  obtain kf st2 where o2: "posix_open (dir @ ''/SmLock'') st1 = (kf, st2)" by fastforce
  have "openFails st1 = openFails (w_store (h_world h))" using o1 by (rule posix_open_openFails)
  moreover have "openFails st2 = openFails st1" using o2 by (rule posix_open_openFails)
  moreover obtain fd where "kf = Some fd"
    using o2 assms calculation(1) by (auto simp: posix_open_def split: option.splits)
  ultimately show ?thesis
    using o1 o2 by (intro exI [of _ fd] exI [of _ st2]) (simp add: FileSystem_new_def run_simps host_open_def)
qed

text \<open>
  C37 When the region cannot be created \<^verbatim>\<open>gwCreateContext\<close> returns no context and sets \<^verbatim>\<open>ESYNC\<close>, but the process
  keeps the lock of the file \<^verbatim>\<open>SmLock\<close>: any other process that creates a context afterwards, in the
  same directory and with the same settings, waits for it and does not return.
\<close>

theorem failed_creation_keeps_lock:
  fixes h :: "'o Host"
  assumes "gwCreateContext_config dir config (h_config h) = Inr cfg" and "he_createFails he"
    and "\<not> h_regionThere h" and "h_lockOwner h = None" and "\<not> openFails (w_store (h_world h)) (dir @ ''/SmLock'')"
    and "e_pid (he_env he') \<noteq> e_pid (he_env he)"
  shows "\<exists>h1. gwCreateContext he dir config (h, errno) = (Inr None, (h1, ESYNC)) \<and>
    h_lockOwner h1 = Some (e_pid (he_env he)) \<and>
    fst (gwCreateContext he' dir None (h1, errno')) = Inl OutOfFuel"
proof -
  let ?p = "e_pid (he_env he)"
  define h0 where "h0 = h\<lparr>h_config := cfg,
      h_logger := (case config of None \<Rightarrow> h_logger h | Some c \<Rightarrow> gwSetLogSeverity (cc_severity c) (h_logger h))\<rparr>"
  have lockable: "\<not> openFails (w_store (h_world h0)) (dir @ ''/SmLock'')" using assms(5) by (simp add: h0_def)
  obtain fd st where st: "openFails st = openFails (w_store (h_world h0))"
    and fs: "\<forall>e g. buildSharedMemoryContext he dir (Some fd) (h0\<lparr>h_world := (h_world h0)\<lparr>w_store := st\<rparr>\<rparr>) = (Inl e, g) \<longrightarrow>
      FileSystem_new he dir h0 = (Inl e, g)"
    using FileSystem_build [OF lockable, of he] by blast
  define h1 where "h1 = h0\<lparr>h_world := (h_world h0)\<lparr>w_store := st\<rparr>, h_lockOwner := Some ?p\<rparr>"
  have "buildSharedMemoryContext he dir (Some fd) (h0\<lparr>h_world := (h_world h0)\<lparr>w_store := st\<rparr>\<rparr>) =
      (Inl (Exn GopherwoodSyncException), h1)"
    using assms(2-4) by (simp add: buildSharedMemoryContext_def run_simps lockf_lock_def createSharedMemory_def h0_def h1_def)
  then have create: "gwCreateContext he dir config (h, errno) = (Inr None, (h1, ESYNC))"
    using fs assms(1) by (simp add: gwCreateContext_def api_def run_simps h0_def handleException_values)
  have free: "\<not> openFails (w_store (h_world h1)) (dir @ ''/SmLock'')" using st assms(5) by (simp add: h1_def h0_def)
  have dir: "dir \<noteq> []" using assms(1) by (auto simp: gwCreateContext_config_def)
  obtain fd' st' where fs': "\<forall>e g. buildSharedMemoryContext he' dir (Some fd') (h1\<lparr>h_world := (h_world h1)\<lparr>w_store := st'\<rparr>\<rparr>) = (Inl e, g) \<longrightarrow>
      FileSystem_new he' dir h1 = (Inl e, g)"
    using FileSystem_build [OF free, of he'] by blast
  have "FileSystem_new he' dir h1 = (Inl OutOfFuel, h1\<lparr>h_world := (h_world h1)\<lparr>w_store := st'\<rparr>\<rparr>)"
    using assms(6) by (intro fs' [rule_format]) (auto simp: buildSharedMemoryContext_def run_simps lockf_lock_def h1_def)
  then have "fst (gwCreateContext he' dir None (h1, errno')) = Inl OutOfFuel"
    using dir by (simp add: gwCreateContext_def gwCreateContext_config_def api_def run_simps h1_def h0_def)
  then show ?thesis using create by (auto simp: h1_def)
qed

theorem failed_creation_keeps_lock_witness:
  "\<exists>h1. gwCreateContext (host_env0\<lparr>he_createFails := True\<rparr>) ''/w'' None (host0, 0) = (Inr None, (h1, ESYNC)) \<and>
    h_lockOwner h1 = Some 55 \<and>
    fst (gwCreateContext (host_env0\<lparr>he_env := env0\<lparr>e_pid := 78\<rparr>\<rparr>) ''/w'' None (h1, 0)) = Inl OutOfFuel"
proof -
  have "\<not> openFails (w_store (h_world host0)) (''/w'' @ ''/SmLock'')" by code_simp
  then show ?thesis
    using failed_creation_keeps_lock [OF host0_facts(1), of "host_env0\<lparr>he_createFails := True\<rparr>" "host_env0\<lparr>he_env := env0\<lparr>e_pid := 78\<rparr>\<rparr>" 0 0]
    by (simp add: host0_def host_env0_def env0_def)
qed

section \<open>Errors\<close>





end
