(* ===== verification/GW_FileProps.thy ===== *)
theory GW_FileProps
  imports GW_ClientProps
begin

text \<open>
  A file whose blocks are active in its opening is an array of bytes. The bytes are spread over the
  buckets of the local space, in the order of the file's block array; reading, writing and seeking
  through the C interface act on them as on one array, across the boundaries of blocks.
\<close>

section \<open>The bytes of a file\<close>

abbreviation bucket_size :: "Configuration \<Rightarrow> nat" where
  "bucket_size cfg \<equiv> nat (LOCAL_BUCKET_SIZE cfg)"

text \<open>Where in the local space a byte of the file is, given the buckets of its blocks.\<close>

definition layout :: "FileActiveStatus \<Rightarrow> (bool \<times> int) list" where
  "layout f = map (\<lambda>b. (isLocal b, bk_bucketId b)) (mBlockArray f)"

definition place :: "Configuration \<Rightarrow> (bool \<times> int) list \<Rightarrow> nat \<Rightarrow> nat" where
  "place cfg ls p = nat (snd (ls ! (p div bucket_size cfg))) * bucket_size cfg + p mod bucket_size cfg"

abbreviation local_bytes :: "'o World \<Rightarrow> byte list" where
  "local_bytes w \<equiv> file_bytes (w_store w) (fd_inode (w_localFd w))"

definition content :: "Configuration \<Rightarrow> 'o World \<Rightarrow> byte list" where
  "content cfg w = map (\<lambda>p. byte_at (local_bytes w) (place cfg (layout (w_file w)) p)) [0..<nat (mEof (w_file w))]"

text \<open>
  Every block is local, in a bucket of its own, and active in this opening; the file ends within its
  blocks, and the local space has all its bytes.
\<close>

definition placed :: "Configuration \<Rightarrow> 'o World \<Rightarrow> bool" where
  "placed cfg w \<longleftrightarrow>
     0 < LOCAL_BUCKET_SIZE cfg \<and> LOCAL_BUCKET_SIZE cfg < 2 ^ 31 \<and>
     length (layout (w_file w)) < 2 ^ 31 \<and> distinct (map snd (layout (w_file w))) \<and>
     (\<forall>(loc, bucket) \<in> set (layout (w_file w)). loc \<and> 0 \<le> bucket) \<and>
     (case mLRUCache (w_file w) of None \<Rightarrow> False
      | Some c \<Rightarrow> list_all (\<lambda>k. lru_exists (int k) c) [0..<length (layout (w_file w))]) \<and>
     0 \<le> mPos (w_file w) \<and> mPos (w_file w) \<le> mEof (w_file w) \<and>
     nat (mEof (w_file w)) \<le> length (layout (w_file w)) * bucket_size cfg \<and>
     fd_inode (w_localFd w) < length (inodes (w_store w)) \<and>
     list_all (\<lambda>p. place cfg (layout (w_file w)) p < length (local_bytes w)) [0..<nat (mEof (w_file w))]"

text \<open>Nobody is in the middle of adjusting the blocks.\<close>

definition resident :: "Configuration \<Rightarrow> 'o World \<Rightarrow> bool" where
  "resident cfg w \<longleftrightarrow> placed cfg w \<and> \<not> mLoadMutex (w_file w)"

text \<open>The file moved its position, and counted uses of its blocks.\<close>

definition unused :: "Block list \<Rightarrow> Block list" where
  "unused = map (\<lambda>b. b\<lparr>bk_usageCount := 0\<rparr>)"

lemma unused_layout:
  assumes "unused arr = unused arr'"
  shows "map (\<lambda>b. (isLocal b, bk_bucketId b)) arr = map (\<lambda>b. (isLocal b, bk_bucketId b)) arr'"
  using arg_cong [OF assms, of "map (\<lambda>b. (isLocal b, bk_bucketId b))"] by (simp add: unused_def comp_def)

definition moved :: "int \<Rightarrow> 'o World \<Rightarrow> 'o World \<Rightarrow> bool" where
  "moved pos w w' \<longleftrightarrow> (\<exists>off arr. w' = w\<lparr>w_localFd := (w_localFd w)\<lparr>fd_off := off\<rparr>,
       w_file := (w_file w)\<lparr>mPos := pos, mBlockArray := arr\<rparr>\<rparr> \<and>
     unused arr = unused (mBlockArray (w_file w)))"

lemma moved_facts:
  assumes "moved pos w w'"
  shows "layout (w_file w') = layout (w_file w)" "mEof (w_file w') = mEof (w_file w)" "mPos (w_file w') = pos"
    "mLoadMutex (w_file w') = mLoadMutex (w_file w)" "mLRUCache (w_file w') = mLRUCache (w_file w)"
    "w_store w' = w_store w" "fd_inode (w_localFd w') = fd_inode (w_localFd w)"
  using assms by (auto simp: moved_def layout_def dest: unused_layout)

lemma moved_content: "moved pos w w' \<Longrightarrow> content cfg w' = content cfg w"
  by (simp add: content_def moved_facts)

lemma moved_resident: "moved pos w w' \<Longrightarrow> resident cfg w \<Longrightarrow> 0 \<le> pos \<Longrightarrow> pos \<le> mEof (w_file w) \<Longrightarrow> resident cfg w'"
  by (simp add: resident_def placed_def moved_facts cong: option.case_cong)

lemma moved_trans:
  assumes "moved p w w'" and "moved q w' w''"
  shows "moved q w w''"
proof -
  from assms(1) obtain off arr where 1: "w' = w\<lparr>w_localFd := (w_localFd w)\<lparr>fd_off := off\<rparr>,
      w_file := (w_file w)\<lparr>mPos := p, mBlockArray := arr\<rparr>\<rparr>" "unused arr = unused (mBlockArray (w_file w))" by (auto simp: moved_def)
  from assms(2) obtain off' arr' where 2: "w'' = w'\<lparr>w_localFd := (w_localFd w')\<lparr>fd_off := off'\<rparr>,
      w_file := (w_file w')\<lparr>mPos := q, mBlockArray := arr'\<rparr>\<rparr>"
    "unused arr' = unused (mBlockArray (w_file w'))" by (auto simp: moved_def)
  show ?thesis
    unfolding moved_def using 1 2 by (intro exI [of _ off'] exI [of _ arr']) simp
qed

section \<open>Finding the current block\<close>

lemma sdiv_nat: "0 < b \<Longrightarrow> int a sdiv b = int (a div nat b)" and smod_nat: "0 < b \<Longrightarrow> int a smod b = int (a mod nat b)"
  by (cases a; simp add: signed_divide_int_def signed_modulo_int_def zdiv_int zmod_int sgn_if)+

lemma lruE_gets: "mLRUCache (w_file w) = Some c \<Longrightarrow> lruE (getsE g) w = (Inr (g c), w)"
  by (simp add: lruE_def run_simps)

text \<open>No block has to be activated.\<close>

lemma preActivate_active:
  fixes w :: "'o World"
  assumes "mLRUCache (w_file w) = Some c" and "\<forall>k < length (mBlockArray (w_file w)). lru_exists (int k) c"
    and "length (mBlockArray (w_file w)) < 2 ^ 31"
  shows "preActivate env (int k) counter left w = (Inr (), w)"
proof (induction left arbitrary: counter)
  case (Suc left)
  have n: "getNumBlocks (w_file w) = int (length (mBlockArray (w_file w)))" using assms(3) by (simp add: getNumBlocks_def int32_id)
  have "lru_exists (int k + int counter) c" if "int k + int counter + 1 \<le> int (length (mBlockArray (w_file w)))"
    using assms(2) that by (metis add1_zle_eq of_nat_add of_nat_less_iff)
  then show ?case
    using Suc n assms(1) by (simp add: run_simps getFile_def isMyActiveBlock_def lruE_gets)
qed (simp add: run_simps)

text \<open>The block of the current position is found without a change but to its usage count.\<close>

lemma adjustActiveBlock_active:
  fixes w :: "'o World"
  assumes "resident cfg w" and "k < length (mBlockArray (w_file w))"
  shows "adjustActiveBlock env (int k) w = (Inr (), w)"
proof -
  obtain c where c: "mLRUCache (w_file w) = Some c" "\<forall>k < length (mBlockArray (w_file w)). lru_exists (int k) c"
    using assms(1) by (auto simp: resident_def placed_def layout_def list_all_iff split: option.splits)
  have len: "length (mBlockArray (w_file w)) < 2 ^ 31" and mtx: "\<not> mLoadMutex (w_file w)"
    using assms(1) by (simp_all add: resident_def placed_def layout_def)
  let ?w = "w\<lparr>w_file := (w_file w)\<lparr>mLoadMutex := True\<rparr>\<rparr>"
  have n: "getNumBlocks (w_file ?w) = int (length (mBlockArray (w_file w)))" using len by (simp add: getNumBlocks_def int32_id)
  have "preActivate env (int k) 0 left ?w = (Inr (), ?w)" for left
    using c len by (intro preActivate_active [of _ c]) simp_all
  then show ?thesis
    using c n len mtx assms(2)
    by (simp add: adjustActiveBlock_def run_simps lockLoadMutex_def unlockLoadMutex_def getFile_def modFile_def
        isMyActiveBlock_def getCurQuota_def lruE_gets)
qed

text \<open>What the streams get: the bucket of the current block and the offset in it.\<close>

definition block_at :: "Configuration \<Rightarrow> FileActiveStatus \<Rightarrow> nat \<Rightarrow> BlockInfo \<Rightarrow> bool" where
  "block_at cfg f p info \<longleftrightarrow> bi_isLocal info \<and> 0 \<le> bi_bucketId info \<and>
     bi_bucketId info = snd (layout f ! (p div bucket_size cfg)) \<and> bi_offset info = int (p mod bucket_size cfg)"

lemma getCurBlockInfo_active:
  fixes w :: "'o World"
  assumes "resident (e_cfg env) w" and "mPos (w_file w) = int p" and "int p < mEof (w_file w)"
  shows "\<exists>info w'. getCurBlockInfo env w = (Inr info, w') \<and> moved (int p) w w' \<and> block_at (e_cfg env) (w_file w) p info"
proof -
  let ?S = "bucket_size (e_cfg env)" and ?arr = "mBlockArray (w_file w)"
  define k where "k = p div ?S"
  have S: "0 < LOCAL_BUCKET_SIZE (e_cfg env)" "0 < ?S" and len: "length ?arr < 2 ^ 31"
    using assms(1) by (simp_all add: resident_def placed_def layout_def)
  have "p < nat (mEof (w_file w))" using assms(3) by linarith
  moreover have "nat (mEof (w_file w)) \<le> length ?arr * ?S" using assms(1) by (simp add: resident_def placed_def layout_def)
  ultimately have "p < length ?arr * ?S" by simp
  then have k: "k < length ?arr" using S(2) by (simp add: k_def div_less_iff_less_mult)
  let ?b = "?arr ! k"
  have b: "isLocal ?b" "0 \<le> bk_bucketId ?b"
    using assms(1) k by (auto simp: resident_def placed_def layout_def)
  have id: "getCurBlockId (e_cfg env) (w_file w) = int k"
    using assms(2) S(1) k len by (simp add: getCurBlockId_def sdiv_nat k_def int32_id)
  define w' where "w' = w\<lparr>w_file := (w_file w)\<lparr>mBlockArray := ?arr[k := ?b\<lparr>bk_usageCount := int16 (bk_usageCount ?b + 1)\<rparr>]\<rparr>\<rparr>"
  have lay: "unused (?arr[k := ?b\<lparr>bk_usageCount := u\<rparr>]) = unused ?arr" for u
    using k by (simp add: unused_def map_update list_update_same_conv)
  have m: "moved (int p) w w'"
    unfolding moved_def w'_def using assms(2) lay [of "int16 (bk_usageCount ?b + 1)"]
    by (intro exI [of _ "fd_off (w_localFd w)"]
        exI [of _ "?arr[k := ?b\<lparr>bk_usageCount := int16 (bk_usageCount ?b + 1)\<rparr>]"]) simp
  let ?info = "\<lparr>bi_fileId = mFileId (w_file w), bi_blockId = bk_blockId ?b, bi_bucketId = bk_bucketId ?b,
           bi_offset = getCurBlockOffset (e_cfg env) (w_file w), bi_dataSize = 0, bi_isLocal = isLocal ?b\<rparr>"
  have "getCurBlockInfo env w = (Inr ?info, w')"
    using adjustActiveBlock_active [OF assms(1) k, of env] id k assms(2) S(1)
    by (simp add: getCurBlockInfo_def run_simps getFile_def readBlockArray_def writeBlockArray_def w'_def
        getCurBlockOffset_def sdiv_nat k_def [symmetric])
  moreover have "block_at (e_cfg env) (w_file w) p ?info"
    using b k assms(2) S(1) by (simp add: block_at_def layout_def k_def [symmetric] getCurBlockOffset_def smod_nat)
  ultimately show ?thesis using m by blast
qed

section \<open>Reading\<close>

lemma place_add:
  assumes "p mod bucket_size cfg + i < bucket_size cfg"
  shows "place cfg ls (p + i) = place cfg ls p + i"
proof -
  have "p + i = p div bucket_size cfg * bucket_size cfg + (p mod bucket_size cfg + i)" by simp
  moreover have "(a * bucket_size cfg + r) div bucket_size cfg = a" "(a * bucket_size cfg + r) mod bucket_size cfg = r"
    if "r < bucket_size cfg" for a r using that by simp_all
  ultimately have "(p + i) div bucket_size cfg = p div bucket_size cfg" "(p + i) mod bucket_size cfg = p mod bucket_size cfg + i"
    using assms by metis+
  then show ?thesis by (simp add: place_def)
qed

lemma resident_place:
  assumes "resident cfg w" and "0 < n" and "int (p + n) \<le> mEof (w_file w)" and "p mod bucket_size cfg + n \<le> bucket_size cfg"
  shows "place cfg (layout (w_file w)) p + n \<le> length (local_bytes w)"
proof -
  have "p + (n - 1) < nat (mEof (w_file w))" using assms(2,3) by linarith
  then have "place cfg (layout (w_file w)) (p + (n - 1)) < length (local_bytes w)"
    using assms(1) by (simp add: resident_def placed_def list_all_iff)
  moreover have "place cfg (layout (w_file w)) (p + (n - 1)) = place cfg (layout (w_file w)) p + (n - 1)"
    using assms(2,4) by (intro place_add) linarith
  ultimately show ?thesis using assms(2) by simp
qed

lemma block_at_offset:
  assumes "0 < LOCAL_BUCKET_SIZE cfg" and "block_at cfg f p info"
  shows "getLocalSpaceOffset cfg info = int (place cfg (layout f) p)"
  using assms by (simp add: getLocalSpaceOffset_def block_at_def place_def)

lemma block_read:
  fixes w :: "'o World"
  assumes "resident cfg w" and "block_at cfg (w_file w) p info" and "0 < n" and "int (p + n) \<le> mEof (w_file w)"
    and "p mod bucket_size cfg + n \<le> bucket_size cfg"
  shows "ioE (BlockInputStream_read cfg (int n) info) w =
    (Inr ((int n, map (\<lambda>i. byte_at (local_bytes w) (place cfg (layout (w_file w)) (p + i))) [0..<n]),
       info\<lparr>bi_offset := int (p mod bucket_size cfg + n)\<rparr>),
     w\<lparr>w_localFd := (w_localFd w)\<lparr>fd_off := place cfg (layout (w_file w)) p + n\<rparr>\<rparr>)"
proof -
  let ?q = "place cfg (layout (w_file w)) p"
  have S: "0 < LOCAL_BUCKET_SIZE cfg" "LOCAL_BUCKET_SIZE cfg < 2 ^ 31" using assms(1) by (simp_all add: resident_def placed_def)
  have i32: "int32 (int n) = int n" using S(2) assms(5) by (intro int32_id) simp_all
  have "local_read (int n) (w_store w, (w_localFd w)\<lparr>fd_off := ?q\<rparr>, w_oss w) =
      (Inr (int n, take n (drop ?q (local_bytes w))), (w_store w, (w_localFd w)\<lparr>fd_off := ?q + n\<rparr>, w_oss w))"
    using resident_place [OF assms(1,3,4,5)] by (subst local_read_run) simp_all
  moreover have "take n (drop ?q (local_bytes w)) =
      map (\<lambda>i. byte_at (local_bytes w) (place cfg (layout (w_file w)) (p + i))) [0..<n]"
    using resident_place [OF assms(1,3,4,5)] assms(5) by (subst take_drop_bytes) (auto simp: place_add)
  moreover have "bi_offset info = int (p mod bucket_size cfg)" "bi_isLocal info" using assms(2) by (simp_all add: block_at_def)
  moreover have "int (p mod bucket_size cfg + n) \<le> LOCAL_BUCKET_SIZE cfg" using assms(5) S(1) by linarith
  ultimately show ?thesis
    by (simp add: ioE_def BlockInputStream_read_def run_simps Let_def block_at_offset [OF S(1) assms(2)] local_seek_run
        readLocal_def i32)
qed

lemma moved_refl: "mPos (w_file w) = pos \<Longrightarrow> moved pos w w"
  unfolding moved_def by (intro exI [of _ "fd_off (w_localFd w)"] exI [of _ "mBlockArray (w_file w)"]) (simp add: layout_def)

lemma moved_step:
  assumes "moved pos w w1" and "w2 = w1\<lparr>w_localFd := (w_localFd w1)\<lparr>fd_off := off\<rparr>, w_file := (w_file w1)\<lparr>mPos := pos'\<rparr>\<rparr>"
  shows "moved pos' w w2"
proof -
  have "moved pos' w1 w2"
    unfolding moved_def assms(2) by (intro exI [of _ off] exI [of _ "mBlockArray (w_file w1)"]) (simp add: layout_def)
  with assms(1) show ?thesis by (rule moved_trans)
qed

lemma in_loop_nothing: "in_loop env n nu 0 r buf s = (Inr buf, s)"
  by (cases n) (simp_all add: run_simps)

text \<open>A round of a loop transfers what is left of the block, or of the request.\<close>

lemma chunk_bounds:
  fixes p k m S :: nat and eof :: int
  assumes "int (p + k) \<le> eof" and "0 < k" and "0 < S" and "m = min k (S - p mod S)"
  shows "0 < m" "m \<le> k" "p mod S + m \<le> S" "int (p + m) \<le> eof" "int p < eof"
proof -
  have "p mod S < S" using assms(3) by simp
  moreover have "m \<le> k" "m \<le> S - p mod S" using assms(4) by simp_all
  ultimately show "0 < m" "m \<le> k" "p mod S + m \<le> S" "int (p + m) \<le> eof" "int p < eof"
    using assms(1-3) by (simp add: assms(4), linarith+)
qed

text \<open>One round of the loop reads to the end of the block, or all that is left.\<close>

lemma in_loop_round:
  fixes w :: "'o World"
  assumes "resident (e_cfg env) w" and "mPos (w_file w) = int p" and "int (p + k) \<le> mEof (w_file w)" and "0 < k"
    and "m = min k (bucket_size (e_cfg env) - p mod bucket_size (e_cfg env))"
  shows "\<exists>w' f'. in_loop env (Suc n) True (int k) (int (length buf)) buf (w, f) =
      in_loop env n (k \<noteq> m) (int (k - m)) (int (length buf + m))
        (buf @ map (\<lambda>i. byte_at (local_bytes w) (place (e_cfg env) (layout (w_file w)) (p + i))) [0..<m]) (w', f') \<and>
    moved (int (p + m)) w w' \<and> f_out f' = f_out f \<and> f_flags f' = f_flags f"
proof -
  let ?S = "bucket_size (e_cfg env)"
  have S: "0 < LOCAL_BUCKET_SIZE (e_cfg env)" "0 < ?S" using assms(1) by (simp_all add: resident_def placed_def)
  note m = chunk_bounds [OF assms(3,4) S(2) assms(5)]
  obtain info w1 where g: "getCurBlockInfo env w = (Inr info, w1)" "moved (int p) w w1"
    and at: "block_at (e_cfg env) (w_file w) p info"
    using getCurBlockInfo_active [OF assms(1,2) m(5)] by blast
  note w1 = moved_facts [OF g(2)]
  have res: "resident (e_cfg env) w1" using moved_resident [OF g(2) assms(1)] m(5) by simp
  have at1: "block_at (e_cfg env) (w_file w1) p info" using at w1(1) by (simp add: block_at_def)
  let ?bs = "map (\<lambda>i. byte_at (local_bytes w) (place (e_cfg env) (layout (w_file w)) (p + i))) [0..<m]"
  let ?info' = "info\<lparr>bi_offset := int (p mod ?S + m)\<rparr>"
  define w2 where "w2 = w1\<lparr>w_localFd := (w_localFd w1)\<lparr>fd_off := place (e_cfg env) (layout (w_file w)) p + m\<rparr>\<rparr>"
  have r: "ioE (BlockInputStream_read (e_cfg env) (int m) info) w1 = (Inr ((int m, ?bs), ?info'), w2)"
    using block_read [OF res at1 m(1) _ m(3)] m(4) w1 by (simp add: w2_def)
  define w3 where "w3 = w2\<lparr>w_file := (w_file w2)\<lparr>mPos := int (p + m)\<rparr>\<rparr>"
  have pos: "setPosition env (int (p + m)) w2 = (Inr (), w3)"
    using setPosition_inside [of "int (p + m)" w2 env] m(4) w1(2) by (simp add: w2_def w3_def)
  have mv: "moved (int (p + m)) w w3" by (rule moved_step [OF g(2)]) (simp add: w3_def w2_def)
  have rem: "block_remaining (e_cfg env) info = int (?S - p mod ?S)"
    using at S mod_less_divisor [OF S(2), of p] by (simp add: block_remaining_def block_at_def of_nat_diff)
  have fits: "int k \<le> block_remaining (e_cfg env) info \<longleftrightarrow> k = m" "k \<noteq> m \<Longrightarrow> block_remaining (e_cfg env) info = int m"
    using assms(5) unfolding rem by auto
  define f' where "f' = f\<lparr>f_in := (f_in f)\<lparr>s_info := ?info', s_pos := int p + int m\<rparr>\<rparr>"
  have "in_loop env (Suc n) True (int k) (int (length buf)) buf (w, f) =
      in_loop env n (k \<noteq> m) (int (k - m)) (int (length buf + m)) (buf @ ?bs) (w3, f')"
    using g(1) r pos w1(3) assms(4) m(2) fits
    by (cases "k = m")
      (simp_all add: run_simps in_updateBlockStream_def run_liftW getFile_def setIn_def Let_def store_at_end f'_def of_nat_diff)
  then show ?thesis using mv by (intro exI [of _ w3] exI [of _ f']) (simp add: f'_def)
qed

lemma in_loop_run:
  fixes w :: "'o World"
  assumes "resident (e_cfg env) w" and "mPos (w_file w) = int p" and "int (p + k) \<le> mEof (w_file w)" and "k \<le> n"
    and "0 < k \<longrightarrow> nu"
  shows "\<exists>w' f'. in_loop env n nu (int k) (int (length buf)) buf (w, f) =
      (Inr (buf @ map (\<lambda>i. byte_at (local_bytes w) (place (e_cfg env) (layout (w_file w)) (p + i))) [0..<k]), (w', f')) \<and>
    moved (int (p + k)) w w' \<and> f_out f' = f_out f \<and> f_flags f' = f_flags f"
  using assms
proof (induction n arbitrary: w f p k buf nu)
  case 0
  then show ?case using moved_refl [of w "int p"] by (auto simp: in_loop_nothing simp del: in_loop.simps)
next
  case (Suc n)
  show ?case
  proof (cases "k = 0")
    case True
    then show ?thesis using Suc.prems(2) moved_refl [of w "int p"] by (auto simp: in_loop_nothing simp del: in_loop.simps)
  next
    case False
    define m where "m = min k (bucket_size (e_cfg env) - p mod bucket_size (e_cfg env))"
    have "0 < bucket_size (e_cfg env)" using Suc.prems(1) by (simp add: resident_def placed_def)
    note m = chunk_bounds [OF Suc.prems(3) _ this m_def]
    let ?bytes = "\<lambda>v p n. map (\<lambda>i. byte_at (local_bytes v) (place (e_cfg env) (layout (w_file v)) (p + i))) [0..<n]"
    obtain w1 f1 where 1: "in_loop env (Suc n) True (int k) (int (length buf)) buf (w, f) =
        in_loop env n (k \<noteq> m) (int (k - m)) (int (length (buf @ ?bytes w p m))) (buf @ ?bytes w p m) (w1, f1)"
      and mv: "moved (int (p + m)) w w1" and f1: "f_out f1 = f_out f" "f_flags f1 = f_flags f"
      using in_loop_round [OF Suc.prems(1-3) _ m_def, of n buf f] False by auto
    note w1 = moved_facts [OF mv]
    have res1: "resident (e_cfg env) w1" using moved_resident [OF mv Suc.prems(1)] m(4) False by simp
    have eof1: "int (p + m + (k - m)) \<le> mEof (w_file w1)" using Suc.prems(3) m(2) w1(2) False by simp
    have fuel1: "k - m \<le> n" using Suc.prems(4) m(1) False by simp
    have nu1: "0 < k - m \<longrightarrow> k \<noteq> m" by auto
    obtain w2 f2 where 2: "in_loop env n (k \<noteq> m) (int (k - m)) (int (length (buf @ ?bytes w p m))) (buf @ ?bytes w p m) (w1, f1) =
        (Inr ((buf @ ?bytes w p m) @ ?bytes w1 (p + m) (k - m)), (w2, f2))"
      and mv2: "moved (int (p + m + (k - m))) w1 w2" and f2: "f_out f2 = f_out f1" "f_flags f2 = f_flags f1"
      using Suc.IH [OF res1 w1(3) eof1 fuel1 nu1, of "buf @ ?bytes w p m" f1] by (elim exE conjE) (rule that)
    have "?bytes w p m @ ?bytes w1 (p + m) (k - m) = ?bytes w p k"
    proof -
      have "[0..<k] = [0..<m] @ map (\<lambda>i. m + i) [0..<k - m]"
        using m(2) False by (intro nth_equalityI) (auto simp: nth_append)
      then show ?thesis using w1 by (simp add: comp_def add.assoc)
    qed
    then show ?thesis using 1 2 mv mv2 f1 f2 m(2) False Suc.prems(5) moved_trans [OF mv mv2] by auto
  qed
qed

section \<open>Writing\<close>

text \<open>Bytes of the file are written in place: the local space does not grow.\<close>

lemma local_write_in_place:
  assumes "fd_inode fd < length (inodes st)" and "fd_off fd + length bs \<le> length (file_bytes st (fd_inode fd))" and "bs \<noteq> []"
  shows "local_write bs (st, fd, oss) = (Inr (int (length bs)),
     (set_bytes (fd_inode fd) (store_at (fd_off fd) bs (file_bytes st (fd_inode fd))) st,
      fd\<lparr>fd_off := fd_off fd + length bs\<rparr>, oss))"
proof -
  have "min (length bs) (length (file_bytes st (fd_inode fd)) - fd_off fd) = length bs" using assms(2) by simp
  then show ?thesis using assms(3) by (simp add: local_write_def posix_write_def Let_def set_bytes_def)
qed

text \<open>The file has written \<open>bs\<close> at its old position: its place in the local space, and nothing else, has changed.\<close>

definition wrote :: "Configuration \<Rightarrow> nat \<Rightarrow> byte list \<Rightarrow> 'o World \<Rightarrow> 'o World \<Rightarrow> bool" where
  "wrote cfg p bs w w' \<longleftrightarrow> (\<exists>L off arr.
     w' = w\<lparr>w_store := set_bytes (fd_inode (w_localFd w)) L (w_store w), w_localFd := (w_localFd w)\<lparr>fd_off := off\<rparr>,
       w_file := (w_file w)\<lparr>mPos := int (p + length bs), mBlockArray := arr\<rparr>\<rparr> \<and>
     map (\<lambda>b. (isLocal b, bk_bucketId b)) arr = layout (w_file w) \<and> length L = length (local_bytes w) \<and>
     (\<forall>i < length bs. byte_at L (place cfg (layout (w_file w)) (p + i)) = bs ! i) \<and>
     (\<forall>q. q \<notin> (\<lambda>i. place cfg (layout (w_file w)) (p + i)) ` {..< length bs} \<longrightarrow> byte_at L q = byte_at (local_bytes w) q))"

lemma block_write:
  fixes w :: "'o World"
  assumes "resident cfg w" and "block_at cfg (w_file w) p info" and "bs \<noteq> []" and "int (p + length bs) \<le> mEof (w_file w)"
    and "p mod bucket_size cfg + length bs \<le> bucket_size cfg"
  shows "ioE (BlockOutputStream_write cfg bs info) w =
    (Inr (int (length bs), info\<lparr>bi_offset := int (p mod bucket_size cfg + length bs)\<rparr>),
     w\<lparr>w_store := set_bytes (fd_inode (w_localFd w)) (store_at (place cfg (layout (w_file w)) p) bs (local_bytes w)) (w_store w),
       w_localFd := (w_localFd w)\<lparr>fd_off := place cfg (layout (w_file w)) p + length bs\<rparr>\<rparr>)"
proof -
  let ?q = "place cfg (layout (w_file w)) p" and ?fd = "w_localFd w"
  have S: "0 < LOCAL_BUCKET_SIZE cfg" "LOCAL_BUCKET_SIZE cfg < 2 ^ 31" and ino: "fd_inode ?fd < length (inodes (w_store w))"
    using assms(1) by (simp_all add: resident_def placed_def)
  have i32: "int32 (int (length bs)) = int (length bs)" using S(2) assms(5) by (intro int32_id) simp_all
  have "0 < length bs" using assms(3) by simp
  note room = resident_place [OF assms(1) this assms(4,5)]
  have "local_write bs (w_store w, ?fd\<lparr>fd_off := ?q\<rparr>, w_oss w) = (Inr (int (length bs)),
      (set_bytes (fd_inode ?fd) (store_at ?q bs (local_bytes w)) (w_store w), ?fd\<lparr>fd_off := ?q + length bs\<rparr>, w_oss w))"
    using local_write_in_place [of "?fd\<lparr>fd_off := ?q\<rparr>" "w_store w" bs "w_oss w"] ino room assms(3) by simp
  moreover have "bi_offset info = int (p mod bucket_size cfg)" "bi_isLocal info" using assms(2) by (simp_all add: block_at_def)
  moreover have "int (p mod bucket_size cfg + length bs) \<le> LOCAL_BUCKET_SIZE cfg" using assms(5) S(1) by linarith
  ultimately show ?thesis
    by (simp add: ioE_def BlockOutputStream_write_def run_simps Let_def block_at_offset [OF S(1) assms(2)] local_seek_run
        writeLocal_def i32)
qed

text \<open>Different bytes of a file have different places.\<close>

lemma place_distinct:
  assumes "0 < bucket_size cfg" and "distinct (map snd ls)" and "\<forall>(loc, bucket) \<in> set ls. loc \<and> 0 \<le> bucket"
    and "x < length ls * bucket_size cfg" and "y < length ls * bucket_size cfg" and "place cfg ls x = place cfg ls y"
  shows "x = y"
proof -
  let ?S = "bucket_size cfg"
  have idx: "x div ?S < length ls" "y div ?S < length ls" using assms(1,4,5) by (simp_all add: div_less_iff_less_mult)
  have pos: "0 \<le> snd (ls ! k)" if "k < length ls" for k
  proof -
    have "\<forall>x \<in> set ls. 0 \<le> snd x" using assms(3) by auto
    then show ?thesis using that by simp
  qed
  have split: "place cfg ls z div ?S = nat (snd (ls ! (z div ?S)))" "place cfg ls z mod ?S = z mod ?S" for z
    using assms(1) by (simp_all add: place_def)
  have "nat (snd (ls ! (x div ?S))) = nat (snd (ls ! (y div ?S)))" using assms(6) split(1) by metis
  then have "map snd ls ! (x div ?S) = map snd ls ! (y div ?S)"
    using pos idx by (simp add: eq_nat_nat_iff)
  then have "x div ?S = y div ?S" using nth_eq_iff_index_eq [OF assms(2)] idx by simp
  moreover have "x mod ?S = y mod ?S" using assms(6) split(2) by metis
  ultimately show ?thesis by (metis div_mult_mod_eq)
qed

lemma place_inj:
  assumes "resident cfg w" and "int x < mEof (w_file w)" and "int y < mEof (w_file w)"
    and "place cfg (layout (w_file w)) x = place cfg (layout (w_file w)) y"
  shows "x = y"
proof -
  have eof: "nat (mEof (w_file w)) \<le> length (layout (w_file w)) * bucket_size cfg" using assms(1) by (simp add: resident_def placed_def)
  have "x < nat (mEof (w_file w))" "y < nat (mEof (w_file w))" using assms(2,3) by linarith+
  with eof have xy: "x < length (layout (w_file w)) * bucket_size cfg" "y < length (layout (w_file w)) * bucket_size cfg" by simp_all
  show ?thesis by (rule place_distinct [OF _ _ _ xy assms(4)]) (use assms(1) in \<open>simp_all add: resident_def placed_def\<close>)
qed

lemma wrote_facts:
  assumes "wrote cfg p bs w w'" and "resident cfg w"
  shows "layout (w_file w') = layout (w_file w)" "mEof (w_file w') = mEof (w_file w)" "mPos (w_file w') = int (p + length bs)"
    "mLoadMutex (w_file w') = mLoadMutex (w_file w)" "mLRUCache (w_file w') = mLRUCache (w_file w)"
    "length (inodes (w_store w')) = length (inodes (w_store w))" "fd_inode (w_localFd w') = fd_inode (w_localFd w)"
    "length (local_bytes w') = length (local_bytes w)"
    "i < length bs \<Longrightarrow> byte_at (local_bytes w') (place cfg (layout (w_file w)) (p + i)) = bs ! i"
    "q \<notin> (\<lambda>i. place cfg (layout (w_file w)) (p + i)) ` {..< length bs} \<Longrightarrow> byte_at (local_bytes w') q = byte_at (local_bytes w) q"
proof -
  from assms(1) obtain L off arr where
    w': "w' = w\<lparr>w_store := set_bytes (fd_inode (w_localFd w)) L (w_store w), w_localFd := (w_localFd w)\<lparr>fd_off := off\<rparr>,
       w_file := (w_file w)\<lparr>mPos := int (p + length bs), mBlockArray := arr\<rparr>\<rparr>"
    and arr: "map (\<lambda>b. (isLocal b, bk_bucketId b)) arr = layout (w_file w)" and L: "length L = length (local_bytes w)"
    "\<forall>i < length bs. byte_at L (place cfg (layout (w_file w)) (p + i)) = bs ! i"
    "\<forall>q. q \<notin> (\<lambda>i. place cfg (layout (w_file w)) (p + i)) ` {..< length bs} \<longrightarrow> byte_at L q = byte_at (local_bytes w) q"
    unfolding wrote_def by (elim exE conjE)
  have ino: "fd_inode (w_localFd w) < length (inodes (w_store w))" using assms(2) by (simp add: resident_def placed_def)
  show "layout (w_file w') = layout (w_file w)" using arr by (simp add: w' layout_def)
  show "length (inodes (w_store w')) = length (inodes (w_store w))" by (simp add: w' set_bytes_def)
  have bytes: "local_bytes w' = L" using ino by (simp add: w')
  show "length (local_bytes w') = length (local_bytes w)" using L(1) bytes by simp
  show "i < length bs \<Longrightarrow> byte_at (local_bytes w') (place cfg (layout (w_file w)) (p + i)) = bs ! i"
    using L(2) bytes by simp
  show "q \<notin> (\<lambda>i. place cfg (layout (w_file w)) (p + i)) ` {..< length bs} \<Longrightarrow> byte_at (local_bytes w') q = byte_at (local_bytes w) q"
    using L(3) bytes by simp
  show "mEof (w_file w') = mEof (w_file w)" "mPos (w_file w') = int (p + length bs)"
    "mLoadMutex (w_file w') = mLoadMutex (w_file w)" "mLRUCache (w_file w') = mLRUCache (w_file w)"
    "fd_inode (w_localFd w') = fd_inode (w_localFd w)" by (simp_all add: w')
qed

lemma wrote_resident:
  assumes "wrote cfg p bs w w'" and "resident cfg w" and "int (p + length bs) \<le> mEof (w_file w)"
  shows "resident cfg w'"
proof -
  note f = wrote_facts [OF assms(1,2)]
  have "length (file_bytes (w_store w') (fd_inode (w_localFd w))) = length (local_bytes w)" using f(7,8) by simp
  then show ?thesis using assms(2,3) by (simp add: resident_def placed_def f cong: option.case_cong)
qed

text \<open>The abstract effect of a write: the bytes of the file are overwritten at the position.\<close>

lemma wrote_content:
  assumes "wrote cfg p bs w w'" and "resident cfg w" and "int (p + length bs) \<le> mEof (w_file w)"
  shows "content cfg w' = store_at p bs (content cfg w)"
proof -
  note f = wrote_facts [OF assms(1,2)]
  let ?n = "nat (mEof (w_file w))" and ?pl = "place cfg (layout (w_file w))"
  have n: "p + length bs \<le> ?n" using assms(3) by linarith
  have len: "length (content cfg w') = ?n" "length (content cfg w) = ?n" "length (store_at p bs (content cfg w)) = ?n"
    using n by (simp_all add: content_def f length_store_at)
  show ?thesis
  proof (rule nth_equalityI)
    fix k
    assume "k < length (content cfg w')"
    then have k: "k < ?n" by (simp add: len)
    have "content cfg w' ! k = byte_at (local_bytes w') (?pl k)" using k by (simp add: content_def f)
    also have "\<dots> = (if p \<le> k \<and> k < p + length bs then bs ! (k - p) else byte_at (local_bytes w) (?pl k))"
    proof (cases "p \<le> k \<and> k < p + length bs")
      case True
      then have "k - p < length bs" by auto
      then show ?thesis using f(9) [of "k - p"] True by simp
    next
      case False
      have "?pl k \<notin> (\<lambda>i. ?pl (p + i)) ` {..< length bs}"
      proof
        assume "?pl k \<in> (\<lambda>i. ?pl (p + i)) ` {..< length bs}"
        then obtain i where i: "i < length bs" and eq: "?pl k = ?pl (p + i)" by auto
        have "int k < mEof (w_file w)" "int (p + i) < mEof (w_file w)" using k n i by linarith+
        from place_inj [OF assms(2) this eq] have "k = p + i" .
        with False \<open>i < length bs\<close> show False by linarith
      qed
      then have "byte_at (local_bytes w') (?pl k) = byte_at (local_bytes w) (?pl k)" by (rule f(10))
      then show ?thesis using False by (simp only: if_False)
    qed
    also have "\<dots> = byte_at (store_at p bs (content cfg w)) k"
    proof -
      have "byte_at (content cfg w) k = content cfg w ! k" using k len(2) by (simp add: byte_at_def)
      also have "\<dots> = byte_at (local_bytes w) (?pl k)" using k by (simp add: content_def)
      finally have "byte_at (content cfg w) k = byte_at (local_bytes w) (?pl k)" .
      then show ?thesis by (simp only: byte_at_store)
    qed
    finally show "content cfg w' ! k = store_at p bs (content cfg w) ! k" using k len(3) by (simp add: byte_at_def)
  qed (simp add: len)
qed

lemma wrote_trans:
  assumes "wrote cfg p as w w1" and "wrote cfg (p + length as) bs w1 w2" and "resident cfg w"
    and "int (p + length as + length bs) \<le> mEof (w_file w)"
  shows "wrote cfg p (as @ bs) w w2"
proof -
  note f = wrote_facts [OF assms(1,3)]
  let ?pl = "place cfg (layout (w_file w))"
  have res1: "resident cfg w1" using wrote_resident [OF assms(1,3)] assms(4) by simp
  note g = wrote_facts [OF assms(2) res1, unfolded f(1)]
  from assms(1) obtain L1 off1 arr1 where w1: "w1 = w\<lparr>w_store := set_bytes (fd_inode (w_localFd w)) L1 (w_store w),
      w_localFd := (w_localFd w)\<lparr>fd_off := off1\<rparr>, w_file := (w_file w)\<lparr>mPos := int (p + length as), mBlockArray := arr1\<rparr>\<rparr>"
    by (auto simp: wrote_def)
  from assms(2) obtain L off arr where w2: "w2 = w1\<lparr>w_store := set_bytes (fd_inode (w_localFd w1)) L (w_store w1),
      w_localFd := (w_localFd w1)\<lparr>fd_off := off\<rparr>, w_file := (w_file w1)\<lparr>mPos := int (p + length as + length bs), mBlockArray := arr\<rparr>\<rparr>"
    and arr: "map (\<lambda>b. (isLocal b, bk_bucketId b)) arr = layout (w_file w1)"
    by (auto simp: wrote_def)
  have ino: "fd_inode (w_localFd w) < length (inodes (w_store w))" using assms(3) by (simp add: resident_def placed_def)
  have L: "local_bytes w2 = L" using ino by (simp add: w2 w1 set_bytes_def file_bytes_def)
  have len: "length L = length (local_bytes w)" using g(8) f(8) L by simp
  have apart: "?pl (p + i) \<notin> (\<lambda>j. ?pl (p + length as + j)) ` {..< length bs}" if "i < length as" for i
  proof
    assume "?pl (p + i) \<in> (\<lambda>j. ?pl (p + length as + j)) ` {..< length bs}"
    then obtain j where j: "j < length bs" and eq: "?pl (p + i) = ?pl (p + length as + j)" by auto
    have "int (p + i) < mEof (w_file w)" "int (p + length as + j) < mEof (w_file w)" using that j assms(4) by linarith+
    from place_inj [OF assms(3) this eq] that show False by simp
  qed
  have new: "byte_at L (?pl (p + i)) = (as @ bs) ! i" if "i < length (as @ bs)" for i
  proof (cases "i < length as")
    case True
    then show ?thesis using f(9) g(10) apart L by (simp add: nth_append)
  next
    case False
    then have "i - length as < length bs" "p + i = p + length as + (i - length as)" using that by auto
    then show ?thesis using g(9) [of "i - length as"] L False by (simp add: nth_append)
  qed
  have old: "byte_at L q = byte_at (local_bytes w) q" if "q \<notin> (\<lambda>i. ?pl (p + i)) ` {..< length (as @ bs)}" for q
  proof -
    have a: "q \<notin> (\<lambda>i. ?pl (p + i)) ` {..< length as}" using that by auto
    have "?pl (p + length as + j) \<in> (\<lambda>i. ?pl (p + i)) ` {..< length (as @ bs)}" if "j < length bs" for j
      using that by (intro image_eqI [of _ _ "length as + j"]) (simp_all add: add.assoc)
    then have b: "q \<notin> (\<lambda>j. ?pl (p + length as + j)) ` {..< length bs}" using that by auto
    show ?thesis using f(10) [OF a] g(10) [OF b] L by simp
  qed
  show ?thesis
    unfolding wrote_def
  proof (intro exI conjI)
    show "w2 = w\<lparr>w_store := set_bytes (fd_inode (w_localFd w)) L (w_store w), w_localFd := (w_localFd w)\<lparr>fd_off := off\<rparr>,
        w_file := (w_file w)\<lparr>mPos := int (p + length (as @ bs)), mBlockArray := arr\<rparr>\<rparr>"
      by (simp add: w2 w1 set_bytes_def)
    show "map (\<lambda>b. (isLocal b, bk_bucketId b)) arr = layout (w_file w)" using arr f(1) by simp
    show "length L = length (local_bytes w)" by (rule len)
    show "\<forall>i < length (as @ bs). byte_at L (?pl (p + i)) = (as @ bs) ! i" using new by blast
    show "\<forall>q. q \<notin> (\<lambda>i. ?pl (p + i)) ` {..< length (as @ bs)} \<longrightarrow> byte_at L q = byte_at (local_bytes w) q" using old by blast
  qed
qed

lemma wrote_nil:
  assumes "moved (int p) w w'" and "resident cfg w"
  shows "wrote cfg p [] w w'"
proof -
  have ino: "fd_inode (w_localFd w) < length (inodes (w_store w))" using assms(2) by (simp add: resident_def placed_def)
  then have same: "set_bytes (fd_inode (w_localFd w)) (local_bytes w) (w_store w) = w_store w"
    by (simp add: set_bytes_def file_bytes_def)
  from assms(1) obtain off arr where "w' = w\<lparr>w_localFd := (w_localFd w)\<lparr>fd_off := off\<rparr>,
      w_file := (w_file w)\<lparr>mPos := int p, mBlockArray := arr\<rparr>\<rparr>"
    "map (\<lambda>b. (isLocal b, bk_bucketId b)) arr = layout (w_file w)" by (auto simp: moved_def layout_def dest: unused_layout)
  then show ?thesis
    unfolding wrote_def using same by (intro exI [of _ "local_bytes w"] exI [of _ off] exI [of _ arr]) simp
qed

lemma block_wrote:
  assumes "moved (int p) w w1" and "p mod bucket_size cfg + length bs \<le> bucket_size cfg"
    and "place cfg (layout (w_file w)) p + length bs \<le> length (local_bytes w)"
    and "w2 = w1\<lparr>w_store := set_bytes (fd_inode (w_localFd w1)) (store_at (place cfg (layout (w_file w1)) p) bs (local_bytes w1)) (w_store w1),
       w_localFd := (w_localFd w1)\<lparr>fd_off := off\<rparr>, w_file := (w_file w1)\<lparr>mPos := int (p + length bs)\<rparr>\<rparr>"
  shows "wrote cfg p bs w w2"
proof -
  let ?pl = "place cfg (layout (w_file w))" and ?L = "store_at (place cfg (layout (w_file w)) p) bs (local_bytes w)"
  from assms(1) obtain off1 arr where w1: "w1 = w\<lparr>w_localFd := (w_localFd w)\<lparr>fd_off := off1\<rparr>,
      w_file := (w_file w)\<lparr>mPos := int p, mBlockArray := arr\<rparr>\<rparr>"
    and arr: "map (\<lambda>b. (isLocal b, bk_bucketId b)) arr = layout (w_file w)" by (auto simp: moved_def layout_def dest: unused_layout)
  have pl: "?pl (p + i) = ?pl p + i" if "i < length bs" for i using that assms(2) by (intro place_add) simp
  show ?thesis
    unfolding wrote_def
  proof (intro exI conjI)
    show "w2 = w\<lparr>w_store := set_bytes (fd_inode (w_localFd w)) ?L (w_store w), w_localFd := (w_localFd w)\<lparr>fd_off := off\<rparr>,
        w_file := (w_file w)\<lparr>mPos := int (p + length bs), mBlockArray := arr\<rparr>\<rparr>"
      using arr by (simp add: assms(4) w1 layout_def)
    show "map (\<lambda>b. (isLocal b, bk_bucketId b)) arr = layout (w_file w)" by (rule arr)
    show "length ?L = length (local_bytes w)" using assms(3) by (simp add: length_store_at)
    show "\<forall>i < length bs. byte_at ?L (?pl (p + i)) = bs ! i" by (simp add: byte_at_store pl)
    have mem: "q \<in> (\<lambda>i. ?pl (p + i)) ` {..< length bs}" if "?pl p \<le> q \<and> q < ?pl p + length bs" for q
      using that pl [of "q - ?pl p"] by (intro image_eqI [of _ _ "q - ?pl p"]) auto
    then show "\<forall>q. q \<notin> (\<lambda>i. ?pl (p + i)) ` {..< length bs} \<longrightarrow> byte_at ?L q = byte_at (local_bytes w) q"
      by (metis byte_at_store)
  qed
qed

lemma out_loop_nothing: "out_loop env n data sk nu 0 r s = (Inr (), s)"
  by (cases n) (simp_all add: run_simps)

text \<open>The write of one chunk, which ends at the end of the data or of the block.\<close>

lemma chunk_written:
  fixes w :: "'o World"
  assumes "resident (e_cfg env) w" and "mPos (w_file w) = int p" and "int (p + k) \<le> mEof (w_file w)"
    and "0 < k" and "m = min k (bucket_size (e_cfg env) - p mod bucket_size (e_cfg env))" and "length bs = m"
  shows "\<exists>info w1. getCurBlockInfo env w = (Inr info, w1) \<and> moved (int p) w w1 \<and>
    block_remaining (e_cfg env) info = int (bucket_size (e_cfg env) - p mod bucket_size (e_cfg env)) \<and>
    ioE (BlockOutputStream_write (e_cfg env) bs info) w1 =
     (Inr (int m, info\<lparr>bi_offset := int (p mod bucket_size (e_cfg env) + m)\<rparr>),
      w1\<lparr>w_store := set_bytes (fd_inode (w_localFd w1))
          (store_at (place (e_cfg env) (layout (w_file w1)) p) bs (local_bytes w1)) (w_store w1),
        w_localFd := (w_localFd w1)\<lparr>fd_off := place (e_cfg env) (layout (w_file w1)) p + m\<rparr>\<rparr>)"
proof -
  let ?S = "bucket_size (e_cfg env)"
  have S: "0 < LOCAL_BUCKET_SIZE (e_cfg env)" "0 < ?S" using assms(1) by (simp_all add: resident_def placed_def)
  note m = chunk_bounds [OF assms(3,4) S(2) assms(5)]
  have bs: "bs \<noteq> []" using m(1) assms(6) by auto
  obtain info w1 where g: "getCurBlockInfo env w = (Inr info, w1)" "moved (int p) w w1"
    and at: "block_at (e_cfg env) (w_file w) p info"
    using getCurBlockInfo_active [OF assms(1,2) m(5)] by blast
  note w1 = moved_facts [OF g(2)]
  have res: "resident (e_cfg env) w1" using moved_resident [OF g(2) assms(1)] m(5) by simp
  have at1: "block_at (e_cfg env) (w_file w1) p info" using at w1(1) by (simp add: block_at_def)
  have "block_remaining (e_cfg env) info = int (?S - p mod ?S)"
    using at S mod_less_divisor [OF S(2), of p] by (simp add: block_remaining_def block_at_def of_nat_diff)
  then show ?thesis
    using g block_write [OF res at1 bs] m(3,4) assms(6) w1(2) by (intro exI [of _ info] exI [of _ w1]) simp
qed

lemma out_loop_round:
  fixes w :: "'o World"
  assumes "resident (e_cfg env) w" and "NDEBUG (e_cfg env)" and "mPos (w_file w) = int p" and "int (p + k) \<le> mEof (w_file w)"
    and "0 < k" and "m = min k (bucket_size (e_cfg env) - p mod bucket_size (e_cfg env))" and "f_out f = Some s0"
    and "bw + k \<le> length data"
  shows "\<exists>w' f' s1. out_loop env (Suc n) data False True (int k) (int bw) (w, f) =
      out_loop env n data False (k \<noteq> m) (int (k - m)) (int (bw + m)) (w', f') \<and>
    wrote (e_cfg env) p (take m (drop bw data)) w w' \<and> f_out f' = Some s1 \<and> f_flags f' = f_flags f"
proof -
  let ?S = "bucket_size (e_cfg env)" and ?bs = "take m (drop bw data)"
  have S: "0 < ?S" using assms(1) by (simp add: resident_def placed_def)
  note m = chunk_bounds [OF assms(4,5) S assms(6)]
  have bs: "length ?bs = m" using m(2) assms(8) by simp
  obtain info w1 w2 where g: "getCurBlockInfo env w = (Inr info, w1)" "moved (int p) w w1"
    and rem: "block_remaining (e_cfg env) info = int (?S - p mod ?S)"
    and r: "ioE (BlockOutputStream_write (e_cfg env) ?bs info) w1 = (Inr (int m, info\<lparr>bi_offset := int (p mod ?S + m)\<rparr>), w2)"
    and w2: "w2 = w1\<lparr>w_store := set_bytes (fd_inode (w_localFd w1))
        (store_at (place (e_cfg env) (layout (w_file w1)) p) ?bs (local_bytes w1)) (w_store w1),
      w_localFd := (w_localFd w1)\<lparr>fd_off := place (e_cfg env) (layout (w_file w1)) p + m\<rparr>\<rparr>"
    using chunk_written [OF assms(1,3,4,5,6) bs] by blast
  note w1 = moved_facts [OF g(2)]
  define w3 where "w3 = w2\<lparr>w_file := (w_file w2)\<lparr>mPos := int (p + m)\<rparr>\<rparr>"
  have pos: "setPosition env (int (p + m)) w2 = (Inr (), w3)"
    using setPosition_inside [of "int (p + m)" w2 env] m(4) w1(2) by (simp add: w2 w3_def)
  have wr: "wrote (e_cfg env) p ?bs w w3"
    by (rule block_wrote [OF g(2), where off = "place (e_cfg env) (layout (w_file w1)) p + m"])
      (use m(3) bs resident_place [OF assms(1) m(1,4,3)] in \<open>simp_all add: w3_def w2\<close>)
  have fits: "int k \<le> block_remaining (e_cfg env) info \<longleftrightarrow> k = m" "k \<noteq> m \<Longrightarrow> block_remaining (e_cfg env) info = int m"
    using assms(6) unfolding rem by auto
  have mPos2: "mPos (w_file w1) = int p" by (rule w1(3))
  define f' where "f' = f\<lparr>f_out := Some (s0\<lparr>s_info := info\<lparr>bi_offset := int (p mod ?S + m)\<rparr>, s_pos := int p + int m\<rparr>)\<rparr>"
  have "out_loop env (Suc n) data False True (int k) (int bw) (w, f) =
      out_loop env n data False (k \<noteq> m) (int (k - m)) (int (bw + m)) (w3, f')"
    using g(1) r pos mPos2 assms(2,5,7) m(2) fits
    by (cases "k = m")
      (simp_all add: run_simps out_updateBlockStream_def run_liftW getFile_def setOut_def getOut_def out_write_def Let_def
        f'_def of_nat_diff)
  then show ?thesis using wr by (intro exI [of _ w3] exI [of _ f']) (simp add: f'_def)
qed

text \<open>With assertions compiled in, a chunk that ends at the end of its block and not of the data aborts.\<close>

lemma out_loop_abort:
  fixes w :: "'o World"
  assumes "resident (e_cfg env) w" and "\<not> NDEBUG (e_cfg env)" and "mPos (w_file w) = int p" and "int (p + k) \<le> mEof (w_file w)"
    and "bucket_size (e_cfg env) < p mod bucket_size (e_cfg env) + k" and "f_out f = Some s0" and "k \<le> length data"
  shows "\<exists>s. out_loop env (Suc n) data False True (int k) 0 (w, f) = (Inl AssertAbort, s)"
proof -
  let ?S = "bucket_size (e_cfg env)"
  define m where "m = min k (?S - p mod ?S)"
  have S: "0 < ?S" "0 < LOCAL_BUCKET_SIZE (e_cfg env)" using assms(1) by (simp_all add: resident_def placed_def)
  have lt: "p mod ?S < ?S" by (rule mod_less_divisor [OF S(1)])
  then have lk: "?S - p mod ?S < k" using assms(5) by linarith
  have m: "m = ?S - p mod ?S" using lk by (simp add: m_def)
  have m0: "0 < m" "m < k" "0 < k" using m lk lt by linarith+
  have bs: "length (take m data) = m" using m0(2) assms(7) by simp
  obtain info w1 w2 where g: "getCurBlockInfo env w = (Inr info, w1)"
    and rem: "block_remaining (e_cfg env) info = int m"
    and r: "ioE (BlockOutputStream_write (e_cfg env) (take m data) info) w1 = (Inr (int m, info\<lparr>bi_offset := int (p mod ?S + m)\<rparr>), w2)"
    using chunk_written [OF assms(1,3,4) m0(3) m_def bs] unfolding m [symmetric] by auto
  have "block_remaining (e_cfg env) (info\<lparr>bi_offset := int (p mod ?S + m)\<rparr>) = 0"
    using m S lt by (simp add: block_remaining_def)
  then show ?thesis
    using g r rem assms(2,6) m0
    by (simp add: run_simps out_updateBlockStream_def run_liftW getFile_def setOut_def getOut_def out_write_def Let_def)
qed

lemma out_loop_run:
  fixes w :: "'o World"
  assumes "resident (e_cfg env) w" and "NDEBUG (e_cfg env)" and "mPos (w_file w) = int p" and "int (p + k) \<le> mEof (w_file w)"
    and "k \<le> n" and "0 < k \<longrightarrow> nu" and "f_out f = Some s0" and "bw + k \<le> length data"
  shows "\<exists>w' f' s1. out_loop env n data False nu (int k) (int bw) (w, f) = (Inr (), (w', f')) \<and>
    wrote (e_cfg env) p (take k (drop bw data)) w w' \<and> f_out f' = Some s1 \<and> f_flags f' = f_flags f"
  using assms
proof (induction n arbitrary: w f p k bw nu s0)
  case 0
  then show ?case
    using wrote_nil [OF moved_refl, of w p "e_cfg env"] by (auto simp: out_loop_nothing simp del: out_loop.simps)
next
  case (Suc n)
  show ?case
  proof (cases "k = 0")
    case True
    then show ?thesis
      using Suc.prems wrote_nil [OF moved_refl, of w p "e_cfg env"] by (auto simp: out_loop_nothing simp del: out_loop.simps)
  next
    case False
    define m where "m = min k (bucket_size (e_cfg env) - p mod bucket_size (e_cfg env))"
    have "0 < bucket_size (e_cfg env)" using Suc.prems(1) by (simp add: resident_def placed_def)
    note m = chunk_bounds [OF Suc.prems(4) _ this m_def]
    let ?a = "take m (drop bw data)" and ?b = "take (k - m) (drop (bw + m) data)"
    have len: "length ?a = m" "length ?b = k - m" using m(2) False Suc.prems(8) by auto
    obtain w1 f1 s1 where 1: "out_loop env (Suc n) data False True (int k) (int bw) (w, f) =
        out_loop env n data False (k \<noteq> m) (int (k - m)) (int (bw + m)) (w1, f1)"
      and wr: "wrote (e_cfg env) p ?a w w1" and f1: "f_out f1 = Some s1" "f_flags f1 = f_flags f"
      using out_loop_round [OF Suc.prems(1-4) _ m_def Suc.prems(7,8), of n] False by auto
    note w1 = wrote_facts [OF wr Suc.prems(1)]
    have res1: "resident (e_cfg env) w1" using wrote_resident [OF wr Suc.prems(1)] len m(4) False by simp
    have pos1: "mPos (w_file w1) = int (p + m)" using w1(3) len by simp
    have eof1: "int (p + m + (k - m)) \<le> mEof (w_file w1)" using Suc.prems(4) m(2) w1(2) False by simp
    have fuel1: "k - m \<le> n" using Suc.prems(5) m(1) False by simp
    have nu1: "0 < k - m \<longrightarrow> k \<noteq> m" by auto
    have data1: "bw + m + (k - m) \<le> length data" using Suc.prems(8) m(2) False by simp
    obtain w2 f2 s2 where 2: "out_loop env n data False (k \<noteq> m) (int (k - m)) (int (bw + m)) (w1, f1) = (Inr (), (w2, f2))"
      and wr2: "wrote (e_cfg env) (p + m) ?b w1 w2" and f2: "f_out f2 = Some s2" "f_flags f2 = f_flags f1"
      using Suc.IH [OF res1 Suc.prems(2) pos1 eof1 fuel1 nu1 f1(1) data1] by (elim exE conjE) (rule that)
    have "take k (drop bw data) = ?a @ ?b"
      using take_add [of m "k - m" "drop bw data"] m(2) False by (simp add: add.commute)
    moreover have "wrote (e_cfg env) p (?a @ ?b) w w2"
      using wr wr2 Suc.prems(1,4) len m(2) False by (intro wrote_trans [OF wr]) auto
    ultimately show ?thesis using 1 2 f1 f2 Suc.prems(6) False by auto
  qed
qed

section \<open>A file as an array of bytes\<close>

text \<open>
  The specification: a sequence of reads, writes and seeks on an array of bytes with a position. Each
  operation gives the number that the library function returns and the bytes it delivers. A seek starts
  from the beginning, the position or the end, and one to a place before the beginning gives -1 and moves
  nothing. \<open>None\<close> is a transfer over the limit, a write beyond the array or a seek beyond it, of which
  nothing is claimed.
\<close>

datatype file_op = ReadOp nat | WriteOp "byte list" | SeekOp int seek_mode

definition seek_target :: "int \<Rightarrow> seek_mode \<Rightarrow> nat \<Rightarrow> nat \<Rightarrow> int" where
  "seek_target q mode len p = (case mode of Seek_Set \<Rightarrow> q | Seek_Cur \<Rightarrow> int p + q | Seek_End \<Rightarrow> int len + q | Seek_Other \<Rightarrow> - 1)"

text \<open>What a seek to a target inside the array, or before it, returns and where it leaves the position.\<close>

definition seek_result :: "int \<Rightarrow> nat \<Rightarrow> int \<times> nat" where
  "seek_result t p = (if t < 0 then (- 1, p) else (t, nat t))"

fun array_step :: "nat \<Rightarrow> file_op \<Rightarrow> byte list \<times> nat \<Rightarrow> ((int \<times> byte list) \<times> byte list \<times> nat) option" where
  "array_step limit (ReadOp n) (b, p) =
     (if n \<le> limit then let bs = take n (drop p b) in Some ((int (length bs), bs), (b, p + length bs)) else None)"
| "array_step limit (WriteOp d) (b, p) =
     (if length d \<le> limit \<and> p + length d \<le> length b
      then Some ((int (length d), []), (store_at p d b, p + length d)) else None)"
| "array_step limit (SeekOp q mode) (b, p) =
     (let t = seek_target q mode (length b) p
      in if t \<le> int (length b) then Some ((fst (seek_result t p), []), (b, snd (seek_result t p))) else None)"

fun array_run :: "nat \<Rightarrow> file_op list \<Rightarrow> byte list \<times> nat \<Rightarrow> ((int \<times> byte list) list \<times> byte list \<times> nat) option" where
  "array_run limit [] a = Some ([], a)"
| "array_run limit (op # ops) a =
     (case array_step limit op a of None \<Rightarrow> None
      | Some (r, a') \<Rightarrow> map_option (\<lambda>(rs, a''). (r # rs, a'')) (array_run limit ops a'))"

text \<open>The same operations on a file, each given as a function on the state.\<close>

primrec file_step :: "(int \<Rightarrow> ('s, gw_error, int \<times> byte list) gw) \<Rightarrow> (byte list \<Rightarrow> ('s, gw_error, int) gw) \<Rightarrow>
    (int \<Rightarrow> seek_mode \<Rightarrow> ('s, gw_error, int) gw) \<Rightarrow> file_op \<Rightarrow> ('s, gw_error, int \<times> byte list) gw" where
  "file_step rd wr sk (ReadOp n) = rd (int n)"
| "file_step rd wr sk (WriteOp d) = bindE (wr d) (\<lambda>r. retE (r, []))"
| "file_step rd wr sk (SeekOp q mode) = bindE (sk q mode) (\<lambda>r. retE (r, []))"

primrec run_ops :: "(file_op \<Rightarrow> ('s, gw_error, 'r) gw) \<Rightarrow> file_op list \<Rightarrow> ('s, gw_error, 'r list) gw" where
  "run_ops step [] = retE []"
| "run_ops step (op # ops) = bindE (step op) (\<lambda>r. bindE (run_ops step ops) (\<lambda>rs. retE (r # rs)))"

text \<open>
  What a client expects of a random access file: an array of bytes with a position. Reading returns
  the bytes from the position on, as many as there are, writing replaces bytes within the array,
  seeking moves the position; each of them succeeds for transfers up to a limit.
\<close>

locale random_access =
  fixes limit :: nat
    and valid :: "'s \<Rightarrow> bool"
    and bytes :: "'s \<Rightarrow> byte list"
    and position :: "'s \<Rightarrow> nat"
    and rd :: "int \<Rightarrow> ('s, gw_error, int \<times> byte list) gw"
    and wr :: "byte list \<Rightarrow> ('s, gw_error, int) gw"
    and sk :: "int \<Rightarrow> seek_mode \<Rightarrow> ('s, gw_error, int) gw"
  assumes read_bytes: "valid s \<Longrightarrow> n \<le> limit \<Longrightarrow> \<exists>s'. rd (int n) s =
      (Inr (int (length (take n (drop (position s) (bytes s)))), take n (drop (position s) (bytes s))), s') \<and>
      valid s' \<and> bytes s' = bytes s \<and> position s' = position s + length (take n (drop (position s) (bytes s)))"
    and write_bytes: "valid s \<Longrightarrow> length d \<le> limit \<Longrightarrow> position s + length d \<le> length (bytes s) \<Longrightarrow> \<exists>s'.
      wr d s = (Inr (int (length d)), s') \<and> valid s' \<and> bytes s' = store_at (position s) d (bytes s) \<and>
      position s' = position s + length d"
    and seek_bytes: "valid s \<Longrightarrow> seek_target q mode (length (bytes s)) (position s) = t \<Longrightarrow> t \<le> int (length (bytes s)) \<Longrightarrow> \<exists>s'.
      sk q mode s = (Inr (fst (seek_result t (position s))), s') \<and> valid s' \<and> bytes s' = bytes s \<and>
      position s' = snd (seek_result t (position s))"
begin

lemma seek_set:
  assumes "valid s" and "p \<le> length (bytes s)"
  shows "\<exists>s'. sk (int p) Seek_Set s = (Inr (int p), s') \<and> valid s' \<and> bytes s' = bytes s \<and> position s' = p"
  using seek_bytes [OF assms(1), of "int p" Seek_Set "int p"] assms(2) by (simp add: seek_target_def seek_result_def)

lemma step_refines:
  assumes "valid s" and "array_step limit op (bytes s, position s) = Some (r, a)"
  shows "\<exists>s'. file_step rd wr sk op s = (Inr r, s') \<and> valid s' \<and> (bytes s', position s') = a"
proof (cases op)
  case (ReadOp n)
  then show ?thesis using read_bytes [OF assms(1), of n] assms(2) by (auto simp: Let_def split: if_splits)
next
  case (WriteOp d)
  then show ?thesis using write_bytes [OF assms(1), of d] assms(2) by (auto simp: run_simps split: if_splits)
next
  case (SeekOp q mode)
  then show ?thesis using seek_bytes [OF assms(1) refl, of q mode] assms(2) by (auto simp: run_simps Let_def split: if_splits)
qed

lemma run_refines:
  assumes "valid s" and "array_run limit ops (bytes s, position s) = Some (rs, a)"
  shows "\<exists>s'. run_ops (file_step rd wr sk) ops s = (Inr rs, s') \<and> valid s' \<and> (bytes s', position s') = a"
  using assms
proof (induction ops arbitrary: s rs)
  case (Cons op ops)
  obtain r a1 rs' where 1: "array_step limit op (bytes s, position s) = Some (r, a1)"
    and 2: "array_run limit ops a1 = Some (rs', a)" and rs: "rs = r # rs'"
    using Cons.prems(2) by (auto split: option.splits)
  obtain s1 where s1: "file_step rd wr sk op s = (Inr r, s1)" "valid s1" "(bytes s1, position s1) = a1"
    using step_refines [OF Cons.prems(1) 1] by blast
  obtain s2 where "run_ops (file_step rd wr sk) ops s1 = (Inr rs', s2)" "valid s2" "(bytes s2, position s2) = a"
    using Cons.IH [OF s1(2)] 2 s1(3) by blast
  then show ?case using s1(1) by (simp add: run_simps rs)
qed (simp add: run_simps)

lemma write_then_read:
  assumes "valid s" and "length d \<le> limit" and "p + length d \<le> length (bytes s)"
  shows "\<exists>s1 s2 s3 s4. sk (int p) Seek_Set s = (Inr (int p), s1) \<and> wr d s1 = (Inr (int (length d)), s2) \<and>
    sk (int p) Seek_Set s2 = (Inr (int p), s3) \<and> rd (int (length d)) s3 = (Inr (int (length d), d), s4) \<and>
    valid s4 \<and> bytes s4 = store_at p d (bytes s)"
proof -
  obtain s1 where 1: "sk (int p) Seek_Set s = (Inr (int p), s1)" "valid s1" "bytes s1 = bytes s" "position s1 = p"
    using seek_set [OF assms(1), of p] assms(3) by auto
  obtain s2 where 2: "wr d s1 = (Inr (int (length d)), s2)" "valid s2" "bytes s2 = store_at p d (bytes s)"
    using write_bytes [OF 1(2) assms(2)] assms(3) 1(3,4) by auto
  obtain s3 where 3: "sk (int p) Seek_Set s2 = (Inr (int p), s3)" "valid s3" "bytes s3 = store_at p d (bytes s)" "position s3 = p"
    using seek_set [OF 2(2), of p] assms(3) 2(3) by (auto simp: length_store_at)
  have "take (length d) (drop p (store_at p d (bytes s))) = d" by (rule store_at_read)
  then obtain s4 where "rd (int (length d)) s3 = (Inr (int (length d), d), s4)" "valid s4" "bytes s4 = store_at p d (bytes s)"
    using read_bytes [OF 3(2) assms(2)] 3(3,4) by auto
  with 1 2 3 show ?thesis by blast
qed

lemma write_elsewhere:
  assumes "valid s" and "length d \<le> limit" and "p + length d \<le> length (bytes s)"
    and "q + n \<le> p \<or> p + length d \<le> q" and "n \<le> limit" and "q + n \<le> length (bytes s)"
  shows "\<exists>s1 s2 s3 s4. sk (int p) Seek_Set s = (Inr (int p), s1) \<and> wr d s1 = (Inr (int (length d)), s2) \<and>
    sk (int q) Seek_Set s2 = (Inr (int q), s3) \<and> rd (int n) s3 = (Inr (int n, take n (drop q (bytes s))), s4)"
proof -
  obtain s1 where 1: "sk (int p) Seek_Set s = (Inr (int p), s1)" "valid s1" "bytes s1 = bytes s" "position s1 = p"
    using seek_set [OF assms(1), of p] assms(3) by auto
  obtain s2 where 2: "wr d s1 = (Inr (int (length d)), s2)" "valid s2" "bytes s2 = store_at p d (bytes s)"
    using write_bytes [OF 1(2) assms(2)] assms(3) 1(3,4) by auto
  have "q \<le> length (bytes s2)" using assms(6) 2(3) by (simp add: length_store_at)
  from seek_set [OF 2(2) this] obtain s3 where 3: "sk (int q) Seek_Set s2 = (Inr (int q), s3)" "valid s3"
    "bytes s3 = store_at p d (bytes s)" "position s3 = q"
    using 2(3) by auto
  have "take n (drop q (store_at p d (bytes s))) = take n (drop q (bytes s))"
    using assms(3,4,6) by (intro nth_equalityI) (auto simp: store_at_def nth_append)
  moreover have "length (take n (drop q (bytes s))) = n" using assms(6) by simp
  ultimately show ?thesis using read_bytes [OF 3(2) assms(5)] 1(1) 2(1) 3 by auto
qed

lemma read_in_parts:
  assumes "valid s" and "m + n \<le> limit" and "position s + m + n \<le> length (bytes s)"
  shows "\<exists>s1 s2 s3 a b. rd (int m) s = (Inr (int m, a), s1) \<and> rd (int n) s1 = (Inr (int n, b), s2) \<and>
    rd (int (m + n)) s = (Inr (int (m + n), a @ b), s3)"
proof -
  let ?a = "take m (drop (position s) (bytes s))" and ?b = "take n (drop (position s + m) (bytes s))"
  have len: "length ?a = m" "length ?b = n" using assms(3) by auto
  obtain s1 where 1: "rd (int m) s = (Inr (int m, ?a), s1)" "valid s1" "bytes s1 = bytes s" "position s1 = position s + m"
    using read_bytes [OF assms(1), of m] assms(2) len by auto
  obtain s2 where 2: "rd (int n) s1 = (Inr (int n, ?b), s2)"
    using read_bytes [OF 1(2), of n] assms(2) 1(3,4) len by auto
  have ab: "take (m + n) (drop (position s) (bytes s)) = ?a @ ?b" by (simp add: take_add add.commute)
  moreover have "length (?a @ ?b) = m + n" using len by simp
  ultimately obtain s3 where "rd (int (m + n)) s = (Inr (int (m + n), ?a @ ?b), s3)"
    using read_bytes [OF assms(1,2)] by (metis (no_types))
  with 1 2 show ?thesis by blast
qed

end

definition open_file :: "'o Env \<Rightarrow> ('o World \<times> File) \<times> int \<Rightarrow> bool" where
  "open_file env = (\<lambda>((w, f), errno). resident (e_cfg env) w \<and> NDEBUG (e_cfg env) \<and> f_out f \<noteq> None)"

definition file_bytes_of :: "'o Env \<Rightarrow> ('o World \<times> File) \<times> int \<Rightarrow> byte list" where
  "file_bytes_of env = (\<lambda>((w, f), errno). content (e_cfg env) w)"

definition file_position :: "('o World \<times> File) \<times> int \<Rightarrow> nat" where
  "file_position = (\<lambda>((w, f), errno). nat (mPos (w_file w)))"

lemma content_length: "length (content cfg w) = nat (mEof (w_file w))"
  by (simp add: content_def)

text \<open>Reading and seeking only move the position.\<close>

lemma gwRead_moves:
  assumes "resident (e_cfg env) w" and "NDEBUG (e_cfg env)" and "mPos (w_file w) = int p" and "n \<le> e_fuel env"
  shows "\<exists>w' f'. gwRead env (int n) ((w, f), errno) = (Inr (int (length (take n (drop p (content (e_cfg env) w)))),
      take n (drop p (content (e_cfg env) w))), ((w', f'), errno)) \<and>
    moved (int (p + length (take n (drop p (content (e_cfg env) w))))) w w' \<and>
    int (p + length (take n (drop p (content (e_cfg env) w)))) \<le> mEof (w_file w) \<and> f_out f' = f_out f \<and> f_flags f' = f_flags f"
proof -
  define k where "k = min n (nat (mEof (w_file w)) - p)"
  have bounds: "0 \<le> mPos (w_file w)" "mPos (w_file w) \<le> mEof (w_file w)" using assms(1) by (simp_all add: resident_def placed_def)
  have pk: "int (p + k) \<le> mEof (w_file w)" using bounds assms(3) by (auto simp: k_def min_def)
  have want: "(if int n < mEof (w_file w) - mPos (w_file w) then int n else mEof (w_file w) - mPos (w_file w)) = int k"
    using bounds assms(3) by (auto simp: k_def min_def)
  have slice: "take n (drop p (content (e_cfg env) w)) =
      map (\<lambda>i. byte_at (local_bytes w) (place (e_cfg env) (layout (w_file w)) (p + i))) [0..<k]"
    by (rule nth_equalityI) (auto simp: content_def k_def)
  have fuel: "k \<le> e_fuel env" using assms(4) by (simp add: k_def)
  obtain w' f' where run: "in_loop env (e_fuel env) True (int k) 0 [] (w, f) =
      (Inr (take n (drop p (content (e_cfg env) w))), (w', f'))" and mv: "moved (int (p + k)) w w'"
    and f': "f_out f' = f_out f" "f_flags f' = f_flags f"
    using in_loop_run [OF assms(1,3) pk fuel, of True "[]" f] slice by auto
  have len: "length (take n (drop p (content (e_cfg env) w))) = k" using slice by simp
  show ?thesis
  proof (cases "k = 0")
    case True
    then have "gwRead env (int n) ((w, f), errno) = (Inr (0, []), ((w, f), errno))"
      using assms(2) bounds want by (simp add: gwRead_def api_def File_read_def File_remaining_def run_liftW getFile_def run_simps Let_def)
    moreover have none: "take n (drop p (content (e_cfg env) w)) = []" using len True by (simp only: length_0_conv)
    ultimately show ?thesis unfolding none using moved_refl [OF assms(3)] pk True by (intro exI [of _ w] exI [of _ f]) simp
  next
    case False
    then have "gwRead env (int n) ((w, f), errno) = (Inr (int k, take n (drop p (content (e_cfg env) w))), ((w', f'), errno))"
      using assms(2) bounds want run
      by (simp add: gwRead_def api_def File_read_def File_remaining_def run_liftW getFile_def run_simps Let_def InputStream_read_def)
    then show ?thesis using mv f' pk unfolding len by auto
  qed
qed

lemma gwRead_bytes:
  assumes "open_file env s" and "n \<le> e_fuel env"
  shows "\<exists>s'. gwRead env (int n) s = (Inr (int (length (take n (drop (file_position s) (file_bytes_of env s)))),
      take n (drop (file_position s) (file_bytes_of env s))), s') \<and> open_file env s' \<and>
    file_bytes_of env s' = file_bytes_of env s \<and>
    file_position s' = file_position s + length (take n (drop (file_position s) (file_bytes_of env s)))"
proof -
  obtain w f errno where s: "s = ((w, f), errno)" by (cases s) auto
  have res: "resident (e_cfg env) w" and nd: "NDEBUG (e_cfg env)" and out: "f_out f \<noteq> None"
    using assms(1) by (simp_all add: open_file_def s)
  have pos: "mPos (w_file w) = int (file_position s)" using res by (simp add: s file_position_def resident_def placed_def)
  have bytes: "file_bytes_of env s = content (e_cfg env) w" by (simp add: s file_bytes_of_def)
  obtain w' f' where run: "gwRead env (int n) s = (Inr (int (length (take n (drop (file_position s) (file_bytes_of env s)))),
      take n (drop (file_position s) (file_bytes_of env s))), ((w', f'), errno))"
    and mv: "moved (int (file_position s + length (take n (drop (file_position s) (file_bytes_of env s))))) w w'"
    and le: "int (file_position s + length (take n (drop (file_position s) (file_bytes_of env s)))) \<le> mEof (w_file w)"
    and f': "f_out f' = f_out f"
    using gwRead_moves [OF res nd pos assms(2), of f errno] unfolding s [symmetric] bytes [symmetric] by blast
  have "open_file env ((w', f'), errno)"
    using moved_resident [OF mv res] le nd out f' by (simp add: open_file_def)
  moreover have "file_bytes_of env ((w', f'), errno) = file_bytes_of env s"
    using moved_content [OF mv] by (simp add: s file_bytes_of_def)
  moreover have "file_position ((w', f'), errno) = file_position s + length (take n (drop (file_position s) (file_bytes_of env s)))"
    using moved_facts(3) [OF mv] by (simp only: file_position_def prod.case nat_int)
  ultimately show ?thesis using run by blast
qed

lemma gwWrite_bytes:
  assumes "open_file env s" and "length d \<le> e_fuel env" and "file_position s + length d \<le> length (file_bytes_of env s)"
  shows "\<exists>s'. gwWrite env d s = (Inr (int (length d)), s') \<and> open_file env s' \<and>
    file_bytes_of env s' = store_at (file_position s) d (file_bytes_of env s) \<and> file_position s' = file_position s + length d"
proof -
  obtain w f errno where s: "s = ((w, f), errno)" by (cases s) auto
  obtain s0 where res: "resident (e_cfg env) w" and nd: "NDEBUG (e_cfg env)" and out: "f_out f = Some s0"
    using assms(1) by (auto simp: open_file_def s)
  define p where "p = nat (mPos (w_file w))"
  have bounds: "0 \<le> mPos (w_file w)" "mPos (w_file w) \<le> mEof (w_file w)" using res by (simp_all add: resident_def placed_def)
  have pos: "mPos (w_file w) = int p" using bounds(1) by (simp add: p_def)
  have pk: "int (p + length d) \<le> mEof (w_file w)"
    using assms(3) bounds by (simp add: s file_position_def file_bytes_of_def content_length p_def)
  obtain w' f' s1 where run: "out_loop env (e_fuel env) d False True (int (length d)) 0 (w, f) = (Inr (), (w', f'))"
    and wr: "wrote (e_cfg env) p d w w'" and f': "f_out f' = Some s1"
    using out_loop_run [OF res nd pos pk assms(2), of True f s0 0 d] out by auto
  have "gwWrite env d s = (Inr (int (length d)), ((w', f'), errno))"
    using run out by (simp add: s gwWrite_def api_def File_write_def OutputStream_write_def run_simps getOut_def)
  moreover have "open_file env ((w', f'), errno)"
    using wrote_resident [OF wr res pk] nd f' by (simp add: open_file_def)
  ultimately show ?thesis
    using wrote_facts(3) [OF wr res] wrote_content [OF wr res pk] by (simp add: s file_position_def file_bytes_of_def p_def nat_add_distrib)
qed

lemma gwSeek_moves:
  assumes "mPos (w_file w) = int p" and "mEof (w_file w) = int n" and "seek_target q mode n p = t" and "t \<le> int n"
  shows "\<exists>w' errno'. gwSeek env q mode ((w, f), errno) = (Inr (fst (seek_result t p)), ((w', f), errno')) \<and>
    moved (int (snd (seek_result t p))) w w'"
proof (cases "t < 0")
  case True
  then have "gwSeek env q mode ((w, f), errno) = (Inr (- 1), ((w, f), EINVALIDPARM))"
    using assms by (auto simp: gwSeek_def api_def File_seek_def run_liftW getFile_def run_simps Let_def seek_target_def
        handleException_values split: seek_mode.splits)
  then show ?thesis using True moved_refl [OF assms(1)] by (auto simp: seek_result_def)
next
  case False
  let ?w = "w\<lparr>w_file := (w_file w)\<lparr>mPos := t\<rparr>\<rparr>"
  have "moved t w ?w"
    unfolding moved_def by (intro exI [of _ "fd_off (w_localFd w)"] exI [of _ "mBlockArray (w_file w)"]) simp
  moreover have "gwSeek env q mode ((w, f), errno) = (Inr t, ((?w, f), errno))"
    using assms False setPosition_inside [of t w env]
    by (auto simp: gwSeek_def api_def File_seek_def run_liftW getFile_def run_simps Let_def seek_target_def split: seek_mode.splits)
  ultimately show ?thesis using False by (auto simp: seek_result_def)
qed

lemma seek_result_inside: "t \<le> int n \<Longrightarrow> p \<le> n \<Longrightarrow> snd (seek_result t p) \<le> n"
  by (auto simp: seek_result_def)

lemma gwSeek_bytes:
  assumes "open_file env s" and "seek_target q mode (length (file_bytes_of env s)) (file_position s) = t"
    and "t \<le> int (length (file_bytes_of env s))"
  shows "\<exists>s'. gwSeek env q mode s = (Inr (fst (seek_result t (file_position s))), s') \<and> open_file env s' \<and>
    file_bytes_of env s' = file_bytes_of env s \<and> file_position s' = snd (seek_result t (file_position s))"
proof -
  obtain w f errno where s: "s = ((w, f), errno)" by (cases s) auto
  let ?n = "length (file_bytes_of env s)" and ?p = "file_position s"
  have res: "resident (e_cfg env) w" using assms(1) by (simp add: open_file_def s)
  then have pn: "mPos (w_file w) = int ?p" "mEof (w_file w) = int ?n" "?p \<le> ?n"
    by (auto simp: s file_position_def file_bytes_of_def content_length resident_def placed_def intro!: nat_mono)
  obtain w' errno' where run: "gwSeek env q mode s = (Inr (fst (seek_result t ?p)), ((w', f), errno'))"
    and mv: "moved (int (snd (seek_result t ?p))) w w'"
    using gwSeek_moves [OF pn(1,2) assms(2,3), of env f errno] unfolding s [symmetric] by blast
  have le: "int (snd (seek_result t ?p)) \<le> mEof (w_file w)" using seek_result_inside [OF assms(3) pn(3)] pn(2) by simp
  have "open_file env ((w', f), errno')" using assms(1) moved_resident [OF mv res] le by (simp add: s open_file_def)
  moreover have "file_bytes_of env ((w', f), errno') = file_bytes_of env s"
    using moved_content [OF mv] by (simp add: s file_bytes_of_def)
  moreover have "file_position ((w', f), errno') = snd (seek_result t ?p)"
    using moved_facts(3) [OF mv] by (simp only: file_position_def prod.case nat_int)
  ultimately show ?thesis using run by blast
qed

interpretation gw_file: random_access "e_fuel env" "open_file env" "file_bytes_of env" file_position "gwRead env" "gwWrite env" "gwSeek env"
  for env :: "'o Env"
  by unfold_locales (rule gwRead_bytes gwWrite_bytes gwSeek_bytes; assumption)+

text \<open>
  C4 In a build without assertions, a file opened for writing whose blocks are all in the local space and
  active in this opening, each in a bucket of its own and smaller than 2 GiB, and of which no other thread is
  loading a block, behaves as an array of bytes: for every sequence of reads, of writes within the
  file and of seeks from the beginning, the position or the end to a place within the file or before it,
  across the boundaries of its blocks, the library functions return what the array returns, and leave the
  bytes and the position that the array has. A seek returns the new position, or -1 for a place before the
  file. As many rounds as the longest transfer has bytes are enough for the loops. (With assertions a write
  that crosses the end of a block aborts, as \<open>debug_write_aborts\<close> shows.)
\<close>

theorem file_is_byte_array:
  assumes "open_file env s"
    and "array_run (e_fuel env) ops (file_bytes_of env s, file_position s) = Some (rs, (b, p))"
  shows "\<exists>s'. run_ops (file_step (gwRead env) (gwWrite env) (gwSeek env)) ops s = (Inr rs, s') \<and>
    open_file env s' \<and> file_bytes_of env s' = b \<and> file_position s' = p"
  using gw_file.run_refines [OF assms] by auto

text \<open>
  A file of twelve bytes in two blocks of eight, the first of them in bucket 1 and the second in
  bucket 0, opened for reading and writing.
\<close>

definition env1 :: "bool \<Rightarrow> unit Env" where
  "env1 ndebug = env0\<lparr>e_io := (e_io env0)\<lparr>io_cfg := space_cfg\<lparr>NDEBUG := ndebug\<rparr>\<rparr>\<rparr>"

definition state1 :: "(unit World \<times> File) \<times> int" where
  "state1 = (((world0 [1, 2, 3, 4, 5, 6, 7, 8, 9, 10, 11, 12, 13, 14, 15, 16])\<lparr>w_file := status0\<lparr>
       mLRUCache := Some (snd (lru_put id 1 1 (snd (lru_put id 0 0 (LRUCache_new 2))))), mEof := 12, mPos := 2,
       mBlockArray := [Block_new 1 0 True BUCKET_ACTIVE, Block_new 0 1 True BUCKET_ACTIVE]\<rparr>\<rparr>,
     File_new (mFileId status0) ''a'' GW_RDWR), 0)"

lemma state1_parts: "layout (w_file (fst (fst state1))) = [(True, 1), (True, 0)]" "\<not> mLoadMutex (w_file (fst (fst state1)))"
  "mPos (w_file (fst (fst state1))) = 2" "mEof (w_file (fst (fst state1))) = 12" "f_out (snd (fst state1)) = Some Stream_new"
  "fd_inode (w_localFd (fst (fst state1))) = 0" "length (inodes (w_store (fst (fst state1)))) = 1"
  "file_bytes (w_store (fst (fst state1))) 0 = [1, 2, 3, 4, 5, 6, 7, 8, 9, 10, 11, 12, 13, 14, 15, 16]"
  "mLRUCache (w_file (fst (fst state1))) = Some (snd (lru_put id 1 1 (snd (lru_put id 0 0 (LRUCache_new 2)))))"
  by (simp_all add: state1_def world0_def status0_def layout_def space_fd_def log_store_def set_bytes_def file_bytes_def
      File_new_def canWrite_def open_flags Block_new_def)

lemma cache1_full: "lru_exists 0 (snd (lru_put id (1 :: int) (1 :: int) (snd (lru_put id 0 0 (LRUCache_new 2)))))"
  "lru_exists 1 (snd (lru_put id (1 :: int) (1 :: int) (snd (lru_put id 0 0 (LRUCache_new 2)))))"
  by (code_simp, code_simp)

lemma env1_parts: "LOCAL_BUCKET_SIZE (e_cfg (env1 nd)) = 8" "NDEBUG (e_cfg (env1 nd)) = nd" "e_fuel (env1 nd) = 10"
  by (simp_all add: env1_def env0_def space_cfg_def)

lemma state1_facts: "resident (e_cfg (env1 nd)) (fst (fst state1))" "file_position state1 = 2"
  "file_bytes_of (env1 nd) state1 = [9, 10, 11, 12, 13, 14, 15, 16, 1, 2, 3, 4]" "open_file (env1 True) state1"
proof -
  have upt: "[0..<12] = [0, 1, 2, 3, 4, 5, 6, 7, 8, 9, 10, 11 :: nat]" by (simp add: upt_rec)
  show res: "resident (e_cfg (env1 nd)) (fst (fst state1))" for nd
    using cache1_full by (simp add: resident_def placed_def state1_parts env1_parts place_def upt)
  show "file_position state1 = 2" by (simp add: file_position_def state1_parts split_beta)
  show "file_bytes_of (env1 nd) state1 = [9, 10, 11, 12, 13, 14, 15, 16, 1, 2, 3, 4]"
    by (simp add: file_bytes_of_def content_def state1_parts env1_parts place_def byte_at_def upt split_beta)
  show "open_file (env1 True) state1" using res [of True] by (simp add: open_file_def state1_parts env1_parts split_beta)
qed

theorem file_is_byte_array_witness:
  "\<exists>s'. run_ops (file_step (gwRead (env1 True)) (gwWrite (env1 True)) (gwSeek (env1 True)))
      [WriteOp [20, 21, 22, 23, 24, 25, 26, 27], SeekOp 1 Seek_Set, ReadOp 4, SeekOp (- 6) Seek_Cur, SeekOp (- 4) Seek_End, ReadOp 9] state1 =
     (Inr [(8, []), (1, []), (4, [10, 20, 21, 22]), (- 1, []), (8, []), (4, [26, 27, 3, 4])], s') \<and>
   open_file (env1 True) s' \<and>
   file_bytes_of (env1 True) s' = [9, 10, 20, 21, 22, 23, 24, 25, 26, 27, 3, 4] \<and> file_position s' = 12"
proof -
  have "array_run 10 [WriteOp [20, 21, 22, 23, 24, 25, 26, 27], SeekOp 1 Seek_Set, ReadOp 4, SeekOp (- 6) Seek_Cur, SeekOp (- 4) Seek_End, ReadOp 9]
      ([9, 10, 11, 12, 13, 14, 15, 16, 1, 2, 3, 4], 2) =
    Some ([(8, []), (1, []), (4, [10, 20, 21, 22]), (- 1, []), (8, []), (4, [26, 27, 3, 4])],
      ([9, 10, 20, 21, 22, 23, 24, 25, 26, 27, 3, 4], 12))"
    by (simp add: store_at_def Let_def seek_target_def seek_result_def)
  then show ?thesis by (intro file_is_byte_array [OF state1_facts(4)]) (simp only: state1_facts(2,3) env1_parts)
qed

text \<open>
  C36 In a build with assertions, a write that crosses the end of a block aborts the process: the
  assertion after the write compares the bytes written with \<^verbatim>\<open>remaining()\<close>, which is already the
  space left behind them.
\<close>

theorem debug_write_aborts:
  assumes "resident (e_cfg env) w" and "\<not> NDEBUG (e_cfg env)" and "f_out f = Some st" and "0 < e_fuel env"
    and "mPos (w_file w) + int (length d) \<le> mEof (w_file w)"
    and "LOCAL_BUCKET_SIZE (e_cfg env) < mPos (w_file w) mod LOCAL_BUCKET_SIZE (e_cfg env) + int (length d)"
  shows "\<exists>s. gwWrite env d ((w, f), errno) = (Inl AssertAbort, s)"
proof -
  let ?S = "LOCAL_BUCKET_SIZE (e_cfg env)" and ?p = "nat (mPos (w_file w))"
  have b: "0 \<le> mPos (w_file w)" "0 < ?S" using assms(1) by (simp_all add: resident_def placed_def)
  have pos: "mPos (w_file w) = int ?p" using b by simp
  have "int (?p mod nat ?S) = mPos (w_file w) mod ?S" using b by (simp add: zmod_int)
  then have cross: "nat ?S < ?p mod nat ?S + length d" using assms(6) b by linarith
  obtain n where n: "e_fuel env = Suc n" using assms(4) gr0_implies_Suc by blast
  have "int (?p + length d) \<le> mEof (w_file w)" using assms(5) pos by simp
  then obtain s where "out_loop env (e_fuel env) d False True (int (length d)) 0 (w, f) = (Inl AssertAbort, s)"
    using out_loop_abort [OF assms(1,2) pos _ cross assms(3) order_refl, of n] n by metis
  then show ?thesis
    using assms(3) by (simp add: gwWrite_def api_def File_write_def OutputStream_write_def run_simps getOut_def del: out_loop.simps)
qed

theorem debug_write_aborts_witness:
  "\<exists>s. gwWrite (env1 False) [20, 21, 22, 23, 24, 25, 26] state1 = (Inl AssertAbort, s)"
proof -
  obtain w f errno where s: "state1 = ((w, f), errno)" by (metis prod.exhaust)
  note parts = state1_parts [unfolded s fst_conv snd_conv]
  show ?thesis
    unfolding s
    by (rule debug_write_aborts [OF _ _ parts(5)])
      (use state1_facts(1) [of False] in \<open>simp_all add: s parts env1_parts\<close>)
qed

end
