(* ===== verification/GW_Append.thy ===== *)
theory GW_Append
  imports GW_FileProps GW_SharedMemProps
begin

unbundle bit_operations_syntax

text \<open>
  Appending to a file, and what other processes see of it. A process that works alone on a file
  writes across its end: blocks are added from pre-allocated and free buckets, the end of file is
  published in the shared memory, and every new block and, on flush, the end of file are logged in
  the manifest. A process that catches up with the log finds the file as it was written.
\<close>

section \<open>Critical sections without interference\<close>

definition with_lock :: "8 word \<Rightarrow> 'o World \<Rightarrow> 'o World" where
  "with_lock v w = w\<lparr>w_shm := (w_shm w)\<lparr>header := (header (w_shm w))\<lparr>h_flags := v\<rparr>\<rparr>\<rparr>"

lemma catchUp_end: "log_at [] w \<Longrightarrow> catchUpManifestLogs cfg w = (Inr (), w)"
proof -
  assume "log_at [] w"
  then obtain fd where fd: "mFD (mManifest (w_file w)) = Some fd" "drop (fd_off fd) (file_bytes (w_store w) (fd_inode fd)) = []"
    by (auto simp: log_at_def split: option.splits)
  have "log_fuel w = Suc (length (file_bytes (w_store w) (fd_inode fd)))" using fd(1) by (simp add: log_fuel_def)
  then show ?thesis using fetch_end [OF fd] by (simp add: catchUpManifestLogs_def run_simps mfE_def)
qed

lemma with_lock_parts [simp]: "w_sched (with_lock v w) = w_sched w" "w_file (with_lock v w) = w_file w"
  "w_store (with_lock v w) = w_store w" "w_localFd (with_lock v w) = w_localFd w" "log_at bs (with_lock v w) = log_at bs w"
  "buckets (w_shm (with_lock v w)) = buckets (w_shm w)" "h_flags (header (w_shm (with_lock v w))) = v"
  "with_lock u (with_lock v w) = with_lock u w"
  by (simp_all add: with_lock_def log_at_def split: option.splits)

lemma with_lock_same: "h_flags (header (w_shm w)) = v \<Longrightarrow> with_lock v w = w"
  by (simp add: with_lock_def)

lemma sharedMem_alone:
  assumes "w_sched w = []" and "h_flags (header (w_shm w)) = 0" and "log_at [] w"
    and "body (with_lock 1 w) = (Inr x, w')" and "h_flags (header (w_shm w')) = 1"
  shows "sharedMem env body w = (Inr x, with_lock 0 w')"
proof -
  have lock: "shmE shm_lock w = (Inr (), with_lock 1 w)"
    using assms(2) by (simp add: shmE_def shm_lock_def header_enter_def run_simps with_lock_def)
  have unlock: "shmE shm_unlock w' = (Inr (), with_lock 0 w')"
    using assms(5) by (simp add: shmE_def shm_unlock_def header_exit_def run_simps with_lock_def)
  have "interfere w = (Inr (), w)" using assms(1) by (simp add: interfere_def run_simps)
  moreover have "catchUpManifestLogs (e_cfg env) (with_lock 1 w) = (Inr (), with_lock 1 w)"
    using assms(3) by (intro catchUp_end) simp
  ultimately show ?thesis using lock unlock assms(4) by (simp add: sharedMem_def run_simps)
qed

section \<open>Appending to the log\<close>

definition manifest_log :: "'o World \<Rightarrow> byte list" where
  "manifest_log w = (case mFD (mManifest (w_file w)) of None \<Rightarrow> [] | Some fd \<Rightarrow> file_bytes (w_store w) (fd_inode fd))"

text \<open>The process has read all of the log, which is not the local space.\<close>

definition log_ready :: "'o World \<Rightarrow> bool" where
  "log_ready w \<longleftrightarrow> length (mBuffer (mManifest (w_file w))) = BUFFER_SIZE \<and>
     (case mFD (mManifest (w_file w)) of None \<Rightarrow> False
      | Some fd \<Rightarrow> fd_off fd = length (manifest_log w) \<and> fd_inode fd < length (inodes (w_store w)) \<and>
          fd_inode fd \<noteq> fd_inode (w_localFd w))"

definition log_put :: "byte list \<Rightarrow> 'o World \<Rightarrow> 'o World" where
  "log_put rec w = (case mFD (mManifest (w_file w)) of None \<Rightarrow> w
   | Some fd \<Rightarrow> w\<lparr>w_store := (set_bytes (fd_inode fd) (manifest_log w @ rec) (w_store w))\<lparr>diskFree := diskFree (w_store w) - length rec\<rparr>,
       w_file := (w_file w)\<lparr>mManifest := (mManifest (w_file w))\<lparr>mFD := Some (fd\<lparr>fd_off := fd_off fd + length rec\<rparr>)\<rparr>\<rparr>\<rparr>)"

lemma with_lock_log [simp]: "manifest_log (with_lock v w) = manifest_log w" "log_ready (with_lock v w) = log_ready w"
  by (simp_all add: manifest_log_def log_ready_def split: option.splits)

lemma log_ready_at: "log_ready w \<Longrightarrow> log_at [] w"
  by (auto simp: log_ready_def log_at_def manifest_log_def split: option.splits)

lemma record_length:
  assumes "record_ok (pad, ty, bs, op)"
  shows "length (record_bytes (pad, ty, bs, op)) = 24 + 12 * length bs"
proof -
  from assms have "list_all block_ok bs" by (simp add: record_ok_def)
  from serialize_ok [OF this, of pad ty op] obtain bytes where
    "serializeManifestLog pad bs ty op = Inr (RecordHeader_bytes (record_header ty (length bs) op) @ bytes)"
    "length bytes = length bs * sizeof_BlockRecord" by metis
  then show ?thesis using record_bytes_eq(1) [OF assms] by (simp add: sizeof_RecordHeader_def sizeof_BlockRecord_def)
qed

lemma log_put_run:
  assumes "log_ready w" and "record_ok (pad, ty, bs, op)" and "24 + 12 * length bs \<le> diskFree (w_store w)"
  shows "mfE (logRecord pad bs ty op) w = (Inr (), log_put (record_bytes (pad, ty, bs, op)) w)"
proof -
  obtain fd where fd: "mFD (mManifest (w_file w)) = Some fd" "fd_off fd = length (file_bytes (w_store w) (fd_inode fd))"
    using assms(1) by (auto simp: log_ready_def manifest_log_def split: option.splits)
  have "length (record_bytes (pad, ty, bs, op)) \<le> diskFree (w_store w)" using record_length [OF assms(2)] assms(3) by simp
  then show ?thesis
    using logRecord_append [OF record_bytes_eq(1) [OF assms(2)] fd] fd(1) by (simp add: mfE_def run_simps log_put_def manifest_log_def)
qed

lemma log_put_parts [simp]:
  "w_shm (log_put r w) = w_shm w" "w_sched (log_put r w) = w_sched w" "w_localFd (log_put r w) = w_localFd w"
  "mBlockArray (w_file (log_put r w)) = mBlockArray (w_file w)" "mEof (w_file (log_put r w)) = mEof (w_file w)"
  "mPos (w_file (log_put r w)) = mPos (w_file w)" "mLRUCache (w_file (log_put r w)) = mLRUCache (w_file w)"
  "mPreAllocatedBuckets (w_file (log_put r w)) = mPreAllocatedBuckets (w_file w)"
  "mLoadingBuckets (w_file (log_put r w)) = mLoadingBuckets (w_file w)" "mLoadMutex (w_file (log_put r w)) = mLoadMutex (w_file w)"
  "mFileId (w_file (log_put r w)) = mFileId (w_file w)" "mActiveId (w_file (log_put r w)) = mActiveId (w_file w)"
  "mIsSequence (w_file (log_put r w)) = mIsSequence (w_file w)" "mIsWrite (w_file (log_put r w)) = mIsWrite (w_file w)"
  "length (inodes (w_store (log_put r w))) = length (inodes (w_store w))"
  by (simp_all add: log_put_def set_bytes_def split: option.splits)

lemma inodes_set_bytes [simp]: "length (inodes (set_bytes i bs st)) = length (inodes st)"
  by (simp add: set_bytes_def)

lemma log_put_ready:
  assumes "log_ready w"
  shows "log_ready (log_put r w)" "manifest_log (log_put r w) = manifest_log w @ r" "local_bytes (log_put r w) = local_bytes w"
    "diskFree (w_store (log_put r w)) = diskFree (w_store w) - length r"
  using assms by (auto simp: log_ready_def log_put_def manifest_log_def split: option.splits)

section \<open>A process alone on its file\<close>

text \<open>A bucket that is active, belongs to the file and is marked by this opening.\<close>

definition held :: "FileActiveStatus \<Rightarrow> SharedMemoryContext \<Rightarrow> int \<Rightarrow> bool" where
  "held f s i \<longleftrightarrow> (case idx i (buckets s) of None \<Rightarrow> False
     | Some b \<Rightarrow> isActiveBucket b \<and> b_fileId b = mFileId f \<and> hasActiveId (mActiveId f) b)"

definition bucket_of :: "SharedMemoryContext \<Rightarrow> Block \<Rightarrow> ShareMemBucket" where
  "bucket_of s b = buckets s ! nat (bk_bucketId b)"

text \<open>
  What the shared memory says of the file: the buckets of its blocks and the pre-allocated ones are
  held and distinct, each block's bucket has its index, buckets without data have size 0, and the
  size of the last block does not exceed the end of file.
\<close>

definition region_agrees :: "Configuration \<Rightarrow> FileActiveStatus \<Rightarrow> SharedMemoryContext \<Rightarrow> bool" where
  "region_agrees cfg f s \<longleftrightarrow>
     shm_inv s \<and> numUsedBuckets (header s) = 0 \<and> numBuckets (header s) \<le> NUMBER_OF_BLOCKS cfg \<and>
     list_all (\<lambda>b. isFreeBucket b \<longrightarrow> dataSize b = 0) (buckets s) \<and>
     list_all (held f s) (map bk_bucketId (mBlockArray f @ mPreAllocatedBuckets f)) \<and>
     distinct (map bk_bucketId (mBlockArray f @ mPreAllocatedBuckets f)) \<and>
     list_all (\<lambda>b. dataSize (bucket_of s b) = 0) (mPreAllocatedBuckets f) \<and>
     list_all (\<lambda>k. b_fileBlockIndex (bucket_of s (mBlockArray f ! k)) = int k) [0..<length (mBlockArray f)] \<and>
     (mBlockArray f \<noteq> [] \<longrightarrow>
        int (length (mBlockArray f) - 1) * LOCAL_BUCKET_SIZE cfg + dataSize (bucket_of s (last (mBlockArray f))) \<le> mEof f)"

text \<open>The opening itself: its cache has exactly its blocks, and all blocks it knows are active.\<close>

definition opening_ok :: "Configuration \<Rightarrow> FileActiveStatus \<Rightarrow> bool" where
  "opening_ok cfg f \<longleftrightarrow>
     valid_activeId (mActiveId f) \<and> mLoadingBuckets f = [] \<and>
     list_all (\<lambda>b. isLocal b \<and> bk_state b = BUCKET_ACTIVE) (mBlockArray f @ mPreAllocatedBuckets f) \<and>
     0 < PRE_ALLOCATE_BUCKET_NUM cfg \<and> PRE_ALLOCATE_BUCKET_NUM cfg \<le> 339 \<and> unat (quotaSize cfg (mIsSequence f)) < 2 ^ 31 \<and>
     (case mLRUCache f of None \<Rightarrow> False
      | Some c \<Rightarrow> lru_inv c \<and> lru_size c = length (mBlockArray f) \<and> lru_maxSize c = unat (quotaSize cfg (mIsSequence f)))"

definition sole_writer :: "'o Env \<Rightarrow> 'o World \<Rightarrow> bool" where
  "sole_writer env w \<longleftrightarrow> placed (e_cfg env) w \<and> NDEBUG (e_cfg env) \<and> 0 < e_fuel env \<and> w_sched w = [] \<and> log_ready w \<and>
     h_flags (header (w_shm w)) = 0 \<and> region_agrees (e_cfg env) (w_file w) (w_shm w) \<and> opening_ok (e_cfg env) (w_file w)"

text \<open>
  Room for \<open>k\<close> more bytes up to the end \<open>e\<close>: buckets for the blocks that are missing, within the quota,
  and space for the bytes and for the log records of the new blocks.
\<close>

definition blocks_for :: "Configuration \<Rightarrow> nat \<Rightarrow> nat" where
  "blocks_for cfg e = (e + bucket_size cfg - 1) div bucket_size cfg"

definition room :: "Configuration \<Rightarrow> nat \<Rightarrow> nat \<Rightarrow> 'o World \<Rightarrow> bool" where
  "room cfg e k w \<longleftrightarrow>
     (let missing = blocks_for cfg e - length (mBlockArray (w_file w)); free = unat (numFreeBuckets (header (w_shm w))) in
      blocks_for cfg e \<le> unat (quotaSize cfg (mIsSequence (w_file w))) \<and>
      missing \<le> length (mPreAllocatedBuckets (w_file w)) + free \<and>
      k + 60 * missing + 12 * free \<le> diskFree (w_store w))"

lemma held_header [simp]: "held f (s\<lparr>header := h\<rparr>) = held f s"
  by (simp add: held_def fun_eq_iff)

lemma region_with_lock [simp]: "region_agrees cfg f (w_shm (with_lock v w)) = region_agrees cfg f (w_shm w)"
  by (simp add: region_agrees_def with_lock_def bucket_of_def)

lemma held_cong: "buckets t ! nat i = buckets s ! nat i \<Longrightarrow> length (buckets t) = length (buckets s) \<Longrightarrow>
    mFileId g = mFileId f \<Longrightarrow> mActiveId g = mActiveId f \<Longrightarrow> held g t i = held f s i"
  by (simp add: held_def idx_def)

lemma region_cong:
  assumes "region_agrees cfg f s" and "mBlockArray g = mBlockArray f" and "mPreAllocatedBuckets g = mPreAllocatedBuckets f"
    and "mFileId g = mFileId f" and "mActiveId g = mActiveId f" and "mEof f \<le> mEof g"
  shows "region_agrees cfg g s"
proof -
  have "held g s = held f s" using assms(4,5) by (simp add: held_def fun_eq_iff split: option.split)
  then show ?thesis using assms(1-3,6) by (auto simp: region_agrees_def)
qed

section \<open>Acquiring free buckets\<close>

lemma free_count:
  assumes "shm_inv s"
  shows "unat (numFreeBuckets (header s)) = length (free_ids [0..<length (buckets s)] s)"
    and "length (free_ids [0..<length (buckets s)] s) < 2 ^ 31"
proof -
  have "length (filter (\<lambda>i. P (xs ! i)) [0..<length xs]) = cnt P xs" for P and xs :: "ShareMemBucket list"
  proof -
    have "filter P xs = map ((!) xs) (filter (P \<circ> (!) xs) [0..<length xs])" by (metis filter_map map_nth)
    then show ?thesis by (simp add: cnt_def comp_def)
  qed
  then have c: "length (free_ids [0..<length (buckets s)] s) = cnt isFreeBucket (buckets s)" by (simp add: free_ids_def)
  have l: "length (buckets s) < 2 ^ 31" using assms by (auto simp: shm_inv_def sizes_ok_def)
  with c cnt_le [of isFreeBucket "buckets s"] show "length (free_ids [0..<length (buckets s)] s) < 2 ^ 31" by simp
  with c show "unat (numFreeBuckets (header s)) = length (free_ids [0..<length (buckets s)] s)"
    using assms by (simp add: shm_inv_def counters_ok_def unat_of_nat take_bit_nat_eq_self_iff)
qed

text \<open>What the first critical section of \<^verbatim>\<open>acquireNewBlocks\<close> decides when the file is below its quota.\<close>

lemma policy_free:
  assumes "NDEBUG cfg" and "a < quotaSize cfg sq" and "0 < free" and "0 < PRE_ALLOCATE_BUCKET_NUM cfg"
  obtains acq where "acquirePolicy cfg sq (calcDynamicQuotaNum cfg) free 0 a n = Inr (quotaSize cfg sq, 0, acq)"
    and "0 < acq" and "acq \<le> free" and "acq \<le> PRE_ALLOCATE_BUCKET_NUM cfg"
proof -
  let ?q = "quotaSize cfg sq" and ?pre = "PRE_ALLOCATE_BUCKET_NUM cfg"
  define acq where "acq = (let tmp = (if ?q - a > ?pre then ?pre else ?q - a) in if free > tmp then tmp else free)"
  note b = policy_below [OF assms(2-4) acq_def]
  have q: "?q = (if sq \<and> calcDynamicQuotaNum cfg > ?pre then ?pre else calcDynamicQuotaNum cfg)"
    by (simp add: quotaSize_def calcDynamicQuotaNum_def)
  have "acq \<le> ?pre" by (auto simp: acq_def Let_def)
  moreover have "acquirePolicy cfg sq (calcDynamicQuotaNum cfg) free 0 a n = Inr (?q, 0, acq)"
    unfolding acquirePolicy_def Let_def q [symmetric] add_0_right acq_def [unfolded Let_def, symmetric]
    using assms(1-3) b(4) by simp
  ultimately show ?thesis using that b(1,2) by blast
qed

lemma acquireFreeBucket_run:
  assumes "shm_inv s" and "valid_activeId a" and "0 < n" and "n \<le> length (free_ids [0..<length (buckets s)] s)"
  obtains t where "acquireFreeBucket a (int n) f wr s = (Inr (map int (take n (free_ids [0..<length (buckets s)] s))), t)"
    and "\<And>i. i \<in> set (take n (free_ids [0..<length (buckets s)] s)) \<Longrightarrow>
      acquired a f (buckets t ! i) \<and> dataSize (buckets t ! i) = dataSize (buckets s ! i)"
    and "\<And>i. i \<notin> set (take n (free_ids [0..<length (buckets s)] s)) \<Longrightarrow> buckets t ! i = buckets s ! i"
    and "header t = (header s)\<lparr>numFreeBuckets := numFreeBuckets (header s) - of_nat n,
      numActiveBuckets := numActiveBuckets (header s) + of_nat n\<rparr>"
    and "shm_inv t" and "length (buckets t) = length (buckets s)"
proof -
  have nb: "nat (numBuckets (header s)) = length (buckets s)" using assms(1) by (auto simp: shm_inv_def sizes_ok_def)
  from acquire_loop_spec [OF assms(1,2) _ _ assms(3,4), of f wr "[]"] obtain t where
    t: "acquire_loop a f wr [0..<length (buckets s)] (int n) [] s = (Inr (0, map int (take n (free_ids [0..<length (buckets s)] s))), t)"
    and rest: "\<forall>i \<in> set (take n (free_ids [0..<length (buckets s)] s)). acquired a f (buckets t ! i)"
      "\<forall>i. i \<notin> set (take n (free_ids [0..<length (buckets s)] s)) \<longrightarrow> buckets t ! i = buckets s ! i"
      "length (buckets t) = length (buckets s)"
      "\<forall>i \<in> set (take n (free_ids [0..<length (buckets s)] s)). dataSize (buckets t ! i) = dataSize (buckets s ! i)"
      "header t = (header s)\<lparr>numFreeBuckets := numFreeBuckets (header s) - of_nat n,
        numActiveBuckets := numActiveBuckets (header s) + of_nat n\<rparr>" "shm_inv t" by auto
  have "acquireFreeBucket a (int n) f wr s = (Inr (map int (take n (free_ids [0..<length (buckets s)] s))), t)"
    using t by (simp add: acquireFreeBucket_def run_simps nb)
  from that [OF this] rest show ?thesis by blast
qed

lemma lru_adjust_same:
  assumes "lru_size c \<le> q" and "lru_maxSize c = q" and "nd"
  shows "lru_adjustSize freed nd q c = (Inr [], c)"
  using assms by (simp add: lru_adjustSize_def run_simps lru_maxSize_def)

definition fresh :: "nat \<Rightarrow> SharedMemoryContext \<Rightarrow> nat list" where
  "fresh n s = take n (free_ids [0..<length (buckets s)] s)"

lemma fresh_ids:
  assumes "i \<in> set (fresh n s)"
  shows "i < length (buckets s)" "isFreeBucket (buckets s ! i)"
  using assms by (auto simp: fresh_def free_ids_def dest: in_set_takeD)

lemma fresh_blocks_ok:
  assumes "shm_inv s" and "n \<le> 339"
  shows "record_ok (pad, rt_acquireNewBlock, map (newBlock \<circ> int) (fresh n s), op)"
proof -
  have "length (buckets s) < 2 ^ 31" using assms(1) by (auto simp: shm_inv_def sizes_ok_def)
  then have "block_ok (newBlock (int i))" if "i \<in> set (fresh n s)" for i
    using fresh_ids(1) [OF that] by (simp add: block_ok_def newBlock_def Block_new_def InvalidBlockId_def)
  moreover have "length (fresh n s) \<le> 339" using assms(2) by (simp add: fresh_def)
  ultimately show ?thesis by (simp add: record_ok_def list_all_iff record_types)
qed

text \<open>The first critical section takes free buckets, and logs them.\<close>

lemma acquireSection1_free:
  fixes v :: "'o World"
  defines "f \<equiv> w_file v" and "s \<equiv> w_shm v"
  assumes "NDEBUG (e_cfg env)" and "opening_ok (e_cfg env) f" and "mPreAllocatedBuckets f = []" and "mLRUCache f = Some c"
    and "shm_inv s" and "numUsedBuckets (header s) = 0" and "log_ready v"
    and "length (mBlockArray f) < unat (quotaSize (e_cfg env) (mIsSequence f))" and "0 < unat (numFreeBuckets (header s))"
    and "24 + 12 * unat (numFreeBuckets (header s)) \<le> diskFree (w_store v)"
  obtains n t where "0 < n" and "n \<le> unat (numFreeBuckets (header s))" and "n \<le> 339"
    and "acquireFreeBucket (mActiveId f) (int n) (mFileId f) (mIsWrite f) s = (Inr (map int (fresh n s)), t)"
    and "acquireSection1 env v = (Inr (0, None),
      log_put (record_bytes (e_pad env, rt_acquireNewBlock, map (newBlock \<circ> int) (fresh n s), 0))
        (v\<lparr>w_shm := t, w_file := f\<lparr>mPreAllocatedBuckets := map (newBlock \<circ> int) (fresh n s),
           mNumActivated := mNumActivated f + of_nat n\<rparr>\<rparr>))"
proof -
  let ?q = "quotaSize (e_cfg env) (mIsSequence f)" and ?n = "length (mBlockArray f)"
  have c: "lru_size c = ?n" "lru_maxSize c = unat ?q" and q: "unat ?q < 2 ^ 31" and ld: "mLoadingBuckets f = []"
    and pre: "0 < PRE_ALLOCATE_BUCKET_NUM (e_cfg env)" "PRE_ALLOCATE_BUCKET_NUM (e_cfg env) \<le> 339"
    and act: "valid_activeId (mActiveId f)"
    using assms(4,6) by (simp_all add: opening_ok_def)
  have a: "(word_of_int (int ?n) :: 32 word) < ?q"
    using assms(10) q by (simp add: word_less_nat_alt unat_of_nat take_bit_nat_eq_self_iff)
  have "0 < numFreeBuckets (header s)" using assms(11) by (simp add: word_less_nat_alt)
  from policy_free [OF assms(3) a this pre(1), of ?n] obtain acq where
    pol: "acquirePolicy (e_cfg env) (mIsSequence f) (calcDynamicQuotaNum (e_cfg env)) (numFreeBuckets (header s)) 0 (word_of_int (int ?n)) ?n =
      Inr (?q, 0, acq)" and acq: "0 < acq" "acq \<le> numFreeBuckets (header s)" "acq \<le> PRE_ALLOCATE_BUCKET_NUM (e_cfg env)" by blast
  define n where "n = unat acq"
  have n: "0 < n" "n \<le> unat (numFreeBuckets (header s))" "n \<le> 339"
    using acq pre(2) by (simp_all add: n_def word_le_nat_alt word_less_nat_alt)
  note fr = free_count [OF assms(7)]
  have "uint acq = int n" by (simp add: n_def)
  moreover have "n < 2 ^ 31" using n(2) fr by linarith
  ultimately have sn: "sint acq = int n" by (simp add: sint_uint signed_take_bit_int_eq_self)
  from acquireFreeBucket_run [OF assms(7) act n(1)] n(2) fr(1) obtain t where
    t: "acquireFreeBucket (mActiveId f) (int n) (mFileId f) (mIsWrite f) s = (Inr (map int (fresh n s)), t)"
    unfolding fresh_def by metis
  have len: "length (fresh n s) = n" using n(2) fr(1) by (simp add: fresh_def)
  define v' where "v' = v\<lparr>w_shm := t, w_file := f\<lparr>mPreAllocatedBuckets := map (newBlock \<circ> int) (fresh n s),
           mNumActivated := mNumActivated f + of_nat n\<rparr>\<rparr>"
  have "log_ready v'" using assms(9) by (simp add: v'_def log_ready_def manifest_log_def f_def cong: option.case_cong)
  then have log: "mfE (logAcquireNewBlock (e_pad env) (map (newBlock \<circ> int) (fresh n s))) v' =
      (Inr (), log_put (record_bytes (e_pad env, rt_acquireNewBlock, map (newBlock \<circ> int) (fresh n s), 0)) v')"
    unfolding logAcquireNewBlock_def
    using n(2) assms(12) len by (intro log_put_run fresh_blocks_ok [OF assms(7) n(3)]) (simp_all add: v'_def)
  have acqf: "acquireFree acq v = (Inr (map (newBlock \<circ> int) (fresh n s)), v')"
    using t sn len assms(5) by (simp add: acquireFree_def addPreAllocated_def run_simps getFile_def modFile_def shmE_def v'_def f_def s_def comp_def)
  have same: "v\<lparr>w_file := f\<lparr>mLRUCache := Some c\<rparr>\<rparr> = v" using assms(6) by (simp add: f_def)
  have enough: "\<not> numFreeBuckets (header s) < acq" using acq(2) by (simp add: not_less)
  have "acquireSection1 env v = (Inr (0, None),
      log_put (record_bytes (e_pad env, rt_acquireNewBlock, map (newBlock \<circ> int) (fresh n s), 0)) v')"
    using pol acq(1) enough acqf log c ld assms(3,5,6,8,10) q
    by (simp add: acquireSection1_def run_simps getNumAcquiredBuckets_def getFile_def lruE_gets f_def [symmetric] s_def [symmetric]
        lruE_def lru_adjust_same int32_id same)
  from that [OF n t this [unfolded v'_def]] show ?thesis .
qed

lemma acquire_facts:
  assumes "shm_inv s" and "valid_activeId a" and "0 < n" and "n \<le> unat (numFreeBuckets (header s))"
    and "acquireFreeBucket a (int n) f wr s = (Inr (map int (fresh n s)), t)"
  shows "\<And>i. i \<in> set (fresh n s) \<Longrightarrow> acquired a f (buckets t ! i) \<and> dataSize (buckets t ! i) = dataSize (buckets s ! i)"
    and "\<And>i. i \<notin> set (fresh n s) \<Longrightarrow> buckets t ! i = buckets s ! i"
    and "header t = (header s)\<lparr>numFreeBuckets := numFreeBuckets (header s) - of_nat n,
      numActiveBuckets := numActiveBuckets (header s) + of_nat n\<rparr>"
    and "shm_inv t" and "length (buckets t) = length (buckets s)"
    and "unat (numFreeBuckets (header t)) = unat (numFreeBuckets (header s)) - n"
proof -
  note fr = free_count [OF assms(1)]
  from acquireFreeBucket_run [OF assms(1,2,3), of f wr] assms(4,5) fr(1)
  show "\<And>i. i \<in> set (fresh n s) \<Longrightarrow> acquired a f (buckets t ! i) \<and> dataSize (buckets t ! i) = dataSize (buckets s ! i)"
    and "\<And>i. i \<notin> set (fresh n s) \<Longrightarrow> buckets t ! i = buckets s ! i"
    and hdr: "header t = (header s)\<lparr>numFreeBuckets := numFreeBuckets (header s) - of_nat n,
      numActiveBuckets := numActiveBuckets (header s) + of_nat n\<rparr>"
    and "shm_inv t" and "length (buckets t) = length (buckets s)"
    unfolding fresh_def by (metis Pair_inject)+
  have "n < 2 ^ 32" using assms(4) fr by simp
  then have "of_nat n \<le> numFreeBuckets (header s)" "unat (of_nat n :: 32 word) = n"
    using assms(4) by (simp_all add: word_le_nat_alt unat_of_nat take_bit_nat_eq_self_iff)
  then show "unat (numFreeBuckets (header t)) = unat (numFreeBuckets (header s)) - n" by (simp add: hdr unat_sub)
qed

lemma fresh_apart:
  assumes "region_agrees cfg f s" and "b \<in> set (mBlockArray f)"
  shows "nat (bk_bucketId b) \<notin> set (fresh n s)"
proof
  assume "nat (bk_bucketId b) \<in> set (fresh n s)"
  then have "isFreeBucket (buckets s ! nat (bk_bucketId b))" by (rule fresh_ids(2))
  moreover have "held f s (bk_bucketId b)" using assms by (auto simp: region_agrees_def list_all_iff)
  ultimately show False by (auto simp: held_def idx_def isFreeBucket_def isActiveBucket_def split: if_splits)
qed

text \<open>The buckets taken become the pre-allocated ones; nothing the file holds changes.\<close>

lemma region_acquire:
  assumes "region_agrees cfg f s" and "mPreAllocatedBuckets f = []" and "valid_activeId (mActiveId f)" and "0 < n"
    and "n \<le> unat (numFreeBuckets (header s))"
    and run: "acquireFreeBucket (mActiveId f) (int n) (mFileId f) wr s = (Inr (map int (fresh n s)), t)"
  shows "region_agrees cfg (f\<lparr>mPreAllocatedBuckets := map (newBlock \<circ> int) (fresh n s), mNumActivated := x\<rparr>) t"
    and "h_flags (header t) = h_flags (header s)"
    and "unat (numFreeBuckets (header t)) = unat (numFreeBuckets (header s)) - n"
proof -
  have inv: "shm_inv s" using assms(1) by (simp add: region_agrees_def)
  note acq = acquire_facts [OF inv assms(3-5) run]
  note new = acq(1) and old = acq(2) and hdr = acq(3) and t = acq(4,5) and apart = fresh_apart [OF assms(1), of _ n]
  show "h_flags (header t) = h_flags (header s)" by (simp add: hdr)
  show "unat (numFreeBuckets (header t)) = unat (numFreeBuckets (header s)) - n" by (rule acq(6))
  let ?g = "f\<lparr>mPreAllocatedBuckets := map (newBlock \<circ> int) (fresh n s), mNumActivated := x\<rparr>"
  have holds: "held ?g t (int i) \<and> dataSize (buckets t ! i) = 0" if "i \<in> set (fresh n s)" for i
  proof -
    have "buckets s ! i \<in> set (buckets s)" using fresh_ids(1) [OF that] by simp
    then have "dataSize (buckets s ! i) = 0" using fresh_ids(2) [OF that] assms(1) by (auto simp: region_agrees_def list_all_iff)
    moreover have "hasActiveId (mActiveId f) (buckets t ! i)"
      using new [OF that] in_marks_iff [OF assms(3), of "buckets t ! i"] by (simp add: acquired_def)
    ultimately show ?thesis
      using new [OF that] fresh_ids(1) [OF that] t(2) by (simp add: held_def acquired_def)
  qed
  have "list_all (\<lambda>b. isFreeBucket b \<longrightarrow> dataSize b = 0) (buckets t)"
    unfolding list_all_length
  proof (intro allI impI)
    fix i
    assume i: "i < length (buckets t)" and free: "isFreeBucket (buckets t ! i)"
    have "i \<notin> set (fresh n s)" using free new by (auto simp: acquired_def isFreeBucket_def isActiveBucket_def)
    with old i free t(2) assms(1) show "dataSize (buckets t ! i) = 0" by (auto simp: region_agrees_def list_all_length)
  qed
  moreover have "list_all (held ?g t) (map bk_bucketId (mBlockArray f))"
  proof -
    have "held ?g t (bk_bucketId b) = held f s (bk_bucketId b)" if "b \<in> set (mBlockArray f)" for b
      using old [OF apart [OF that]] t(2) by (intro held_cong) simp_all
    then show ?thesis using assms(1) by (simp add: region_agrees_def list_all_iff)
  qed
  moreover have "distinct (map bk_bucketId (mBlockArray f @ map (newBlock \<circ> int) (fresh n s)))"
  proof -
    have "distinct (fresh n s)" by (simp add: fresh_def free_ids_def)
    moreover have "bk_bucketId b \<noteq> int i" if "i \<in> set (fresh n s)" "b \<in> set (mBlockArray f)" for i b
      using apart [OF that(2)] that(1) by (metis nat_int)
    ultimately show ?thesis
      using assms(1) by (auto simp: region_agrees_def newBlock_def Block_new_def distinct_map inj_on_def)
  qed
  moreover have "list_all (held ?g t) (map bk_bucketId (map (newBlock \<circ> int) (fresh n s)))"
    "list_all (\<lambda>b. dataSize (bucket_of t b) = 0) (map (newBlock \<circ> int) (fresh n s))"
    using holds by (auto simp: list_all_iff newBlock_def Block_new_def bucket_of_def)
  moreover have "bucket_of t b = bucket_of s b" if "b \<in> set (mBlockArray f)" for b
    using old [OF apart [OF that]] by (simp add: bucket_of_def)
  ultimately show "region_agrees cfg ?g t"
    using assms(1) t(1) by (auto simp: region_agrees_def hdr list_all_iff)
qed

section \<open>What the log tells others\<close>

definition view :: "'o World \<Rightarrow> Block list" where
  "view w = map (\<lambda>b. b\<lparr>bk_usageCount := 0\<rparr>) (mBlockArray (w_file w))"

text \<open>
  From one state of the opening to a later one, the log has grown by records that add to every block
  array the blocks that were added to this one.
\<close>

definition published :: "Configuration \<Rightarrow> 'o World \<Rightarrow> 'o World \<Rightarrow> bool" where
  "published cfg w w' \<longleftrightarrow>
     map_option fd_inode (mFD (mManifest (w_file w'))) = map_option fd_inode (mFD (mManifest (w_file w))) \<and>
     fd_inode (w_localFd w') = fd_inode (w_localFd w) \<and>
     (\<exists>rs bs. list_all record_ok rs \<and> manifest_log w' = manifest_log w @ log_bytes rs \<and> view w' = view w @ bs \<and>
       (\<forall>arr e. \<exists>e'. foldS (replay_record cfg) rs (arr, e) = Inr (arr @ bs, e')))"

lemma foldS_append: "foldS f (xs @ ys) b = (case foldS f xs b of Inl e \<Rightarrow> Inl e | Inr c \<Rightarrow> foldS f ys c)"
  by (induction xs arbitrary: b) (auto split: sum.splits)

lemma log_bytes_append [simp]: "log_bytes (rs @ rs') = log_bytes rs @ log_bytes rs'"
  by (simp add: log_bytes_def)

lemma published_trans:
  assumes "published cfg w w'" and "published cfg w' w''"
  shows "published cfg w w''"
proof -
  from assms(1) obtain rs bs where 1: "list_all record_ok rs" "manifest_log w' = manifest_log w @ log_bytes rs"
    "view w' = view w @ bs" "\<forall>arr e. \<exists>e'. foldS (replay_record cfg) rs (arr, e) = Inr (arr @ bs, e')"
    by (auto simp: published_def)
  from assms(2) obtain rs' bs' where 2: "list_all record_ok rs'" "manifest_log w'' = manifest_log w' @ log_bytes rs'"
    "view w'' = view w' @ bs'" "\<forall>arr e. \<exists>e'. foldS (replay_record cfg) rs' (arr, e) = Inr (arr @ bs', e')"
    by (auto simp: published_def)
  have "\<exists>e'. foldS (replay_record cfg) (rs @ rs') (arr, e) = Inr (arr @ bs @ bs', e')" for arr e
  proof -
    from 1(4) obtain e1 where "foldS (replay_record cfg) rs (arr, e) = Inr (arr @ bs, e1)" by blast
    moreover from 2(4) obtain e2 where "foldS (replay_record cfg) rs' (arr @ bs, e1) = Inr ((arr @ bs) @ bs', e2)" by blast
    ultimately show ?thesis by (simp add: foldS_append)
  qed
  then show ?thesis
    using assms 1(1-3) 2(1-3) unfolding published_def by (intro conjI exI [of _ "rs @ rs'"] exI [of _ "bs @ bs'"]) auto
qed

lemma published_same:
  assumes "map_option fd_inode (mFD (mManifest (w_file w'))) = map_option fd_inode (mFD (mManifest (w_file w)))"
    and "fd_inode (w_localFd w') = fd_inode (w_localFd w)" and "manifest_log w' = manifest_log w" and "view w' = view w"
  shows "published cfg w w'"
  using assms unfolding published_def by (intro conjI exI [of _ "[]"]) (simp_all add: log_bytes_def)

lemma published_record:
  assumes "log_ready v" and "record_ok r" and "w' = log_put (record_bytes r) v" and "manifest_log v = manifest_log w"
    and "map_option fd_inode (mFD (mManifest (w_file v))) = map_option fd_inode (mFD (mManifest (w_file w)))"
    and "fd_inode (w_localFd v) = fd_inode (w_localFd w)" and "view v = view w @ bs"
    and "\<And>arr e. \<exists>e'. replay_record cfg r (arr, e) = Inr (arr @ bs, e')"
  shows "published cfg w w'"
proof -
  have "view w' = view v" by (simp add: assms(3) view_def)
  moreover have "map_option fd_inode (mFD (mManifest (w_file w'))) = map_option fd_inode (mFD (mManifest (w_file v)))"
    using assms(1) by (auto simp: assms(3) log_put_def log_ready_def split: option.splits)
  moreover have "\<exists>e'. foldS (replay_record cfg) [r] (arr, e) = Inr (arr @ bs, e')" for arr e
    using assms(8) [of arr e] by auto
  ultimately show ?thesis
    using assms(2,4-7) log_put_ready(2) [OF assms(1)] unfolding published_def
    by (intro conjI exI [of _ "[r]"] exI [of _ bs]) (simp_all add: assms(3) log_bytes_def)
qed

lemma replay_acquired: "NDEBUG cfg \<Longrightarrow> replay_record cfg (pad, rt_acquireNewBlock, bs, op) (arr, e) = Inr (arr @ [], e)"
  by (simp add: replay_record_def replay_def record_header_def record_types)

lemma replay_extended:
  "NDEBUG cfg \<Longrightarrow> replay_record cfg (pad, rt_extendBlock, [b], op) (arr, e) = Inr (arr @ [b\<lparr>bk_usageCount := 0\<rparr>], sint op)"
  by (simp add: replay_record_def replay_def record_header_def record_types first_block_def)

lemma replay_eof: "NDEBUG cfg \<Longrightarrow> replay_record cfg (pad, rt_updateEof, [], op) (arr, e) = Inr (arr @ [], sint op)"
  by (simp add: replay_record_def replay_def record_header_def record_types)

lemma placed_frame:
  assumes "placed cfg w" and "mBlockArray (w_file w') = mBlockArray (w_file w)" and "mLRUCache (w_file w') = mLRUCache (w_file w)"
    and "mPos (w_file w') = mPos (w_file w)" and "mEof (w_file w') = mEof (w_file w)"
    and "fd_inode (w_localFd w') = fd_inode (w_localFd w)" and "length (inodes (w_store w')) = length (inodes (w_store w))"
    and "local_bytes w' = local_bytes w"
  shows "placed cfg w'"
  using assms by (simp add: placed_def layout_def cong: option.case_cong)

text \<open>The record of the buckets that are taken, and the world with them, before the lock is given back.\<close>

definition acquire_record :: "'o Env \<Rightarrow> nat \<Rightarrow> 'o World \<Rightarrow> log_record" where
  "acquire_record env n w = (e_pad env, rt_acquireNewBlock, map (newBlock \<circ> int) (fresh n (w_shm w)), 0)"

definition with_fresh :: "nat \<Rightarrow> SharedMemoryContext \<Rightarrow> 'o World \<Rightarrow> 'o World" where
  "with_fresh n t w = w\<lparr>w_shm := t, w_file := (w_file w)\<lparr>mPreAllocatedBuckets := map (newBlock \<circ> int) (fresh n (w_shm w)),
     mNumActivated := mNumActivated (w_file w) + of_nat n\<rparr>\<rparr>"

lemma with_fresh_parts [simp]:
  "mBlockArray (w_file (with_fresh n t w)) = mBlockArray (w_file w)" "mEof (w_file (with_fresh n t w)) = mEof (w_file w)"
  "mPreAllocatedBuckets (w_file (with_fresh n t w)) = map (newBlock \<circ> int) (fresh n (w_shm w))"
  "mPos (w_file (with_fresh n t w)) = mPos (w_file w)" "mIsSequence (w_file (with_fresh n t w)) = mIsSequence (w_file w)"
  "mLoadMutex (w_file (with_fresh n t w)) = mLoadMutex (w_file w)" "mLRUCache (w_file (with_fresh n t w)) = mLRUCache (w_file w)"
  "mFileId (w_file (with_fresh n t w)) = mFileId (w_file w)" "mActiveId (w_file (with_fresh n t w)) = mActiveId (w_file w)"
  "mLoadingBuckets (w_file (with_fresh n t w)) = mLoadingBuckets (w_file w)" "w_shm (with_fresh n t w) = t"
  "w_localFd (with_fresh n t w) = w_localFd w" "w_sched (with_fresh n t w) = w_sched w" "w_store (with_fresh n t w) = w_store w"
  "mManifest (w_file (with_fresh n t w)) = mManifest (w_file w)" "manifest_log (with_fresh n t w) = manifest_log w"
  "log_ready (with_fresh n t w) = log_ready w" "view (with_fresh n t w) = view w" "fresh n (w_shm (with_lock v w)) = fresh n (w_shm w)"
  by (simp_all add: with_fresh_def manifest_log_def log_ready_def view_def fresh_def free_ids_def split: option.splits)

lemma acquireNewBlocks_run:
  fixes w :: "'o World"
  assumes "sole_writer env w" and "mPreAllocatedBuckets (w_file w) = []"
    and "length (mBlockArray (w_file w)) < unat (quotaSize (e_cfg env) (mIsSequence (w_file w)))"
    and "0 < unat (numFreeBuckets (header (w_shm w)))" and "24 + 12 * unat (numFreeBuckets (header (w_shm w))) \<le> diskFree (w_store w)"
  obtains n t where "0 < n" and "n \<le> unat (numFreeBuckets (header (w_shm w)))" and "n \<le> 339"
    and "acquireFreeBucket (mActiveId (w_file w)) (int n) (mFileId (w_file w)) (mIsWrite (w_file w)) (w_shm (with_lock 1 w)) =
      (Inr (map int (fresh n (w_shm w))), t)"
    and "acquireNewBlocks env w = (Inr (), with_lock 0 (log_put (record_bytes (acquire_record env n w)) (with_fresh n t w)))"
proof -
  let ?f = "w_file w" and ?v = "with_lock 1 w"
  have nd: "NDEBUG (e_cfg env)" and fuel: "0 < e_fuel env" and sched: "w_sched w = []"
    and ready: "log_ready w" and fl: "h_flags (header (w_shm w)) = 0" and reg: "region_agrees (e_cfg env) ?f (w_shm ?v)"
    and op: "opening_ok (e_cfg env) ?f" using assms(1) by (simp_all add: sole_writer_def)
  obtain c where c: "mLRUCache ?f = Some c" using op by (auto simp: opening_ok_def split: option.splits)
  have act: "valid_activeId (mActiveId ?f)" using op by (simp add: opening_ok_def)
  have free_v: "numFreeBuckets (header (w_shm ?v)) = numFreeBuckets (header (w_shm w))" by (simp add: with_lock_def)
  obtain n t where n: "0 < n" "n \<le> unat (numFreeBuckets (header (w_shm w)))" "n \<le> 339"
    and t: "acquireFreeBucket (mActiveId ?f) (int n) (mFileId ?f) (mIsWrite ?f) (w_shm ?v) = (Inr (map int (fresh n (w_shm w))), t)"
    and sec: "acquireSection1 env ?v = (Inr (0, None), log_put (record_bytes (acquire_record env n w)) (with_fresh n t ?v))"
    using acquireSection1_free [of env ?v c] nd op assms(2-5) c reg ready free_v
    by (auto simp: region_agrees_def acquire_record_def with_fresh_def)
  define w1 where "w1 = log_put (record_bytes (acquire_record env n w)) (with_fresh n t ?v)"
  have "n \<le> unat (numFreeBuckets (header (w_shm ?v)))" using n(2) free_v by simp
  note rt = region_acquire [OF reg assms(2) act n(1) this, unfolded with_fresh_parts, OF t]
  have len: "length (fresh n (w_shm w)) = n" using n(2) free_count [of "w_shm w"] assms(1) by (simp add: fresh_def sole_writer_def region_agrees_def)
  have "sharedMem env (acquireSection1 env) w = (Inr (0, None), with_lock 0 w1)"
    using sec rt(2) by (intro sharedMem_alone sched fl log_ready_at ready) (simp_all add: w1_def)
  moreover have "mPreAllocatedBuckets (w_file w1) \<noteq> []" using len n(1) by (auto simp: w1_def)
  moreover obtain k where "e_fuel env = Suc k" using fuel gr0_conv_Suc by blast
  ultimately have "acquireNewBlocks env w = (Inr (), with_lock 0 w1)"
    by (simp add: acquireNewBlocks_def run_simps getFile_def)
  moreover have "with_lock 0 w1 = with_lock 0 (log_put (record_bytes (acquire_record env n w)) (with_fresh n t w))"
    by (simp add: w1_def log_put_def with_lock_def with_fresh_def manifest_log_def fresh_def free_ids_def split: option.splits)
  ultimately show ?thesis using that [OF n t] by simp
qed

lemma acquire_new:
  fixes w :: "'o World"
  assumes "sole_writer env w" and "mPreAllocatedBuckets (w_file w) = []"
    and "length (mBlockArray (w_file w)) < unat (quotaSize (e_cfg env) (mIsSequence (w_file w)))"
    and "0 < unat (numFreeBuckets (header (w_shm w)))" and "24 + 12 * unat (numFreeBuckets (header (w_shm w))) \<le> diskFree (w_store w)"
  obtains w' where "acquireNewBlocks env w = (Inr (), w')" and "sole_writer env w'" and "published (e_cfg env) w w'"
    and "mPreAllocatedBuckets (w_file w') \<noteq> []" and "mBlockArray (w_file w') = mBlockArray (w_file w)"
    and "mEof (w_file w') = mEof (w_file w)" and "mPos (w_file w') = mPos (w_file w)" and "local_bytes w' = local_bytes w"
    and "mIsSequence (w_file w') = mIsSequence (w_file w)" and "mLoadMutex (w_file w') = mLoadMutex (w_file w)"
    and "length (mPreAllocatedBuckets (w_file w')) + unat (numFreeBuckets (header (w_shm w'))) = unat (numFreeBuckets (header (w_shm w)))"
    and "diskFree (w_store w') + 24 + 12 * length (mPreAllocatedBuckets (w_file w')) = diskFree (w_store w)"
proof -
  let ?f = "w_file w" and ?cfg = "e_cfg env"
  have res: "placed ?cfg w" and nd: "NDEBUG ?cfg" and fuel: "0 < e_fuel env" and sched: "w_sched w = []" and ready: "log_ready w"
    and reg: "region_agrees ?cfg ?f (w_shm (with_lock 1 w))" and op: "opening_ok ?cfg ?f" using assms(1) by (simp_all add: sole_writer_def)
  have act: "valid_activeId (mActiveId ?f)" using op by (simp add: opening_ok_def)
  obtain n t where n: "0 < n" "n \<le> unat (numFreeBuckets (header (w_shm w)))" "n \<le> 339"
    and t: "acquireFreeBucket (mActiveId ?f) (int n) (mFileId ?f) (mIsWrite ?f) (w_shm (with_lock 1 w)) = (Inr (map int (fresh n (w_shm w))), t)"
    and run: "acquireNewBlocks env w = (Inr (), with_lock 0 (log_put (record_bytes (acquire_record env n w)) (with_fresh n t w)))"
    by (rule acquireNewBlocks_run [OF assms])
  let ?r = "acquire_record env n w"
  define w' where "w' = with_lock 0 (log_put (record_bytes ?r) (with_fresh n t w))"
  have nv: "n \<le> unat (numFreeBuckets (header (w_shm (with_lock 1 w))))" using n(2) by (simp add: with_lock_def)
  note rt = region_acquire [OF reg assms(2) act n(1) nv, unfolded with_fresh_parts, OF t]
  have inv: "shm_inv (w_shm w)" using assms(1) by (simp add: sole_writer_def region_agrees_def)
  have len: "length (fresh n (w_shm w)) = n" using n(2) free_count [OF inv] by (simp add: fresh_def)
  have ok: "record_ok ?r" unfolding acquire_record_def by (rule fresh_blocks_ok [OF inv n(3)])
  have ready': "log_ready (with_fresh n t w)" using ready by simp
  have pub: "published ?cfg w w'"
  proof -
    have "published ?cfg w (log_put (record_bytes ?r) (with_fresh n t w))"
      using replay_acquired [OF nd] by (intro published_record [OF ready' ok refl, where bs = "[]"]) (auto simp: acquire_record_def)
    moreover have "published ?cfg (log_put (record_bytes ?r) (with_fresh n t w)) w'"
      by (rule published_same) (simp_all add: w'_def view_def)
    ultimately show ?thesis by (rule published_trans)
  qed
  have bytes: "local_bytes w' = local_bytes w" using log_put_ready(3) [OF ready'] by (simp add: w'_def)
  have "placed ?cfg w'" by (rule placed_frame [OF res _ _ _ _ _ _ bytes]) (simp_all add: w'_def)
  moreover have "log_ready w'" using log_put_ready(1) [OF ready'] by (simp add: w'_def)
  moreover have "region_agrees ?cfg (w_file w') (w_shm w')"
  proof -
    have "region_agrees ?cfg (w_file w') (w_shm (log_put (record_bytes ?r) (with_fresh n t w)))"
      unfolding log_put_parts with_fresh_parts by (rule region_cong [OF rt(1)]) (simp_all add: w'_def)
    then show ?thesis by (simp add: w'_def)
  qed
  moreover have "opening_ok ?cfg (w_file w')"
    using op assms(2) by (auto simp: w'_def opening_ok_def newBlock_def Block_new_def list_all_iff split: option.splits)
  ultimately have sw: "sole_writer env w'" using nd fuel sched by (simp add: sole_writer_def) (simp add: w'_def)
  have "length (mPreAllocatedBuckets (w_file w')) + unat (numFreeBuckets (header (w_shm w'))) = unat (numFreeBuckets (header (w_shm w)))"
    using len rt(3) n(2) by (simp add: w'_def with_lock_def)
  moreover have "diskFree (w_store w') + 24 + 12 * length (mPreAllocatedBuckets (w_file w')) = diskFree (w_store w)"
    using len record_length [OF ok [unfolded acquire_record_def]] log_put_ready(4) [OF ready'] assms(5) n(2) by (simp add: w'_def acquire_record_def)
  moreover have "mPreAllocatedBuckets (w_file w') \<noteq> []" using len n(1) by (auto simp: w'_def)
  ultimately show ?thesis using bytes by (intro that [OF run [folded w'_def] sw pub]) (simp_all add: w'_def)
qed

section \<open>Adding a block\<close>

text \<open>A cache with exactly the keys below \<open>n\<close> takes the key \<open>n\<close> without giving up another.\<close>

lemma lru_put_next:
  fixes c :: "(int, int) LRUCache" and v :: int
  assumes "lru_inv c" and "lru_size c = n" and "n < lru_maxSize c" and "\<And>k. k < n \<Longrightarrow> lru_exists (int k) c"
  defines "c' \<equiv> snd (lru_put id (int n) v c)"
  shows "lru_inv c'" and "lru_size c' = Suc n" and "lru_maxSize c' = lru_maxSize c" and "k < Suc n \<Longrightarrow> lru_exists (int k) c'"
proof -
  let ?keys = "fst ` set (lru_abs c)"
  have len: "length (lru_abs c) = n" using lru_size_abs [OF assms(1)] assms(2) by simp
  have "int ` {..<n} \<subseteq> ?keys" using assms(4) lru_exists_refines [OF assms(1)] by auto
  moreover have "card ?keys \<le> n" using len card_length [of "map fst (lru_abs c)"] by simp
  moreover have "card (int ` {..<n}) = n" by (simp add: card_image)
  ultimately have keys: "?keys = int ` {..<n}" by (metis card_seteq finite_set finite_imageI)
  then have "int n \<notin> ?keys" by auto
  then have new: "filter (\<lambda>p. fst p \<noteq> int n) (lru_abs c) = lru_abs c" by (intro filter_True) force
  note put = lru_put_refines [OF assms(1), of id "int n" v]
  show inv: "lru_inv c'" and "lru_maxSize c' = lru_maxSize c" using put(2,3) by (simp_all add: c'_def lru_maxSize_def)
  have abs: "lru_abs c' = (int n, v) # lru_abs c"
    using put(1) new len assms(3) by (simp add: c'_def spec_put_def Let_def lru_maxSize_def)
  then show "lru_size c' = Suc n" using lru_size_abs [OF inv] len by simp
  show "k < Suc n \<Longrightarrow> lru_exists (int k) c'"
    using keys lru_exists_refines [OF inv] abs by (auto simp: less_Suc_eq)
qed

lemma updateActiveFileInfo_run:
  assumes "held f s (bk_bucketId b)"
  shows "updateActiveFileInfo [b] (mFileId f) s =
    (Inr (), s\<lparr>buckets := (buckets s)[nat (bk_bucketId b) := (bucket_of s b)\<lparr>b_fileBlockIndex := bk_blockId b\<rparr>]\<rparr>)"
  using assms by (auto simp: held_def updateActiveFileInfo_def run_simps readBucket_def modBucket_def writeBucket_def bucket_of_def
      idx_Some_iff split: option.splits)

lemma held_update:
  assumes "held f s j" and "b_flags c = b_flags (buckets s ! nat i)" and "b_fileId c = b_fileId (buckets s ! nat i)"
    and "activeInfos c = activeInfos (buckets s ! nat i)"
  shows "held f (s\<lparr>buckets := (buckets s)[nat i := c]\<rparr>) j"
  using assms by (cases "nat i = nat j") (auto simp: held_def idx_def hasActiveId_def isActiveBucket_def split: if_splits)

text \<open>The first pre-allocated bucket becomes the last block.\<close>

lemma region_extend:
  assumes "region_agrees cfg f s" and "mPreAllocatedBuckets f = b0 # bs" and "mEof f = int (length (mBlockArray f)) * LOCAL_BUCKET_SIZE cfg"
    and "b = b0\<lparr>bk_blockId := int (length (mBlockArray f))\<rparr>"
    and "t = s\<lparr>buckets := (buckets s)[nat (bk_bucketId b) := (bucket_of s b)\<lparr>b_fileBlockIndex := bk_blockId b\<rparr>]\<rparr>"
    and "mBlockArray g = mBlockArray f @ [b]" and "mPreAllocatedBuckets g = bs" and "mEof g = mEof f"
    and "mFileId g = mFileId f" and "mActiveId g = mActiveId f"
  shows "region_agrees cfg g t"
proof -
  let ?i = "bk_bucketId b0"
  have i: "bk_bucketId b = ?i" by (simp add: assms(4))
  have hl: "held f s (bk_bucketId x)" if "x \<in> set (mBlockArray f @ b0 # bs)" for x
    using assms(1,2) that by (auto simp: region_agrees_def list_all_iff)
  then have bi: "0 \<le> bk_bucketId x \<and> nat (bk_bucketId x) < length (buckets s)" if "x \<in> set (mBlockArray f @ b0 # bs)" for x
    using that by (force simp: held_def idx_def split: if_splits)
  have d: "distinct (map bk_bucketId (mBlockArray f @ b0 # bs))" using assms(1,2) by (simp add: region_agrees_def)
  have other: "bucket_of t x = bucket_of s x" if "x \<in> set (mBlockArray f @ bs)" for x
  proof -
    have "bk_bucketId x \<in> bk_bucketId ` (set (mBlockArray f) \<union> set bs)" using that by auto
    then have "bk_bucketId x \<noteq> ?i" using d by auto
    then have "nat (bk_bucketId x) \<noteq> nat ?i" using bi [of x] bi [of b0] that by auto
    then show ?thesis by (simp add: bucket_of_def assms(5) i)
  qed
  have this_one: "bucket_of t b = (bucket_of s b0)\<lparr>b_fileBlockIndex := int (length (mBlockArray f))\<rparr>"
    using bi [of b0] by (simp add: bucket_of_def assms(4,5))
  have "wp (updateActiveFileInfo [b] (mFileId f)) (\<lambda>_. shm_inv) (\<lambda>_. shm_inv) s"
    using assms(1) by (intro updateActiveFileInfo_keeps) (simp add: region_agrees_def)
  then have inv: "shm_inv t"
    using updateActiveFileInfo_run [of f s b] hl [of b0] by (simp add: wp_def i assms(5))
  have all: "held g t (bk_bucketId x)" if "x \<in> set (mBlockArray f @ b # bs)" for x
  proof -
    have "held f s (bk_bucketId x)" using hl [of x] hl [of b0] that i by auto
    then have "held f t (bk_bucketId x)" unfolding assms(5) by (rule held_update) (simp_all add: bucket_of_def i)
    then show ?thesis using assms(9,10) held_cong [of t "bk_bucketId x" t g f] by simp
  qed
  have "list_all (\<lambda>b. isFreeBucket b \<longrightarrow> dataSize b = 0) (buckets t)"
    using assms(1) bi [of b0] by (auto simp: region_agrees_def list_all_length assms(5) i nth_list_update bucket_of_def isFreeBucket_def)
  moreover have "list_all (\<lambda>k. b_fileBlockIndex (bucket_of t (mBlockArray g ! k)) = int k) [0..<length (mBlockArray g)]"
    using assms(1) other this_one by (auto simp: region_agrees_def list_all_iff assms(6) nth_append less_Suc_eq)
  moreover have "dataSize (bucket_of t b) = 0" using assms(1,2) this_one by (simp add: region_agrees_def)
  moreover have "list_all (\<lambda>b. dataSize (bucket_of t b) = 0) bs"
    using assms(1,2) other by (simp add: region_agrees_def list_all_iff)
  moreover have "header t = header s" by (simp add: assms(5))
  moreover have "list_all (held g t) (map bk_bucketId (mBlockArray g @ mPreAllocatedBuckets g))"
    unfolding list_all_iff assms(6,7) using all by auto
  moreover have "distinct (map bk_bucketId (mBlockArray g @ mPreAllocatedBuckets g))" using d i by (simp add: assms(6,7))
  ultimately show ?thesis
    using assms(1,3) inv unfolding region_agrees_def by (simp add: assms(6-8))
qed

lemma place_more:
  assumes "0 < bucket_size cfg" and "p < length ls * bucket_size cfg"
  shows "place cfg (ls @ [x]) p = place cfg ls p"
  using assms by (simp add: place_def nth_append div_less_iff_less_mult)

text \<open>A block behind the end of the file does not change its bytes.\<close>

lemma placed_extend:
  assumes "placed cfg w" and "mBlockArray (w_file w') = mBlockArray (w_file w) @ [b]" and "isLocal b" and "0 \<le> bk_bucketId b"
    and "bk_bucketId b \<notin> bk_bucketId ` set (mBlockArray (w_file w))" and "Suc (length (mBlockArray (w_file w))) < 2 ^ 31"
    and "mLRUCache (w_file w') = Some c" and "\<And>k. k < Suc (length (mBlockArray (w_file w))) \<Longrightarrow> lru_exists (int k) c"
    and "mPos (w_file w') = mPos (w_file w)" and "mEof (w_file w') = mEof (w_file w)"
    and "fd_inode (w_localFd w') = fd_inode (w_localFd w)" and "length (inodes (w_store w')) = length (inodes (w_store w))"
    and "local_bytes w' = local_bytes w"
  shows "placed cfg w'" and "content cfg w' = content cfg w"
proof -
  have lay: "layout (w_file w') = layout (w_file w) @ [(isLocal b, bk_bucketId b)]" by (simp add: layout_def assms(2))
  have eof: "nat (mEof (w_file w)) \<le> length (layout (w_file w)) * bucket_size cfg" and S: "0 < bucket_size cfg"
    using assms(1) by (simp_all add: placed_def)
  have pl: "place cfg (layout (w_file w')) p = place cfg (layout (w_file w)) p" if "p < nat (mEof (w_file w))" for p
    unfolding lay using that eof S by (intro place_more) simp_all
  then show "content cfg w' = content cfg w" using assms(10,13) by (simp add: content_def cong: map_cong)
  have "list_all (\<lambda>p. place cfg (layout (w_file w')) p < length (local_bytes w')) [0..<nat (mEof (w_file w'))]"
    using assms(1,10,13) pl by (simp add: placed_def list_all_iff)
  moreover have "distinct (map snd (layout (w_file w')))"
    using assms(1,5) by (auto simp: placed_def layout_def comp_def assms(2))
  moreover have "nat (mEof (w_file w')) \<le> length (layout (w_file w')) * bucket_size cfg"
    using eof assms(10) by (simp add: lay)
  moreover have "list_all (\<lambda>k. lru_exists (int k) c) [0..<length (layout (w_file w'))]"
    using assms(8) by (simp add: list_all_iff layout_def assms(2))
  moreover have "length (layout (w_file w')) < 2 ^ 31" using assms(6) by (simp add: layout_def assms(2))
  moreover have "\<forall>(loc, bucket) \<in> set (layout (w_file w')). loc \<and> 0 \<le> bucket"
    using assms(1,3,4) by (auto simp: lay placed_def)
  ultimately show "placed cfg w'"
    using assms(1,9-13) unfolding placed_def assms(7) by simp
qed

text \<open>The record of a new block, and the world that \<^verbatim>\<open>extendOneBlock\<close> leaves.\<close>

definition extend_record :: "'o Env \<Rightarrow> Block \<Rightarrow> 'o World \<Rightarrow> log_record" where
  "extend_record env b w = (e_pad env, rt_extendBlock, [b], word_of_int (mEof (w_file w)))"

definition with_block :: "Block \<Rightarrow> Block list \<Rightarrow> (int, int) LRUCache \<Rightarrow> 'o World \<Rightarrow> 'o World" where
  "with_block b bs c w = w\<lparr>w_file := (w_file w)\<lparr>mPreAllocatedBuckets := bs, mBlockArray := mBlockArray (w_file w) @ [b],
       mLRUCache := Some (snd (lru_put id (bk_blockId b) (bk_bucketId b) c))\<rparr>,
     w_shm := (w_shm w)\<lparr>buckets := (buckets (w_shm w))[nat (bk_bucketId b) :=
       (bucket_of (w_shm w) b)\<lparr>b_fileBlockIndex := bk_blockId b\<rparr>]\<rparr>\<rparr>"

lemma with_block_parts [simp]:
  "mBlockArray (w_file (with_block b bs c w)) = mBlockArray (w_file w) @ [b]" "mPreAllocatedBuckets (w_file (with_block b bs c w)) = bs"
  "mEof (w_file (with_block b bs c w)) = mEof (w_file w)" "mPos (w_file (with_block b bs c w)) = mPos (w_file w)"
  "mIsSequence (w_file (with_block b bs c w)) = mIsSequence (w_file w)" "mLoadMutex (w_file (with_block b bs c w)) = mLoadMutex (w_file w)"
  "mFileId (w_file (with_block b bs c w)) = mFileId (w_file w)" "mActiveId (w_file (with_block b bs c w)) = mActiveId (w_file w)"
  "mLRUCache (w_file (with_block b bs c w)) = Some (snd (lru_put id (bk_blockId b) (bk_bucketId b) c))"
  "mLoadingBuckets (w_file (with_block b bs c w)) = mLoadingBuckets (w_file w)" "w_localFd (with_block b bs c w) = w_localFd w"
  "w_sched (with_block b bs c w) = w_sched w" "w_store (with_block b bs c w) = w_store w"
  "header (w_shm (with_block b bs c w)) = header (w_shm w)" "mManifest (w_file (with_block b bs c w)) = mManifest (w_file w)"
  "manifest_log (with_block b bs c w) = manifest_log w" "log_ready (with_block b bs c w) = log_ready w"
  "view (with_block b bs c w) = view w @ [b\<lparr>bk_usageCount := 0\<rparr>]"
  by (simp_all add: with_block_def manifest_log_def log_ready_def view_def split: option.splits)

lemma extend_run:
  fixes w :: "'o World"
  assumes "w_sched w = []" and "h_flags (header (w_shm w)) = 0" and "log_ready w" and "mLRUCache (w_file w) = Some c"
    and "mPreAllocatedBuckets (w_file w) = b0 # bs" and "length (mBlockArray (w_file w)) < 2 ^ 31" and "36 \<le> diskFree (w_store w)"
    and "b = b0\<lparr>bk_blockId := int (length (mBlockArray (w_file w)))\<rparr>" and "held (w_file w) (w_shm w) (bk_bucketId b)"
    and "record_ok (extend_record env b w)"
  shows "extendOneBlock env w = (Inr (), log_put (record_bytes (extend_record env b w)) (with_block b bs c w))"
proof -
  let ?f = "w_file w" and ?r = "extend_record env b w"
  define w1 where "w1 = w\<lparr>w_file := ?f\<lparr>mPreAllocatedBuckets := bs, mBlockArray := mBlockArray ?f @ [b],
      mLRUCache := Some (snd (lru_put id (bk_blockId b) (bk_bucketId b) c))\<rparr>\<rparr>"
  define v where "v = with_lock 1 (with_block b bs c w)"
  have ready1: "log_ready w1" using assms(3) by (simp add: w1_def log_ready_def manifest_log_def split: option.splits)
  have ready': "log_ready v" using assms(3) by (simp add: v_def)
  have "held ?f (w_shm (with_lock 1 w1)) (bk_bucketId b)" using assms(9) by (simp add: held_def w1_def cong: option.case_cong)
  from updateActiveFileInfo_run [OF this]
  have upd: "updateActiveFileInfo [b] (mFileId ?f) (w_shm (with_lock 1 w1)) = (Inr (), w_shm v)"
    by (simp add: v_def w1_def bucket_of_def with_lock_def with_block_def)
  have log: "mfE (logExtendBlock (e_pad env) [b] (word_of_int (mEof ?f))) v = (Inr (), log_put (record_bytes ?r) v)"
    unfolding logExtendBlock_def extend_record_def
    using assms(7,10) by (intro log_put_run [OF ready']) (simp_all add: v_def extend_record_def)
  have v: "(with_lock 1 w1)\<lparr>w_shm := w_shm v\<rparr> = v" by (simp add: v_def w1_def with_lock_def with_block_def)
  have "sharedMem env (bindE (getFile (\<lambda>f. f)) (\<lambda>f. seqE (shmE (updateActiveFileInfo [b] (mFileId f)))
        (mfE (logExtendBlock (e_pad env) [b] (word_of_int (mEof f)))))) w1 = (Inr (), with_lock 0 (log_put (record_bytes ?r) v))"
  proof (rule sharedMem_alone [OF _ _ log_ready_at [OF ready1]])
    show "bindE (getFile (\<lambda>f. f)) (\<lambda>f. seqE (shmE (updateActiveFileInfo [b] (mFileId f)))
        (mfE (logExtendBlock (e_pad env) [b] (word_of_int (mEof f))))) (with_lock 1 w1) = (Inr (), log_put (record_bytes ?r) v)"
      using upd log v by (simp add: run_simps getFile_def shmE_def) (simp add: w1_def)
  qed (use assms(1,2) in \<open>simp_all add: w1_def v_def\<close>)
  moreover have "with_lock 0 (log_put (record_bytes ?r) v) = log_put (record_bytes ?r) (with_block b bs c w)"
    using assms(2) by (simp add: v_def log_put_def with_lock_def with_block_def manifest_log_def split: option.splits)
  moreover have "getNumBlocks ?f = int (length (mBlockArray ?f))" using assms(6) by (simp add: getNumBlocks_def int32_id)
  ultimately show ?thesis
    using assms(4,5)
    by (simp add: extendOneBlock_def ensurePreAllocated_def run_simps getFile_def popPreAllocated_def modFile_def lruPut_def lruE_def
        Let_def w1_def getNumBlocks_def assms(8))
qed

lemma extend_preallocated:
  fixes w :: "'o World"
  assumes "sole_writer env w" and "mPreAllocatedBuckets (w_file w) = b0 # bs"
    and "mEof (w_file w) = int (length (mBlockArray (w_file w))) * LOCAL_BUCKET_SIZE (e_cfg env)"
    and "length (mBlockArray (w_file w)) < unat (quotaSize (e_cfg env) (mIsSequence (w_file w)))" and "36 \<le> diskFree (w_store w)"
  obtains w' b where "extendOneBlock env w = (Inr (), w')" and "sole_writer env w'" and "published (e_cfg env) w w'"
    and "mBlockArray (w_file w') = mBlockArray (w_file w) @ [b]" and "mPreAllocatedBuckets (w_file w') = bs"
    and "mEof (w_file w') = mEof (w_file w)" and "mPos (w_file w') = mPos (w_file w)" and "content (e_cfg env) w' = content (e_cfg env) w"
    and "mIsSequence (w_file w') = mIsSequence (w_file w)" and "mLoadMutex (w_file w') = mLoadMutex (w_file w)"
    and "numFreeBuckets (header (w_shm w')) = numFreeBuckets (header (w_shm w))" and "diskFree (w_store w') + 36 = diskFree (w_store w)"
proof -
  let ?f = "w_file w" and ?cfg = "e_cfg env"
  define n where "n = length (mBlockArray ?f)"
  have res: "placed ?cfg w" and nd: "NDEBUG ?cfg" and fuel: "0 < e_fuel env" and sched: "w_sched w = []"
    and ready: "log_ready w" and fl: "h_flags (header (w_shm w)) = 0" and reg: "region_agrees ?cfg ?f (w_shm w)"
    and op: "opening_ok ?cfg ?f" using assms(1) by (simp_all add: sole_writer_def)
  obtain c where c: "mLRUCache ?f = Some c" "lru_inv c" "lru_size c = n" "lru_maxSize c = unat (quotaSize ?cfg (mIsSequence ?f))"
    using op by (auto simp: opening_ok_def n_def split: option.splits)
  have small: "Suc n < 2 ^ 31" using op assms(4) by (simp add: opening_ok_def n_def)
  have keys: "lru_exists (int k) c" if "k < n" for k
    using res that c(1) by (simp add: placed_def layout_def n_def list_all_iff)
  have "n < lru_maxSize c" using assms(4) c(4) by (simp add: n_def)
  note put = lru_put_next [OF c(2,3) this keys]
  define b where "b = b0\<lparr>bk_blockId := int n\<rparr>"
  have b0: "b0 \<in> set (mPreAllocatedBuckets ?f)" by (simp add: assms(2))
  have held: "held ?f (w_shm w) (bk_bucketId b)" and loc: "isLocal b" "bk_state b = BUCKET_ACTIVE"
    using reg op b0 by (auto simp: region_agrees_def opening_ok_def list_all_iff b_def)
  then have bi: "0 \<le> bk_bucketId b" "nat (bk_bucketId b) < length (buckets (w_shm w))"
    by (auto simp: held_def idx_def split: if_splits)
  have "length (buckets (w_shm w)) < 2 ^ 31" using reg by (auto simp: region_agrees_def shm_inv_def sizes_ok_def)
  then have ok: "record_ok (extend_record env b w)"
    using bi loc small by (simp add: extend_record_def record_ok_def block_ok_def record_types b_def)
  define v where "v = with_block b bs c w"
  define w' where "w' = log_put (record_bytes (extend_record env b w)) v"
  have run: "extendOneBlock env w = (Inr (), w')"
    using extend_run [OF sched fl ready c(1) assms(2) _ assms(5) _ held ok] small by (simp add: w'_def v_def b_def n_def)
  have ready': "log_ready v" using ready by (simp add: v_def)
  have pub: "published ?cfg w w'"
    using replay_extended [OF nd] by (intro published_record [OF ready' ok w'_def, where bs = "[b\<lparr>bk_usageCount := 0\<rparr>]"])
      (auto simp: v_def extend_record_def)
  have new: "bk_bucketId b \<notin> bk_bucketId ` set (mBlockArray ?f)" using reg assms(2) by (auto simp: region_agrees_def b_def)
  have bytes: "local_bytes w' = local_bytes w" using log_put_ready(3) [OF ready'] by (simp add: w'_def v_def)
  have pl: "placed ?cfg w'" "content ?cfg w' = content ?cfg w"
    using bytes small put(4)
    by (intro placed_extend [OF res _ loc(1) bi(1) new, where c = "snd (lru_put id (int n) (bk_bucketId b) c)"];
        simp add: n_def w'_def v_def b_def)+
  have "region_agrees ?cfg (w_file v) (w_shm v)"
    by (rule region_extend [OF reg assms(2,3), of b]) (simp_all add: b_def n_def v_def, simp add: with_block_def)
  then have "region_agrees ?cfg (w_file w') (w_shm v)" by (rule region_cong) (simp_all add: w'_def)
  moreover have "opening_ok ?cfg (w_file w')"
    using op put(1-3) [of "bk_bucketId b"] c(4) loc assms(2) by (simp add: opening_ok_def n_def w'_def v_def b_def)
  ultimately have sw: "sole_writer env w'"
    using pl(1) nd fuel sched fl log_put_ready(1) [OF ready'] by (simp add: sole_writer_def) (simp add: w'_def v_def)
  have "diskFree (w_store w') + 36 = diskFree (w_store w)"
    using record_length [OF ok [unfolded extend_record_def]] log_put_ready(4) [OF ready'] assms(5)
    by (simp add: w'_def extend_record_def) (simp add: v_def)
  then show ?thesis by (intro that [OF run sw pub _ _ _ _ pl(2)]) (simp_all add: w'_def v_def)
qed

lemma room_parts:
  "room cfg e k w \<longleftrightarrow> blocks_for cfg e \<le> unat (quotaSize cfg (mIsSequence (w_file w))) \<and>
     blocks_for cfg e - length (mBlockArray (w_file w)) \<le>
       length (mPreAllocatedBuckets (w_file w)) + unat (numFreeBuckets (header (w_shm w))) \<and>
     k + 60 * (blocks_for cfg e - length (mBlockArray (w_file w))) + 12 * unat (numFreeBuckets (header (w_shm w))) \<le> diskFree (w_store w)"
  by (simp add: room_def Let_def)

text \<open>Space for one more log record is enough when a bucket is already there.\<close>

lemma extend_with_room:
  fixes w :: "'o World" and env :: "'o Env" and e :: nat
  defines "missing \<equiv> \<lambda>w :: 'o World. blocks_for (e_cfg env) e - length (mBlockArray (w_file w))"
    and "free \<equiv> \<lambda>w :: 'o World. unat (numFreeBuckets (header (w_shm w)))"
  assumes "sole_writer env w" and "mEof (w_file w) = int (length (mBlockArray (w_file w))) * LOCAL_BUCKET_SIZE (e_cfg env)"
    and "mPreAllocatedBuckets (w_file w) \<noteq> []" and "0 < missing w"
    and "blocks_for (e_cfg env) e \<le> unat (quotaSize (e_cfg env) (mIsSequence (w_file w)))"
    and "missing w \<le> length (mPreAllocatedBuckets (w_file w)) + free w" and "k + 60 * missing w + 12 * free w \<le> diskFree (w_store w) + 24"
  obtains w' b where "extendOneBlock env w = (Inr (), w')" and "sole_writer env w'" and "published (e_cfg env) w w'"
    and "mBlockArray (w_file w') = mBlockArray (w_file w) @ [b]" and "mEof (w_file w') = mEof (w_file w)"
    and "mPos (w_file w') = mPos (w_file w)" and "content (e_cfg env) w' = content (e_cfg env) w"
    and "mLoadMutex (w_file w') = mLoadMutex (w_file w)" and "room (e_cfg env) e k w'"
proof -
  obtain b0 bs where pre: "mPreAllocatedBuckets (w_file w) = b0 # bs" using assms(5) by (cases "mPreAllocatedBuckets (w_file w)") auto
  have q: "length (mBlockArray (w_file w)) < unat (quotaSize (e_cfg env) (mIsSequence (w_file w)))" and d: "36 \<le> diskFree (w_store w)"
    using assms(6,7,9) by (auto simp: missing_def)
  show ?thesis
  proof (rule extend_preallocated [OF assms(3) pre assms(4) q d])
    fix w' b
    assume x: "extendOneBlock env w = (Inr (), w')" "sole_writer env w'" "published (e_cfg env) w w'"
      "mBlockArray (w_file w') = mBlockArray (w_file w) @ [b]" "mPreAllocatedBuckets (w_file w') = bs"
      "mEof (w_file w') = mEof (w_file w)" "mPos (w_file w') = mPos (w_file w)" "content (e_cfg env) w' = content (e_cfg env) w"
      "mIsSequence (w_file w') = mIsSequence (w_file w)" "mLoadMutex (w_file w') = mLoadMutex (w_file w)"
      "numFreeBuckets (header (w_shm w')) = numFreeBuckets (header (w_shm w))" "diskFree (w_store w') + 36 = diskFree (w_store w)"
    have "room (e_cfg env) e k w'"
      using assms(6-9) x(4,5,9,11,12) pre by (auto simp: room_parts missing_def free_def)
    from that [OF x(1-4,6,7,8,10) this] show ?thesis .
  qed
qed

lemma extend_block:
  fixes w :: "'o World"
  assumes "sole_writer env w" and "mEof (w_file w) = int (length (mBlockArray (w_file w))) * LOCAL_BUCKET_SIZE (e_cfg env)"
    and "room (e_cfg env) e k w" and "length (mBlockArray (w_file w)) < blocks_for (e_cfg env) e"
  obtains w' b where "extendOneBlock env w = (Inr (), w')" and "sole_writer env w'" and "published (e_cfg env) w w'"
    and "mBlockArray (w_file w') = mBlockArray (w_file w) @ [b]" and "mEof (w_file w') = mEof (w_file w)"
    and "mPos (w_file w') = mPos (w_file w)" and "content (e_cfg env) w' = content (e_cfg env) w"
    and "mLoadMutex (w_file w') = mLoadMutex (w_file w)" and "room (e_cfg env) e k w'"
proof (cases "mPreAllocatedBuckets (w_file w) = []")
  case False
  show ?thesis
    by (rule extend_with_room [OF assms(1,2) False, of e k]; (rule that; assumption)?) (use assms(3,4) in \<open>simp_all add: room_parts\<close>)
next
  case True
  note r = assms(3) [unfolded room_parts]
  have pre: "length (mBlockArray (w_file w)) < unat (quotaSize (e_cfg env) (mIsSequence (w_file w)))"
    "0 < unat (numFreeBuckets (header (w_shm w)))" "24 + 12 * unat (numFreeBuckets (header (w_shm w))) \<le> diskFree (w_store w)"
    using r assms(4) True by auto
  show ?thesis
  proof (rule acquire_new [OF assms(1) True pre])
    fix w1
    assume x: "acquireNewBlocks env w = (Inr (), w1)" "sole_writer env w1" "published (e_cfg env) w w1"
      "mPreAllocatedBuckets (w_file w1) \<noteq> []" "mBlockArray (w_file w1) = mBlockArray (w_file w)"
      "mEof (w_file w1) = mEof (w_file w)" "mPos (w_file w1) = mPos (w_file w)" "local_bytes w1 = local_bytes w"
      "mIsSequence (w_file w1) = mIsSequence (w_file w)" "mLoadMutex (w_file w1) = mLoadMutex (w_file w)"
      "length (mPreAllocatedBuckets (w_file w1)) + unat (numFreeBuckets (header (w_shm w1))) = unat (numFreeBuckets (header (w_shm w)))"
      "diskFree (w_store w1) + 24 + 12 * length (mPreAllocatedBuckets (w_file w1)) = diskFree (w_store w)"
    have eof: "mEof (w_file w1) = int (length (mBlockArray (w_file w1))) * LOCAL_BUCKET_SIZE (e_cfg env)" using assms(2) x(5,6) by simp
    have skip: "extendOneBlock env w = extendOneBlock env w1"
      using x(1,4) True by (simp add: extendOneBlock_def ensurePreAllocated_def run_simps getFile_def)
    have content: "content (e_cfg env) w1 = content (e_cfg env) w" using x(5,6,8) by (simp add: content_def layout_def)
    show ?thesis
    proof (rule extend_with_room [OF x(2) eof x(4), of e k])
      fix w' b
      assume y: "extendOneBlock env w1 = (Inr (), w')" "sole_writer env w'" "published (e_cfg env) w1 w'"
        "mBlockArray (w_file w') = mBlockArray (w_file w1) @ [b]" "mEof (w_file w') = mEof (w_file w1)"
        "mPos (w_file w') = mPos (w_file w1)" "content (e_cfg env) w' = content (e_cfg env) w1"
        "mLoadMutex (w_file w') = mLoadMutex (w_file w1)" "room (e_cfg env) e k w'"
      show ?thesis
        by (rule that [of w' b]) (use y x skip content published_trans [OF x(3) y(3)] in simp_all)
    qed (use r assms(4) x(4,5,9,11,12) True in auto)
  qed
qed

section \<open>Finding or making the current block\<close>

lemma view_facts:
  fixes w w' :: "'o World"
  assumes "view w' = view w"
  shows "length (mBlockArray (w_file w')) = length (mBlockArray (w_file w))"
    "map bk_bucketId (mBlockArray (w_file w')) = map bk_bucketId (mBlockArray (w_file w))" "layout (w_file w') = layout (w_file w)"
    "list_all (\<lambda>b. isLocal b \<and> bk_state b = st) (mBlockArray (w_file w')) = list_all (\<lambda>b. isLocal b \<and> bk_state b = st) (mBlockArray (w_file w))"
proof -
  have via: "map g (mBlockArray (w_file v)) = map g (view v)" if "\<And>b. g (b\<lparr>bk_usageCount := 0\<rparr>) = g b" for g :: "Block \<Rightarrow> 'x" and v :: "'o World"
    using that by (simp add: view_def comp_def)
  show "length (mBlockArray (w_file w')) = length (mBlockArray (w_file w))" using assms by (metis length_map view_def)
  show "map bk_bucketId (mBlockArray (w_file w')) = map bk_bucketId (mBlockArray (w_file w))"
    using assms via [of bk_bucketId] by simp
  show "layout (w_file w') = layout (w_file w)" using assms via [of "\<lambda>b. (isLocal b, bk_bucketId b)"] by (simp add: layout_def)
  have "list_all P xs = list_all id (map P xs)" for P :: "Block \<Rightarrow> bool" and xs by (simp add: list_all_iff)
  then show "list_all (\<lambda>b. isLocal b \<and> bk_state b = st) (mBlockArray (w_file w')) = list_all (\<lambda>b. isLocal b \<and> bk_state b = st) (mBlockArray (w_file w))"
    using assms via [of "\<lambda>b. isLocal b \<and> bk_state b = st"] by simp
qed

text \<open>Changes of an opening that neither the region nor the log depends on: usage counts and the load mutex.\<close>

lemma region_view:
  assumes "region_agrees cfg f s" and "map bk_bucketId (mBlockArray g) = map bk_bucketId (mBlockArray f)"
    and "mPreAllocatedBuckets g = mPreAllocatedBuckets f" and "mFileId g = mFileId f" and "mActiveId g = mActiveId f" and "mEof g = mEof f"
  shows "region_agrees cfg g s"
proof -
  have len: "length (mBlockArray g) = length (mBlockArray f)" using assms(2) map_eq_imp_length_eq by blast
  have nth: "bucket_of s (mBlockArray g ! k) = bucket_of s (mBlockArray f ! k)" if "k < length (mBlockArray f)" for k
    using arg_cong [OF assms(2), of "\<lambda>xs. xs ! k"] that len by (simp add: bucket_of_def)
  have "held g s = held f s" using assms(4,5) by (simp add: held_def fun_eq_iff split: option.split)
  moreover have "list_all (\<lambda>k. b_fileBlockIndex (bucket_of s (mBlockArray g ! k)) = int k) [0..<length (mBlockArray g)]"
    using assms(1) nth len by (simp add: region_agrees_def list_all_iff)
  moreover have "bucket_of s (last (mBlockArray g)) = bucket_of s (last (mBlockArray f))" if "mBlockArray g \<noteq> []"
    using nth [of "length (mBlockArray f) - 1"] that len by (cases "mBlockArray f") (auto simp: last_conv_nth)
  moreover have "mBlockArray g \<noteq> [] \<longleftrightarrow> mBlockArray f \<noteq> []" using len by auto
  ultimately show ?thesis using assms(1,2,3,6) len unfolding region_agrees_def map_append by simp
qed

lemma sole_writer_frame:
  fixes w w' :: "'o World"
  assumes "sole_writer env w" and "view w' = view w" and "w' = w\<lparr>w_file := (w_file w)\<lparr>mLoadMutex := v, mBlockArray := arr\<rparr>\<rparr>"
  shows "sole_writer env w'" and "published cfg w w'" and "content cfg w' = content cfg w" and "room cfg e k w' = room cfg e k w"
proof -
  note f = view_facts [OF assms(2)]
  have log: "manifest_log w' = manifest_log w" "log_ready w' = log_ready w"
    by (simp_all add: assms(3) manifest_log_def log_ready_def split: option.splits)
  show "published cfg w w'" by (rule published_same) (simp_all add: assms(2) log, simp_all add: assms(3))
  show "content cfg w' = content cfg w" using f(3) by (simp add: content_def) (simp add: assms(3))
  show "room cfg e k w' = room cfg e k w" using f(1) by (simp add: room_parts) (simp add: assms(3))
  have fld: "w_shm w' = w_shm w" "w_store w' = w_store w" "w_localFd w' = w_localFd w" "w_sched w' = w_sched w"
    "mPreAllocatedBuckets (w_file w') = mPreAllocatedBuckets (w_file w)" "mFileId (w_file w') = mFileId (w_file w)"
    "mActiveId (w_file w') = mActiveId (w_file w)" "mEof (w_file w') = mEof (w_file w)" "mPos (w_file w') = mPos (w_file w)"
    "mLRUCache (w_file w') = mLRUCache (w_file w)" "mLoadingBuckets (w_file w') = mLoadingBuckets (w_file w)"
    "mIsSequence (w_file w') = mIsSequence (w_file w)" by (simp_all add: assms(3))
  have "region_agrees (e_cfg env) (w_file w') (w_shm w')"
    unfolding fld(1) by (rule region_view [where f = "w_file w"]) (use assms(1) f(2) in \<open>simp_all add: sole_writer_def fld\<close>)
  moreover have "placed (e_cfg env) w'" using assms(1) f(3) by (simp add: sole_writer_def placed_def fld cong: option.case_cong)
  moreover have "opening_ok (e_cfg env) (w_file w')" using assms(1) f(1,4) by (simp add: sole_writer_def opening_ok_def fld cong: option.case_cong)
  ultimately show "sole_writer env w'" using assms(1) log by (simp add: sole_writer_def fld)
qed

lemma getCurBlockInfo_after:
  fixes w w1 :: "'o World"
  assumes "mPos (w_file w) = int p" and "adjustActiveBlock env (int (p div bucket_size (e_cfg env))) w = (Inr (), w1)"
    and "sole_writer env w1" and "mPos (w_file w1) = int p" and "p div bucket_size (e_cfg env) < length (mBlockArray (w_file w1))"
  obtains info w' where "getCurBlockInfo env w = (Inr info, w')" and "block_at (e_cfg env) (w_file w') p info"
    and "sole_writer env w'" and "published (e_cfg env) w1 w'" and "content (e_cfg env) w' = content (e_cfg env) w1"
    and "\<forall>e k. room (e_cfg env) e k w' = room (e_cfg env) e k w1"
    and "\<exists>arr. w' = w1\<lparr>w_file := (w_file w1)\<lparr>mBlockArray := arr\<rparr>\<rparr> \<and> length arr = length (mBlockArray (w_file w1))"
proof -
  let ?S = "bucket_size (e_cfg env)" and ?arr = "mBlockArray (w_file w1)"
  define k where "k = p div ?S"
  have pl: "placed (e_cfg env) w1" using assms(3) by (simp add: sole_writer_def)
  have S: "0 < LOCAL_BUCKET_SIZE (e_cfg env)" "0 < ?S" and len: "length ?arr < 2 ^ 31"
    using pl by (simp_all add: placed_def layout_def)
  have k: "k < length ?arr" using assms(5) by (simp add: k_def)
  have id: "getCurBlockId (e_cfg env) (w_file w) = int k"
    using assms(1) S(1) k len by (simp add: getCurBlockId_def sdiv_nat k_def int32_id)
  let ?b = "?arr ! k"
  have b: "isLocal ?b" "0 \<le> bk_bucketId ?b" using pl k by (auto simp: placed_def layout_def)
  define arr where "arr = ?arr[k := ?b\<lparr>bk_usageCount := int16 (bk_usageCount ?b + 1)\<rparr>]"
  define w' where "w' = w1\<lparr>w_file := (w_file w1)\<lparr>mLoadMutex := mLoadMutex (w_file w1), mBlockArray := arr\<rparr>\<rparr>"
  have v: "view w' = view w1"
    using k by (simp add: view_def w'_def arr_def map_update list_update_same_conv)
  note sw = sole_writer_frame [OF assms(3) v w'_def]
  let ?info = "\<lparr>bi_fileId = mFileId (w_file w1), bi_blockId = bk_blockId ?b, bi_bucketId = bk_bucketId ?b,
           bi_offset = getCurBlockOffset (e_cfg env) (w_file w1), bi_dataSize = 0, bi_isLocal = isLocal ?b\<rparr>"
  have "getCurBlockInfo env w = (Inr ?info, w')"
    using assms(2,4) id k S(1)
    by (simp add: getCurBlockInfo_def run_simps getFile_def readBlockArray_def writeBlockArray_def w'_def arr_def
        getCurBlockOffset_def sdiv_nat k_def [symmetric])
  moreover have "block_at (e_cfg env) (w_file w') p ?info"
    using b k assms(4) S(1) view_facts(3) [OF v] by (simp add: block_at_def layout_def k_def [symmetric] getCurBlockOffset_def smod_nat)
  moreover have "\<exists>arr. w' = w1\<lparr>w_file := (w_file w1)\<lparr>mBlockArray := arr\<rparr>\<rparr> \<and> length arr = length ?arr"
    by (intro exI [of _ arr]) (simp add: w'_def arr_def)
  ultimately show ?thesis using that sw by blast
qed

lemma sole_writer_mutex:
  fixes w :: "'o World" and v :: bool
  assumes "sole_writer env w"
  defines "w' \<equiv> w\<lparr>w_file := (w_file w)\<lparr>mLoadMutex := v\<rparr>\<rparr>"
  shows "sole_writer env w'" and "published cfg w w'" and "content cfg w' = content cfg w" and "room cfg e k w' = room cfg e k w"
  using sole_writer_frame [OF assms(1), where w' = w' and v = v and arr = "mBlockArray (w_file w)"] by (simp_all add: w'_def view_def)

lemma next_block_missing:
  assumes "n * bucket_size cfg < e" and "0 < bucket_size cfg"
  shows "n < blocks_for cfg e"
proof -
  have "Suc n * bucket_size cfg \<le> e + bucket_size cfg - 1" using assms by simp
  then show ?thesis using assms(2) by (simp add: blocks_for_def Suc_le_eq [symmetric] less_eq_div_iff_mult_less_eq)
qed

lemma adjust_ready:
  fixes w :: "'o World"
  assumes "sole_writer env w" and "\<not> mLoadMutex (w_file w)" and "mPos (w_file w) = int p" and "room (e_cfg env) e k w" and "p < e"
  obtains w1 where "adjustActiveBlock env (int (p div bucket_size (e_cfg env))) w = (Inr (), w1)" and "sole_writer env w1"
    and "published (e_cfg env) w w1" and "mPos (w_file w1) = int p" and "mEof (w_file w1) = mEof (w_file w)"
    and "content (e_cfg env) w1 = content (e_cfg env) w" and "\<not> mLoadMutex (w_file w1)" and "room (e_cfg env) e k w1"
    and "p div bucket_size (e_cfg env) < length (mBlockArray (w_file w1))"
proof -
  let ?S = "bucket_size (e_cfg env)" and ?n = "length (mBlockArray (w_file w))"
  have pl: "placed (e_cfg env) w" using assms(1) by (simp add: sole_writer_def)
  have S: "0 < LOCAL_BUCKET_SIZE (e_cfg env)" "0 < ?S" and len: "?n < 2 ^ 31" and eof: "nat (mEof (w_file w)) \<le> ?n * ?S"
    and pos: "mPos (w_file w) \<le> mEof (w_file w)" using pl by (simp_all add: placed_def layout_def)
  show ?thesis
  proof (cases "p div ?S < ?n")
    case True
    have "resident (e_cfg env) w" using pl assms(2) by (simp add: resident_def)
    from adjustActiveBlock_active [OF this True, of env]
    have run: "adjustActiveBlock env (int (p div ?S)) w = (Inr (), w)" .
    have "published (e_cfg env) w w" by (rule published_same) simp_all
    with run show ?thesis by (rule that [OF _ assms(1) _ assms(3) _ _ assms(2,4) True]) simp_all
  next
    case False
    then have "?n * ?S \<le> p" using S(2) by (simp add: not_less less_eq_div_iff_mult_less_eq)
    moreover have "p \<le> nat (mEof (w_file w))" "0 \<le> mEof (w_file w)" using pos assms(3) by linarith+
    ultimately have p: "p = ?n * ?S" and "mEof (w_file w) = int (?n * ?S)" using eof by linarith+
    then have e: "mEof (w_file w) = int ?n * LOCAL_BUCKET_SIZE (e_cfg env)" using S(1) by simp
    define wm where "wm = w\<lparr>w_file := (w_file w)\<lparr>mLoadMutex := True\<rparr>\<rparr>"
    note m = sole_writer_mutex [OF assms(1), where v = True, folded wm_def]
    have miss: "length (mBlockArray (w_file wm)) < blocks_for (e_cfg env) e"
      using next_block_missing [of ?n "e_cfg env" e] assms(5) p S(2) by (simp add: wm_def)
    have eofm: "mEof (w_file wm) = int (length (mBlockArray (w_file wm))) * LOCAL_BUCKET_SIZE (e_cfg env)" using e by (simp add: wm_def)
    have roomm: "room (e_cfg env) e k wm" using m(4) assms(4) by simp
    show ?thesis
    proof (rule extend_block [OF m(1) eofm roomm miss])
      fix w2 b
      assume x: "extendOneBlock env wm = (Inr (), w2)" "sole_writer env w2" "published (e_cfg env) wm w2"
        "mBlockArray (w_file w2) = mBlockArray (w_file wm) @ [b]" "mEof (w_file w2) = mEof (w_file wm)"
        "mPos (w_file w2) = mPos (w_file wm)" "content (e_cfg env) w2 = content (e_cfg env) wm"
        "mLoadMutex (w_file w2) = mLoadMutex (w_file wm)" "room (e_cfg env) e k w2"
      define w1 where "w1 = w2\<lparr>w_file := (w_file w2)\<lparr>mLoadMutex := False\<rparr>\<rparr>"
      note u = sole_writer_mutex [OF x(2), where v = False, folded w1_def]
      have q: "p div ?S = ?n" using p S(2) by simp
      obtain c where c: "mLRUCache (w_file w2) = Some c" "lru_exists (int ?n) c"
        using x(2,4) by (auto simp: sole_writer_def placed_def layout_def list_all_iff wm_def split: option.splits)
      have "getNumBlocks (w_file wm) = int ?n" using len by (simp add: getNumBlocks_def int32_id wm_def)
      then have run: "adjustActiveBlock env (int (p div ?S)) w = (Inr (), w1)"
        using x(1) c assms(2) q
        by (simp add: adjustActiveBlock_def lockLoadMutex_def unlockLoadMutex_def run_simps getFile_def modFile_def isMyActiveBlock_def
            lruE_gets wm_def w1_def)
      have "published (e_cfg env) w w1" using m(2) x(3) u(2) published_trans by blast
      then show ?thesis
        by (rule that [OF run u(1)]) (use x u(3,4) m(3) assms(3) q in \<open>simp_all add: w1_def wm_def\<close>)
    qed
  qed
qed

section \<open>Writing a chunk\<close>

lemma local_write_fits:
  assumes "bs \<noteq> []" and "length bs \<le> diskFree st"
  shows "\<exists>d. local_write bs (st, fd, oss) = (Inr (int (length bs)),
     ((set_bytes (fd_inode fd) (store_at (fd_off fd) bs (file_bytes st (fd_inode fd))) st)\<lparr>diskFree := d\<rparr>,
      fd\<lparr>fd_off := fd_off fd + length bs\<rparr>, oss)) \<and> diskFree st - length bs \<le> d"
proof -
  have "min (length bs) (min (length bs) (length (file_bytes st (fd_inode fd)) - fd_off fd) + diskFree st) = length bs"
    using assms(2) by simp
  then show ?thesis using assms(1) by (auto simp: local_write_def posix_write_def Let_def)
qed

text \<open>The world after the bytes of a chunk are in the local space.\<close>

definition stored :: "Configuration \<Rightarrow> nat \<Rightarrow> byte list \<Rightarrow> nat \<Rightarrow> 'o World \<Rightarrow> 'o World" where
  "stored cfg p bs d w = w\<lparr>w_store := (set_bytes (fd_inode (w_localFd w)) (store_at (place cfg (layout (w_file w)) p) bs (local_bytes w))
       (w_store w))\<lparr>diskFree := d\<rparr>,
     w_localFd := (w_localFd w)\<lparr>fd_off := place cfg (layout (w_file w)) p + length bs\<rparr>\<rparr>"

lemma block_append:
  fixes w :: "'o World"
  assumes "placed cfg w" and "block_at cfg (w_file w) p info" and "bs \<noteq> []" and "p mod bucket_size cfg + length bs \<le> bucket_size cfg"
    and "length bs \<le> diskFree (w_store w)"
  shows "\<exists>d. ioE (BlockOutputStream_write cfg bs info) w =
    (Inr (int (length bs), info\<lparr>bi_offset := int (p mod bucket_size cfg + length bs)\<rparr>), stored cfg p bs d w) \<and>
    diskFree (w_store w) - length bs \<le> d"
proof -
  let ?q = "place cfg (layout (w_file w)) p" and ?fd = "w_localFd w"
  have S: "0 < LOCAL_BUCKET_SIZE cfg" "LOCAL_BUCKET_SIZE cfg < 2 ^ 31" using assms(1) by (simp_all add: placed_def)
  have i32: "int32 (int (length bs)) = int (length bs)" using S(2) assms(4) by (intro int32_id) simp_all
  obtain d where "local_write bs (w_store w, ?fd\<lparr>fd_off := ?q\<rparr>, w_oss w) = (Inr (int (length bs)),
      ((set_bytes (fd_inode ?fd) (store_at ?q bs (local_bytes w)) (w_store w))\<lparr>diskFree := d\<rparr>, ?fd\<lparr>fd_off := ?q + length bs\<rparr>, w_oss w))"
    and d: "diskFree (w_store w) - length bs \<le> d"
    using local_write_fits [OF assms(3,5), of "?fd\<lparr>fd_off := ?q\<rparr>" "w_oss w"] by auto
  moreover have "bi_offset info = int (p mod bucket_size cfg)" "bi_isLocal info" using assms(2) by (simp_all add: block_at_def)
  moreover have "int (p mod bucket_size cfg + length bs) \<le> LOCAL_BUCKET_SIZE cfg" using assms(4) S(1) by linarith
  ultimately have "ioE (BlockOutputStream_write cfg bs info) w =
      (Inr (int (length bs), info\<lparr>bi_offset := int (p mod bucket_size cfg + length bs)\<rparr>), stored cfg p bs d w)"
    by (simp add: ioE_def BlockOutputStream_write_def run_simps Let_def block_at_offset [OF S(1) assms(2)] local_seek_run
        writeLocal_def i32 stored_def)
  with d show ?thesis by blast
qed

lemma stored_parts [simp]:
  "w_file (stored cfg p bs d w) = w_file w" "w_shm (stored cfg p bs d w) = w_shm w" "w_sched (stored cfg p bs d w) = w_sched w"
  "fd_inode (w_localFd (stored cfg p bs d w)) = fd_inode (w_localFd w)" "diskFree (w_store (stored cfg p bs d w)) = d"
  "length (inodes (w_store (stored cfg p bs d w))) = length (inodes (w_store w))"
  by (simp_all add: stored_def)

lemma stored_log:
  assumes "log_ready w"
  shows "log_ready (stored cfg p bs d w)" and "manifest_log (stored cfg p bs d w) = manifest_log w"
  using assms by (auto simp: log_ready_def manifest_log_def stored_def split: option.splits)

lemma stored_bytes:
  "fd_inode (w_localFd w) < length (inodes (w_store w)) \<Longrightarrow>
    local_bytes (stored cfg p bs d w) = store_at (place cfg (layout (w_file w)) p) bs (local_bytes w)"
  by (simp add: stored_def)

text \<open>The places of a chunk of bytes within one block are those behind its first, and no others.\<close>

lemma chunk_end:
  assumes "p div S < n" and "p mod S + m \<le> S"
  shows "p + m \<le> n * (S :: nat)"
proof -
  have "p + m \<le> Suc (p div S) * S" unfolding mult_Suc using assms(2) div_mult_mod_eq [of p S] by linarith
  also have "\<dots> \<le> n * S" using assms(1) by (intro mult_le_mono1) simp
  finally show ?thesis .
qed

lemma chunk_places:
  assumes "0 < bucket_size cfg" and "distinct (map snd ls)" and "\<forall>(loc, bucket) \<in> set ls. loc \<and> 0 \<le> bucket"
    and "p mod bucket_size cfg + m \<le> bucket_size cfg" and "p + m \<le> length ls * bucket_size cfg" and "k < length ls * bucket_size cfg"
  shows "place cfg ls p \<le> place cfg ls k \<and> place cfg ls k < place cfg ls p + m \<longleftrightarrow> p \<le> k \<and> k < p + m"
proof -
  let ?pl = "place cfg ls"
  have pl: "?pl (p + i) = ?pl p + i" if "i < m" for i using that assms(4) by (intro place_add) simp
  show ?thesis
  proof
    assume "?pl p \<le> ?pl k \<and> ?pl k < ?pl p + m"
    then have i: "?pl k - ?pl p < m" "?pl k = ?pl (p + (?pl k - ?pl p))" using pl [of "?pl k - ?pl p"] by auto
    then have "k = p + (?pl k - ?pl p)" using assms(5) by (intro place_distinct [OF assms(1-3,6) _ i(2)]) simp
    with i(1) show "p \<le> k \<and> k < p + m" by linarith
  next
    assume "p \<le> k \<and> k < p + m"
    then show "?pl p \<le> ?pl k \<and> ?pl k < ?pl p + m" using pl [of "k - p"] by auto
  qed
qed

text \<open>What the chunk does to the bytes of the file, which may end in it or before it.\<close>

definition stored_chunk :: "Configuration \<Rightarrow> nat \<Rightarrow> byte list \<Rightarrow> 'o World \<Rightarrow> 'o World \<Rightarrow> bool" where
  "stored_chunk cfg p bs w w' \<longleftrightarrow> placed cfg w \<and> int p \<le> mEof (w_file w) \<and>
     p div bucket_size cfg < length (mBlockArray (w_file w)) \<and> p mod bucket_size cfg + length bs \<le> bucket_size cfg \<and>
     mBlockArray (w_file w') = mBlockArray (w_file w) \<and> mLRUCache (w_file w') = mLRUCache (w_file w) \<and>
     mPos (w_file w') = int (p + length bs) \<and> mEof (w_file w') = max (mEof (w_file w)) (int (p + length bs)) \<and>
     fd_inode (w_localFd w') = fd_inode (w_localFd w) \<and> length (inodes (w_store w')) = length (inodes (w_store w)) \<and>
     local_bytes w' = store_at (place cfg (layout (w_file w)) p) bs (local_bytes w)"

lemma stored_chunk_facts:
  assumes "stored_chunk cfg p bs w w'"
  shows "0 < bucket_size cfg" "nat (mEof (w_file w)) \<le> length (layout (w_file w)) * bucket_size cfg" "distinct (map snd (layout (w_file w)))"
  "\<forall>(loc, bucket) \<in> set (layout (w_file w)). loc \<and> 0 \<le> bucket" "layout (w_file w') = layout (w_file w)"
  "p \<le> nat (mEof (w_file w))" "nat (mEof (w_file w')) = max (nat (mEof (w_file w))) (p + length bs)"
  "p + length bs \<le> length (layout (w_file w)) * bucket_size cfg"
proof -
  show "layout (w_file w') = layout (w_file w)" using assms by (simp add: stored_chunk_def layout_def)
  show "p \<le> nat (mEof (w_file w))" "nat (mEof (w_file w')) = max (nat (mEof (w_file w))) (p + length bs)"
    using assms by (auto simp: stored_chunk_def)
  show "p + length bs \<le> length (layout (w_file w)) * bucket_size cfg"
    using assms chunk_end [of p "bucket_size cfg"] by (simp add: stored_chunk_def layout_def)
qed (use assms in \<open>simp_all add: stored_chunk_def placed_def\<close>)

lemma stored_chunk_placed:
  assumes "stored_chunk cfg p bs w w'"
  shows "placed cfg w'"
proof -
  note facts = stored_chunk_facts [OF assms]
  have placed: "placed cfg w" and fits: "p mod bucket_size cfg + length bs \<le> bucket_size cfg"
    and bytes: "local_bytes w' = store_at (place cfg (layout (w_file w)) p) bs (local_bytes w)"
    using assms unfolding stored_chunk_def by blast+
  let ?pl = "place cfg (layout (w_file w))" and ?e = "nat (mEof (w_file w))" and ?m = "length bs"
  have "list_all (\<lambda>q. place cfg (layout (w_file w')) q < length (local_bytes w')) [0..<nat (mEof (w_file w'))]"
    unfolding facts(5,7) bytes list_all_iff length_store_at
  proof
    fix q
    assume "q \<in> set [0..<max ?e (p + ?m)]"
    then consider "q < ?e" | "p \<le> q" "q < p + ?m" using facts(6) by fastforce
    then show "?pl q < max (length (local_bytes w)) (?pl p + ?m)"
    proof cases
      case 1
      then have "?pl q < length (local_bytes w)" using placed by (simp add: placed_def list_all_iff)
      then show ?thesis by simp
    next
      case 2
      then have "?pl (p + (q - p)) = ?pl p + (q - p)" using fits by (intro place_add) simp
      with 2 show ?thesis by simp
    qed
  qed
  moreover have "nat (mEof (w_file w')) \<le> length (layout (w_file w)) * bucket_size cfg" unfolding facts(7) using facts(2,8) by simp
  ultimately show ?thesis using assms facts(5) by (simp add: stored_chunk_def placed_def cong: option.case_cong)
qed

lemma stored_chunk_content:
  assumes "stored_chunk cfg p bs w w'"
  shows "content cfg w' = store_at p bs (content cfg w)"
proof (rule nth_equalityI)
  note facts = stored_chunk_facts [OF assms]
  have fits: "p mod bucket_size cfg + length bs \<le> bucket_size cfg"
    and bytes: "local_bytes w' = store_at (place cfg (layout (w_file w)) p) bs (local_bytes w)"
    using assms unfolding stored_chunk_def by blast+
  let ?pl = "place cfg (layout (w_file w))" and ?e = "nat (mEof (w_file w))" and ?m = "length bs" and ?L = "local_bytes w"
  have len: "length (content cfg w') = max ?e (p + ?m)" "length (content cfg w) = ?e" by (simp_all add: content_def facts(7))
  show "length (content cfg w') = length (store_at p bs (content cfg w))" by (simp add: len length_store_at)
  fix k
  assume "k < length (content cfg w')"
  then have k: "k < max ?e (p + ?m)" by (simp add: len)
  then have kS: "k < length (layout (w_file w)) * bucket_size cfg" using facts(2,8) by linarith
  have "?pl k - ?pl p = k - p" if "p \<le> k \<and> k < p + ?m"
  proof -
    have "?pl (p + (k - p)) = ?pl p + (k - p)" using that fits by (intro place_add) linarith
    with that show ?thesis by simp
  qed
  moreover have "content cfg w' ! k = byte_at (store_at (?pl p) bs ?L) (?pl k)" using k by (simp add: content_def facts(5,7) bytes)
  ultimately have "content cfg w' ! k = (if p \<le> k \<and> k < p + ?m then bs ! (k - p) else byte_at ?L (?pl k))"
    unfolding byte_at_store chunk_places [OF facts(1,3,4) fits facts(8) kS] by simp
  also have "\<dots> = byte_at (store_at p bs (content cfg w)) k"
    unfolding byte_at_store using k facts(6) by (auto simp: byte_at_def len content_def)
  also have "\<dots> = store_at p bs (content cfg w) ! k" using k by (simp add: byte_at_def length_store_at len)
  finally show "content cfg w' ! k = store_at p bs (content cfg w) ! k" .
qed

section \<open>Publishing the end of file\<close>

definition sized :: "Block \<Rightarrow> int \<Rightarrow> SharedMemoryContext \<Rightarrow> SharedMemoryContext" where
  "sized b sz s = (if dataSize (bucket_of s b) < sz
     then s\<lparr>buckets := (buckets s)[nat (bk_bucketId b) := (bucket_of s b)\<lparr>dataSize := sz\<rparr>]\<rparr> else s)"

lemma updateBucketDataSize_run:
  assumes "held f s (bk_bucketId b)" and "shm_inv s" and "numBuckets (header s) \<le> NUMBER_OF_BLOCKS cfg" and "sz \<le> LOCAL_BUCKET_SIZE cfg"
  shows "updateBucketDataSize cfg (bk_bucketId b) sz (mFileId f) (mActiveId f) s = (Inr (), sized b sz s)"
proof -
  from assms(1) have i: "0 \<le> bk_bucketId b" "nat (bk_bucketId b) < length (buckets s)" "idx (bk_bucketId b) (buckets s) = Some (bucket_of s b)"
    "isActiveBucket (bucket_of s b)" "b_fileId (bucket_of s b) = mFileId f" "hasActiveId (mActiveId f) (bucket_of s b)"
    by (auto simp: held_def bucket_of_def idx_def split: if_splits)
  moreover have "int (length (buckets s)) = numBuckets (header s)" using assms(2) by (simp add: shm_inv_def sizes_ok_def)
  then have "bk_bucketId b \<le> NUMBER_OF_BLOCKS cfg" using assms(3) i(2) by linarith
  ultimately show ?thesis
    using assms(4) by (simp add: updateBucketDataSize_def run_simps readBucket_def modBucket_def writeBucket_def sized_def)
qed

lemma sized_header [simp]: "header (sized b sz s) = header s"
  by (simp add: sized_def)

lemma region_sized:
  assumes "region_agrees cfg f s" and "mBlockArray f \<noteq> []" and "sz = e - int (length (mBlockArray f) - 1) * LOCAL_BUCKET_SIZE cfg"
    and "sz \<le> LOCAL_BUCKET_SIZE cfg" and "mEof f \<le> e"
    and "mBlockArray g = mBlockArray f" and "mPreAllocatedBuckets g = mPreAllocatedBuckets f"
    and "mFileId g = mFileId f" and "mActiveId g = mActiveId f" and "mEof g = e"
  shows "region_agrees cfg g (sized (last (mBlockArray f)) sz s)"
proof -
  let ?b = "last (mBlockArray f)" and ?arr = "mBlockArray f @ mPreAllocatedBuckets f"
  let ?t = "sized ?b sz s"
  have b: "?b \<in> set ?arr" using assms(2) by simp
  have reg: "region_agrees cfg g s"
    by (rule region_cong [OF assms(1)]) (use assms(5-10) in simp_all)
  have hl: "held f s (bk_bucketId ?b)" using assms(1) b by (auto simp: region_agrees_def list_all_iff)
  have inv: "shm_inv ?t"
  proof -
    have "keeps (updateBucketDataSize cfg (bk_bucketId ?b) sz (mFileId f) (mActiveId f)) s"
      using assms(1) by (intro updateBucketDataSize_keeps) (simp add: region_agrees_def)
    moreover have "updateBucketDataSize cfg (bk_bucketId ?b) sz (mFileId f) (mActiveId f) s = (Inr (), ?t)"
      using assms(1,4) hl by (intro updateBucketDataSize_run) (simp_all add: region_agrees_def)
    ultimately show ?thesis by (simp add: wp_def)
  qed
  show ?thesis
  proof (cases "dataSize (bucket_of s ?b) < sz")
    case False
    then show ?thesis using reg by (simp add: sized_def)
  next
    case True
    let ?i = "nat (bk_bucketId ?b)"
    have t: "?t = s\<lparr>buckets := (buckets s)[?i := (bucket_of s ?b)\<lparr>dataSize := sz\<rparr>]\<rparr>" using True by (simp add: sized_def)
    have "held g s j \<Longrightarrow> held g ?t j" for j unfolding t by (rule held_update) (simp_all add: bucket_of_def)
    then have all: "list_all (held g ?t) (map bk_bucketId ?arr)" using reg assms(6,7) by (simp add: region_agrees_def list_all_iff)
    have range: "0 \<le> bk_bucketId x \<and> nat (bk_bucketId x) < length (buckets s)" if "x \<in> set ?arr" for x
      using assms(1) that by (force simp: region_agrees_def list_all_iff held_def idx_def split: if_splits)
    have index: "b_fileBlockIndex (bucket_of ?t x) = b_fileBlockIndex (bucket_of s x)" for x
      using range [OF b] by (simp add: t bucket_of_def nth_list_update)
    have size: "dataSize (bucket_of ?t x) = (if bk_bucketId x = bk_bucketId ?b then sz else dataSize (bucket_of s x))" if "x \<in> set ?arr" for x
      using range [OF that] range [OF b] by (auto simp: t bucket_of_def nth_list_update eq_nat_nat_iff)
    have "list_all (\<lambda>b. isFreeBucket b \<longrightarrow> dataSize b = 0) (buckets ?t)"
      using assms(1) hl range [OF b] by (auto simp: t region_agrees_def list_all_length nth_list_update held_def idx_def bucket_of_def
          isFreeBucket_def isActiveBucket_def split: if_splits)
    moreover have "list_all (\<lambda>x. dataSize (bucket_of ?t x) = 0) (mPreAllocatedBuckets f)"
    proof -
      have "bk_bucketId x \<noteq> bk_bucketId ?b" if "x \<in> set (mPreAllocatedBuckets f)" for x
        using assms(1,2) that by (auto simp: region_agrees_def) (metis disjoint_iff imageI last_in_set)
      then show ?thesis using assms(1) size by (simp add: region_agrees_def list_all_iff)
    qed
    ultimately show ?thesis
      using reg assms(2,3) inv all index size [OF b] unfolding region_agrees_def assms(6,7,10) by (simp add: t [symmetric])
  qed
qed

lemma sized_flags: "sized b sz (s\<lparr>header := h\<rparr>) = (sized b sz s)\<lparr>header := h\<rparr>"
  by (simp add: sized_def bucket_of_def)

text \<open>A new end of file goes to the bucket of the last block.\<close>

lemma updateCurBlockSize_run:
  fixes w :: "'o World"
  assumes "NDEBUG (e_cfg env)" and "w_sched w = []" and "log_ready w" and "h_flags (header (w_shm w)) = 0"
    and "region_agrees (e_cfg env) f (w_shm w)" and "mBlockArray f \<noteq> []" and "mBlockArray (w_file w) = mBlockArray f"
    and "mFileId (w_file w) = mFileId f" and "mActiveId (w_file w) = mActiveId f"
    and "sz = mEof (w_file w) - int (length (mBlockArray f) - 1) * LOCAL_BUCKET_SIZE (e_cfg env)" and "sz \<le> LOCAL_BUCKET_SIZE (e_cfg env)"
  shows "updateCurBlockSize env w = (Inr (), w\<lparr>w_shm := sized (last (mBlockArray f)) sz (w_shm w)\<rparr>)"
proof -
  let ?b = "last (mBlockArray f)" and ?v = "with_lock 1 w" and ?n = "length (mBlockArray f)"
  have "region_agrees (e_cfg env) f (w_shm ?v)" using assms(5) by simp
  then have upd: "updateBucketDataSize (e_cfg env) (bk_bucketId ?b) sz (mFileId f) (mActiveId f) (w_shm ?v) = (Inr (), sized ?b sz (w_shm ?v))"
    using assms(6,11) by (intro updateBucketDataSize_run) (auto simp: region_agrees_def list_all_iff)
  have last: "idx (int ?n - 1) (mBlockArray f) = Some ?b" using assms(6) by (cases "mBlockArray f" rule: rev_cases) (simp_all add: idx_def)
  have sz: "mEof (w_file w) - (int ?n - 1) * LOCAL_BUCKET_SIZE (e_cfg env) = sz"
  proof -
    have "int (?n - 1) = int ?n - 1" using assms(6) by (cases "mBlockArray f") simp_all
    then show ?thesis using assms(10) by simp
  qed
  define w' where "w' = ?v\<lparr>w_shm := sized ?b sz (w_shm ?v)\<rparr>"
  have "sharedMem env (bindE (getFile (\<lambda>f. f)) (\<lambda>f.
        if mEof (w_file w) = mEof f
        then let numBlocks = int (length (mBlockArray f)) in
             bindE (readBlockArray (numBlocks - 1)) (\<lambda>endBlock.
             shmE (updateBucketDataSize (e_cfg env) (bk_bucketId endBlock)
                     (mEof f - (numBlocks - 1) * LOCAL_BUCKET_SIZE (e_cfg env)) (mFileId f) (mActiveId f)))
        else if mEof (w_file w) < mEof f then retE ()
        else THROW GopherwoodInternalException)) w = (Inr (), with_lock 0 w')"
    using upd last sz assms(7-9) by (intro sharedMem_alone [OF assms(2,4) log_ready_at [OF assms(3)]])
      (simp_all add: run_simps getFile_def readBlockArray_def shmE_def Let_def w'_def)
  then have "updateCurBlockSize env w = (Inr (), with_lock 0 w')"
    using assms(1) by (simp add: updateCurBlockSize_def run_simps getFile_def)
  moreover have "with_lock 0 w' = w\<lparr>w_shm := sized ?b sz (w_shm w)\<rparr>"
    using assms(4) by (simp add: w'_def with_lock_def sized_flags)
  ultimately show ?thesis by simp
qed

lemma setPosition_run:
  fixes w :: "'o World"
  assumes "sole_writer env w" and "mBlockArray (w_file w) \<noteq> []" and "w_file v = w_file w" and "w_shm v = w_shm w"
    and "w_sched v = []" and "log_ready v" and "0 \<le> q"
    and "q \<le> int (length (mBlockArray (w_file w))) * LOCAL_BUCKET_SIZE (e_cfg env)"
  obtains s where "setPosition env q v = (Inr (), v\<lparr>w_shm := s, w_file := (w_file w)\<lparr>mPos := q, mEof := max (mEof (w_file w)) q\<rparr>\<rparr>)"
    and "region_agrees (e_cfg env) ((w_file w)\<lparr>mPos := q, mEof := max (mEof (w_file w)) q\<rparr>) s" and "header s = header (w_shm w)"
proof -
  let ?f = "w_file w" and ?g = "(w_file w)\<lparr>mPos := q, mEof := max (mEof (w_file w)) q\<rparr>"
  have reg: "region_agrees (e_cfg env) ?f (w_shm w)" using assms(1) by (simp add: sole_writer_def)
  show ?thesis
  proof (cases "q > mEof ?f")
    case False
    then have "setPosition env q v = (Inr (), v\<lparr>w_shm := w_shm w, w_file := ?g\<rparr>)"
      using assms(3,4) by (simp add: setPosition_def run_simps getFile_def modFile_def max_def not_less)
    moreover have "region_agrees (e_cfg env) ?g (w_shm w)" by (rule region_cong [OF reg]) simp_all
    ultimately show ?thesis using that by blast
  next
    case True
    define sz where "sz = q - int (length (mBlockArray ?f) - 1) * LOCAL_BUCKET_SIZE (e_cfg env)"
    have "int (length (mBlockArray ?f)) = int (length (mBlockArray ?f) - 1) + 1" using assms(2) by (cases "mBlockArray ?f") simp_all
    then have "q \<le> (int (length (mBlockArray ?f) - 1) + 1) * LOCAL_BUCKET_SIZE (e_cfg env)" using assms(8) by metis
    then have le: "sz \<le> LOCAL_BUCKET_SIZE (e_cfg env)" unfolding sz_def distrib_right by linarith
    let ?v = "v\<lparr>w_file := ?g\<rparr>"
    have "updateCurBlockSize env ?v = (Inr (), ?v\<lparr>w_shm := sized (last (mBlockArray ?f)) sz (w_shm ?v)\<rparr>)"
    proof (rule updateCurBlockSize_run [OF _ _ _ _ _ assms(2)])
      show "log_ready ?v" using assms(3,6) by (simp add: log_ready_def manifest_log_def split: option.splits)
    qed (use assms(1,4,5) reg le True in \<open>simp_all add: sole_writer_def sz_def\<close>)
    then have "setPosition env q v = (Inr (), v\<lparr>w_shm := sized (last (mBlockArray ?f)) sz (w_shm w), w_file := ?g\<rparr>)"
      using True assms(3,4) by (simp add: setPosition_def run_simps getFile_def modFile_def max_def)
    moreover have "region_agrees (e_cfg env) ?g (sized (last (mBlockArray ?f)) sz (w_shm w))"
      by (rule region_sized [OF reg assms(2), of _ q]) (use True le in \<open>simp_all add: sz_def\<close>)
    ultimately show ?thesis using that by simp
  qed
qed

lemma chunk_stored:
  fixes w :: "'o World"
  assumes "sole_writer env w" and "mPos (w_file w) = int p" and "p div bucket_size (e_cfg env) < length (mBlockArray (w_file w))"
    and "p mod bucket_size (e_cfg env) + length bs \<le> bucket_size (e_cfg env)" and "diskFree (w_store w) - length bs \<le> d"
    and "room (e_cfg env) e k w" and "length bs \<le> k"
  obtains w' where "setPosition env (int (p + length bs)) (stored (e_cfg env) p bs d w) = (Inr (), w')" and "sole_writer env w'"
    and "published (e_cfg env) w w'" and "mPos (w_file w') = int (p + length bs)"
    and "content (e_cfg env) w' = store_at p bs (content (e_cfg env) w)" and "mLoadMutex (w_file w') = mLoadMutex (w_file w)"
    and "room (e_cfg env) e (k - length bs) w'"
proof -
  let ?cfg = "e_cfg env" and ?S = "bucket_size (e_cfg env)" and ?v = "stored (e_cfg env) p bs d w" and ?q = "int (p + length bs)" and ?f = "w_file w"
  have pl: "placed ?cfg w" and nd: "NDEBUG ?cfg" and fuel: "0 < e_fuel env" and sched: "w_sched w = []"
    and ready: "log_ready w" and fl: "h_flags (header (w_shm w)) = 0" and op: "opening_ok ?cfg ?f" using assms(1) by (simp_all add: sole_writer_def)
  have ne: "mBlockArray ?f \<noteq> []" using assms(3) by auto
  have S: "0 < LOCAL_BUCKET_SIZE ?cfg" and ino: "fd_inode (w_localFd w) < length (inodes (w_store w))" and pe: "int p \<le> mEof ?f"
    using pl assms(2) by (simp_all add: placed_def)
  have "int (p + length bs) \<le> int (length (mBlockArray ?f) * ?S)" using chunk_end [OF assms(3,4)] by linarith
  then have le: "?q \<le> int (length (mBlockArray ?f)) * LOCAL_BUCKET_SIZE ?cfg" using S by simp
  obtain s where run: "setPosition env ?q ?v = (Inr (), ?v\<lparr>w_shm := s, w_file := ?f\<lparr>mPos := ?q, mEof := max (mEof ?f) ?q\<rparr>\<rparr>)"
    and reg: "region_agrees ?cfg (?f\<lparr>mPos := ?q, mEof := max (mEof ?f) ?q\<rparr>) s" and hdr: "header s = header (w_shm w)"
    by (rule setPosition_run [OF assms(1) ne, of ?v ?q]) (use sched stored_log [OF ready] le in simp_all)
  define w' where "w' = ?v\<lparr>w_shm := s, w_file := ?f\<lparr>mPos := ?q, mEof := max (mEof ?f) ?q\<rparr>\<rparr>"
  have log: "manifest_log w' = manifest_log ?v" "log_ready w' = log_ready ?v"
    by (simp_all add: w'_def manifest_log_def log_ready_def split: option.splits)
  have bytes: "local_bytes w' = store_at (place ?cfg (layout ?f) p) bs (local_bytes w)"
    using stored_bytes [OF ino, of ?cfg p bs d] by (simp add: w'_def)
  have "stored_chunk ?cfg p bs w w'"
    using pl pe assms(3,4) bytes by (simp add: stored_chunk_def) (simp add: w'_def)
  note placed' = stored_chunk_placed [OF this] stored_chunk_content [OF this]
  have "opening_ok ?cfg (w_file w')" using op by (simp add: w'_def opening_ok_def cong: option.case_cong)
  moreover have "region_agrees ?cfg (w_file w') (w_shm w')" using reg by (simp add: w'_def)
  ultimately have sw: "sole_writer env w'"
    using placed' nd fuel sched fl hdr log stored_log(1) [OF ready] by (simp add: sole_writer_def) (simp add: w'_def)
  have pub: "published ?cfg w w'"
    using log stored_log(2) [OF ready] by (intro published_same) (simp_all, simp_all add: w'_def view_def)
  have rm: "room ?cfg e (k - length bs) w'"
    using assms(5-7) by (auto simp: room_parts w'_def hdr)
  show ?thesis by (rule that [OF run [folded w'_def] sw pub _ placed'(2) _ rm]) (simp_all add: w'_def)
qed

section \<open>The write loop\<close>

definition writing :: "'o Env \<Rightarrow> nat \<Rightarrow> nat \<Rightarrow> 'o World \<Rightarrow> bool" where
  "writing env e k w \<longleftrightarrow> sole_writer env w \<and> \<not> mLoadMutex (w_file w) \<and> room (e_cfg env) e k w"

lemma store_at_append: "store_at (p + length a) b (store_at p a c) = store_at p (a @ b) c"
proof (rule nth_equalityI)
  show len: "length (store_at (p + length a) b (store_at p a c)) = length (store_at p (a @ b) c)"
    by (simp add: length_store_at)
  fix k
  assume k: "k < length (store_at (p + length a) b (store_at p a c))"
  have "byte_at (store_at (p + length a) b (store_at p a c)) k = byte_at (store_at p (a @ b) c) k"
    by (auto simp: byte_at_store nth_append)
  then show "store_at (p + length a) b (store_at p a c) ! k = store_at p (a @ b) c ! k" using k len by (simp add: byte_at_def)
qed

lemma append_round:
  fixes w :: "'o World"
  assumes "writing env e (k + c) w" and "mPos (w_file w) = int p" and "0 < k" and "p + k \<le> e"
    and "m = min k (bucket_size (e_cfg env) - p mod bucket_size (e_cfg env))" and "f_out f = Some s0" and "bw + k \<le> length data"
  obtains w' f' s1 where "out_loop env (Suc n) data False True (int k) (int bw) (w, f) =
      out_loop env n data False (k \<noteq> m) (int (k - m)) (int (bw + m)) (w', f')"
    and "writing env e (k - m + c) w'" and "mPos (w_file w') = int (p + m)" and "published (e_cfg env) w w'"
    and "content (e_cfg env) w' = store_at p (take m (drop bw data)) (content (e_cfg env) w)"
    and "f_out f' = Some s1" and "f_flags f' = f_flags f"
proof -
  let ?S = "bucket_size (e_cfg env)" and ?bs = "take m (drop bw data)"
  have sw: "sole_writer env w" and mtx: "\<not> mLoadMutex (w_file w)" and rm: "room (e_cfg env) e (k + c) w" using assms(1) by (simp_all add: writing_def)
  have S: "0 < ?S" "0 < LOCAL_BUCKET_SIZE (e_cfg env)" and nd: "NDEBUG (e_cfg env)" using sw by (simp_all add: sole_writer_def placed_def)
  have pS: "p mod ?S < ?S" using S(1) by simp
  have m: "0 < m" "m \<le> k" "p mod ?S + m \<le> ?S" using assms(3,5) pS by (auto simp: min_def)
  have bs: "length ?bs = m" "?bs \<noteq> []" using m assms(7) by auto
  have pe: "p < e" using assms(3,4) by simp
  obtain w0 where adj: "adjustActiveBlock env (int (p div ?S)) w = (Inr (), w0)" and sw0: "sole_writer env w0"
    and pub0: "published (e_cfg env) w w0" and pos0: "mPos (w_file w0) = int p" and con0: "content (e_cfg env) w0 = content (e_cfg env) w"
    and mtx0: "\<not> mLoadMutex (w_file w0)" and rm0: "room (e_cfg env) e (k + c) w0" and blk0: "p div ?S < length (mBlockArray (w_file w0))"
    by (rule adjust_ready [OF sw mtx assms(2) rm pe])
  obtain info w1 where g: "getCurBlockInfo env w = (Inr info, w1)" and at: "block_at (e_cfg env) (w_file w1) p info"
    and sw1: "sole_writer env w1" and pub1: "published (e_cfg env) w0 w1" and con1: "content (e_cfg env) w1 = content (e_cfg env) w0"
    and rm1: "\<forall>e k. room (e_cfg env) e k w1 = room (e_cfg env) e k w0"
    and w1: "\<exists>arr. w1 = w0\<lparr>w_file := (w_file w0)\<lparr>mBlockArray := arr\<rparr>\<rparr> \<and> length arr = length (mBlockArray (w_file w0))"
    by (rule getCurBlockInfo_after [OF assms(2) adj sw0 pos0 blk0])
  have pos1: "mPos (w_file w1) = int p" and mtx1: "\<not> mLoadMutex (w_file w1)" and blk1: "p div ?S < length (mBlockArray (w_file w1))"
    using w1 pos0 mtx0 blk0 by auto
  have pl1: "placed (e_cfg env) w1" using sw1 by (simp add: sole_writer_def)
  have room1: "room (e_cfg env) e (k + c) w1" using rm0 rm1 by simp
  then have disk: "length ?bs \<le> diskFree (w_store w1)" using m(2) bs(1) by (simp add: room_parts)
  obtain d where r: "ioE (BlockOutputStream_write (e_cfg env) ?bs info) w1 =
      (Inr (int m, info\<lparr>bi_offset := int (p mod ?S + m)\<rparr>), stored (e_cfg env) p ?bs d w1)" and d: "diskFree (w_store w1) - length ?bs \<le> d"
    using block_append [OF pl1 at bs(2) _ disk] m(3) bs(1) by auto
  obtain w2 where pos: "setPosition env (int (p + m)) (stored (e_cfg env) p ?bs d w1) = (Inr (), w2)" and sw2: "sole_writer env w2"
    and pub2: "published (e_cfg env) w1 w2" and pos2: "mPos (w_file w2) = int (p + m)"
    and con2: "content (e_cfg env) w2 = store_at p ?bs (content (e_cfg env) w1)" and mtx2: "mLoadMutex (w_file w2) = mLoadMutex (w_file w1)"
    and rm2: "room (e_cfg env) e (k + c - m) w2"
    using chunk_stored [OF sw1 pos1 blk1 _ d room1] m(2,3) bs(1) by (metis trans_le_add1)
  have rem: "block_remaining (e_cfg env) info = int (?S - p mod ?S)"
    using at S pS by (simp add: block_remaining_def block_at_def of_nat_diff)
  have fits: "int k \<le> block_remaining (e_cfg env) info \<longleftrightarrow> k = m" "k \<noteq> m \<Longrightarrow> block_remaining (e_cfg env) info = int m"
    using assms(5) unfolding rem by auto
  define f' where "f' = f\<lparr>f_out := Some (s0\<lparr>s_info := info\<lparr>bi_offset := int (p mod ?S + m)\<rparr>, s_pos := int p + int m\<rparr>)\<rparr>"
  have run: "out_loop env (Suc n) data False True (int k) (int bw) (w, f) =
      out_loop env n data False (k \<noteq> m) (int (k - m)) (int (bw + m)) (w2, f')"
    using g r pos pos1 nd assms(3,6) m(2) fits
    by (cases "k = m")
      (simp_all add: run_simps out_updateBlockStream_def run_liftW getFile_def setOut_def getOut_def out_write_def Let_def
        f'_def of_nat_diff)
  have pub: "published (e_cfg env) w w2" using pub0 pub1 pub2 published_trans by blast
  have "k + c - m = k - m + c" using m(2) by simp
  with rm2 have rm3: "room (e_cfg env) e (k - m + c) w2" by simp
  show ?thesis
    by (rule that [OF run _ pos2 pub]) (use sw2 mtx1 mtx2 rm3 con0 con1 con2 in \<open>simp_all add: writing_def f'_def\<close>)
qed

lemma append_nothing:
  assumes "writing env e c w" and "mPos (w_file w) = int p"
  shows "published cfg w w" and "store_at p [] (content (e_cfg env) w) = content (e_cfg env) w"
proof -
  show "published cfg w w" by (rule published_same) simp_all
  have "int p \<le> mEof (w_file w)" using assms by (simp add: writing_def sole_writer_def placed_def)
  then have "p \<le> length (content (e_cfg env) w)" by (simp add: content_length)
  then show "store_at p [] (content (e_cfg env) w) = content (e_cfg env) w" by (simp add: store_at_def)
qed

lemma append_loop:
  fixes w :: "'o World"
  assumes "writing env e (k + c) w" and "mPos (w_file w) = int p" and "p + k \<le> e" and "k \<le> n" and "0 < k \<longrightarrow> nu"
    and "f_out f = Some s0" and "bw + k \<le> length data"
  shows "\<exists>w' f' s1. out_loop env n data False nu (int k) (int bw) (w, f) = (Inr (), (w', f')) \<and> writing env e c w' \<and>
    mPos (w_file w') = int (p + k) \<and> published (e_cfg env) w w' \<and>
    content (e_cfg env) w' = store_at p (take k (drop bw data)) (content (e_cfg env) w) \<and> f_out f' = Some s1 \<and> f_flags f' = f_flags f"
  using assms
proof (induction n arbitrary: w f p k bw nu s0)
  case 0
  then show ?case using append_nothing [of env e c w p] by (auto simp: out_loop_nothing simp del: out_loop.simps)
next
  case (Suc n)
  show ?case
  proof (cases "k = 0")
    case True
    then show ?thesis
      using Suc.prems append_nothing [of env e c w p] by (auto simp: out_loop_nothing simp del: out_loop.simps)
  next
    case False
    define m where "m = min k (bucket_size (e_cfg env) - p mod bucket_size (e_cfg env))"
    let ?a = "take m (drop bw data)" and ?b = "take (k - m) (drop (bw + m) data)"
    have "0 < bucket_size (e_cfg env)" using Suc.prems(1) by (simp add: writing_def sole_writer_def placed_def)
    then have "p mod bucket_size (e_cfg env) < bucket_size (e_cfg env)" by simp
    then have m: "0 < m" "m \<le> k" using False by (auto simp: m_def min_def)
    have len: "length ?a = m" using m Suc.prems(7) by auto
    have pos: "0 < k" using False by simp
    obtain w1 f1 s1 where 1: "out_loop env (Suc n) data False True (int k) (int bw) (w, f) =
        out_loop env n data False (k \<noteq> m) (int (k - m)) (int (bw + m)) (w1, f1)"
      and w1: "writing env e (k - m + c) w1" "mPos (w_file w1) = int (p + m)" "published (e_cfg env) w w1"
      and con1: "content (e_cfg env) w1 = store_at p ?a (content (e_cfg env) w)" and f1: "f_out f1 = Some s1" "f_flags f1 = f_flags f"
      by (rule append_round [OF Suc.prems(1,2) pos Suc.prems(3) m_def Suc.prems(6,7)])
    have e1: "p + m + (k - m) \<le> e" and fuel1: "k - m \<le> n" and nu1: "0 < k - m \<longrightarrow> k \<noteq> m" and data1: "bw + m + (k - m) \<le> length data"
      using Suc.prems(3,4,7) m by auto
    obtain w2 f2 s2 where 2: "out_loop env n data False (k \<noteq> m) (int (k - m)) (int (bw + m)) (w1, f1) = (Inr (), (w2, f2))"
      and w2: "writing env e c w2" "mPos (w_file w2) = int (p + m + (k - m))" "published (e_cfg env) w1 w2"
      and con2: "content (e_cfg env) w2 = store_at (p + m) ?b (content (e_cfg env) w1)" and f2: "f_out f2 = Some s2" "f_flags f2 = f_flags f1"
      using Suc.IH [OF w1(1,2) e1 fuel1 nu1 f1(1) data1] by (elim exE conjE) (rule that)
    have "take k (drop bw data) = ?a @ ?b"
      using take_add [of m "k - m" "drop bw data"] m(2) by (simp add: add.commute)
    then have "content (e_cfg env) w2 = store_at p (take k (drop bw data)) (content (e_cfg env) w)"
      using con1 con2 store_at_append [of p ?a ?b] len by simp
    then show ?thesis
      using 1 2 w2 f1 f2 Suc.prems(5) pos m(2) published_trans [OF w1(3) w2(3)] by auto
  qed
qed

section \<open>Flushing, and what another process finds\<close>

lemma getBucketDataSize_run:
  assumes "region_agrees cfg f s" and "mBlockArray f \<noteq> []"
  shows "getBucketDataSize cfg (bk_bucketId (last (mBlockArray f))) (mFileId f) (int (length (mBlockArray f)) - 1) s =
    (Inr (dataSize (bucket_of s (last (mBlockArray f)))), s)"
proof -
  let ?b = "last (mBlockArray f)" and ?n = "length (mBlockArray f)"
  have "held f s (bk_bucketId ?b)" using assms by (auto simp: region_agrees_def list_all_iff)
  then have i: "0 \<le> bk_bucketId ?b" "nat (bk_bucketId ?b) < length (buckets s)" "idx (bk_bucketId ?b) (buckets s) = Some (bucket_of s ?b)"
    "b_fileId (bucket_of s ?b) = mFileId f" by (auto simp: held_def bucket_of_def idx_def split: if_splits)
  have "int (length (buckets s)) = numBuckets (header s)" "numBuckets (header s) \<le> NUMBER_OF_BLOCKS cfg"
    using assms(1) by (simp_all add: region_agrees_def shm_inv_def sizes_ok_def)
  then have "bk_bucketId ?b \<le> NUMBER_OF_BLOCKS cfg" using i(2) by linarith
  moreover have "?n - 1 < ?n" using assms(2) by simp
  then have "b_fileBlockIndex (bucket_of s (mBlockArray f ! (?n - 1))) = int (?n - 1)"
    using assms(1) by (simp add: region_agrees_def list_all_iff)
  then have "b_fileBlockIndex (bucket_of s ?b) = int ?n - 1" using assms(2) by (simp add: last_conv_nth of_nat_diff Suc_le_eq)
  ultimately show ?thesis using i by (simp add: getBucketDataSize_def run_simps readBucket_def)
qed

lemma flush_run:
  fixes w :: "'o World"
  assumes "sole_writer env w" and "mBlockArray (w_file w) \<noteq> []" and "24 \<le> diskFree (w_store w)"
  shows "fa_flush env w = (Inr (), log_put (record_bytes (e_pad env, rt_updateEof, [], word_of_int (mEof (w_file w)))) w)"
proof -
  let ?f = "w_file w" and ?cfg = "e_cfg env" and ?v = "with_lock 1 w" and ?n = "length (mBlockArray (w_file w))"
  let ?b = "last (mBlockArray ?f)" and ?r = "(e_pad env, rt_updateEof, [], word_of_int (mEof (w_file w)))"
  have sched: "w_sched w = []" and ready: "log_ready w" and fl: "h_flags (header (w_shm w)) = 0"
    and reg: "region_agrees ?cfg ?f (w_shm w)" and op: "opening_ok ?cfg ?f" using assms(1) by (simp_all add: sole_writer_def)
  have last: "idx (int ?n - 1) (mBlockArray ?f) = Some ?b" using assms(2) by (cases "mBlockArray ?f" rule: rev_cases) (simp_all add: idx_def)
  have b: "isLocal ?b" "bk_state ?b = BUCKET_ACTIVE" using op assms(2) by (auto simp: opening_ok_def list_all_iff)
  have size: "getBucketDataSize ?cfg (bk_bucketId ?b) (mFileId ?f) (int ?n - 1) (w_shm ?v) = (Inr (dataSize (bucket_of (w_shm ?v) ?b)), w_shm ?v)"
    using reg by (intro getBucketDataSize_run [OF _ assms(2)]) simp
  have "int (?n - 1) = int ?n - 1" using assms(2) by (cases "mBlockArray ?f") simp_all
  then have eof: "(int ?n - 1) * LOCAL_BUCKET_SIZE ?cfg + dataSize (bucket_of (w_shm ?v) ?b) \<le> mEof ?f"
    using reg assms(2) by (simp add: region_agrees_def bucket_of_def)
  have get: "getSharedMemEof ?cfg ?v = (Inr (), ?v)"
    using last size eof by (simp add: getSharedMemEof_def run_simps getFile_def readBlockArray_def shmE_def modFile_def Let_def)
  have ok: "record_ok ?r" by (simp add: record_ok_def record_types)
  have log: "logEof env ?v = (Inr (), log_put (record_bytes ?r) ?v)"
    using log_put_run [of ?v, OF _ ok] ready assms(3) by (simp add: logEof_def run_simps getFile_def logUpdateEof_def)
  have "fa_flush env w = (Inr (), with_lock 0 (log_put (record_bytes ?r) ?v))"
    unfolding fa_flush_def using last b get log
    by (simp add: run_simps getFile_def sharedMem_alone [OF sched fl log_ready_at [OF ready]] readBlockArray_def)
  moreover have "with_lock 0 (log_put (record_bytes ?r) ?v) = log_put (record_bytes ?r) w"
    using fl by (simp add: log_put_def with_lock_def manifest_log_def split: option.splits)
  ultimately show ?thesis by simp
qed

text \<open>Another opening of the file that has read the log as far as this one had.\<close>

definition follows :: "'o World \<Rightarrow> 'o World \<Rightarrow> bool" where
  "follows w r \<longleftrightarrow> length (mBuffer (mManifest (w_file r))) = BUFFER_SIZE \<and> layout (w_file r) = layout (w_file w) \<and>
     fd_inode (w_localFd r) = fd_inode (w_localFd w) \<and>
     map_option (\<lambda>fd. (fd_inode fd, fd_off fd)) (mFD (mManifest (w_file r))) =
       map_option (\<lambda>fd. (fd_inode fd, length (manifest_log w))) (mFD (mManifest (w_file w)))"

lemma layout_view: "layout (w_file w) = map (\<lambda>b. (isLocal b, bk_bucketId b)) (view w)"
  by (simp add: layout_def view_def)

lemma follower_catches_up:
  fixes w r :: "'o World"
  assumes "published cfg w w1" and "log_ready w1" and "NDEBUG cfg" and "follows w r" and "0 \<le> mEof (w_file w1)" and "mEof (w_file w1) < 2 ^ 63"
    and "w2 = log_put (record_bytes (pad, rt_updateEof, [], word_of_int (mEof (w_file w1)))) w1"
  shows "\<exists>r'. catchUpManifestLogs cfg (r\<lparr>w_store := w_store w2\<rparr>) = (Inr (), r') \<and> content cfg r' = content cfg w1"
proof -
  let ?e = "mEof (w_file w1)" and ?r = "(pad, rt_updateEof, [], word_of_int (mEof (w_file w1)) :: 64 word)" and ?q = "r\<lparr>w_store := w_store w2\<rparr>"
  from assms(1) obtain rs bs where rs: "list_all record_ok rs" "manifest_log w1 = manifest_log w @ log_bytes rs" "view w1 = view w @ bs"
    "\<forall>arr e. \<exists>e'. foldS (replay_record cfg) rs (arr, e) = Inr (arr @ bs, e')" by (auto simp: published_def)
  have ok: "list_all record_ok (rs @ [?r])" using rs(1) by (simp add: record_ok_def record_types)
  have log2: "manifest_log w2 = manifest_log w @ log_bytes (rs @ [?r])"
    using log_put_ready(2) [OF assms(2)] rs(2) by (simp add: assms(7) log_bytes_def)
  have "log_ready w2" unfolding assms(7) by (rule log_put_ready(1) [OF assms(2)])
  then obtain fd2 where fd2: "mFD (mManifest (w_file w2)) = Some fd2" by (auto simp: log_ready_def split: option.splits)
  have ino: "map_option fd_inode (mFD (mManifest (w_file w2))) = map_option fd_inode (mFD (mManifest (w_file w)))"
    using assms(1,2) by (auto simp: published_def assms(7) log_put_def log_ready_def split: option.splits)
  then obtain fd0 where "mFD (mManifest (w_file w)) = Some fd0" "fd_inode fd0 = fd_inode fd2"
    using fd2 by (cases "mFD (mManifest (w_file w))") auto
  then obtain fd where fd: "mFD (mManifest (w_file r)) = Some fd" "fd_inode fd = fd_inode fd2" "fd_off fd = length (manifest_log w)"
    using assms(4) fd2 by (auto simp: follows_def)
  have "file_bytes (w_store w2) (fd_inode fd2) = manifest_log w2" using fd2 by (simp add: manifest_log_def)
  then have at: "log_at (log_bytes (rs @ [?r])) ?q" using fd assms(4) log2 by (simp add: log_at_def follows_def)
  have sint: "sint (word_of_int ?e :: 64 word) = ?e"
    using assms(5,6) by (simp add: sint_sbintrunc' signed_take_bit_int_eq_self)
  have "foldS (replay_record cfg) (rs @ [?r]) (mBlockArray (w_file ?q), mEof (w_file ?q)) = Inr (mBlockArray (w_file r) @ bs, ?e)"
  proof -
    from rs(4) obtain e' where "foldS (replay_record cfg) rs (mBlockArray (w_file r), mEof (w_file r)) = Inr (mBlockArray (w_file r) @ bs, e')"
      by blast
    then show ?thesis using replay_eof [OF assms(3)] sint by (simp add: foldS_append)
  qed
  with catchUp_fold [OF ok at, of cfg] obtain m where
    run: "catchUpManifestLogs cfg ?q = (Inr (), ?q\<lparr>w_file := (w_file r)\<lparr>mManifest := m, mBlockArray := mBlockArray (w_file r) @ bs, mEof := ?e\<rparr>\<rparr>)"
    by auto
  define r' where "r' = ?q\<lparr>w_file := (w_file r)\<lparr>mManifest := m, mBlockArray := mBlockArray (w_file r) @ bs, mEof := ?e\<rparr>\<rparr>"
  have "layout (w_file r') = layout (w_file r) @ map (\<lambda>b. (isLocal b, bk_bucketId b)) bs" by (simp add: r'_def layout_def)
  also have "\<dots> = layout (w_file w1)" using assms(4) rs(3) by (simp add: follows_def layout_view)
  finally have lay: "layout (w_file r') = layout (w_file w1)" .
  have "fd_inode (w_localFd w1) = fd_inode (w_localFd w)" using assms(1) by (simp add: published_def)
  then have "local_bytes r' = local_bytes w1"
    using assms(4) log_put_ready(3) [OF assms(2)] by (simp add: r'_def follows_def assms(7))
  then have "content cfg r' = content cfg w1" using lay by (simp add: content_def) (simp add: r'_def)
  with run show ?thesis unfolding r'_def by blast
qed

text \<open>A flush makes what the opening has published visible to every opening that had read the log before.\<close>

lemma flush_visible:
  fixes w r :: "'o World"
  assumes "writing env e 24 w1" and "content (e_cfg env) w1 \<noteq> []" and "published (e_cfg env) w w1" and "follows w r"
    and "f_out f1 = Some s1" and "f_flags f1 AND OPEN_TYPE_MASK \<noteq> GW_RDONLY"
  shows "\<exists>w2 r'. gwFlush env ((w1, f1), errno) = (Inr 0, ((w2, f1), errno)) \<and>
    catchUpManifestLogs (e_cfg env) (r\<lparr>w_store := w_store w2\<rparr>) = (Inr (), r') \<and> content (e_cfg env) r' = content (e_cfg env) w1"
proof -
  let ?cfg = "e_cfg env"
  have sw: "sole_writer env w1" and pl: "placed ?cfg w1" and nd: "NDEBUG ?cfg" and ready: "log_ready w1" and disk: "24 \<le> diskFree (w_store w1)"
    using assms(1) by (simp_all add: writing_def sole_writer_def room_parts)
  have eof: "0 < mEof (w_file w1)" using assms(2) by (cases "0 < mEof (w_file w1)") (simp_all add: content_def)
  have size: "nat (mEof (w_file w1)) \<le> length (mBlockArray (w_file w1)) * bucket_size ?cfg"
    "length (mBlockArray (w_file w1)) < 2 ^ 31" "bucket_size ?cfg < 2 ^ 31"
    using pl by (auto simp: placed_def layout_def)
  then have ne: "mBlockArray (w_file w1) \<noteq> []" using eof by auto
  have "length (mBlockArray (w_file w1)) * bucket_size ?cfg \<le> 2 ^ 31 * 2 ^ 31" using size(2,3) by (intro mult_le_mono) simp_all
  then have big: "mEof (w_file w1) < 2 ^ 63" using size(1) by simp
  define w2 where "w2 = log_put (record_bytes (e_pad env, rt_updateEof, [], word_of_int (mEof (w_file w1)))) w1"
  have "gwFlush env ((w1, f1), errno) = (Inr 0, ((w2, f1), errno))"
    using flush_run [OF sw ne disk] assms(5,6) by (simp add: gwFlush_def api_def File_flush_def run_simps getOut_def run_liftW w2_def)
  moreover obtain r' where "catchUpManifestLogs ?cfg (r\<lparr>w_store := w_store w2\<rparr>) = (Inr (), r')" "content ?cfg r' = content ?cfg w1"
    using follower_catches_up [OF assms(3) ready nd assms(4) _ big w2_def] eof by auto
  ultimately show ?thesis by blast
qed

text \<open>
  What one process appends, every other process finds. A process that works alone on its file
  writes at its position, within the file or across its end, as far as buckets, quota and disk
  space allow: the write stores all bytes, and the bytes of the file are those of an array into
  which they were stored; blocks are taken from pre-allocated and free buckets as needed. After
  a flush, every opening of the file that had read the log up to the write catches up without an
  error and has the same bytes.
\<close>

theorem appended_bytes_visible:
  fixes w r :: "'o World"
  assumes "writing env (p + length d) (length d + 24) w" and "mPos (w_file w) = int p" and "d \<noteq> []" and "length d \<le> e_fuel env"
    and "f_out f = Some s0" and "f_flags f AND OPEN_TYPE_MASK \<noteq> GW_RDONLY" and "follows w r"
  shows "\<exists>w1 f1 w2 r'. gwWrite env d ((w, f), errno) = (Inr (int (length d)), ((w1, f1), errno)) \<and>
    content (e_cfg env) w1 = store_at p d (content (e_cfg env) w) \<and> mPos (w_file w1) = int (p + length d) \<and>
    gwFlush env ((w1, f1), errno) = (Inr 0, ((w2, f1), errno)) \<and>
    catchUpManifestLogs (e_cfg env) (r\<lparr>w_store := w_store w2\<rparr>) = (Inr (), r') \<and>
    content (e_cfg env) r' = store_at p d (content (e_cfg env) w)"
proof -
  let ?cfg = "e_cfg env"
  obtain w1 f1 s1 where run: "out_loop env (e_fuel env) d False True (int (length d)) 0 (w, f) = (Inr (), (w1, f1))"
    and w1: "writing env (p + length d) 24 w1" "mPos (w_file w1) = int (p + length d)" "published ?cfg w w1"
    and con: "content ?cfg w1 = store_at p d (content ?cfg w)" and f1: "f_out f1 = Some s1" "f_flags f1 = f_flags f"
    using append_loop [OF assms(1,2) order_refl assms(4), of True f s0 0 d] assms(5) by auto
  have "gwWrite env d ((w, f), errno) = (Inr (int (length d)), ((w1, f1), errno))"
    using run assms(5) by (simp add: gwWrite_def api_def File_write_def OutputStream_write_def run_simps getOut_def)
  moreover have "length (content ?cfg w1) \<ge> length d" unfolding con by (simp add: length_store_at)
  then have "content ?cfg w1 \<noteq> []" using assms(3) by auto
  ultimately show ?thesis
    using flush_visible [OF w1(1) _ w1(3) assms(7) f1(1), of errno] f1(2) assms(6) con w1(2) by auto
qed

text \<open>A file just created in an empty region of two buckets of eight bytes, and a second opening of it.\<close>

definition new_world :: "unit World" where
  "new_world = (world0 [])\<lparr>w_store := \<lparr>dirents = [(''m'', 1)], inodes = [[], []], openFails = (\<lambda>_. False), diskFree = 8192\<rparr>,
     w_file := status0\<lparr>mManifest := log_manifest\<lparr>mFD := Some \<lparr>fd_inode = 1, fd_off = 0\<rparr>\<rparr>\<rparr>\<rparr>"

definition second_opening :: "unit World" where
  "second_opening = new_world\<lparr>w_file := (w_file new_world)\<lparr>mIsWrite := False, mActiveId := 1\<rparr>\<rparr>"

lemma new_world_parts: "mBlockArray (w_file new_world) = []" "mPreAllocatedBuckets (w_file new_world) = []" "mEof (w_file new_world) = 0"
  "mPos (w_file new_world) = 0" "mLoadingBuckets (w_file new_world) = []" "\<not> mLoadMutex (w_file new_world)" "mActiveId (w_file new_world) = 0"
  "mLRUCache (w_file new_world) = Some (LRUCache_new 2)" "mIsSequence (w_file new_world) = False" "w_sched new_world = []"
  "fd_inode (w_localFd new_world) = 0" "length (inodes (w_store new_world)) = 2" "diskFree (w_store new_world) = 8192"
  "mFD (mManifest (w_file new_world)) = Some \<lparr>fd_inode = 1, fd_off = 0\<rparr>" "manifest_log new_world = []"
  "length (mBuffer (mManifest (w_file new_world))) = BUFFER_SIZE"
  by (simp_all add: new_world_def world0_def status0_def space_fd_def log_manifest_def manifest_log_def file_bytes_def numeral_2_eq_2)

lemma new_world_region: "shm_inv (w_shm new_world)" "header (w_shm new_world) = ShareMemHeader_reset 2 4"
  "buckets (w_shm new_world) = [ShareMemBucket_reset, ShareMemBucket_reset]"
proof -
  have shm: "w_shm new_world = SharedMemoryContext_new space_cfg ''/w'' True
      \<lparr>header = ShareMemHeader_reset 0 0, buckets = [], activeStatus = [], workDir = []\<rparr>" by (simp add: new_world_def world0_def)
  show "shm_inv (w_shm new_world)" unfolding shm by (rule initial_inv) (simp_all add: space_cfg_def)
  show "header (w_shm new_world) = ShareMemHeader_reset 2 4" "buckets (w_shm new_world) = [ShareMemBucket_reset, ShareMemBucket_reset]"
    unfolding shm by (simp_all add: SharedMemoryContext_new_def space_cfg_def Let_def numeral_2_eq_2)
qed

lemma env1_cfg: "e_cfg (env1 nd) = space_cfg\<lparr>NDEBUG := nd\<rparr>"
  by (simp add: env1_def env0_def)

lemma quota1: "quotaSize (e_cfg (env1 nd)) False = 2"
  by (simp add: quotaSize_def getCurQuotaSize_def env1_cfg space_cfg_def signed_divide_int_def)

lemma new_world_writing: "k \<le> 8000 \<Longrightarrow> writing (env1 True) 10 k new_world"
proof -
  let ?cfg = "e_cfg (env1 True)"
  assume "k \<le> 8000"
  have "placed ?cfg new_world" by (simp add: placed_def layout_def new_world_parts env1_parts)
  moreover have "log_ready new_world" by (simp add: log_ready_def new_world_parts)
  moreover have "region_agrees ?cfg (w_file new_world) (w_shm new_world)"
    using new_world_region(1)
    by (simp add: region_agrees_def new_world_region(2,3) new_world_parts ShareMemHeader_reset_def ShareMemBucket_reset_def env1_cfg space_cfg_def)
  moreover have "opening_ok ?cfg (w_file new_world)"
    using lru_inv_new(1) [of 2, where 'a = int and 'b = int] quota1 [of True]
    by (simp add: opening_ok_def new_world_parts valid_activeId_def env1_cfg space_cfg_def lru_size_def lru_maxSize_def LRUCache_new_def)
  moreover have "room ?cfg 10 k new_world"
    using quota1 [of True] \<open>k \<le> 8000\<close>
    by (simp add: room_parts blocks_for_def new_world_parts new_world_region(2) env1_parts ShareMemHeader_reset_def)
  ultimately show ?thesis
    by (simp add: writing_def sole_writer_def new_world_parts new_world_region(2) env1_parts ShareMemHeader_reset_def)
qed

theorem appended_bytes_visible_witness:
  "\<exists>w1 f1 w2 r'. gwWrite (env1 True) [1, 2, 3, 4, 5, 6, 7, 8, 9, 10] ((new_world, File_new (mFileId status0) ''a'' GW_RDWR), 0) =
      (Inr 10, ((w1, f1), 0)) \<and>
    content (e_cfg (env1 True)) w1 = [1, 2, 3, 4, 5, 6, 7, 8, 9, 10] \<and> mPos (w_file w1) = 10 \<and>
    gwFlush (env1 True) ((w1, f1), 0) = (Inr 0, ((w2, f1), 0)) \<and>
    catchUpManifestLogs (e_cfg (env1 True)) (second_opening\<lparr>w_store := w_store w2\<rparr>) = (Inr (), r') \<and>
    content (e_cfg (env1 True)) r' = [1, 2, 3, 4, 5, 6, 7, 8, 9, 10]"
proof -
  have f: "follows new_world second_opening" by (simp add: follows_def second_opening_def new_world_parts layout_def)
  have out: "f_out (File_new (mFileId status0) ''a'' GW_RDWR) = Some Stream_new"
    "f_flags (File_new (mFileId status0) ''a'' GW_RDWR) AND OPEN_TYPE_MASK \<noteq> GW_RDONLY"
    by (simp_all add: File_new_def canWrite_def open_flags)
  have c: "content (e_cfg (env1 True)) new_world = []" by (simp add: content_def new_world_parts)
  define d :: "byte list" where "d = [1, 2, 3, 4, 5, 6, 7, 8, 9, 10]"
  have d: "length d = 10" "d \<noteq> []" "store_at 0 d [] = d" by (simp_all add: d_def store_at_def)
  have "writing (env1 True) (0 + length d) (length d + 24) new_world" using new_world_writing by (simp add: d)
  from appended_bytes_visible [OF this _ d(2) _ out f, of 0] show ?thesis
    unfolding d_def [symmetric] by (simp add: new_world_parts env1_parts c d)
qed

end
