(* ===== verification/GW_Growing.thy ===== *)
theory GW_Growing
  imports GW_Append
begin

text \<open>
  A file that grows while it is used. A process alone on its file reads, writes and seeks in any order, and its
  writes may pass the end of the file as far as buckets, quota and disk allow: the file behaves as an
  array of bytes that grows, and after a flush every other opening has the same bytes.
\<close>

unbundle bit_operations_syntax

section \<open>An array that grows\<close>

text \<open>
  The array holds at most \<open>cap\<close> bytes; the first component of the state is the number of bytes that may still
  be written. \<open>None\<close> is a step outside these bounds or a seek beyond the array, of which nothing is claimed.
\<close>

fun growing_step :: "nat \<Rightarrow> nat \<Rightarrow> file_op \<Rightarrow> nat \<times> byte list \<times> nat \<Rightarrow> ((int \<times> byte list) \<times> nat \<times> byte list \<times> nat) option" where
  "growing_step limit cap (ReadOp n) (k, b, p) =
     (if n \<le> limit then let bs = take n (drop p b) in Some ((int (length bs), bs), (k, b, p + length bs)) else None)"
| "growing_step limit cap (WriteOp d) (k, b, p) =
     (if length d \<le> limit \<and> length d \<le> k \<and> p + length d \<le> cap
      then Some ((int (length d), []), (k - length d, store_at p d b, p + length d)) else None)"
| "growing_step limit cap (SeekOp q mode) (k, b, p) =
     (let t = seek_target q mode (length b) p
      in if t \<le> int (length b) then Some ((fst (seek_result t p), []), (k, b, snd (seek_result t p))) else None)"

fun growing_run :: "nat \<Rightarrow> nat \<Rightarrow> file_op list \<Rightarrow> nat \<times> byte list \<times> nat \<Rightarrow> ((int \<times> byte list) list \<times> nat \<times> byte list \<times> nat) option" where
  "growing_run limit cap [] a = Some ([], a)"
| "growing_run limit cap (op # ops) a =
     (case growing_step limit cap op a of None \<Rightarrow> None
      | Some (r, a') \<Rightarrow> map_option (\<lambda>(rs, a''). (r # rs, a'')) (growing_run limit cap ops a'))"

text \<open>
  What a client expects of a file that grows; \<open>valid k\<close> is a state in which \<open>k\<close> more bytes can be written, and
  \<open>later\<close> relates a state to the ones after it.
\<close>

locale growing_access =
  fixes limit cap :: nat
    and valid :: "nat \<Rightarrow> 's \<Rightarrow> bool"
    and bytes :: "'s \<Rightarrow> byte list"
    and position :: "'s \<Rightarrow> nat"
    and later :: "'s \<Rightarrow> 's \<Rightarrow> bool"
    and rd :: "int \<Rightarrow> ('s, gw_error, int \<times> byte list) gw"
    and wr :: "byte list \<Rightarrow> ('s, gw_error, int) gw"
    and sk :: "int \<Rightarrow> seek_mode \<Rightarrow> ('s, gw_error, int) gw"
  assumes grow_read: "valid k s \<Longrightarrow> n \<le> limit \<Longrightarrow> \<exists>s'. rd (int n) s =
      (Inr (int (length (take n (drop (position s) (bytes s)))), take n (drop (position s) (bytes s))), s') \<and>
      valid k s' \<and> later s s' \<and> bytes s' = bytes s \<and> position s' = position s + length (take n (drop (position s) (bytes s)))"
    and grow_write: "valid k s \<Longrightarrow> length d \<le> limit \<Longrightarrow> length d \<le> k \<Longrightarrow> position s + length d \<le> cap \<Longrightarrow> \<exists>s'.
      wr d s = (Inr (int (length d)), s') \<and> valid (k - length d) s' \<and> later s s' \<and>
      bytes s' = store_at (position s) d (bytes s) \<and> position s' = position s + length d"
    and grow_seek: "valid k s \<Longrightarrow> seek_target q mode (length (bytes s)) (position s) = t \<Longrightarrow> t \<le> int (length (bytes s)) \<Longrightarrow> \<exists>s'.
      sk q mode s = (Inr (fst (seek_result t (position s))), s') \<and> valid k s' \<and> later s s' \<and> bytes s' = bytes s \<and>
      position s' = snd (seek_result t (position s))"
    and later_refl: "valid k s \<Longrightarrow> later s s"
    and later_trans: "later s s' \<Longrightarrow> later s' s'' \<Longrightarrow> later s s''"
begin

lemma grow_step_refines:
  assumes "valid k s" and "growing_step limit cap op (k, bytes s, position s) = Some (r, k', b, p)"
  shows "\<exists>s'. file_step rd wr sk op s = (Inr r, s') \<and> valid k' s' \<and> later s s' \<and> bytes s' = b \<and> position s' = p"
proof (cases op)
  case (ReadOp n)
  then show ?thesis using grow_read [OF assms(1), of n] assms(2) by (auto simp: Let_def split: if_splits)
next
  case (WriteOp d)
  then show ?thesis using grow_write [OF assms(1), of d] assms(2) by (auto simp: run_simps split: if_splits)
next
  case (SeekOp q mode)
  then show ?thesis using grow_seek [OF assms(1) refl, of q mode] assms(2) by (auto simp: run_simps Let_def split: if_splits)
qed

lemma grow_run_refines:
  assumes "valid k s" and "growing_run limit cap ops (k, bytes s, position s) = Some (rs, k', b, p)"
  shows "\<exists>s'. run_ops (file_step rd wr sk) ops s = (Inr rs, s') \<and> valid k' s' \<and> later s s' \<and> bytes s' = b \<and> position s' = p"
  using assms
proof (induction ops arbitrary: k s rs)
  case Nil
  then show ?case using later_refl by (auto simp: run_simps)
next
  case (Cons op ops)
  obtain r k1 b1 p1 rs' where 1: "growing_step limit cap op (k, bytes s, position s) = Some (r, k1, b1, p1)"
    and 2: "growing_run limit cap ops (k1, b1, p1) = Some (rs', k', b, p)" and rs: "rs = r # rs'"
    using Cons.prems(2) by (auto split: option.splits)
  obtain s1 where s1: "file_step rd wr sk op s = (Inr r, s1)" "valid k1 s1" "later s s1" "bytes s1 = b1" "position s1 = p1"
    using grow_step_refines [OF Cons.prems(1) 1] by blast
  obtain s2 where "run_ops (file_step rd wr sk) ops s1 = (Inr rs', s2)" "valid k' s2" "later s1 s2" "bytes s2 = b" "position s2 = p"
    using Cons.IH [OF s1(2)] 2 s1(4,5) by blast
  then show ?case using s1(1) later_trans [OF s1(3)] by (auto simp: run_simps rs)
qed

end

section \<open>The library's file\<close>

text \<open>Moving the position keeps what a writer relies on.\<close>

lemma unused_fields:
  assumes "unused arr = unused arr'"
  shows "map bk_bucketId arr = map bk_bucketId arr'" and "length arr = length arr'"
    and "list_all (\<lambda>b. isLocal b \<and> bk_state b = BUCKET_ACTIVE) arr = list_all (\<lambda>b. isLocal b \<and> bk_state b = BUCKET_ACTIVE) arr'"
proof -
  show "map bk_bucketId arr = map bk_bucketId arr'"
    using arg_cong [OF assms, of "map bk_bucketId"] by (simp add: unused_def comp_def)
  show "length arr = length arr'" using arg_cong [OF assms, of length] by (simp add: unused_def)
  show "list_all (\<lambda>b. isLocal b \<and> bk_state b = BUCKET_ACTIVE) arr = list_all (\<lambda>b. isLocal b \<and> bk_state b = BUCKET_ACTIVE) arr'"
    using arg_cong [OF assms, of "list_all (\<lambda>b. isLocal b \<and> bk_state b = BUCKET_ACTIVE)"] by (simp add: unused_def list_all_iff)
qed

lemma region_agrees_unused:
  assumes "map bk_bucketId arr = map bk_bucketId (mBlockArray f)" and "region_agrees cfg f s"
  shows "region_agrees cfg (f\<lparr>mPos := pos, mBlockArray := arr\<rparr>) s"
proof -
  have len: "length arr = length (mBlockArray f)" using arg_cong [OF assms(1), of length] by simp
  have nth: "bk_bucketId (arr ! k) = bk_bucketId (mBlockArray f ! k)" if "k < length arr" for k
    using arg_cong [OF assms(1), of "\<lambda>xs. xs ! k"] that len by simp
  have ne: "arr = [] \<longleftrightarrow> mBlockArray f = []" using len by (metis length_0_conv)
  have last: "bk_bucketId (last arr) = bk_bucketId (last (mBlockArray f))" if "arr \<noteq> []"
    using nth [of "length arr - 1"] that len ne by (simp add: last_conv_nth)
  have "held (f\<lparr>mPos := pos, mBlockArray := arr\<rparr>) s = held f s" by (simp add: held_def fun_eq_iff cong: option.case_cong)
  then show ?thesis using assms(2) assms(1) len nth last ne
    by (simp add: region_agrees_def bucket_of_def list_all_iff)
qed

lemma moved_writing:
  assumes "moved pos w w'" and "writing env e k w" and "0 \<le> pos" and "pos \<le> mEof (w_file w)"
  shows "writing env e k w'" and "published (e_cfg env) w w'"
proof -
  obtain off arr where w': "w' = w\<lparr>w_localFd := (w_localFd w)\<lparr>fd_off := off\<rparr>, w_file := (w_file w)\<lparr>mPos := pos, mBlockArray := arr\<rparr>\<rparr>"
    and arr: "unused arr = unused (mBlockArray (w_file w))" using assms(1) by (auto simp: moved_def)
  note u = unused_fields [OF arr]
  have sw: "sole_writer env w" "\<not> mLoadMutex (w_file w)" "room (e_cfg env) e k w" using assms(2) by (simp_all add: writing_def)
  have "resident (e_cfg env) w" using sw by (simp add: resident_def sole_writer_def)
  then have "resident (e_cfg env) w'" by (rule moved_resident [OF assms(1) _ assms(3,4)])
  moreover have "region_agrees (e_cfg env) (w_file w') (w_shm w')"
    using region_agrees_unused [OF u(1)] sw(1) by (simp add: w' sole_writer_def)
  moreover have "log_ready w'" using sw(1) by (simp add: w' sole_writer_def log_ready_def manifest_log_def split: option.splits)
  moreover have "opening_ok (e_cfg env) (w_file w')"
    using sw(1) u(2,3) by (simp add: w' sole_writer_def opening_ok_def cong: option.case_cong)
  moreover have "room (e_cfg env) e k w'" using sw(3) u(2) by (simp add: w' room_parts)
  ultimately show "writing env e k w'" using sw(1) by (simp add: writing_def sole_writer_def resident_def) (simp add: w')
  show "published (e_cfg env) w w'"
    by (rule published_same) (use arr in \<open>simp_all add: w' manifest_log_def view_def unused_def cong: option.case_cong\<close>)
qed

definition growing_file :: "'o Env \<Rightarrow> nat \<Rightarrow> nat \<Rightarrow> ('o World \<times> File) \<times> int \<Rightarrow> bool" where
  "growing_file env cap k = (\<lambda>((w, f), errno). writing env cap (k + 24) w \<and> f_out f \<noteq> None \<and> f_flags f AND OPEN_TYPE_MASK \<noteq> GW_RDONLY)"

definition published_since :: "'o Env \<Rightarrow> ('o World \<times> File) \<times> int \<Rightarrow> ('o World \<times> File) \<times> int \<Rightarrow> bool" where
  "published_since env s s' \<longleftrightarrow> published (e_cfg env) (fst (fst s)) (fst (fst s'))"

lemma growing_parts:
  assumes "growing_file env cap k ((w, f), errno)"
  shows "resident (e_cfg env) w" and "NDEBUG (e_cfg env)" and "mPos (w_file w) = int (file_position ((w, f), errno))"
    and "int (file_position ((w, f), errno)) \<le> mEof (w_file w)" and "writing env cap (k + 24) w"
  using assms by (auto simp: growing_file_def writing_def sole_writer_def resident_def placed_def file_position_def)

lemma moved_growing:
  assumes "growing_file env cap k ((w, f), errno)" and "moved (int q) w w'" and "int q \<le> mEof (w_file w)"
    and "f_out f' = f_out f" and "f_flags f' = f_flags f"
  shows "growing_file env cap k ((w', f'), errno')" and "published_since env ((w, f), errno) ((w', f'), errno')"
    and "file_bytes_of env ((w', f'), errno') = file_bytes_of env ((w, f), errno)" and "file_position ((w', f'), errno') = q"
  using moved_writing [OF assms(2), of env cap "k + 24"] assms(1,3-5) moved_content [OF assms(2)] moved_facts(3) [OF assms(2)]
  by (simp_all add: growing_file_def published_since_def file_bytes_of_def file_position_def)

lemma growing_read:
  assumes "growing_file env cap k s" and "n \<le> e_fuel env"
  shows "\<exists>s'. gwRead env (int n) s = (Inr (int (length (take n (drop (file_position s) (file_bytes_of env s)))),
      take n (drop (file_position s) (file_bytes_of env s))), s') \<and> growing_file env cap k s' \<and> published_since env s s' \<and>
    file_bytes_of env s' = file_bytes_of env s \<and>
    file_position s' = file_position s + length (take n (drop (file_position s) (file_bytes_of env s)))"
proof -
  obtain w f errno where s: "s = ((w, f), errno)" by (cases s) auto
  have bytes: "content (e_cfg env) w = file_bytes_of env s" by (simp add: s file_bytes_of_def)
  note g = growing_parts [OF assms(1) [unfolded s], folded s]
  obtain w' f' where "gwRead env (int n) s = (Inr (int (length (take n (drop (file_position s) (file_bytes_of env s)))),
      take n (drop (file_position s) (file_bytes_of env s))), ((w', f'), errno))"
    and mv: "moved (int (file_position s + length (take n (drop (file_position s) (file_bytes_of env s))))) w w'"
      "int (file_position s + length (take n (drop (file_position s) (file_bytes_of env s)))) \<le> mEof (w_file w)"
      "f_out f' = f_out f" "f_flags f' = f_flags f"
    using gwRead_moves [OF g(1-3) assms(2), of f errno] unfolding s [symmetric] bytes by blast
  then show ?thesis using moved_growing [OF assms(1) [unfolded s] mv, folded s] by blast
qed

lemma growing_write:
  assumes "growing_file env cap k s" and "length d \<le> e_fuel env" and "length d \<le> k" and "file_position s + length d \<le> cap"
  shows "\<exists>s'. gwWrite env d s = (Inr (int (length d)), s') \<and> growing_file env cap (k - length d) s' \<and> published_since env s s' \<and>
    file_bytes_of env s' = store_at (file_position s) d (file_bytes_of env s) \<and> file_position s' = file_position s + length d"
proof -
  obtain w f errno where s: "s = ((w, f), errno)" by (cases s) auto
  note g = growing_parts [OF assms(1) [unfolded s], folded s]
  obtain s0 where out: "f_out f = Some s0" and fl: "f_flags f AND OPEN_TYPE_MASK \<noteq> GW_RDONLY" using assms(1) by (auto simp: s growing_file_def)
  have "writing env cap (length d + (k - length d + 24)) w" using g(5) assms(3) by simp
  from append_loop [OF this g(3) assms(4) assms(2), of True f s0 0 d] out
  obtain w1 f1 s1 where run: "out_loop env (e_fuel env) d False True (int (length d)) 0 (w, f) = (Inr (), (w1, f1))"
    and w1: "writing env cap (k - length d + 24) w1" "mPos (w_file w1) = int (file_position s + length d)" "published (e_cfg env) w w1"
    and con: "content (e_cfg env) w1 = store_at (file_position s) d (content (e_cfg env) w)" and f1: "f_out f1 = Some s1" "f_flags f1 = f_flags f"
    by auto
  have "gwWrite env d s = (Inr (int (length d)), ((w1, f1), errno))"
    using run out by (simp add: s gwWrite_def api_def File_write_def OutputStream_write_def run_simps getOut_def)
  moreover have "growing_file env cap (k - length d) ((w1, f1), errno)" using w1(1) f1 fl by (simp add: growing_file_def)
  moreover have "published_since env s ((w1, f1), errno)" using w1(3) by (simp add: s published_since_def)
  moreover have "file_bytes_of env ((w1, f1), errno) = store_at (file_position s) d (file_bytes_of env s)"
    using con by (simp add: s file_bytes_of_def)
  moreover have "file_position ((w1, f1), errno) = file_position s + length d" using w1(2) by (simp only: file_position_def prod.case nat_int)
  ultimately show ?thesis by blast
qed

lemma growing_seek:
  assumes "growing_file env cap k s" and "seek_target q mode (length (file_bytes_of env s)) (file_position s) = t"
    and "t \<le> int (length (file_bytes_of env s))"
  shows "\<exists>s'. gwSeek env q mode s = (Inr (fst (seek_result t (file_position s))), s') \<and> growing_file env cap k s' \<and>
    published_since env s s' \<and> file_bytes_of env s' = file_bytes_of env s \<and> file_position s' = snd (seek_result t (file_position s))"
proof -
  obtain w f errno where s: "s = ((w, f), errno)" by (cases s) auto
  note g = growing_parts [OF assms(1) [unfolded s], folded s]
  let ?n = "length (file_bytes_of env s)" and ?p = "file_position s"
  have n: "mEof (w_file w) = int ?n" "?p \<le> ?n" using g(4) by (auto simp: s file_bytes_of_def content_length)
  obtain w' errno' where run: "gwSeek env q mode s = (Inr (fst (seek_result t ?p)), ((w', f), errno'))"
    and mv: "moved (int (snd (seek_result t ?p))) w w'"
    using gwSeek_moves [OF g(3) n(1) assms(2,3), of env f errno] unfolding s [symmetric] by blast
  have "int (snd (seek_result t ?p)) \<le> mEof (w_file w)" using seek_result_inside [OF assms(3) n(2)] n(1) by simp
  from moved_growing [OF assms(1) [unfolded s] mv this refl refl, folded s] run show ?thesis by blast
qed

lemma published_since_refl: "growing_file env cap k s \<Longrightarrow> published_since env s s"
  by (cases s) (auto simp: published_since_def intro: published_same)

lemma published_since_trans: "published_since env s s' \<Longrightarrow> published_since env s' s'' \<Longrightarrow> published_since env s s''"
  by (auto simp: published_since_def intro: published_trans)

interpretation grown: growing_access "e_fuel env" cap "growing_file env cap" "file_bytes_of env" file_position "published_since env"
    "gwRead env" "gwWrite env" "gwSeek env"
  for env :: "'o Env" and cap
  by unfold_locales (rule growing_read growing_write growing_seek published_since_refl published_since_trans; assumption)+

text \<open>
  C5 A file that grows behaves as an array of bytes that grows, and other openings see it. The build is one
  without assertions; no other process acts during the sequence; all blocks of the file are local and active
  in this opening, its cache and the region agree with its block array, and no bucket of the region is used
  (so that none is evicted). Then, for every sequence of reads, of writes that stay below a capacity, and of
  seeks from the beginning, the position or the end to a place within the file or before it (a seek beyond
  the end is left out), the library functions return what the array returns. The writes may pass the end of
  the file: they take pre-allocated and free buckets, and the capacity is bounded by the quota, by these
  buckets and by the space on the disk. After a flush, every opening of the file that had read the log up to
  the beginning of the sequence catches up without an error and has the bytes of the array.
\<close>

theorem growing_file_visible:
  fixes w r :: "'o World"
  assumes "growing_file env cap k ((w, f), errno)" and "follows w r"
    and "growing_run (e_fuel env) cap ops (k, content (e_cfg env) w, nat (mPos (w_file w))) = Some (rs, k', b, p)" and "b \<noteq> []"
  shows "\<exists>w1 f1 w2 r' errno'. run_ops (file_step (gwRead env) (gwWrite env) (gwSeek env)) ops ((w, f), errno) = (Inr rs, ((w1, f1), errno')) \<and>
    content (e_cfg env) w1 = b \<and> mPos (w_file w1) = int p \<and>
    gwFlush env ((w1, f1), errno') = (Inr 0, ((w2, f1), errno')) \<and>
    catchUpManifestLogs (e_cfg env) (r\<lparr>w_store := w_store w2\<rparr>) = (Inr (), r') \<and> content (e_cfg env) r' = b"
proof -
  have a: "growing_run (e_fuel env) cap ops (k, file_bytes_of env ((w, f), errno), file_position ((w, f), errno)) = Some (rs, k', b, p)"
    using assms(3) by (simp add: file_bytes_of_def file_position_def)
  obtain s' where run: "run_ops (file_step (gwRead env) (gwWrite env) (gwSeek env)) ops ((w, f), errno) = (Inr rs, s')"
    and s': "growing_file env cap k' s'" "published_since env ((w, f), errno) s'" "file_bytes_of env s' = b" "file_position s' = p"
    using grown.grow_run_refines [OF assms(1) a] by blast
  obtain w1 f1 errno' where eq: "s' = ((w1, f1), errno')" by (cases s') auto
  note g = growing_parts [OF s'(1) [unfolded eq]]
  obtain s1 where out: "f_out f1 = Some s1" "f_flags f1 AND OPEN_TYPE_MASK \<noteq> GW_RDONLY" using s'(1) by (auto simp: eq growing_file_def)
  have con: "content (e_cfg env) w1 = b" using s'(3) by (simp add: eq file_bytes_of_def)
  have "writing env cap 24 w1" using g(5) by (simp add: writing_def room_parts)
  from flush_visible [OF this _ _ assms(2) out, of errno'] s'(2) con assms(4)
  have "\<exists>w2 r'. gwFlush env ((w1, f1), errno') = (Inr 0, ((w2, f1), errno')) \<and>
    catchUpManifestLogs (e_cfg env) (r\<lparr>w_store := w_store w2\<rparr>) = (Inr (), r') \<and> content (e_cfg env) r' = b"
    by (simp add: published_since_def eq)
  then show ?thesis using run con g(3) s'(4) unfolding eq by blast
qed

theorem growing_file_visible_witness:
  "\<exists>w1 f1 w2 r' errno'. run_ops (file_step (gwRead (env1 True)) (gwWrite (env1 True)) (gwSeek (env1 True)))
      [WriteOp [1, 2, 3, 4, 5, 6, 7], SeekOp (- 1) Seek_Cur, WriteOp [8, 9, 10], ReadOp 1, SeekOp (- 4) Seek_End, ReadOp 9] ((new_world, File_new (mFileId status0) ''a'' GW_RDWR), 0) =
      (Inr [(7, []), (6, []), (3, []), (0, []), (5, []), (4, [6, 8, 9, 10])], ((w1, f1), errno')) \<and>
    content (e_cfg (env1 True)) w1 = [1, 2, 3, 4, 5, 6, 8, 9, 10] \<and> mPos (w_file w1) = int 9 \<and>
    gwFlush (env1 True) ((w1, f1), errno') = (Inr 0, ((w2, f1), errno')) \<and>
    catchUpManifestLogs (e_cfg (env1 True)) (second_opening\<lparr>w_store := w_store w2\<rparr>) = (Inr (), r') \<and>
    content (e_cfg (env1 True)) r' = [1, 2, 3, 4, 5, 6, 8, 9, 10]"
proof (rule growing_file_visible)
  show "growing_file (env1 True) 10 20 ((new_world, File_new (mFileId status0) ''a'' GW_RDWR), 0)"
    using new_world_writing [of "20 + 24"] by (simp add: growing_file_def File_new_def canWrite_def open_flags)
  show "follows new_world second_opening" by (simp add: follows_def second_opening_def new_world_parts layout_def)
  show "growing_run (e_fuel (env1 True)) 10 [WriteOp [1, 2, 3, 4, 5, 6, 7], SeekOp (- 1) Seek_Cur, WriteOp [8, 9, 10], ReadOp 1, SeekOp (- 4) Seek_End, ReadOp 9]
      (20, content (e_cfg (env1 True)) new_world, nat (mPos (w_file new_world))) =
    Some ([(7, []), (6, []), (3, []), (0, []), (5, []), (4, [6, 8, 9, 10])], 10, [1, 2, 3, 4, 5, 6, 8, 9, 10], 9)"
    by (simp add: env1_parts content_def new_world_parts store_at_def Let_def seek_target_def seek_result_def)
qed simp

end
