(* ===== verification/GW_Reactivate.thy ===== *)
theory GW_Reactivate
  imports GW_Append
begin

text \<open>
  A block that an earlier opening left in the local space is activated again by
  \<^verbatim>\<open>activateBlock\<close>. The activation is logged, so every other opening learns of it, but the opening's own
  block array keeps the block as used; a later flush takes it for a block whose end of file has
  been logged.
\<close>

section \<open>Activating a used bucket\<close>

lemma activateBucket_used:
  assumes "shm_inv s" and "idx (bk_bucketId blk) (buckets s) = Some b" and "isUsedBucket b" and "\<not> isEvictingBucket b"
    and "b_fileId b = f" and "b_fileBlockIndex b = bk_blockId blk" and "valid_activeId a"
  shows "\<exists>t. activateBucket f blk a wr s = (Inr 1, t) \<and> h_flags (header t) = h_flags (header s)"
proof -
  have "bucket_ok b" using assms(1,2) by (rule shm_invD(4))
  then have b: "table_ok (setBucketActive b)" "noActiveReadWrite (setBucketActive b)"
    using assms(3) by (auto simp: bucket_ok_def type_simps)
  from mark_idle [OF b assms(7), of wr] obtain c where "mark wr a (setBucketActive b) = Inr c" by blast
  then show ?thesis
    using assms(2-6)
    by (simp add: activateBucket_def run_simps Let_def readBucket_def modBucket_def writeBucket_def callBucket_def modHeader_def)
qed

text \<open>The opening has a block that is local and not active, and room within its quota.\<close>

definition can_reactivate :: "'o Env \<Rightarrow> nat \<Rightarrow> 'o World \<Rightarrow> bool" where
  "can_reactivate env k w \<longleftrightarrow> (let f = w_file w; s = w_shm w; blk = mBlockArray f ! k in
     w_sched w = [] \<and> log_ready w \<and> 36 \<le> diskFree (w_store w) \<and> shm_inv s \<and> h_flags (header s) = 0 \<and> NDEBUG (e_cfg env) \<and>
     valid_activeId (mActiveId f) \<and> mPreAllocatedBuckets f \<noteq> [] \<and>
     (case mLRUCache f of None \<Rightarrow> False
      | Some c \<Rightarrow> lru_size c + length (mPreAllocatedBuckets f) + length (mLoadingBuckets f) < lru_maxSize c \<and> lru_maxSize c < 2 ^ 31) \<and>
     k < length (mBlockArray f) \<and> isLocal blk \<and> bk_state blk = BUCKET_USED \<and> bk_blockId blk = int k \<and> k < 2 ^ 31 \<and>
     (case idx (bk_bucketId blk) (buckets s) of None \<Rightarrow> False
      | Some b \<Rightarrow> isUsedBucket b \<and> \<not> isEvictingBucket b \<and> b_fileId b = mFileId f \<and> b_fileBlockIndex b = int k))"

lemma activateBlock_used:
  fixes w :: "'o World"
  assumes "can_reactivate env k w"
  defines "r \<equiv> (e_pad env, rt_activeBlock, [mBlockArray (w_file w) ! k], 0 :: 64 word)"
  obtains t c where "activateBlock env (int k) w = (Inr 1, log_put (record_bytes r) (w\<lparr>w_shm := t, w_file := (w_file w)\<lparr>mLRUCache := Some c\<rparr>\<rparr>))"
    and "record_ok r" and "h_flags (header t) = 0"
proof -
  let ?f = "w_file w" and ?blk = "mBlockArray (w_file w) ! k" and ?v = "with_lock 1 w"
  have sched: "w_sched w = []" and ready: "log_ready w" and disk: "36 \<le> diskFree (w_store w)" and inv: "shm_inv (w_shm w)"
    and fl: "h_flags (header (w_shm w)) = 0" and act: "valid_activeId (mActiveId ?f)" and pre: "mPreAllocatedBuckets ?f \<noteq> []"
    and k: "k < length (mBlockArray ?f)" "isLocal ?blk" "bk_state ?blk = BUCKET_USED" "bk_blockId ?blk = int k" "k < 2 ^ 31"
    using assms(1) by (simp_all add: can_reactivate_def Let_def)
  obtain c where c: "mLRUCache ?f = Some c" "lru_size c + length (mPreAllocatedBuckets ?f) + length (mLoadingBuckets ?f) < lru_maxSize c"
    "lru_maxSize c < 2 ^ 31" using assms(1) by (auto simp: can_reactivate_def Let_def split: option.splits)
  obtain b where b: "idx (bk_bucketId ?blk) (buckets (w_shm w)) = Some b" "isUsedBucket b" "\<not> isEvictingBucket b"
    "b_fileId b = mFileId ?f" "b_fileBlockIndex b = int k" using assms(1) by (auto simp: can_reactivate_def Let_def split: option.splits)
  have "shm_inv (w_shm ?v)" using inv by (simp add: with_lock_def)
  then obtain t where t: "activateBucket (mFileId ?f) ?blk (mActiveId ?f) (mIsWrite ?f) (w_shm ?v) = (Inr 1, t)" "h_flags (header t) = 1"
    using activateBucket_used [of "w_shm ?v" ?blk b "mFileId ?f" "mActiveId ?f" "mIsWrite ?f"] b act k(4) by auto
  have "length (buckets (w_shm w)) < 2 ^ 31" using inv by (auto simp: shm_inv_def sizes_ok_def)
  then have ok: "record_ok r" using b(1) k by (auto simp: r_def record_ok_def block_ok_def record_types idx_def split: if_splits)
  let ?c = "snd (lru_put id (int k) (bk_bucketId ?blk) c)"
  define v1 where "v1 = log_put (record_bytes r) (?v\<lparr>w_shm := t\<rparr>)"
  have log: "mfE (logActivateBucket (e_pad env) ?blk) (?v\<lparr>w_shm := t\<rparr>) = (Inr (), v1)"
  proof -
    have "log_ready (?v\<lparr>w_shm := t\<rparr>)" using ready by (simp add: log_ready_def manifest_log_def split: option.splits)
    from log_put_run [OF this, of "e_pad env" rt_activeBlock "[?blk]" 0] ok disk show ?thesis
      by (simp add: logActivateBucket_def v1_def r_def)
  qed
  have room: "makeRoom env ?v = (Inr (), ?v)"
    using c by (simp add: makeRoom_def getNumAcquiredBuckets_def getCurQuota_def run_simps lruE_gets getFile_def int32_id)
  define w' where "w' = with_lock 0 (v1\<lparr>w_file := (w_file v1)\<lparr>mLRUCache := Some ?c\<rparr>\<rparr>)"
  have "activateBlock env (int k) w = (Inr 1, w')"
    unfolding activateBlock_def w'_def using pre room t log k c(1)
    by (simp add: run_simps ensurePreAllocated_def getFile_def sharedMem_alone [OF sched fl log_ready_at [OF ready]] readBlockArray_def
        shmE_def lruPut_def lruE_def v1_def)
  moreover have "w' = log_put (record_bytes r) (w\<lparr>w_shm := t\<lparr>header := (header t)\<lparr>h_flags := 0\<rparr>\<rparr>, w_file := ?f\<lparr>mLRUCache := Some ?c\<rparr>\<rparr>)"
    by (simp add: w'_def v1_def log_put_def with_lock_def manifest_log_def split: option.splits)
  ultimately show ?thesis using that [OF _ ok] by simp
qed

lemma replay_activated:
  assumes "NDEBUG cfg" and "k < length arr" and "bk_blockId b = int k"
  shows "replay_record cfg (pad, rt_activeBlock, [b], op) (arr, e) = Inr (arr[k := (arr ! k)\<lparr>bk_state := BUCKET_ACTIVE\<rparr>], e)"
  using assms by (simp add: replay_record_def replay_def record_header_def record_types set_state_def)

text \<open>Flushing logs nothing while the last block is not active in the opening's own array.\<close>

lemma flush_skips:
  fixes w :: "'o World"
  assumes "w_sched w = []" and "log_ready w" and "h_flags (header (w_shm w)) = 0" and "Suc k = length (mBlockArray (w_file w))"
    and "bk_state (mBlockArray (w_file w) ! k) \<noteq> BUCKET_ACTIVE"
  shows "fa_flush env w = (Inr (), w)"
proof -
  have "idx (int (length (mBlockArray (w_file w))) - 1) (mBlockArray (w_file w)) = Some (mBlockArray (w_file w) ! k)"
    using assms(4) by (simp add: idx_def flip: assms(4))
  then have "fa_flush env w = (Inr (), with_lock 0 (with_lock 1 w))"
    unfolding fa_flush_def using assms(5)
    by (simp add: run_simps getFile_def sharedMem_alone [OF assms(1,3) log_ready_at [OF assms(2)]] readBlockArray_def)
  then show ?thesis using with_lock_same [OF assms(3)] by simp
qed

text \<open>
  C35 A block that is activated again stays used for the process that activated it. The activation
  succeeds and is logged, and whoever replays the log takes the block as active, but the opening's own
  block array is unchanged. When the block is the last of the file, a flush afterwards succeeds
  without logging the end of file, however far the file has been extended in the block.
\<close>

theorem reactivation_not_recorded:
  fixes w :: "'o World"
  assumes "can_reactivate env k w" and "Suc k = length (mBlockArray (w_file w))"
  shows "\<exists>w' r. activateBlock env (int k) w = (Inr 1, w') \<and> mBlockArray (w_file w') = mBlockArray (w_file w) \<and>
    manifest_log w' = manifest_log w @ record_bytes r \<and> record_ok r \<and>
    (\<forall>e. replay_record (e_cfg env) r (mBlockArray (w_file w), e) =
       Inr ((mBlockArray (w_file w))[k := (mBlockArray (w_file w) ! k)\<lparr>bk_state := BUCKET_ACTIVE\<rparr>], e)) \<and>
    (\<forall>pos eof. fa_flush env (w'\<lparr>w_file := (w_file w')\<lparr>mPos := pos, mEof := eof\<rparr>\<rparr>) =
       (Inr (), w'\<lparr>w_file := (w_file w')\<lparr>mPos := pos, mEof := eof\<rparr>\<rparr>))"
proof -
  let ?r = "(e_pad env, rt_activeBlock, [mBlockArray (w_file w) ! k], 0 :: 64 word)"
  obtain t c where run: "activateBlock env (int k) w = (Inr 1, log_put (record_bytes ?r) (w\<lparr>w_shm := t, w_file := (w_file w)\<lparr>mLRUCache := Some c\<rparr>\<rparr>))"
    and ok: "record_ok ?r" and fl: "h_flags (header t) = 0" by (rule activateBlock_used [OF assms(1)])
  define v where "v = w\<lparr>w_shm := t, w_file := (w_file w)\<lparr>mLRUCache := Some c\<rparr>\<rparr>"
  define w' where "w' = log_put (record_bytes ?r) v"
  have a: "w_sched w = []" "log_ready w" "NDEBUG (e_cfg env)" "bk_state (mBlockArray (w_file w) ! k) = BUCKET_USED"
    "bk_blockId (mBlockArray (w_file w) ! k) = int k" using assms(1) by (simp_all add: can_reactivate_def Let_def)
  have ready: "log_ready v" and log: "manifest_log v = manifest_log w"
    using a(2) by (simp_all add: v_def log_ready_def manifest_log_def split: option.splits)
  have arr: "mBlockArray (w_file w') = mBlockArray (w_file w)" by (simp add: w'_def v_def)
  have used: "BUCKET_USED \<noteq> BUCKET_ACTIVE" by (simp add: BUCKET_USED_def BUCKET_ACTIVE_def)
  have "fa_flush env (w'\<lparr>w_file := (w_file w')\<lparr>mPos := pos, mEof := eof\<rparr>\<rparr>) = (Inr (), w'\<lparr>w_file := (w_file w')\<lparr>mPos := pos, mEof := eof\<rparr>\<rparr>)"
    for pos eof
  proof (rule flush_skips [where k = k])
    show "log_ready (w'\<lparr>w_file := (w_file w')\<lparr>mPos := pos, mEof := eof\<rparr>\<rparr>)"
      using log_put_ready(1) [OF ready, of "record_bytes ?r"] by (simp add: w'_def log_ready_def manifest_log_def split: option.splits)
  qed (use a(1,4) assms(2) fl used in \<open>simp_all add: w'_def v_def\<close>)
  moreover have "replay_record (e_cfg env) ?r (mBlockArray (w_file w), e) =
      Inr ((mBlockArray (w_file w))[k := (mBlockArray (w_file w) ! k)\<lparr>bk_state := BUCKET_ACTIVE\<rparr>], e)" for e
    using replay_activated [OF a(3) _ a(5)] assms(2) by simp
  moreover have "manifest_log w' = manifest_log w @ record_bytes ?r" using log_put_ready(2) [OF ready] log by (simp add: w'_def)
  ultimately show ?thesis using run ok arr unfolding w'_def v_def by blast
qed

text \<open>A file of one block that was written and left by an earlier opening, and a pre-allocated bucket.\<close>

definition used_block :: Block where
  "used_block = Block_new 0 0 True BUCKET_USED"

definition used_region :: SharedMemoryContext where
  "used_region =
     (let f = mFileId status0; s1 = snd (acquireFreeBucket 0 2 f True (w_shm new_world)); s2 = snd (updateActiveFileInfo [used_block] f s1)
      in snd (inactivateBuckets [used_block] f 0 True s2))"

definition reopened_world :: "unit World" where
  "reopened_world = new_world\<lparr>w_shm := used_region, w_file := (w_file new_world)\<lparr>mBlockArray := [used_block],
     mPreAllocatedBuckets := [newBlock 1]\<rparr>\<rparr>"

lemma keeps_after: "keeps m s \<Longrightarrow> shm_inv (snd (m s))"
  by (auto simp: wp_def split: prod.splits sum.splits)

lemma used_region_inv: "shm_inv used_region"
  unfolding used_region_def Let_def
  by (intro keeps_after inactivateBuckets_keeps updateActiveFileInfo_keeps acquireFreeBucket_keeps)
    (simp_all add: new_world_region(1) valid_activeId_def)

lemma used_region_facts: "h_flags (header used_region) = 0"
  "case idx 0 (buckets used_region) of None \<Rightarrow> False
   | Some b \<Rightarrow> isUsedBucket b \<and> \<not> isEvictingBucket b \<and> b_fileId b = mFileId status0 \<and> b_fileBlockIndex b = 0"
  by (code_simp, code_simp)

theorem reactivation_not_recorded_witness:
  "can_reactivate (env1 True) 0 reopened_world \<and>
   (\<exists>w'. activateBlock (env1 True) 0 reopened_world = (Inr 1, w') \<and> mBlockArray (w_file w') = [used_block] \<and>
      fa_flush (env1 True) (w'\<lparr>w_file := (w_file w')\<lparr>mPos := 5, mEof := 5\<rparr>\<rparr>) =
        (Inr (), w'\<lparr>w_file := (w_file w')\<lparr>mPos := 5, mEof := 5\<rparr>\<rparr>))"
proof -
  have log: "log_ready reopened_world"
    by (simp add: log_ready_def manifest_log_def reopened_world_def new_world_parts) (simp add: new_world_def file_bytes_def)
  obtain b where "idx 0 (buckets used_region) = Some b" "isUsedBucket b" "\<not> isEvictingBucket b" "b_fileId b = mFileId status0"
    "b_fileBlockIndex b = 0" using used_region_facts(2) by (auto split: option.splits)
  moreover have "mFileId (w_file reopened_world) = mFileId status0" by (simp add: reopened_world_def new_world_def)
  ultimately have can: "can_reactivate (env1 True) 0 reopened_world"
    using log used_region_inv used_region_facts(1)
    by (simp add: can_reactivate_def Let_def env1_parts) (simp add: reopened_world_def new_world_parts valid_activeId_def used_block_def
        Block_new_def lru_size_def lru_maxSize_def LRUCache_new_def)
  have arr: "mBlockArray (w_file reopened_world) = [used_block]" by (simp add: reopened_world_def)
  show ?thesis using reactivation_not_recorded [OF can] can arr by auto
qed

end
