(* ===== verification/GW_ThreadPool.thy ===== *)
theory GW_ThreadPool
  imports GW_Common "HOL-Library.Multiset"
begin

text \<open>
  \<^verbatim>\<open>src/common/ThreadPool.h\<close>: the pool of loader threads. A worker is between two critical sections of
  \<^verbatim>\<open>queue_mutex\<close> most of the time, so that a step of the pool is one critical section, one call of
  \<^verbatim>\<open>notify_one\<close> or \<^verbatim>\<open>notify_all\<close>, or the end of a task. Threads sleep on the condition variable until
  they are notified or wake up spuriously, and check the predicate of \<^verbatim>\<open>wait\<close> again.

  The state also records the history of the pool: the tasks that were accepted, in their order, those
  that were started, in their order, and those that have ended.
\<close>

section \<open>The pool\<close>

text \<open>
  Where a worker is: it is about to lock the mutex and to look at the queue, it sleeps on the condition
  variable, it runs a task, or its function has returned.
\<close>

datatype 't worker = Checking | Waiting | Running 't | Returned

record 't ThreadPool =
  tp_workers :: "'t worker list"
  tp_tasks :: "'t list"
  tp_stop :: bool
  tp_notifyOne :: nat
  tp_notifyAll :: bool
  tp_enqueued :: "'t list"
  tp_started :: "'t list"
  tp_done :: "'t list"

definition ThreadPool_new :: "nat \<Rightarrow> 't ThreadPool" where
  "ThreadPool_new threads = \<lparr>tp_workers = replicate threads Checking, tp_tasks = [], tp_stop = False,
     tp_notifyOne = 0, tp_notifyAll = False, tp_enqueued = [], tp_started = [], tp_done = []\<rparr>"

text \<open>
  The critical section of a worker: the predicate of \<^verbatim>\<open>wait\<close>, the test for the end, and taking the
  first task.
\<close>

definition worker_check :: "nat \<Rightarrow> 't ThreadPool \<Rightarrow> 't ThreadPool" where
  "worker_check i p =
     (if tp_stop p \<or> tp_tasks p \<noteq> []
      then case tp_tasks p of
          [] \<Rightarrow> p\<lparr>tp_workers := (tp_workers p)[i := Returned]\<rparr>
        | task # rest \<Rightarrow> p\<lparr>tp_workers := (tp_workers p)[i := Running task], tp_tasks := rest,
                          tp_started := tp_started p @ [task]\<rparr>
      else p\<lparr>tp_workers := (tp_workers p)[i := Waiting]\<rparr>)"

text \<open>\<^verbatim>\<open>task()\<close> has returned; an exception of the task is kept in its future and does not get here.\<close>

definition worker_done :: "nat \<Rightarrow> 't \<Rightarrow> 't ThreadPool \<Rightarrow> 't ThreadPool" where
  "worker_done i task p =
     p\<lparr>tp_workers := (tp_workers p)[i := Checking], tp_done := tp_done p @ [task]\<rparr>"

definition wake :: "nat \<Rightarrow> 't ThreadPool \<Rightarrow> 't ThreadPool" where
  "wake i p = p\<lparr>tp_workers := (tp_workers p)[i := Checking]\<rparr>"

text \<open>\<^verbatim>\<open>enqueue\<close> up to the end of its critical section; its \<^verbatim>\<open>notify_one\<close> is due afterwards.\<close>

definition enqueue :: "'t \<Rightarrow> ('t ThreadPool, gw_error, unit) gw" where
  "enqueue task =
     bindE (getsE tp_stop) (\<lambda>stop.
     if stop then THROW GopherwoodIOException
     else modifyE (\<lambda>p. p\<lparr>tp_tasks := tp_tasks p @ [task], tp_enqueued := tp_enqueued p @ [task],
                         tp_notifyOne := tp_notifyOne p + 1\<rparr>))"

text \<open>The critical section of the destructor; its \<^verbatim>\<open>notify_all\<close> is due afterwards, then it joins the workers.\<close>

definition stop_pool :: "'t ThreadPool \<Rightarrow> 't ThreadPool" where
  "stop_pool p = p\<lparr>tp_stop := True, tp_notifyAll := True\<rparr>"

definition notify_all :: "'t ThreadPool \<Rightarrow> 't ThreadPool" where
  "notify_all p = p\<lparr>tp_notifyAll := False,
     tp_workers := map (\<lambda>w. case w of Waiting \<Rightarrow> Checking | _ \<Rightarrow> w) (tp_workers p)\<rparr>"

definition joined :: "'t ThreadPool \<Rightarrow> bool" where
  "joined p = list_all (\<lambda>w. w = Returned) (tp_workers p)"

text \<open>
  What the pool does by itself, and what is done to it: tasks are enqueued, the pool is destroyed, a
  thread wakes up without having been notified.
\<close>

inductive pool_step :: "'t ThreadPool \<Rightarrow> 't ThreadPool \<Rightarrow> bool" where
  pool_check: "i < length (tp_workers p) \<Longrightarrow> tp_workers p ! i = Checking \<Longrightarrow> pool_step p (worker_check i p)"
| pool_done: "i < length (tp_workers p) \<Longrightarrow> tp_workers p ! i = Running task \<Longrightarrow> pool_step p (worker_done i task p)"
| pool_notify: "tp_notifyOne p = Suc n \<Longrightarrow> i < length (tp_workers p) \<Longrightarrow> tp_workers p ! i = Waiting \<Longrightarrow>
    pool_step p ((wake i p)\<lparr>tp_notifyOne := n\<rparr>)"
| pool_notify_nobody: "tp_notifyOne p = Suc n \<Longrightarrow> Waiting \<notin> set (tp_workers p) \<Longrightarrow>
    pool_step p (p\<lparr>tp_notifyOne := n\<rparr>)"
| pool_notify_all: "tp_notifyAll p \<Longrightarrow> pool_step p (notify_all p)"

inductive client_step :: "'t ThreadPool \<Rightarrow> 't ThreadPool \<Rightarrow> bool" where
  client_enqueue: "enqueue task p = (Inr (), q) \<Longrightarrow> client_step p q"
| client_stop: "client_step p (stop_pool p)"
| client_spurious: "i < length (tp_workers p) \<Longrightarrow> tp_workers p ! i = Waiting \<Longrightarrow> client_step p (wake i p)"

inductive pool_reachable :: "nat \<Rightarrow> 't ThreadPool \<Rightarrow> bool" for threads where
  pool_init: "pool_reachable threads (ThreadPool_new threads)"
| pool_own: "pool_reachable threads p \<Longrightarrow> pool_step p q \<Longrightarrow> pool_reachable threads q"
| pool_client: "pool_reachable threads p \<Longrightarrow> client_step p q \<Longrightarrow> pool_reachable threads q"

inductive_cases pool_stepE: "pool_step p q"
inductive_cases client_stepE: "client_step p q"

lemmas pool_defs = worker_check_def worker_done_def wake_def stop_pool_def notify_all_def

lemma enqueue_run:
  "enqueue task p = (if tp_stop p then (Inl (Exn GopherwoodIOException), p)
     else (Inr (), p\<lparr>tp_tasks := tp_tasks p @ [task], tp_enqueued := tp_enqueued p @ [task],
                     tp_notifyOne := tp_notifyOne p + 1\<rparr>))"
  by (simp add: enqueue_def run_simps)

section \<open>The invariant\<close>

primrec task_of :: "'t worker \<Rightarrow> 't list" where
  "task_of Checking = []"
| "task_of Waiting = []"
| "task_of (Running t) = [t]"
| "task_of Returned = []"

definition running :: "'t ThreadPool \<Rightarrow> 't multiset" where
  "running p = mset (concat (map task_of (tp_workers p)))"

definition awake :: "'t ThreadPool \<Rightarrow> bool" where
  "awake p \<longleftrightarrow> (\<exists>w \<in> set (tp_workers p). w \<noteq> Waiting \<and> w \<noteq> Returned)"

text \<open>
  Every accepted task is in the queue or was started, in the order of acceptance; a started task runs or
  has ended; a worker returns only from a stopped, empty pool; and no notification is lost: when
  nobody is awake to take a task or to return, a notification is due.
\<close>

definition pool_inv :: "nat \<Rightarrow> 't ThreadPool \<Rightarrow> bool" where
  "pool_inv threads p \<longleftrightarrow>
     length (tp_workers p) = threads \<and>
     tp_started p @ tp_tasks p = tp_enqueued p \<and>
     mset (tp_started p) = mset (tp_done p) + running p \<and>
     (Returned \<in> set (tp_workers p) \<longrightarrow> tp_stop p \<and> tp_tasks p = []) \<and>
     (tp_stop p \<and> Waiting \<in> set (tp_workers p) \<longrightarrow> tp_notifyAll p) \<and>
     (tp_tasks p \<noteq> [] \<and> \<not> tp_stop p \<and> 0 < threads \<longrightarrow> awake p \<or> 0 < tp_notifyOne p)"

lemma mset_concat_update:
  assumes "i < length ws"
  shows "mset (concat (map f (ws[i := w]))) + mset (f (ws ! i)) = mset (concat (map f ws)) + mset (f w)"
proof -
  have "ws = take i ws @ ws ! i # drop (Suc i) ws" using assms by (simp add: id_take_nth_drop [symmetric])
  moreover have "ws[i := w] = take i ws @ w # drop (Suc i) ws" using assms by (simp add: upd_conv_take_nth_drop)
  ultimately have "mset (concat (map f (ws[i := w]))) = mset (concat (map f (take i ws))) + mset (f w) + mset (concat (map f (drop (Suc i) ws)))"
    and "mset (concat (map f ws)) = mset (concat (map f (take i ws))) + mset (f (ws ! i)) + mset (concat (map f (drop (Suc i) ws)))"
    by (metis (no_types, lifting) map_append list.simps(9) concat_append concat.simps(2) mset_append add.assoc)+
  then show ?thesis by simp
qed

lemma running_update:
  assumes "i < length (tp_workers p)" and "tp_workers q = (tp_workers p)[i := w]"
  shows "running q + mset (task_of (tp_workers p ! i)) = running p + mset (task_of w)"
  using mset_concat_update [OF assms(1), of task_of w] assms(2) by (simp add: running_def)

lemma in_set_update: "i < length ws \<Longrightarrow> x \<in> set (ws[i := w]) \<Longrightarrow> x = w \<or> x \<in> set ws"
  using set_update_subset_insert [of ws i w] by blast

lemma awake_update:
  assumes "i < length (tp_workers p)" and "tp_workers q = (tp_workers p)[i := w]" and "w \<noteq> Waiting" and "w \<noteq> Returned"
  shows "awake q"
  using assms set_update_memI [OF assms(1), of w] by (auto simp: awake_def)

lemma pool_inv_init: "pool_inv threads (ThreadPool_new threads)"
proof -
  have "concat (map task_of (replicate threads (Checking :: 'a worker))) = []" by (induction threads) auto
  then show ?thesis by (auto simp: pool_inv_def ThreadPool_new_def running_def)
qed

text \<open>A step that changes one worker, which did not and does not run a task.\<close>

lemma pool_inv_worker:
  assumes "pool_inv threads p" and "i < length (tp_workers p)" and "tp_workers q = (tp_workers p)[i := w]"
    and "task_of (tp_workers p ! i) = []" and "task_of w = []"
    and "tp_started q = tp_started p" "tp_done q = tp_done p" "tp_tasks q = tp_tasks p" "tp_enqueued q = tp_enqueued p"
    and "tp_stop q = tp_stop p" "tp_notifyAll q = tp_notifyAll p"
    and "w = Returned \<Longrightarrow> tp_stop p \<and> tp_tasks p = []" and "w = Waiting \<Longrightarrow> \<not> tp_stop p \<and> tp_tasks p = []"
  shows "pool_inv threads q"
proof -
  have "running q = running p" using running_update [OF assms(2,3)] assms(4,5) by simp
  moreover have "tp_tasks p \<noteq> [] \<Longrightarrow> awake q"
    using awake_update [OF assms(2,3)] assms(12,13) by blast
  ultimately show ?thesis
    using assms in_set_update [OF assms(2), of _ w] unfolding pool_inv_def by auto
qed

lemma pool_inv_check:
  assumes inv: "pool_inv threads p" and i: "i < length (tp_workers p)" "tp_workers p ! i = Checking"
  shows "pool_inv threads (worker_check i p)"
proof (cases "tp_tasks p")
  case Nil
  then show ?thesis
    by (intro pool_inv_worker [OF inv i(1), where w = "if tp_stop p then Returned else Waiting"])
      (auto simp: worker_check_def i split: if_splits)
next
  case (Cons t ts)
  let ?q = "worker_check i p"
  have q: "tp_workers ?q = (tp_workers p)[i := Running t]" "tp_tasks ?q = ts" "tp_stop ?q = tp_stop p"
    "tp_started ?q = tp_started p @ [t]" "tp_done ?q = tp_done p" "tp_enqueued ?q = tp_enqueued p"
    "tp_notifyAll ?q = tp_notifyAll p" "tp_notifyOne ?q = tp_notifyOne p"
    using Cons by (simp_all add: worker_check_def)
  have "running ?q = running p + {#t#}" using running_update [OF i(1) q(1)] i(2) by simp
  moreover have "awake ?q" using awake_update [OF i(1) q(1)] by simp
  moreover have "x = Running t \<or> x \<in> set (tp_workers p)" if "x \<in> set (tp_workers ?q)" for x
    using in_set_update [OF i(1)] that q(1) by simp
  ultimately show ?thesis using inv Cons unfolding pool_inv_def q by fastforce
qed

lemma pool_inv_done:
  assumes inv: "pool_inv threads p" and i: "i < length (tp_workers p)" "tp_workers p ! i = Running task"
  shows "pool_inv threads (worker_done i task p)"
proof -
  let ?q = "worker_done i task p"
  have q: "tp_workers ?q = (tp_workers p)[i := Checking]" "tp_tasks ?q = tp_tasks p" "tp_stop ?q = tp_stop p"
    "tp_started ?q = tp_started p" "tp_done ?q = tp_done p @ [task]" "tp_enqueued ?q = tp_enqueued p"
    "tp_notifyAll ?q = tp_notifyAll p" "tp_notifyOne ?q = tp_notifyOne p"
    by (simp_all add: worker_done_def)
  have "running p = running ?q + {#task#}" using running_update [OF i(1) q(1)] i(2) by simp
  moreover have "awake ?q" using awake_update [OF i(1) q(1)] by simp
  moreover have "x = Checking \<or> x \<in> set (tp_workers p)" if "x \<in> set (tp_workers ?q)" for x
    using in_set_update [OF i(1)] that q(1) by simp
  ultimately show ?thesis using inv unfolding pool_inv_def q by fastforce
qed

lemma pool_inv_wake:
  assumes "pool_inv threads p" and "i < length (tp_workers p)" and "tp_workers p ! i = Waiting"
  shows "pool_inv threads (wake i p)" and "pool_inv threads ((wake i p)\<lparr>tp_notifyOne := n\<rparr>)"
  by (rule pool_inv_worker [OF assms(1,2), where w = Checking]; simp add: wake_def assms(3))+

lemma pool_inv_notify_all:
  assumes "pool_inv threads p"
  shows "pool_inv threads (notify_all p)"
proof -
  let ?f = "\<lambda>w. case w of Waiting \<Rightarrow> Checking | _ \<Rightarrow> w"
  have "task_of (?f w) = task_of w" for w :: "'a worker" by (cases w) auto
  then have "running (notify_all p) = running p" by (simp add: running_def notify_all_def comp_def)
  moreover have "Waiting \<notin> ?f ` W" "Returned \<in> ?f ` W \<longleftrightarrow> Returned \<in> W" for W :: "'a worker set"
    by (auto simp: image_iff split: worker.splits) (metis worker.exhaust)+
  moreover have "awake (notify_all p)" if "awake p"
    using that by (auto simp: awake_def notify_all_def split: worker.splits)
  ultimately show ?thesis using assms by (auto simp: pool_inv_def notify_all_def)
qed

lemma pool_inv_step: "pool_inv threads p \<Longrightarrow> pool_step p q \<Longrightarrow> pool_inv threads q"
proof (erule pool_stepE)
  fix n
  assume "pool_inv threads p" and q: "q = p\<lparr>tp_notifyOne := n\<rparr>" and "Waiting \<notin> set (tp_workers p)"
  moreover from this have "tp_tasks p \<noteq> [] \<Longrightarrow> 0 < threads \<Longrightarrow> awake p"
    by (cases "tp_workers p") (auto simp: pool_inv_def awake_def)
  ultimately show "pool_inv threads q" by (simp add: pool_inv_def running_def awake_def)
qed (simp_all add: pool_inv_check pool_inv_done pool_inv_wake pool_inv_notify_all)

lemma pool_inv_stop: "pool_inv threads p \<Longrightarrow> pool_inv threads (stop_pool p)"
  by (simp add: pool_inv_def stop_pool_def running_def)

lemma pool_inv_enqueue: "pool_inv threads p \<Longrightarrow> enqueue task p = (Inr (), q) \<Longrightarrow> pool_inv threads q"
  by (auto simp: pool_inv_def running_def enqueue_run split: if_splits)

lemma pool_inv_client: "pool_inv threads p \<Longrightarrow> client_step p q \<Longrightarrow> pool_inv threads q"
  by (erule client_stepE) (auto intro: pool_inv_enqueue pool_inv_stop pool_inv_wake)

lemma pool_reachable_inv: "pool_reachable threads p \<Longrightarrow> pool_inv threads p"
  by (induction rule: pool_reachable.induct) (auto intro: pool_inv_init pool_inv_step pool_inv_client)

section \<open>The pool works off its queue\<close>

text \<open>What the pool can still do by itself: every own step makes this number smaller.\<close>

primrec worker_weight :: "'t worker \<Rightarrow> nat" where
  "worker_weight Returned = 0"
| "worker_weight Waiting = 1"
| "worker_weight Checking = 2"
| "worker_weight (Running t) = 3"

definition pool_work :: "'t ThreadPool \<Rightarrow> nat" where
  "pool_work p = 2 * length (tp_tasks p) + 2 * tp_notifyOne p
     + (if tp_notifyAll p then 1 + length (tp_workers p) else 0) + sum_list (map worker_weight (tp_workers p))"

lemma weight_update:
  "i < length ws \<Longrightarrow> sum_list (map worker_weight (ws[i := w])) + worker_weight (ws ! i) =
     sum_list (map worker_weight ws) + worker_weight w"
  by (induction ws arbitrary: i) (auto split: nat.splits)

lemma weight_notify_all:
  "sum_list (map worker_weight (map (\<lambda>w. case w of Waiting \<Rightarrow> Checking | _ \<Rightarrow> w) ws)) \<le>
     sum_list (map worker_weight ws) + length ws"
  by (induction ws) (auto split: worker.splits)

lemma pool_step_work: "pool_step p q \<Longrightarrow> pool_work q < pool_work p"
proof (erule pool_stepE)
  fix i
  assume "q = worker_check i p" "i < length (tp_workers p)" "tp_workers p ! i = Checking"
  then show "pool_work q < pool_work p"
    using weight_update [of i "tp_workers p" Returned] weight_update [of i "tp_workers p" Waiting]
      weight_update [of i "tp_workers p" "Running (hd (tp_tasks p))"]
    by (cases "tp_tasks p"; cases "tp_stop p") (simp_all add: pool_work_def worker_check_def)
next
  fix i task
  assume "q = worker_done i task p" "i < length (tp_workers p)" "tp_workers p ! i = Running task"
  then show "pool_work q < pool_work p"
    using weight_update [of i "tp_workers p" Checking] by (auto simp: pool_work_def worker_done_def)
next
  fix n i
  assume "tp_notifyOne p = Suc n" "q = (wake i p)\<lparr>tp_notifyOne := n\<rparr>" "i < length (tp_workers p)"
    "tp_workers p ! i = Waiting"
  then show "pool_work q < pool_work p"
    using weight_update [of i "tp_workers p" Checking] by (auto simp: pool_work_def wake_def)
next
  assume "q = notify_all p" "tp_notifyAll p"
  then show "pool_work q < pool_work p"
    using weight_notify_all [of "tp_workers p"] by (simp add: pool_work_def notify_all_def)
qed (simp add: pool_work_def)

lemma pool_steps_work: "(pool_step ^^ k) p q \<Longrightarrow> k + pool_work q \<le> pool_work p"
proof (induction k arbitrary: q)
  case (Suc k)
  then obtain r where "(pool_step ^^ k) p r" "pool_step r q" by auto
  with Suc.IH [of r] pool_step_work [of r q] show ?case by simp
qed simp

lemma pool_steps_inv: "(pool_step ^^ k) p q \<Longrightarrow> pool_inv threads p \<Longrightarrow> pool_inv threads q"
  by (induction k arbitrary: q) (auto intro: pool_inv_step)

text \<open>A pool that can do nothing has done everything.\<close>

lemma pool_idle:
  assumes "pool_inv threads p" and "0 < threads" and "\<And>q. \<not> pool_step p q"
  shows "tp_tasks p = []" and "running p = {#}" and "tp_stop p \<Longrightarrow> joined p"
proof -
  have w: "w = Waiting \<or> w = Returned" if "w \<in> set (tp_workers p)" for w
  proof (cases w)
    case Checking
    with that assms(3) pool_check show ?thesis by (metis in_set_conv_nth)
  next
    case (Running t)
    with that assms(3) pool_done show ?thesis by (metis in_set_conv_nth)
  qed auto
  then have asleep: "\<not> awake p" by (auto simp: awake_def)
  have "task_of w = []" if "w \<in> set (tp_workers p)" for w using w [OF that] by auto
  then show "running p = {#}" by (auto simp: running_def)
  have quiet: "\<not> tp_notifyAll p" "tp_notifyOne p = 0"
    using assms(3) pool_notify_all pool_notify pool_notify_nobody
    by (blast, metis in_set_conv_nth not0_implies_Suc)
  then have "tp_stop p \<Longrightarrow> Waiting \<notin> set (tp_workers p)" using assms(1) by (auto simp: pool_inv_def)
  then show "tp_stop p \<Longrightarrow> joined p" using w by (auto simp: joined_def list_all_iff)
  show "tp_tasks p = []"
  proof (cases "tp_stop p")
    case True
    then have "joined p" by fact
    then have "Returned \<in> set (tp_workers p)"
      using assms(1,2) by (cases "tp_workers p") (auto simp: joined_def pool_inv_def)
    then show ?thesis using assms(1) by (simp add: pool_inv_def)
  next
    case False
    then show ?thesis using assms(1,2) asleep quiet by (auto simp: pool_inv_def)
  qed
qed

text \<open>
  C12 The thread pool loses no task and no wake-up. From every state that clients and threads can bring
  about, the pool by itself makes only finitely many steps, at most \<open>pool_work\<close> of them; and when it
  can make no more, every task that \<^verbatim>\<open>enqueue\<close> accepted has been started in the order of acceptance, has run
  exactly once and has ended, and if the pool is being destroyed all workers have
  returned, so that the destructor returns.
\<close>

theorem pool_runs_every_task:
  assumes "pool_reachable threads p" and "0 < threads" and "(pool_step ^^ k) p q"
  shows "k \<le> pool_work p \<and>
    ((\<forall>r. \<not> pool_step q r) \<longrightarrow> tp_tasks q = [] \<and> tp_started q = tp_enqueued q \<and>
      mset (tp_done q) = mset (tp_enqueued q) \<and> (tp_stop q \<longrightarrow> joined q))"
proof (intro conjI impI)
  show "k \<le> pool_work p" using pool_steps_work [OF assms(3)] by simp
next
  assume stuck: "\<forall>r. \<not> pool_step q r"
  have inv: "pool_inv threads q" using pool_steps_inv [OF assms(3)] pool_reachable_inv [OF assms(1)] by blast
  from pool_idle [OF inv assms(2)] stuck show t: "tp_tasks q = []" and "tp_stop q \<Longrightarrow> joined q" by blast+
  show "tp_started q = tp_enqueued q" using inv t by (simp add: pool_inv_def)
  then show "mset (tp_done q) = mset (tp_enqueued q)"
    using inv pool_idle(2) [OF inv assms(2)] stuck by (simp add: pool_inv_def)
qed

text \<open>One worker, one task, and the pool is destroyed before the worker has looked at the queue.\<close>

definition pool0 :: "nat ThreadPool" where
  "pool0 = stop_pool (snd (enqueue 7 (ThreadPool_new 1)))"

definition pool_end :: "nat ThreadPool" where
  "pool_end = notify_all ((worker_check 0 (worker_done 0 7 (worker_check 0 pool0)))\<lparr>tp_notifyOne := 0\<rparr>)"

lemma pool0_reachable: "pool_reachable 1 pool0"
proof -
  have "pool_reachable 1 (snd (enqueue 7 (ThreadPool_new 1)))"
    by (rule pool_client [OF pool_init], rule client_enqueue [of 7]) (simp add: enqueue_run ThreadPool_new_def)
  then show ?thesis unfolding pool0_def by (rule pool_client) (rule client_stop)
qed

lemma pool0_run: "(pool_step ^^ 5) pool0 pool_end"
proof -
  let ?a = "worker_check 0 pool0" and ?b = "worker_done 0 7 (worker_check 0 pool0)"
  let ?c = "worker_check 0 ?b"
  note defs = pool0_def stop_pool_def enqueue_run ThreadPool_new_def worker_check_def worker_done_def
  have "pool_step pool0 ?a" by (rule pool_check) (simp_all add: defs)
  moreover have "pool_step ?a ?b" by (rule pool_done) (simp_all add: defs)
  moreover have "pool_step ?b ?c" by (rule pool_check) (simp_all add: defs)
  moreover have "pool_step ?c (?c\<lparr>tp_notifyOne := 0\<rparr>)" by (rule pool_notify_nobody) (simp_all add: defs)
  moreover have "pool_step (?c\<lparr>tp_notifyOne := 0\<rparr>) pool_end"
    unfolding pool_end_def by (rule pool_notify_all) (simp add: defs)
  ultimately have "(pool_step ^^ Suc (Suc (Suc (Suc (Suc 0))))) pool0 pool_end" by (intro relpowp_Suc_I) auto
  then show ?thesis by (simp add: eval_nat_numeral)
qed

lemma pool_end_stuck: "\<not> pool_step pool_end r"
proof
  assume "pool_step pool_end r"
  then show False
    by (rule pool_stepE)
      (auto simp: pool_end_def notify_all_def pool0_def stop_pool_def enqueue_run ThreadPool_new_def worker_check_def worker_done_def)
qed

theorem pool_runs_every_task_witness:
  "5 \<le> pool_work pool0 \<and> mset (tp_done pool_end) = mset (tp_enqueued pool_end) \<and> joined pool_end"
proof -
  have "tp_stop pool_end"
    by (simp add: pool_end_def notify_all_def pool0_def stop_pool_def enqueue_run ThreadPool_new_def worker_check_def worker_done_def)
  with pool_runs_every_task [OF pool0_reachable _ pool0_run] pool_end_stuck show ?thesis by simp
qed

end
