(* ===== verification/GW_Support.thy ===== *)
theory GW_Support
  imports GW_ThreadPool
begin

text \<open>
  Small parts of \<^verbatim>\<open>src/common\<close>: the signal mask around the creation of threads (\<^verbatim>\<open>Thread.cpp\<close>, \<^verbatim>\<open>Thread.h\<close>
  and the constructor in \<^verbatim>\<open>ThreadPool.h\<close>) and the combination of hashes (\<^verbatim>\<open>Hash.h\<close>).
\<close>

unbundle bit_operations_syntax

section \<open>Signals and new threads\<close>

datatype signal = SIGHUP | SIGINT | SIGTERM | SIGUSR1 | SIGUSR2 | OtherSignal nat

text \<open>
  The calling thread: its signal mask, the masks with which the threads it started began, and for the
  coming creations whether they fail.
\<close>

record Starter =
  st_mask :: "signal set"
  st_started :: "signal set list"
  st_fails :: "bool list"

type_synonym 'a stM = "(Starter, gw_error, 'a) gw"

definition ThreadBlockSignal :: "signal set stM" where
  "ThreadBlockSignal =
     bindE (getsE st_mask) (\<lambda>oldMask.
     seqE (modifyE (\<lambda>s. s\<lparr>st_mask := st_mask s \<union> {SIGHUP, SIGINT, SIGTERM, SIGUSR1, SIGUSR2}\<rparr>)) (retE oldMask))"

definition ThreadUnBlockSignal :: "signal set \<Rightarrow> unit stM" where
  "ThreadUnBlockSignal sigs = modifyE (\<lambda>s. s\<lparr>st_mask := sigs\<rparr>)"

text \<open>\<^verbatim>\<open>std::thread\<close>: a new thread inherits the mask; when none can be started \<^verbatim>\<open>std::system_error\<close> is thrown.\<close>

definition new_thread :: "unit stM" where
  "new_thread =
     bindE (getsE st_fails) (\<lambda>fs.
     seqE (modifyE (\<lambda>s. s\<lparr>st_fails := tl fs\<rparr>))
     (if fs \<noteq> [] \<and> hd fs then THROW StdException
      else modifyE (\<lambda>s. s\<lparr>st_started := st_started s @ [st_mask s]\<rparr>)))"

text \<open>The macro \<^verbatim>\<open>CREATE_THREAD\<close> and the constructor of the pool block signals around what starts threads.\<close>

definition with_signals_blocked :: "unit stM \<Rightarrow> unit stM" where
  "with_signals_blocked start =
     bindE ThreadBlockSignal (\<lambda>sigs.
     catchExn (seqE start (ThreadUnBlockSignal sigs)) (\<lambda>c. seqE (ThreadUnBlockSignal sigs) (THROW c)))"

definition CREATE_THREAD :: "unit stM" where
  "CREATE_THREAD = with_signals_blocked new_thread"

definition ThreadPool_start :: "nat \<Rightarrow> unit stM" where
  "ThreadPool_start threads = with_signals_blocked (forE [0..<threads] (\<lambda>_. new_thread))"

definition starts :: "Starter \<Rightarrow> nat \<Rightarrow> Starter \<Rightarrow> bool" where
  "starts s n s' \<longleftrightarrow> st_mask s' = st_mask s \<and> st_started s' = st_started s @ replicate n (st_mask s)"

lemma new_thread_starts: "wp new_thread (\<lambda>_. starts s 1) (\<lambda>e s'. e = Exn StdException \<and> starts s 0 s') s"
  by (simp add: new_thread_def wp_simps starts_def)

lemma starts_trans: "starts s a s1 \<Longrightarrow> starts s1 b s2 \<Longrightarrow> starts s (a + b) s2"
  by (simp add: starts_def replicate_add)

lemma pool_starts:
  "wp (forE xs (\<lambda>_. new_thread)) (\<lambda>_. starts s (length xs)) (\<lambda>e s'. e = Exn StdException \<and> (\<exists>k < length xs. starts s k s')) s"
proof (induction xs arbitrary: s)
  case (Cons x xs)
  have "wp (seqE new_thread (forE xs (\<lambda>_. new_thread))) (\<lambda>_. starts s (Suc (length xs)))
    (\<lambda>e s'. e = Exn StdException \<and> (\<exists>k < Suc (length xs). starts s k s')) s"
  proof (rule wp_call_seq [OF new_thread_starts])
    fix s1
    assume "starts s 1 s1"
    from starts_trans [OF this] show "wp (forE xs (\<lambda>_. new_thread)) (\<lambda>_. starts s (Suc (length xs)))
      (\<lambda>e s'. e = Exn StdException \<and> (\<exists>k < Suc (length xs). starts s k s')) s1"
      by (intro wp_mono [OF Cons.IH]) fastforce+
  qed auto
  then show ?case by simp
qed (simp add: wp_simps starts_def)

text \<open>
  Creating the pool leaves the caller's signal mask as it was, whether all workers start or one of
  them cannot be started. The workers that were started have the five signals blocked: no signal
  handler of the application runs on them.
\<close>

theorem pool_blocks_signals:
  "wp (ThreadPool_start n)
     (\<lambda>_ s'. st_mask s' = st_mask s \<and>
        st_started s' = st_started s @ replicate n (st_mask s \<union> {SIGHUP, SIGINT, SIGTERM, SIGUSR1, SIGUSR2}))
     (\<lambda>e s'. e = Exn StdException \<and> st_mask s' = st_mask s \<and>
        (\<exists>k < n. st_started s' = st_started s @ replicate k (st_mask s \<union> {SIGHUP, SIGINT, SIGTERM, SIGUSR1, SIGUSR2}))) s"
  unfolding ThreadPool_start_def with_signals_blocked_def ThreadBlockSignal_def ThreadUnBlockSignal_def
  using pool_starts [of "[0..<n]" "s\<lparr>st_mask := st_mask s \<union> {SIGHUP, SIGINT, SIGTERM, SIGUSR1, SIGUSR2}\<rparr>"]
  by (simp add: wp_simps) (auto elim!: wp_mono simp: starts_def wp_simps)

section \<open>Hashes\<close>

text \<open>\<^verbatim>\<open>CombineHasher\<close> over an arbitrary \<^verbatim>\<open>std::hash<size_t>\<close>.\<close>

definition CombineHasher :: "(64 word \<Rightarrow> 64 word) \<Rightarrow> 64 word list \<Rightarrow> 64 word" where
  "CombineHasher SizeHasher vec = fold (\<lambda>x v. v XOR push_bit 1 (SizeHasher x)) vec 0"

text \<open>The combination does not depend on the order of the parts, and equal parts cancel out.\<close>

lemma CombineHasher_step: "fold (\<lambda>x v. v XOR push_bit 1 (h x)) xs (a XOR b) = a XOR fold (\<lambda>x v. v XOR push_bit 1 (h x)) xs b"
  by (induction xs arbitrary: b) (simp_all add: xor.assoc)

lemma CombineHasher_Cons: "CombineHasher h (x # xs) = push_bit 1 (h x) XOR CombineHasher h xs"
  using CombineHasher_step [of h xs "push_bit 1 (h x)" 0] by (simp add: CombineHasher_def)

lemma CombineHasher_order:
  assumes "mset xs = mset ys"
  shows "CombineHasher h xs = CombineHasher h ys"
proof -
  have "fold (\<lambda>x v. v XOR push_bit 1 (h x)) xs = fold (\<lambda>x v. v XOR push_bit 1 (h x)) ys"
    using assms by (intro fold_multiset_equiv) (simp_all add: fun_eq_iff xor.commute xor.left_commute)
  then show ?thesis by (simp add: CombineHasher_def)
qed

lemma CombineHasher_pair: "CombineHasher h (x # x # xs) = CombineHasher h xs"
  by (simp add: CombineHasher_Cons flip: xor.assoc)

end
