(* ===== verification/GW_StackPrinter.thy ===== *)
theory GW_StackPrinter
  imports GW_Common
begin

text \<open>
  \<^verbatim>\<open>src/common/StackPrinter.cpp\<close>, the stack trace that every exception carries: the return addresses of
  the stack are looked up in \<^verbatim>\<open>/proc/self/maps\<close> to find the object file they belong to, and in the
  symbol tables of that ELF file to find a name. A 64-bit little-endian Linux build is modelled.

  The process has files, descriptors and a script that says how the coming calls of \<^verbatim>\<open>open\<close> and
  \<^verbatim>\<open>read\<close> go: interrupted by a signal, failed, or short. After the script every call does all that was
  asked of it; the theorems quantify over the script. \<^verbatim>\<open>backtrace\<close> and \<^verbatim>\<open>abi::__cxa_demangle\<close> are
  parameters.
\<close>

unbundle bit_operations_syntax

section \<open>The system calls\<close>

datatype outcome = Interrupted | Failed | Short nat | Full

record OpenFile =
  of_bytes :: "byte list"
  of_off :: nat

record Proc =
  p_files :: "byte list \<Rightarrow> byte list option"
  p_fds :: "OpenFile option list"
  p_script :: "outcome list"

datatype sys_error = E_INTR | E_OTHER

type_synonym 'a spM = "(Proc, gw_error, 'a) gw"

definition next_outcome :: "Proc \<Rightarrow> outcome \<times> Proc" where
  "next_outcome s = (case p_script s of [] \<Rightarrow> (Full, s) | c # cs \<Rightarrow> (c, s\<lparr>p_script := cs\<rparr>))"

definition sys_open :: "byte list \<Rightarrow> Proc \<Rightarrow> (sys_error + nat) \<times> Proc" where
  "sys_open path s = (case next_outcome s of
     (Interrupted, s') \<Rightarrow> (Inl E_INTR, s')
   | (Failed, s') \<Rightarrow> (Inl E_OTHER, s')
   | (_, s') \<Rightarrow> (case p_files s' path of
        None \<Rightarrow> (Inl E_OTHER, s')
      | Some bs \<Rightarrow> (Inr (length (p_fds s')), s'\<lparr>p_fds := p_fds s' @ [Some \<lparr>of_bytes = bs, of_off = 0\<rparr>]\<rparr>)))"

definition open_file :: "nat \<Rightarrow> Proc \<Rightarrow> OpenFile option" where
  "open_file fd s = (if fd < length (p_fds s) then p_fds s ! fd else None)"

text \<open>\<^verbatim>\<open>read\<close> gives at least one byte unless the file ends or the call fails.\<close>

definition sys_read :: "nat \<Rightarrow> nat \<Rightarrow> Proc \<Rightarrow> (sys_error + byte list) \<times> Proc" where
  "sys_read fd count s = (case open_file fd s of
     None \<Rightarrow> (Inl E_OTHER, s)
   | Some f \<Rightarrow> (case next_outcome s of
        (Interrupted, s') \<Rightarrow> (Inl E_INTR, s')
      | (Failed, s') \<Rightarrow> (Inl E_OTHER, s')
      | (granted, s') \<Rightarrow>
          let n = (case granted of Short k \<Rightarrow> min count (max 1 k) | _ \<Rightarrow> count);
              bs = take n (drop (of_off f) (of_bytes f))
          in (Inr bs, s'\<lparr>p_fds := (p_fds s')[fd := Some (f\<lparr>of_off := of_off f + length bs\<rparr>)]\<rparr>)))"

definition sys_lseek :: "nat \<Rightarrow> 64 word \<Rightarrow> Proc \<Rightarrow> bool \<times> Proc" where
  "sys_lseek fd offset s = (case open_file fd s of
     None \<Rightarrow> (False, s)
   | Some f \<Rightarrow> if sint offset < 0 then (False, s)
               else (True, s\<lparr>p_fds := (p_fds s)[fd := Some (f\<lparr>of_off := nat (sint offset)\<rparr>)]\<rparr>))"

text \<open>\<^verbatim>\<open>close\<close> on Linux: the descriptor is free afterwards, also when the call is interrupted or fails.\<close>

definition sys_close :: "nat \<Rightarrow> Proc \<Rightarrow> (sys_error + unit) \<times> Proc" where
  "sys_close fd s = (case open_file fd s of
     None \<Rightarrow> (Inl E_OTHER, s)
   | Some _ \<Rightarrow> (case next_outcome s of (granted, s') \<Rightarrow>
        (case granted of Interrupted \<Rightarrow> Inl E_INTR | Failed \<Rightarrow> Inl E_OTHER | _ \<Rightarrow> Inr (), s'\<lparr>p_fds := (p_fds s')[fd := None]\<rparr>)))"

text \<open>
  \<^verbatim>\<open>NO_INTR\<close>: the call is repeated as long as it is interrupted. Each interruption takes one entry of the
  script, so one round more than the script has entries is enough.
\<close>

primrec NO_INTR_loop :: "nat \<Rightarrow> (Proc \<Rightarrow> (sys_error + 'a) \<times> Proc) \<Rightarrow> 'a option spM" where
  "NO_INTR_loop 0 call = throwE OutOfFuel"
| "NO_INTR_loop (Suc n) call = (\<lambda>s. case call s of
     (Inl E_INTR, s') \<Rightarrow> NO_INTR_loop n call s'
   | (Inl E_OTHER, s') \<Rightarrow> (Inr None, s')
   | (Inr x, s') \<Rightarrow> (Inr (Some x), s'))"

definition NO_INTR :: "(Proc \<Rightarrow> (sys_error + 'a) \<times> Proc) \<Rightarrow> 'a option spM" where
  "NO_INTR call = (\<lambda>s. NO_INTR_loop (Suc (length (p_script s))) call s)"

section \<open>Reading files\<close>

text \<open>
  \<^verbatim>\<open>ReadPersistent\<close> returns whether it succeeded (it returns -1 otherwise) and the bytes it has stored in
  the buffer, which are there after a failure too. Every round stores a byte, so \<^verbatim>\<open>count\<close> rounds are
  enough.
\<close>

primrec ReadPersistent_loop :: "nat \<Rightarrow> nat \<Rightarrow> nat \<Rightarrow> byte list \<Rightarrow> (bool \<times> byte list) spM" where
  "ReadPersistent_loop fd count 0 got = (if length got < count then throwE OutOfFuel else retE (True, got))"
| "ReadPersistent_loop fd count (Suc n) got =
     (if length got < count
      then bindE (NO_INTR (sys_read fd (count - length got))) (\<lambda>r. case r of
             None \<Rightarrow> retE (False, got)
           | Some bs \<Rightarrow> if bs = [] then retE (True, got) else ReadPersistent_loop fd count n (got @ bs))
      else retE (True, got))"

definition ReadPersistent :: "nat \<Rightarrow> nat \<Rightarrow> (bool \<times> byte list) spM" where
  "ReadPersistent fd count = ReadPersistent_loop fd count count []"

definition ReadFromOffset :: "nat \<Rightarrow> nat \<Rightarrow> 64 word \<Rightarrow> (bool \<times> byte list) spM" where
  "ReadFromOffset fd count offset =
     bindE (\<lambda>s. case sys_lseek fd offset s of (ok, s') \<Rightarrow> (Inr ok, s')) (\<lambda>ok.
     if ok then ReadPersistent fd count else retE (False, []))"

text \<open>\<^verbatim>\<open>ReadFromOffsetExact\<close>: the bytes, when all of them could be read.\<close>

definition ReadFromOffsetExact :: "nat \<Rightarrow> nat \<Rightarrow> 64 word \<Rightarrow> byte list option spM" where
  "ReadFromOffsetExact fd count offset =
     bindE (ReadFromOffset fd count offset) (\<lambda>(ok, bs).
     retE (if ok \<and> length bs = count then Some bs else None))"

section \<open>ELF files\<close>

text \<open>The structures of \<^verbatim>\<open>elf.h\<close> as they lie in the file, with the fields that are used.\<close>

definition field :: "nat \<Rightarrow> nat \<Rightarrow> byte list \<Rightarrow> 'a :: len word" where
  "field off len bs = le_word (take len (drop off bs))"

record Elf64_Ehdr =
  e_ident :: "byte list"
  e_type :: "16 word"
  e_shoff :: "64 word"
  e_shentsize :: "16 word"
  e_shnum :: "16 word"
  e_shstrndx :: "16 word"

definition sizeof_Ehdr :: nat where "sizeof_Ehdr = 64"

definition to_Ehdr :: "byte list \<Rightarrow> Elf64_Ehdr" where
  "to_Ehdr bs = \<lparr>e_ident = take 16 bs, e_type = field 16 2 bs, e_shoff = field 40 8 bs,
     e_shentsize = field 58 2 bs, e_shnum = field 60 2 bs, e_shstrndx = field 62 2 bs\<rparr>"

record Elf64_Shdr =
  sh_name :: "32 word"
  sh_type :: "32 word"
  sh_offset :: "64 word"
  sh_size :: "64 word"
  sh_link :: "32 word"
  sh_entsize :: "64 word"

definition sizeof_Shdr :: nat where "sizeof_Shdr = 64"

definition to_Shdr :: "byte list \<Rightarrow> Elf64_Shdr" where
  "to_Shdr bs = \<lparr>sh_name = field 0 4 bs, sh_type = field 4 4 bs, sh_offset = field 24 8 bs,
     sh_size = field 32 8 bs, sh_link = field 40 4 bs, sh_entsize = field 56 8 bs\<rparr>"

record Elf64_Sym =
  st_name :: "32 word"
  st_shndx :: "16 word"
  st_value :: "64 word"
  st_size :: "64 word"

definition sizeof_Sym :: nat where "sizeof_Sym = 24"

definition to_Sym :: "byte list \<Rightarrow> Elf64_Sym" where
  "to_Sym bs = \<lparr>st_name = field 0 4 bs, st_shndx = field 6 2 bs, st_value = field 8 8 bs, st_size = field 16 8 bs\<rparr>"

text \<open>An array of structures in a buffer.\<close>

definition entries :: "nat \<Rightarrow> (byte list \<Rightarrow> 'a) \<Rightarrow> byte list \<Rightarrow> 'a list" where
  "entries sz to bs = map (\<lambda>i. to (take sz (drop (i * sz) bs))) [0..<length bs div sz]"

definition ELFMAG :: "byte list" where "ELFMAG = [0x7f, 0x45, 0x4c, 0x46]"
definition ET_DYN :: "16 word" where "ET_DYN = 3"
definition SHT_SYMTAB :: "32 word" where "SHT_SYMTAB = 2"
definition SHT_DYNSYM :: "32 word" where "SHT_DYNSYM = 11"

text \<open>The return value -1 is \<open>None\<close>; a type is never -1, it has 16 bits.\<close>

definition FileGetElfType :: "nat \<Rightarrow> 16 word option spM" where
  "FileGetElfType fd =
     bindE (ReadFromOffsetExact fd sizeof_Ehdr 0) (\<lambda>r. case r of
       None \<Rightarrow> retE None
     | Some bs \<Rightarrow> let elf_header = to_Ehdr bs
                  in retE (if take 4 (e_ident elf_header) \<noteq> ELFMAG then None else Some (e_type elf_header)))"

text \<open>
  \<^verbatim>\<open>GetSectionHeaderByType\<close> reads 16 headers at a time. When the read fails, \<^verbatim>\<open>len\<close> is -1: the assertion
  aborts, and without it the number of headers is computed from the unsigned \<open>2 ^ 64 - 1\<close> and the inner loop
  leaves the buffer. When the file ends before the first header, no header is in the buffer and the
  loop does not advance.
\<close>

primrec GetSectionHeaderByType_loop ::
  "bool \<Rightarrow> nat \<Rightarrow> 16 word \<Rightarrow> 64 word \<Rightarrow> 32 word \<Rightarrow> nat \<Rightarrow> nat \<Rightarrow> Elf64_Shdr option spM" where
  "GetSectionHeaderByType_loop nd fd num shoff type 0 i = (if i < unat num then throwE OutOfFuel else retE None)"
| "GetSectionHeaderByType_loop nd fd num shoff type (Suc n) i =
     (if i < unat num
      then let num_bytes_left = (unat num - i) * sizeof_Shdr;
               num_bytes_to_read = (if 16 * sizeof_Shdr > num_bytes_left then num_bytes_left else 16 * sizeof_Shdr)
           in bindE (ReadFromOffset fd num_bytes_to_read (shoff + of_nat (i * sizeof_Shdr))) (\<lambda>(ok, bs).
              seqE (assertE nd (ok \<and> length bs mod sizeof_Shdr = 0))
              (if \<not> ok then throwE BadAccess
               else case find (\<lambda>h. sh_type h = type) (entries sizeof_Shdr to_Shdr bs) of
                      Some h \<Rightarrow> retE (Some h)
                    | None \<Rightarrow> GetSectionHeaderByType_loop nd fd num shoff type n (i + length bs div sizeof_Shdr)))
      else retE None)"

definition GetSectionHeaderByType :: "bool \<Rightarrow> nat \<Rightarrow> nat \<Rightarrow> 16 word \<Rightarrow> 64 word \<Rightarrow> 32 word \<Rightarrow> Elf64_Shdr option spM" where
  "GetSectionHeaderByType nd fuel fd num shoff type = GetSectionHeaderByType_loop nd fd num shoff type fuel 0"

text \<open>
  \<^verbatim>\<open>GetSectionHeaderByName\<close>; the output parameter holds the last header read, whatever is returned. The
  product of the two halves is an \<^verbatim>\<open>int\<close>.
\<close>

definition kMaxSectionNameLen :: nat where "kMaxSectionNameLen = 64"

definition half_times :: "16 word \<Rightarrow> int \<Rightarrow> 64 word" where
  "half_times a i = word_of_int (int32 (uint a * i))"

primrec GetSectionHeaderByName_loop ::
  "nat \<Rightarrow> byte list \<Rightarrow> Elf64_Ehdr \<Rightarrow> Elf64_Shdr \<Rightarrow> nat list \<Rightarrow> Elf64_Shdr \<Rightarrow> (bool \<times> Elf64_Shdr) spM" where
  "GetSectionHeaderByName_loop fd name eh shstrtab [] out = retE (False, out)"
| "GetSectionHeaderByName_loop fd name eh shstrtab (i # is) out =
     bindE (ReadFromOffsetExact fd sizeof_Shdr (e_shoff eh + half_times (e_shentsize eh) (int i))) (\<lambda>r. case r of
       None \<Rightarrow> retE (False, out)
     | Some bs \<Rightarrow>
         let out = to_Shdr bs
         in if kMaxSectionNameLen < length name then retE (False, out)
            else bindE (ReadFromOffset fd (length name) (sh_offset shstrtab + ucast (sh_name out))) (\<lambda>(ok, header_name).
                 if \<not> ok then retE (False, out)
                 else if length header_name \<noteq> length name
                 then GetSectionHeaderByName_loop fd name eh shstrtab is out
                 else if header_name = name then retE (True, out)
                 else GetSectionHeaderByName_loop fd name eh shstrtab is out))"

definition GetSectionHeaderByName :: "nat \<Rightarrow> byte list \<Rightarrow> Elf64_Shdr \<Rightarrow> (bool \<times> Elf64_Shdr) spM" where
  "GetSectionHeaderByName fd name out =
     bindE (ReadFromOffsetExact fd sizeof_Ehdr 0) (\<lambda>r. case r of
       None \<Rightarrow> retE (False, out)
     | Some bs \<Rightarrow>
         let eh = to_Ehdr bs
         in bindE (ReadFromOffsetExact fd sizeof_Shdr (e_shoff eh + half_times (e_shentsize eh) (uint (e_shstrndx eh)))) (\<lambda>r.
            case r of
              None \<Rightarrow> retE (False, out)
            | Some bs \<Rightarrow> GetSectionHeaderByName_loop fd name eh (to_Shdr bs) [0..<unat (e_shnum eh)] out))"

section \<open>Symbols\<close>

text \<open>The test of the inner loop: \<^verbatim>\<open>pc\<close> lies in the symbol, which is defined and has a value.\<close>

definition symbol_contains :: "64 word \<Rightarrow> 64 word \<Rightarrow> Elf64_Sym \<Rightarrow> bool" where
  "symbol_contains symbol_offset pc symbol \<longleftrightarrow>
     (let start_address = st_value symbol + symbol_offset;
          end_address = start_address + st_size symbol
      in st_value symbol \<noteq> 0 \<and> st_shndx symbol \<noteq> 0 \<and> start_address \<le> pc \<and> pc < end_address)"

definition NUM_SYMBOLS :: nat where "NUM_SYMBOLS = 32"

definition store_buf :: "byte list \<Rightarrow> byte list \<Rightarrow> byte list" where
  "store_buf bs buf = bs @ drop (length bs) buf"

text \<open>
  \<^verbatim>\<open>FindSymbol\<close> on the buffer \<open>out\<close>: whether a name was found, and the buffer. It always reads 32 symbols,
  past the end of the table too. A failed read and a file that ends have the effects they have in
  \<^verbatim>\<open>GetSectionHeaderByType\<close>; a table with entries of size 0 divides by zero.
\<close>

primrec FindSymbol_loop ::
  "bool \<Rightarrow> 64 word \<Rightarrow> nat \<Rightarrow> 64 word \<Rightarrow> Elf64_Shdr \<Rightarrow> Elf64_Shdr \<Rightarrow> int \<Rightarrow> nat \<Rightarrow> int \<Rightarrow> byte list \<Rightarrow> (bool \<times> byte list) spM" where
  "FindSymbol_loop nd pc fd symbol_offset strtab symtab num 0 i out =
     (if i < num then throwE OutOfFuel else retE (False, out))"
| "FindSymbol_loop nd pc fd symbol_offset strtab symtab num (Suc n) i out =
     (if i < num
      then bindE (ReadFromOffset fd (NUM_SYMBOLS * sizeof_Sym) (sh_offset symtab + word_of_int i * sh_entsize symtab)) (\<lambda>(ok, bs).
           seqE (assertE nd (ok \<and> length bs mod sizeof_Sym = 0))
           (if \<not> ok then throwE BadAccess
            else case find (symbol_contains symbol_offset pc) (entries sizeof_Sym to_Sym bs) of
                   Some symbol \<Rightarrow>
                     bindE (ReadFromOffset fd (length out) (sh_offset strtab + ucast (st_name symbol))) (\<lambda>(ok1, bs1).
                     let out' = store_buf bs1 out
                     in retE (ok1 \<and> bs1 \<noteq> [] \<and> 0 \<in> set out', out'))
                 | None \<Rightarrow> FindSymbol_loop nd pc fd symbol_offset strtab symtab num n
                             (int32 (i + int (length bs div sizeof_Sym))) out))
      else retE (False, out))"

definition FindSymbol ::
  "bool \<Rightarrow> nat \<Rightarrow> 64 word \<Rightarrow> nat \<Rightarrow> byte list \<Rightarrow> 64 word \<Rightarrow> Elf64_Shdr \<Rightarrow> Elf64_Shdr \<Rightarrow> (bool \<times> byte list) spM" where
  "FindSymbol nd fuel pc fd out symbol_offset strtab symtab =
     (if sh_entsize symtab = 0 then throwE BadAccess
      else FindSymbol_loop nd pc fd symbol_offset strtab symtab
             (int32 (uint (sh_size symtab div sh_entsize symtab))) fuel 0 out)"

text \<open>One of the two symbol tables: its section, its string table, the symbol. \<open>None\<close> is an early \<^verbatim>\<open>return false\<close>.\<close>

definition symbol_of_table ::
  "bool \<Rightarrow> nat \<Rightarrow> nat \<Rightarrow> 64 word \<Rightarrow> Elf64_Ehdr \<Rightarrow> 64 word \<Rightarrow> 32 word \<Rightarrow> byte list \<Rightarrow> (bool \<times> byte list) option spM" where
  "symbol_of_table nd fuel fd pc eh symbol_offset type out =
     bindE (GetSectionHeaderByType nd fuel fd (e_shnum eh) (e_shoff eh) type) (\<lambda>r. case r of
       None \<Rightarrow> retE None
     | Some symtab \<Rightarrow>
         bindE (ReadFromOffsetExact fd sizeof_Shdr (e_shoff eh + ucast (sh_link symtab) * of_nat sizeof_Shdr)) (\<lambda>r. case r of
           None \<Rightarrow> retE None
         | Some bs \<Rightarrow> bindE (FindSymbol nd fuel pc fd out symbol_offset (to_Shdr bs) symtab) (\<lambda>found. retE (Some found))))"

definition GetSymbolFromObjectFile ::
  "bool \<Rightarrow> nat \<Rightarrow> nat \<Rightarrow> 64 word \<Rightarrow> byte list \<Rightarrow> 64 word \<Rightarrow> (bool \<times> byte list) spM" where
  "GetSymbolFromObjectFile nd fuel fd pc out map_start_address =
     bindE (ReadFromOffsetExact fd sizeof_Ehdr 0) (\<lambda>r. case r of
       None \<Rightarrow> retE (False, out)
     | Some bs \<Rightarrow>
         let eh = to_Ehdr bs;
             symbol_offset = (if e_type eh = ET_DYN then map_start_address else 0)
         in bindE (symbol_of_table nd fuel fd pc eh symbol_offset SHT_SYMTAB out) (\<lambda>r. case r of
              None \<Rightarrow> retE (False, out)
            | Some (True, out) \<Rightarrow> retE (True, out)
            | Some (False, out) \<Rightarrow>
                bindE (symbol_of_table nd fuel fd pc eh symbol_offset SHT_DYNSYM out) (\<lambda>r. case r of
                  None \<Rightarrow> retE (False, out)
                | Some found \<Rightarrow> retE found)))"

section \<open>Lines\<close>

text \<open>
  \<^verbatim>\<open>LineReader\<close>: the pointers \<^verbatim>\<open>bol_\<close>, \<^verbatim>\<open>eol_\<close> and \<^verbatim>\<open>eod_\<close> are positions in the buffer; \<^verbatim>\<open>eol_\<close> is null after a line
  without a line feed.
\<close>

record LineReader =
  lr_buf :: "byte list"
  lr_bol :: nat
  lr_eol :: "nat option"
  lr_eod :: nat

definition LineReader_new :: "byte list \<Rightarrow> LineReader" where
  "LineReader_new buf = \<lparr>lr_buf = buf, lr_bol = 0, lr_eol = Some 0, lr_eod = 0\<rparr>"

definition LF :: byte where "LF = 10"

primrec memchr :: "byte \<Rightarrow> byte list \<Rightarrow> nat option" where
  "memchr c [] = None"
| "memchr c (b # bs) = (if b = c then Some 0 else map_option Suc (memchr c bs))"

definition FindLineFeed :: "LineReader \<Rightarrow> nat option" where
  "FindLineFeed lr = map_option (\<lambda>k. lr_bol lr + k) (memchr LF (take (lr_eod lr - lr_bol lr) (drop (lr_bol lr) (lr_buf lr))))"

definition BufferIsEmpty :: "LineReader \<Rightarrow> bool" where
  "BufferIsEmpty lr \<longleftrightarrow> lr_eod lr = 0"

definition HasCompleteLine :: "LineReader \<Rightarrow> bool" where
  "HasCompleteLine lr \<longleftrightarrow> \<not> BufferIsEmpty lr \<and> FindLineFeed lr \<noteq> None"

text \<open>The buffer refilled behind the \<open>k\<close> bytes that were moved to its beginning; \<open>False\<close> at the end of the file or after an error.\<close>

definition refill :: "nat \<Rightarrow> nat \<Rightarrow> LineReader \<Rightarrow> (bool \<times> LineReader) spM" where
  "refill fd k lr =
     bindE (ReadPersistent fd (length (lr_buf lr) - k)) (\<lambda>(ok, bs).
     let lr' = lr\<lparr>lr_buf := take k (lr_buf lr) @ store_buf bs (drop k (lr_buf lr))\<rparr>
     in if \<not> ok \<or> bs = [] then retE (False, lr')
        else retE (True, lr'\<lparr>lr_eod := k + length bs, lr_bol := 0\<rparr>))"

definition next_line :: "bool \<Rightarrow> nat \<Rightarrow> LineReader \<Rightarrow> (bool \<times> LineReader) spM" where
  "next_line nd fd lr =
     (if BufferIsEmpty lr then refill fd 0 lr
      else case lr_eol lr of
        None \<Rightarrow> throwE BadAccess
      | Some e \<Rightarrow>
          let lr1 = lr\<lparr>lr_bol := e + 1\<rparr>
          in seqE (assertE nd (lr_bol lr1 \<le> lr_eod lr1))
             (if HasCompleteLine lr1 then retE (True, lr1)
              else let k = lr_eod lr1 - lr_bol lr1
                   in refill fd k (lr1\<lparr>lr_buf := store_buf (take k (drop (lr_bol lr1) (lr_buf lr1))) (lr_buf lr1)\<rparr>)))"

text \<open>\<^verbatim>\<open>ReadLine\<close>: \<open>None\<close> is \<^verbatim>\<open>false\<close>, otherwise the ends of the line.\<close>

definition ReadLine :: "bool \<Rightarrow> nat \<Rightarrow> LineReader \<Rightarrow> ((nat \<times> nat) option \<times> LineReader) spM" where
  "ReadLine nd fd lr =
     bindE (next_line nd fd lr) (\<lambda>(ok, lr).
     if \<not> ok then retE (None, lr)
     else let lr = lr\<lparr>lr_eol := FindLineFeed lr\<rparr>
          in case lr_eol lr of
               None \<Rightarrow> retE (None, lr)
             | Some e \<Rightarrow> retE (Some (lr_bol lr, e), lr\<lparr>lr_buf := (lr_buf lr)[e := 0]\<rparr>))"

section \<open>The mapped files\<close>

text \<open>
  A cursor is the rest of its line. \<^verbatim>\<open>GetHex\<close> gives the number and the rest.
\<close>

definition is_hex :: "byte \<Rightarrow> bool" where
  "is_hex ch \<longleftrightarrow> (0x30 \<le> ch \<and> ch \<le> 0x39) \<or> (0x41 \<le> ch \<and> ch \<le> 0x46) \<or> (0x61 \<le> ch \<and> ch \<le> 0x66)"

definition hex_digit :: "byte \<Rightarrow> 64 word" where
  "hex_digit ch = (if ch < 0x41 then ucast ch - 0x30 else (ucast ch AND 0xF) + 9)"

fun GetHex :: "64 word \<Rightarrow> byte list \<Rightarrow> 64 word \<times> byte list" where
  "GetHex hex [] = (hex, [])"
| "GetHex hex (ch # rest) = (if is_hex ch then GetHex (push_bit 4 hex OR hex_digit ch) rest else (hex, ch # rest))"

text \<open>Skipping the file offset, the device and the inode: the rest starts at the first non-space after three spaces.\<close>

fun skip_fields :: "nat \<Rightarrow> byte list \<Rightarrow> byte list" where
  "skip_fields num_spaces [] = []"
| "skip_fields num_spaces (ch # rest) =
     (if ch = 0x20 then skip_fields (Suc num_spaces) rest
      else if 3 \<le> num_spaces then ch # rest
      else skip_fields num_spaces rest)"

text \<open>
  The body of the loop: a malformed line, a map to skip, or the start address and the file name. The
  start address is set as soon as it is read.
\<close>

datatype map_line = Malformed | SkipMap | ObjectFile "byte list"

definition parse_map_line :: "64 word \<Rightarrow> byte list \<Rightarrow> map_line \<times> 64 word" where
  "parse_map_line pc line =
     (let (start_address, cursor) = GetHex 0 line
      in (if cursor = [] \<or> hd cursor \<noteq> 0x2d then Malformed
          else let (end_address, cursor) = GetHex 0 (tl cursor)
               in if cursor = [] \<or> hd cursor \<noteq> 0x20 then Malformed
                  else if \<not> (start_address \<le> pc \<and> pc < end_address) then SkipMap
                  else let flags = takeWhile (\<lambda>ch. ch \<noteq> 0x20) (tl cursor); cursor = dropWhile (\<lambda>ch. ch \<noteq> 0x20) (tl cursor)
                       in if cursor = [] \<or> length flags < 4 then Malformed
                          else if take 3 flags \<noteq> [0x72, 0x2d, 0x78] then SkipMap
                          else let cursor = skip_fields 0 (tl cursor)
                               in if cursor = [] then Malformed else ObjectFile (takeWhile (\<lambda>ch. ch \<noteq> 0) cursor),
          start_address))"

definition open_path :: "byte list \<Rightarrow> nat option spM" where
  "open_path path = NO_INTR (sys_open path)"

text \<open>The descriptor of the object file, \<open>None\<close> for -1, and \<^verbatim>\<open>start_address\<close>.\<close>

primrec search_maps :: "bool \<Rightarrow> nat \<Rightarrow> 64 word \<Rightarrow> nat \<Rightarrow> LineReader \<Rightarrow> 64 word \<Rightarrow> (nat option \<times> 64 word) spM" where
  "search_maps nd fd pc 0 lr start_address = throwE OutOfFuel"
| "search_maps nd fd pc (Suc n) lr start_address =
     bindE (ReadLine nd fd lr) (\<lambda>(r, lr). case r of
       None \<Rightarrow> retE (None, start_address)
     | Some (bol, eol) \<Rightarrow>
         (case parse_map_line pc (take (eol - bol) (drop bol (lr_buf lr))) of
            (Malformed, start_address) \<Rightarrow> retE (None, start_address)
          | (SkipMap, start_address) \<Rightarrow> search_maps nd fd pc n lr start_address
          | (ObjectFile path, start_address) \<Rightarrow> bindE (open_path path) (\<lambda>fd. retE (fd, start_address))))"

definition ascii :: "string \<Rightarrow> byte list" where
  "ascii s = map of_char s"

text \<open>
  \<^verbatim>\<open>FileDescriptor\<close>: its destructor closes the descriptor when its block is left, by a return or an
  exception; \<^verbatim>\<open>abort\<close>, a loop that does not end and an access out of bounds run no destructor.
\<close>

definition thrown :: "gw_error \<Rightarrow> bool" where
  "thrown e = (case e of Exn _ \<Rightarrow> True | _ \<Rightarrow> False)"

definition unwinds :: "gw_error + 'a \<Rightarrow> bool" where
  "unwinds r = (case r of Inr _ \<Rightarrow> True | Inl e \<Rightarrow> thrown e)"

definition with_fd :: "nat \<Rightarrow> 'a spM \<Rightarrow> 'a spM" where
  "with_fd fd body = (\<lambda>s. case body s of (r, s') \<Rightarrow>
     if unwinds r
     then (case NO_INTR (sys_close fd) s' of (Inr _, s'') \<Rightarrow> (r, s'') | (Inl e, s'') \<Rightarrow> (Inl e, s''))
     else (r, s'))"

lemma close_run: "\<exists>x cs. NO_INTR (sys_close fd) s = (Inr x, s\<lparr>p_fds := (p_fds s)[fd := None], p_script := cs\<rparr>) \<and> set cs \<subseteq> set (p_script s)"
proof (cases "open_file fd s")
  case None
  then have "(p_fds s)[fd := None] = p_fds s" by (auto simp: open_file_def list_update_beyond split: if_splits) (metis list_update_id)
  with None show ?thesis by (auto simp: NO_INTR_def sys_close_def intro!: exI [of _ "p_script s"])
next
  case (Some f)
  then have gone: "open_file fd (s'\<lparr>p_fds := (p_fds s)[fd := None]\<rparr>) = None" for s' by (simp add: open_file_def)
  show ?thesis
  proof (cases "p_script s")
    case Nil
    with Some show ?thesis by (auto simp: NO_INTR_def sys_close_def next_outcome_def intro!: exI [of _ "[]"])
  next
    case (Cons c cs)
    then show ?thesis using Some gone
      by (cases c) (auto simp: NO_INTR_def sys_close_def next_outcome_def intro!: exI [of _ cs])
  qed
qed

lemma wp_with_fd:
  assumes "wp body (\<lambda>x t. \<forall>cs. set cs \<subseteq> set (p_script t) \<longrightarrow> Q x (t\<lparr>p_fds := (p_fds t)[fd := None], p_script := cs\<rparr>))
    (\<lambda>e t. if thrown e then \<forall>cs. E e (t\<lparr>p_fds := (p_fds t)[fd := None], p_script := cs\<rparr>) else E e t) s"
  shows "wp (with_fd fd body) Q E s"
proof -
  obtain r t where r: "body s = (r, t)" by fastforce
  obtain x cs where "NO_INTR (sys_close fd) t = (Inr x, t\<lparr>p_fds := (p_fds t)[fd := None], p_script := cs\<rparr>)" "set cs \<subseteq> set (p_script t)"
    using close_run by blast
  then show ?thesis using assms r by (auto simp: wp_def with_fd_def unwinds_def split: sum.splits if_splits)
qed

definition OpenObjectFileContainingPcAndGetStartAddress :: "bool \<Rightarrow> nat \<Rightarrow> byte list \<Rightarrow> 64 word \<Rightarrow> (nat option \<times> 64 word) spM" where
  "OpenObjectFileContainingPcAndGetStartAddress nd fuel garbage pc =
     bindE (open_path (ascii ''/proc/self/maps'')) (\<lambda>r. case r of
       None \<Rightarrow> retE (None, 0)
     | Some maps_fd \<Rightarrow> with_fd maps_fd (search_maps nd maps_fd pc fuel (LineReader_new garbage) 0))"

section \<open>Stack traces\<close>

text \<open>\<^verbatim>\<open>DemangleSymbol\<close>, with the status and the name that \<^verbatim>\<open>abi::__cxa_demangle\<close> gives.\<close>

type_synonym demangler = "byte list \<Rightarrow> int \<times> byte list option"

definition DemangleSymbol :: "demangler \<Rightarrow> byte list \<Rightarrow> byte list spM" where
  "DemangleSymbol demangle symbol =
     (case demangle symbol of (status, name) \<Rightarrow>
        if status = 0 then (case name of None \<Rightarrow> throwE BadAccess | Some n \<Rightarrow> retE n)
        else if status = - 1 then THROW StdBadAlloc
        else if status = - 2 \<or> status = - 3 then retE symbol
        else retE [])"

definition DEFAULT_STACK_PREFIX :: "byte list" where "DEFAULT_STACK_PREFIX = [9, 0x40, 9]"

definition unknown :: "byte list" where "unknown = DEFAULT_STACK_PREFIX @ ascii ''Unknown''"

record SpEnv =
  sp_ndebug :: bool
  sp_fuel :: nat
  sp_garbage :: "byte list"
  sp_demangle :: demangler

text \<open>
  \<^verbatim>\<open>SymbolizeAndDemangle\<close>. The buffer for the symbol is a vector of 1024 zeros; \<open>sp_garbage\<close> is the
  uninitialised array of 1024 bytes for the lines.
\<close>

definition symbolize_object :: "SpEnv \<Rightarrow> 64 word \<Rightarrow> 64 word \<Rightarrow> nat \<Rightarrow> byte list spM" where
  "symbolize_object env pc start_address object_fd =
     bindE (FileGetElfType object_fd) (\<lambda>elf_type.
     if elf_type = None then retE unknown
     else bindE (GetSymbolFromObjectFile (sp_ndebug env) (sp_fuel env) object_fd pc (replicate 1024 0) start_address) (\<lambda>(found, buffer).
          if \<not> found then retE unknown
          else bindE (DemangleSymbol (sp_demangle env) (takeWhile (\<lambda>c. c \<noteq> 0) buffer)) (\<lambda>name.
               retE (DEFAULT_STACK_PREFIX @ name))))"

definition SymbolizeAndDemangle :: "SpEnv \<Rightarrow> 64 word \<Rightarrow> byte list spM" where
  "SymbolizeAndDemangle env pc =
     bindE (OpenObjectFileContainingPcAndGetStartAddress (sp_ndebug env) (sp_fuel env) (sp_garbage env) pc) (\<lambda>(r, start_address). case r of
       None \<Rightarrow> retE unknown
     | Some object_fd \<Rightarrow> with_fd object_fd (symbolize_object env pc start_address object_fd))"

text \<open>
  \<^verbatim>\<open>GetStack\<close> on the frames that \<^verbatim>\<open>backtrace\<close> can see from it, the innermost first. A negative size of the
  vector throws; a negative number of frames to erase leaves the vector.
\<close>

definition GetStack :: "64 word list \<Rightarrow> int \<Rightarrow> int \<Rightarrow> 64 word list spM" where
  "GetStack frames skip maxDepth =
     (let skip = skip + 1; n = maxDepth + skip
      in if n < 0 then THROW StdException
         else let stack = take (nat n) frames @ replicate (nat n - length frames) 0;
                  sz = int (min (nat n) (length frames)) - skip
              in if sz < 0 then retE []
                 else if skip < 0 then throwE BadAccess
                 else retE (take (nat sz) (drop (nat skip) stack)))"

primrec print_frames :: "SpEnv \<Rightarrow> 64 word list \<Rightarrow> byte list \<Rightarrow> byte list spM" where
  "print_frames env [] ss = retE ss"
| "print_frames env (pc # pcs) ss =
     bindE (SymbolizeAndDemangle env pc) (\<lambda>line. print_frames env pcs (ss @ line @ [LF]))"

definition PrintStack :: "SpEnv \<Rightarrow> 64 word list \<Rightarrow> int \<Rightarrow> int \<Rightarrow> byte list spM" where
  "PrintStack env frames skip maxDepth =
     bindE (GetStack frames (skip + 1) maxDepth) (\<lambda>stack. print_frames env stack [])"

end
