(* ===== verification/GW_StackLines.thy ===== *)
theory GW_StackLines
  imports GW_StackPrinter
begin

text \<open>
  How the stack printer reads: \<open>ReadPersistent\<close> delivers the bytes of the file whatever the script does short
  of a failure, the line reader delivers the lines of the file, and a table of mappings in the format of
  \<^verbatim>\<open>/proc/self/maps\<close> is searched for the first executable mapping around an address.
\<close>

unbundle bit_operations_syntax

section \<open>Reading\<close>

lemma wp_returnsE:
  assumes "wp m Q (\<lambda>_ _. False) s"
  obtains x s' where "m s = (Inr x, s')" and "Q x s'"
  using assms by (cases "m s"; cases "fst (m s)") (auto simp: wp_def)

text \<open>\<open>offset_moved fd off s s'\<close>: from \<open>s\<close> to \<open>s'\<close> only the offset of \<open>fd\<close> has changed, to \<open>off\<close>, and a part of the script was used.\<close>

definition offset_moved :: "nat \<Rightarrow> nat \<Rightarrow> Proc \<Rightarrow> Proc \<Rightarrow> bool" where
  "offset_moved fd off s s' \<longleftrightarrow> p_files s' = p_files s \<and> set (p_script s') \<subseteq> set (p_script s) \<and>
     (\<exists>f. open_file fd s = Some f \<and> p_fds s' = (p_fds s)[fd := Some (f\<lparr>of_off := off\<rparr>)])"

definition quiet :: "Proc \<Rightarrow> bool" where
  "quiet s \<longleftrightarrow> Failed \<notin> set (p_script s)"

lemma open_file_update [simp]:
  "fd < length (p_fds s) \<Longrightarrow> open_file fd (s\<lparr>p_fds := (p_fds s)[fd := x]\<rparr>) = x"
  "open_file fd (s\<lparr>p_script := sc\<rparr>) = open_file fd s"
  by (simp_all add: open_file_def)

lemma open_file_Some: "open_file fd s = Some f \<Longrightarrow> fd < length (p_fds s) \<and> p_fds s ! fd = Some f"
  by (simp add: open_file_def split: if_splits)

lemma offset_open: "offset_moved fd off s s' \<Longrightarrow> open_file fd s = Some f \<Longrightarrow> open_file fd s' = Some (f\<lparr>of_off := off\<rparr>)"
  by (auto simp: offset_moved_def open_file_def split: if_splits)

lemma offset_trans: "offset_moved fd a s s' \<Longrightarrow> offset_moved fd b s' s'' \<Longrightarrow> offset_moved fd b s s''"
  by (auto simp: offset_moved_def open_file_def split: if_splits)

lemma offset_refl: "open_file fd s = Some f \<Longrightarrow> offset_moved fd (of_off f) s s"
  using open_file_Some [of fd s f] by (auto simp: offset_moved_def) (metis list_update_id)

lemma offset_quiet: "offset_moved fd off s s' \<Longrightarrow> quiet s \<Longrightarrow> quiet s'"
  by (auto simp: offset_moved_def quiet_def)

text \<open>An interrupted call is repeated; the other outcomes are passed on.\<close>

lemma NO_INTR_unfold:
  "NO_INTR call s = (case call s of
     (Inl E_INTR, s') \<Rightarrow> NO_INTR_loop (length (p_script s)) call s'
   | (Inl E_OTHER, s') \<Rightarrow> (Inr None, s') | (Inr x, s') \<Rightarrow> (Inr (Some x), s'))"
  by (simp add: NO_INTR_def)

lemma NO_INTR_interrupted:
  assumes "p_script s = Interrupted # cs" and "call s = (Inl E_INTR, s\<lparr>p_script := cs\<rparr>)"
  shows "NO_INTR call s = NO_INTR call (s\<lparr>p_script := cs\<rparr>)"
  using assms by (simp add: NO_INTR_def split: prod.splits sum.splits sys_error.splits)

text \<open>What a call of \<^verbatim>\<open>read\<close> gives: nothing when the script has a failure, or the next bytes, at least one unless the file ends.\<close>

definition read_post :: "nat \<Rightarrow> nat \<Rightarrow> OpenFile \<Rightarrow> Proc \<Rightarrow> byte list option \<Rightarrow> Proc \<Rightarrow> bool" where
  "read_post fd count f s r s' \<longleftrightarrow> (case r of
     None \<Rightarrow> Failed \<in> set (p_script s) \<and> offset_moved fd (of_off f) s s'
   | Some bs \<Rightarrow> (\<exists>k. 0 < k \<and> k \<le> count \<and> bs = take k (drop (of_off f) (of_bytes f))) \<and> offset_moved fd (of_off f + length bs) s s')"

lemma read_post_script:
  assumes "read_post fd count f (s\<lparr>p_script := cs\<rparr>) r s'" and "offset_moved fd (of_off f) s (s\<lparr>p_script := cs\<rparr>)"
  shows "read_post fd count f s r s'"
  using assms offset_trans [OF assms(2)] by (auto simp: read_post_def offset_moved_def split: option.splits)

lemma granted_post:
  assumes "open_file fd s = Some f" and "set cs \<subseteq> set (p_script s)" and "0 < k" and "k \<le> count"
  shows "read_post fd count f s (Some (take k (drop (of_off f) (of_bytes f))))
    (s\<lparr>p_script := cs, p_fds := (p_fds s)[fd := Some (f\<lparr>of_off := of_off f + length (take k (drop (of_off f) (of_bytes f)))\<rparr>)]\<rparr>)"
  using assms by (auto simp: read_post_def offset_moved_def)

lemma sys_read_outcome:
  assumes "open_file fd s = Some f" and "0 < count"
  shows "wp (NO_INTR (sys_read fd count)) (read_post fd count f s) (\<lambda>_ _. False) s"
  using assms(1)
proof (induction "p_script s" arbitrary: s)
  case Nil
  have "read_post fd count f s (Some (take count (drop (of_off f) (of_bytes f))))
    (s\<lparr>p_fds := (p_fds s)[fd := Some (f\<lparr>of_off := of_off f + length (take count (drop (of_off f) (of_bytes f)))\<rparr>)]\<rparr>)"
    using Nil.prems assms(2) by (auto simp: read_post_def offset_moved_def)
  with Nil show ?case by (simp add: wp_def NO_INTR_unfold sys_read_def next_outcome_def Let_def flip: Nil.hyps)
next
  case (Cons c cs)
  note sc = Cons.hyps(2) [symmetric]
  have used: "offset_moved fd (of_off f) s (s\<lparr>p_script := cs\<rparr>)"
    using offset_refl [OF Cons.prems] sc by (auto simp: offset_moved_def)
  have sub: "set cs \<subseteq> set (p_script s)" using sc by auto
  show ?case
  proof (cases c)
    case Interrupted
    have "NO_INTR (sys_read fd count) s = NO_INTR (sys_read fd count) (s\<lparr>p_script := cs\<rparr>)"
      using Cons.prems sc Interrupted by (intro NO_INTR_interrupted) (simp_all add: sys_read_def next_outcome_def)
    moreover have "wp (NO_INTR (sys_read fd count)) (read_post fd count f (s\<lparr>p_script := cs\<rparr>)) (\<lambda>_ _. False) (s\<lparr>p_script := cs\<rparr>)"
      using Cons.hyps(1) [of "s\<lparr>p_script := cs\<rparr>"] Cons.prems by simp
    ultimately show ?thesis
      using read_post_script [OF _ used] by (auto simp: wp_def split: sum.splits prod.splits)
  next
    case Failed
    then show ?thesis using Cons.prems sc used by (simp add: wp_def NO_INTR_unfold sys_read_def next_outcome_def read_post_def)
  next
    case (Short n)
    then show ?thesis using Cons.prems assms(2) sc granted_post [OF Cons.prems sub, of "min count (max 1 n)" count]
      by (simp add: wp_def NO_INTR_unfold sys_read_def next_outcome_def Let_def less_max_iff_disj)
  next
    case Full
    then show ?thesis using Cons.prems assms(2) sc granted_post [OF Cons.prems sub, of count count]
      by (simp add: wp_def NO_INTR_unfold sys_read_def next_outcome_def Let_def)
  qed
qed

text \<open>
  \<^verbatim>\<open>ReadPersistent\<close> does not run out of rounds. It fails only when the script has a failure; otherwise it gives
  all the bytes there are, up to \<^verbatim>\<open>count\<close>.
\<close>

definition read_upto :: "nat \<Rightarrow> nat \<Rightarrow> nat \<Rightarrow> byte list \<Rightarrow> Proc \<Rightarrow> bool \<times> byte list \<Rightarrow> Proc \<Rightarrow> bool" where
  "read_upto fd count off bytes s r s' \<longleftrightarrow>
     (if fst r then snd r = take count (drop off bytes) else Failed \<in> set (p_script s)) \<and> offset_moved fd (off + length (snd r)) s s'"

lemma ReadPersistent_loop_reads:
  assumes "open_file fd s = Some f" and "of_off f = off + length got" and "take (length got) (drop off (of_bytes f)) = got"
    and "length got \<le> count" and "count \<le> n + length got"
  shows "wp (ReadPersistent_loop fd count n got)
    (read_upto fd count off (of_bytes f) s)
    (\<lambda>_ _. False) s"
  using assms
proof (induction n arbitrary: s f got)
  case 0
  then have "take count (drop off (of_bytes f)) = got" "offset_moved fd (off + length got) s s" using offset_refl [of fd s f] by auto
  with 0 show ?case by (simp add: wp_simps read_upto_def)
next
  case (Suc n)
  have here: "offset_moved fd (off + length got) s s" using offset_refl [OF Suc.prems(1)] Suc.prems(2) by simp
  show ?case
  proof (cases "length got < count")
    case False
    then have "take count (drop off (of_bytes f)) = got" using Suc.prems(3,4) by simp
    with False here show ?thesis by (simp add: wp_simps read_upto_def)
  next
    case True
    have "wp (NO_INTR (sys_read fd (count - length got))) (read_post fd (count - length got) f s) (\<lambda>_ _. False) s"
      using Suc.prems(1) True by (intro sys_read_outcome) simp_all
    then have "wp (bindE (NO_INTR (sys_read fd (count - length got))) (\<lambda>r. case r of None \<Rightarrow> retE (False, got)
        | Some bs \<Rightarrow> if bs = [] then retE (True, got) else ReadPersistent_loop fd count n (got @ bs)))
      (read_upto fd count off (of_bytes f) s)
      (\<lambda>_ _. False) s"
    proof (rule wp_call)
      fix r s'
      assume post: "read_post fd (count - length got) f s r s'"
      show "wp (case r of None \<Rightarrow> retE (False, got) | Some bs \<Rightarrow> if bs = [] then retE (True, got) else ReadPersistent_loop fd count n (got @ bs))
        (read_upto fd count off (of_bytes f) s)
        (\<lambda>_ _. False) s'"
      proof (cases r)
        case None
        with post Suc.prems(2) show ?thesis by (simp add: wp_simps read_post_def read_upto_def)
      next
        case (Some bs)
        obtain k where k: "0 < k" "k \<le> count - length got" "bs = take k (drop (of_off f) (of_bytes f))"
          and m: "offset_moved fd (of_off f + length bs) s s'" using post Some by (auto simp: read_post_def)
        show ?thesis
        proof (cases "bs = []")
          case True
          then have "length (of_bytes f) \<le> off + length got" using k Suc.prems(2) by simp
          then have "take count (drop off (of_bytes f)) = got" using \<open>length got < count\<close> Suc.prems(3)
            by (metis add_diff_cancel_left' diff_le_mono drop_all leD length_drop less_imp_le order.trans take_all)
          with m True Some Suc.prems(2) show ?thesis by (simp add: wp_simps read_upto_def)
        next
          case False
          have len: "length (got @ bs) \<le> count" "0 < length bs" using k \<open>length got < count\<close> False by simp_all
          have "take (length bs) (drop (off + length got) (of_bytes f)) = bs"
            using k(3) Suc.prems(2) by (metis append_eq_conv_conj append_take_drop_id)
          then have grown: "take (length (got @ bs)) (drop off (of_bytes f)) = got @ bs"
            using Suc.prems(3) by (simp add: take_add drop_drop) (simp add: add.commute)
          have "wp (ReadPersistent_loop fd count n (got @ bs))
            (read_upto fd count off (of_bytes f) s')
            (\<lambda>_ _. False) s'"
            using Suc.IH [of s' "f\<lparr>of_off := of_off f + length bs\<rparr>" "got @ bs"] offset_open [OF m Suc.prems(1)] grown Suc.prems(2,5) len
            by simp
          moreover have "set (p_script s') \<subseteq> set (p_script s)" using m by (simp add: offset_moved_def)
          ultimately show ?thesis using False Some offset_trans [OF m] by (auto elim!: wp_mono simp: read_upto_def split: if_splits)
        qed
      qed
    qed simp
    with True show ?thesis by simp
  qed
qed

lemma ReadPersistent_reads:
  assumes "open_file fd s = Some f"
  shows "wp (ReadPersistent fd count)
    (read_upto fd count (of_off f) (of_bytes f) s)
    (\<lambda>_ _. False) s"
  using ReadPersistent_loop_reads [OF assms, of "of_off f" "[]" count count] by (simp add: ReadPersistent_def)

lemma ReadPersistent_quiet:
  assumes "open_file fd s = Some f" and "quiet s"
  shows "wp (ReadPersistent fd count)
    (\<lambda>r s'. r = (True, take count (drop (of_off f) (of_bytes f))) \<and> offset_moved fd (min (of_off f + count) (max (of_off f) (length (of_bytes f)))) s s')
    (\<lambda>_ _. False) s"
  using ReadPersistent_reads [OF assms(1), of count] assms(2)
  by (elim wp_mono) (auto simp: quiet_def read_upto_def split: if_splits elim!: back_subst [of "\<lambda>x. offset_moved fd x s _"])

section \<open>Lines\<close>

text \<open>The bytes of the file behind the offset, and the bytes that the line reader has not yet delivered.\<close>

definition unread :: "nat \<Rightarrow> Proc \<Rightarrow> byte list" where
  "unread fd s = (case open_file fd s of None \<Rightarrow> [] | Some f \<Rightarrow> drop (of_off f) (of_bytes f))"

definition view :: "LineReader \<Rightarrow> byte list" where
  "view lr = take (lr_eod lr - lr_bol lr) (drop (lr_bol lr) (lr_buf lr))"

definition pending :: "nat \<Rightarrow> LineReader \<Rightarrow> Proc \<Rightarrow> byte list" where
  "pending fd lr s =
     (if lr_eod lr = 0 then [] else drop (Suc (the (lr_eol lr))) (take (lr_eod lr) (lr_buf lr))) @ unread fd s"

definition lr_ok :: "LineReader \<Rightarrow> bool" where
  "lr_ok lr \<longleftrightarrow> 0 < length (lr_buf lr) \<and> lr_eod lr \<le> length (lr_buf lr) \<and>
     (lr_eod lr = 0 \<or> (\<exists>e. lr_eol lr = Some e \<and> e < lr_eod lr))"

definition seeks :: "nat \<Rightarrow> Proc \<Rightarrow> Proc \<Rightarrow> bool" where
  "seeks fd s s' \<longleftrightarrow> (\<exists>off. offset_moved fd off s s')"

definition readable :: "nat \<Rightarrow> Proc \<Rightarrow> bool" where
  "readable fd s \<longleftrightarrow> quiet s \<and> open_file fd s \<noteq> None"

lemma seeks_refl: "open_file fd s \<noteq> None \<Longrightarrow> seeks fd s s"
  using offset_refl by (auto simp: seeks_def)

lemma seeks_trans: "seeks fd s s' \<Longrightarrow> seeks fd s' s'' \<Longrightarrow> seeks fd s s''"
  unfolding seeks_def using offset_trans by blast

lemma seeks_readable: "seeks fd s s' \<Longrightarrow> readable fd s \<Longrightarrow> readable fd s'"
  using offset_open offset_quiet by (fastforce simp: seeks_def readable_def)

lemma memchr_None: "memchr c bs = None \<longleftrightarrow> c \<notin> set bs"
  by (induction bs) auto

lemma memchr_Some: "memchr c bs = Some k \<Longrightarrow> take k bs @ c # drop (Suc k) bs = bs \<and> c \<notin> set (take k bs) \<and> k < length bs"
  by (induction bs arbitrary: k) (auto split: if_splits)

lemma FindLineFeed_view: "FindLineFeed lr = map_option (\<lambda>k. lr_bol lr + k) (memchr LF (view lr))"
  by (simp add: FindLineFeed_def view_def)

lemma take_min_length [simp]: "take (min (length xs) n) xs = take n xs"
  by (simp add: min_def)

lemma refill_reads:
  assumes "readable fd s" and "k \<le> length (lr_buf lr)"
  shows "wp (refill fd k lr)
    (\<lambda>(ok, lr') s'. seeks fd s s' \<and> length (lr_buf lr') = length (lr_buf lr) \<and>
       unread fd s = take (length (lr_buf lr) - k) (unread fd s) @ unread fd s' \<and>
       (if ok then lr_bol lr' = 0 \<and> 0 < lr_eod lr' \<and> lr_eod lr' \<le> length (lr_buf lr) \<and>
               view lr' = take k (lr_buf lr) @ take (length (lr_buf lr) - k) (unread fd s)
        else take (length (lr_buf lr) - k) (unread fd s) = []))
    (\<lambda>_ _. False) s"
proof -
  obtain f where f: "open_file fd s = Some f" "quiet s" using assms(1) by (auto simp: readable_def)
  let ?n = "length (lr_buf lr) - k"
  let ?bs = "take ?n (unread fd s)"
  have u: "unread fd s = drop (of_off f) (of_bytes f)" using f by (simp add: unread_def)
  have "wp (ReadPersistent fd ?n) (\<lambda>r s'. r = (True, ?bs) \<and> seeks fd s s' \<and> unread fd s' = drop ?n (unread fd s)) (\<lambda>_ _. False) s"
  proof (rule wp_mono [OF ReadPersistent_quiet [OF f, of ?n]])
    fix r s'
    assume a: "r = (True, take ?n (drop (of_off f) (of_bytes f))) \<and> offset_moved fd (min (of_off f + ?n) (max (of_off f) (length (of_bytes f)))) s s'"
    then have "open_file fd s' = Some (f\<lparr>of_off := min (of_off f + ?n) (max (of_off f) (length (of_bytes f)))\<rparr>)"
      using offset_open f(1) by blast
    then have "unread fd s' = drop ?n (unread fd s)" by (simp add: unread_def f(1) min_def max_def add.commute) linarith
    with a show "r = (True, ?bs) \<and> seeks fd s s' \<and> unread fd s' = drop ?n (unread fd s)" by (auto simp: seeks_def u)
  qed
  then show ?thesis unfolding refill_def
    by (rule wp_call) (use assms(2) in \<open>auto simp: wp_simps store_buf_def view_def Let_def\<close>)
qed

text \<open>Before it looks for the line feed, the reader has a whole line in view, or all of the file, or as much as the buffer holds.\<close>

lemma next_line_reads:
  assumes "readable fd s" and "lr_ok lr"
  shows "wp (next_line nd fd lr)
    (\<lambda>(ok, lr') s'. seeks fd s s' \<and> length (lr_buf lr') = length (lr_buf lr) \<and>
       (\<exists>v. pending fd lr s = v @ unread fd s' \<and> (LF \<in> set v \<or> unread fd s' = [] \<or> length v = length (lr_buf lr)) \<and>
          (if ok then view lr' = v \<and> 0 < lr_eod lr' \<and> lr_eod lr' \<le> length (lr_buf lr) else LF \<notin> set v)))
    (\<lambda>_ _. False) s"
proof (cases "lr_eod lr = 0")
  case True
  show ?thesis using refill_reads [OF assms(1), of 0 lr] assms(2) True unfolding next_line_def BufferIsEmpty_def
    by (simp add: pending_def lr_ok_def, elim wp_mono)
      (auto split: if_splits simp: min_def intro!: exI [of _ "take (length (lr_buf lr)) (unread fd s)"])
next
  case False
  then obtain e where e: "lr_eol lr = Some e" "e < lr_eod lr" "lr_eod lr \<le> length (lr_buf lr)" using assms(2) by (auto simp: lr_ok_def)
  define lr1 where "lr1 = lr\<lparr>lr_bol := e + 1\<rparr>"
  have p: "pending fd lr s = view lr1 @ unread fd s" using False e by (simp add: pending_def view_def lr1_def drop_take)
  show ?thesis
  proof (cases "LF \<in> set (view lr1)")
    case True
    then have "HasCompleteLine lr1" using False by (auto simp: HasCompleteLine_def BufferIsEmpty_def FindLineFeed_view memchr_None lr1_def)
    then have "next_line nd fd lr s = (Inr (True, lr1), s)"
      using e False by (simp add: next_line_def BufferIsEmpty_def run_simps lr1_def Let_def)
    then show ?thesis using p True e seeks_refl assms(1) by (auto simp: wp_def lr1_def readable_def)
  next
    case no: False
    then have "\<not> HasCompleteLine lr1" by (auto simp: HasCompleteLine_def FindLineFeed_view memchr_None)
    define k where "k = lr_eod lr - Suc e"
    define lr2 where "lr2 = lr1\<lparr>lr_buf := store_buf (view lr1) (lr_buf lr1)\<rparr>"
    have run: "next_line nd fd lr s = refill fd k lr2 s"
      using \<open>\<not> HasCompleteLine lr1\<close> e False
      by (simp add: next_line_def BufferIsEmpty_def run_simps lr1_def lr2_def k_def Let_def view_def)
    have b: "length (lr_buf lr2) = length (lr_buf lr)" "take k (lr_buf lr2) = view lr1" "length (view lr1) = k" "k \<le> length (lr_buf lr2)"
      using e by (auto simp: lr2_def lr1_def k_def store_buf_def view_def)
    have "wp (refill fd k lr2) (\<lambda>(ok, lr') s'. seeks fd s s' \<and> length (lr_buf lr') = length (lr_buf lr) \<and>
       (\<exists>v. pending fd lr s = v @ unread fd s' \<and> (LF \<in> set v \<or> unread fd s' = [] \<or> length v = length (lr_buf lr)) \<and>
          (if ok then view lr' = v \<and> 0 < lr_eod lr' \<and> lr_eod lr' \<le> length (lr_buf lr) else LF \<notin> set v))) (\<lambda>_ _. False) s"
      using refill_reads [OF assms(1) b(4)]
      by (rule wp_mono) (use p b no in \<open>auto split: if_splits simp: min_def intro!: exI [of _ "view lr1 @ take (length (lr_buf lr) - k) (unread fd s)"]\<close>)
    then show ?thesis by (simp add: wp_def run)
  qed
qed

text \<open>\<open>line_ahead\<close>: the next line, without its line feed, when it fits into the buffer.\<close>

definition line_ahead :: "nat \<Rightarrow> byte list \<Rightarrow> byte list \<Rightarrow> byte list \<Rightarrow> bool" where
  "line_ahead n bs line rest \<longleftrightarrow> bs = line @ LF # rest \<and> LF \<notin> set line \<and> length line < n"

lemma no_line_ahead:
  assumes "LF \<notin> set v" and "rest = [] \<or> length v = n"
  shows "\<not> line_ahead n (v @ rest) line beyond"
  using assms by (auto simp: line_ahead_def append_eq_append_conv2) (auto simp: append_eq_Cons_conv Cons_eq_append_conv)

text \<open>\<^verbatim>\<open>ReadLine\<close> delivers the next line and goes on behind it, and stops exactly when there is no next line that fits.\<close>

lemma ReadLine_delivers:
  assumes "readable fd s" and "lr_ok lr"
  shows "wp (ReadLine nd fd lr)
    (\<lambda>(r, lr') s'. seeks fd s s' \<and> length (lr_buf lr') = length (lr_buf lr) \<and>
       (case r of None \<Rightarrow> \<forall>line rest. \<not> line_ahead (length (lr_buf lr)) (pending fd lr s) line rest
        | Some (b, e) \<Rightarrow> lr_ok lr' \<and> line_ahead (length (lr_buf lr)) (pending fd lr s) (take (e - b) (drop b (lr_buf lr'))) (pending fd lr' s')))
    (\<lambda>_ _. False) s"
  unfolding ReadLine_def
proof (rule wp_call [OF next_line_reads [OF assms, of nd]], clarify)
  fix ok lr1 s1 v
  assume sk: "seeks fd s s1" and len: "length (lr_buf lr1) = length (lr_buf lr)" and p: "pending fd lr s = v @ unread fd s1"
    and c: "LF \<in> set v \<or> unread fd s1 = [] \<or> length v = length (lr_buf lr)"
    and k: "if ok then view lr1 = v \<and> 0 < lr_eod lr1 \<and> lr_eod lr1 \<le> length (lr_buf lr) else LF \<notin> set v"
  have none: "\<forall>line rest. \<not> line_ahead (length (lr_buf lr)) (pending fd lr s) line rest" if "LF \<notin> set v"
    using no_line_ahead [OF that] c that p by auto
  show "wp (if \<not> ok then retE (None, lr1)
     else let lr = lr1\<lparr>lr_eol := FindLineFeed lr1\<rparr> in case lr_eol lr of None \<Rightarrow> retE (None, lr)
       | Some e \<Rightarrow> retE (Some (lr_bol lr, e), lr\<lparr>lr_buf := (lr_buf lr)[e := 0]\<rparr>))
    (\<lambda>(r, lr') s'. seeks fd s s' \<and> length (lr_buf lr') = length (lr_buf lr) \<and>
       (case r of None \<Rightarrow> \<forall>line rest. \<not> line_ahead (length (lr_buf lr)) (pending fd lr s) line rest
        | Some (b, e) \<Rightarrow> lr_ok lr' \<and> line_ahead (length (lr_buf lr)) (pending fd lr s) (take (e - b) (drop b (lr_buf lr'))) (pending fd lr' s')))
    (\<lambda>_ _. False) s1"
  proof (cases "ok \<and> LF \<in> set v")
    case False
    then have "LF \<notin> set v" "ok \<longrightarrow> FindLineFeed lr1 = None" using k by (auto simp: FindLineFeed_view memchr_None)
    then show ?thesis using sk len none by (simp add: wp_simps)
  next
    case True
    then obtain j where j: "memchr LF v = Some j" using memchr_None [of LF v] by auto
    have rest: "take j v @ LF # drop (Suc j) v = v" "LF \<notin> set (take j v)" "j < length v" using memchr_Some [OF j] by blast+
    have v: "v = take (lr_eod lr1 - lr_bol lr1) (drop (lr_bol lr1) (lr_buf lr1))" "lr_eod lr1 \<le> length (lr_buf lr1)"
      using k True len by (simp_all add: view_def)
    have e: "lr_bol lr1 + j < lr_eod lr1" using rest(3) v by simp
    let ?lr2 = "lr1\<lparr>lr_eol := Some (lr_bol lr1 + j), lr_buf := (lr_buf lr1)[lr_bol lr1 + j := 0]\<rparr>"
    have "take j (drop (lr_bol lr1) (lr_buf ?lr2)) = take j v"
      using e v by (simp add: take_drop min_def)
    moreover have "drop (Suc (lr_bol lr1 + j)) (take (lr_eod lr1) (lr_buf lr1)) = drop (Suc j) v"
      using v e by (simp add: drop_take add.commute)
    then have "pending fd ?lr2 s1 = drop (Suc j) v @ unread fd s1" using e by (simp add: pending_def take_update_swap)
    moreover have "v @ unread fd s1 = take j v @ LF # drop (Suc j) v @ unread fd s1" using rest(1) by (metis append.assoc append_Cons)
    moreover have "length (take j v) < length (lr_buf lr)" using e v(2) len rest(3) by simp
    ultimately have "line_ahead (length (lr_buf lr)) (pending fd lr s) (take (lr_bol lr1 + j - lr_bol lr1) (drop (lr_bol lr1) (lr_buf ?lr2))) (pending fd ?lr2 s1)"
      unfolding line_ahead_def p using rest(2) by simp
    then show ?thesis using True k sk len j e v by (simp add: wp_simps Let_def FindLineFeed_view lr_ok_def) auto
  qed
qed simp

section \<open>Numbers\<close>

text \<open>\<open>hex_of n w\<close>: the last \<open>n\<close> hexadecimal digits of \<open>w\<close>, as \<^verbatim>\<open>printf\<close> writes them.\<close>

definition hex_char :: "64 word \<Rightarrow> byte" where
  "hex_char d = (if d < 10 then 0x30 + ucast d else 0x57 + ucast d)"

definition hex_of :: "nat \<Rightarrow> 64 word \<Rightarrow> byte list" where
  "hex_of n w = map (\<lambda>i. hex_char (take_bit 4 (drop_bit (4 * i) w))) (rev [0..<n])"

lemma nibble_set: "(d :: 64 word) < 16 \<Longrightarrow> d \<in> {0, 1, 2, 3, 4, 5, 6, 7, 8, 9, 10, 11, 12, 13, 14, 15}"
proof -
  assume "d < 16"
  then have "unat d < 16" by (simp add: word_less_nat_alt)
  then have "unat d \<in> {0, 1, 2, 3, 4, 5, 6, 7, 8, 9, 10, 11, 12, 13, 14, 15}" by (simp; presburger)
  then have "(of_nat (unat d) :: 64 word) \<in> of_nat ` {0, 1, 2, 3, 4, 5, 6, 7, 8, 9, 10, 11, 12, 13, 14, 15}" by (rule imageI)
  then show ?thesis by simp
qed

lemma hex_char_read:
  assumes "d < 16"
  shows "is_hex (hex_char d)" and "hex_digit (hex_char d) = d"
  using nibble_set [OF assms] by (auto simp: is_hex_def hex_char_def hex_digit_def)

lemma hex_of_Suc: "hex_of (Suc n) w = hex_char (take_bit 4 (drop_bit (4 * n) w)) # hex_of n w"
  by (simp add: hex_of_def)

lemma GetHex_hex_of: "GetHex h (hex_of n w @ rest) = GetHex (push_bit (4 * n) h OR take_bit (4 * n) w) rest"
proof (induction n arbitrary: h)
  case 0
  then show ?case by (simp add: hex_of_def)
next
  case (Suc n)
  let ?d = "take_bit 4 (drop_bit (4 * n) w)"
  have "?d < 16" using take_bit_length_eq [of 4] by (simp add: word_less_nat_alt unsigned_take_bit_eq take_bit_nat_less_exp [of 4, simplified])
  then have "GetHex h (hex_of (Suc n) w @ rest) = GetHex (push_bit (4 * n) (push_bit 4 h OR ?d) OR take_bit (4 * n) w) rest"
    by (simp add: hex_of_Suc hex_char_read Suc.IH)
  also have "push_bit (4 * n) (push_bit 4 h OR ?d) OR take_bit (4 * n) w = push_bit (4 * Suc n) h OR take_bit (4 * Suc n) w"
    by (rule bit_word_eqI) (auto simp: bit_simps add.commute [of 4])
  finally show ?case .
qed

lemma GetHex_number:
  assumes "take_bit (4 * n) w = w" and "\<not> is_hex c"
  shows "GetHex 0 (hex_of n w @ c # rest) = (w, c # rest)"
  using assms by (simp add: GetHex_hex_of)

section \<open>Mappings\<close>

text \<open>
  A line of \<^verbatim>\<open>/proc/self/maps\<close> as the kernel writes it: \<^verbatim>\<open>%08lx-%08lx perms offset dev inode\<close>, at least
  one space and the path, which is empty for an anonymous mapping.
\<close>

record mapping =
  m_start :: "64 word"
  m_end :: "64 word"
  m_perms :: "byte list"
  m_offset :: "byte list"
  m_dev :: "byte list"
  m_inode :: "byte list"
  m_pad :: nat
  m_path :: "byte list"

definition hex08 :: "64 word \<Rightarrow> byte list" where
  "hex08 w = hex_of (hd (filter (\<lambda>n. take_bit (4 * n) w = w) [8..<17])) w"

definition show_map :: "mapping \<Rightarrow> byte list" where
  "show_map m = hex08 (m_start m) @ 0x2d # hex08 (m_end m) @ 0x20 # m_perms m @ 0x20 # m_offset m @ 0x20 # m_dev m @ 0x20 #
     m_inode m @ replicate (Suc (m_pad m)) 0x20 @ m_path m"

definition map_fields_ok :: "mapping \<Rightarrow> bool" where
  "map_fields_ok m \<longleftrightarrow> length (m_perms m) = 4 \<and> 0x20 \<notin> set (m_perms m @ m_offset m @ m_dev m @ m_inode m) \<and>
     0 \<notin> set (m_path m) \<and> (m_path m = [] \<or> hd (m_path m) \<noteq> 0x20)"

definition maps_text :: "mapping list \<Rightarrow> byte list" where
  "maps_text ms = concat (map (\<lambda>m. show_map m @ [LF]) ms)"

definition map_contains :: "64 word \<Rightarrow> mapping \<Rightarrow> bool" where
  "map_contains pc m \<longleftrightarrow> m_start m \<le> pc \<and> pc < m_end m \<and> take 3 (m_perms m) = [0x72, 0x2d, 0x78]"

lemma GetHex_hex08:
  assumes "\<not> is_hex c"
  shows "GetHex 0 (hex08 w @ c # rest) = (w, c # rest)"
proof -
  let ?ns = "filter (\<lambda>n. take_bit (4 * n) w = w) [8..<17]"
  have "take_bit 64 w = w" by (rule bit_word_eqI) (auto simp: bit_simps)
  then have "16 \<in> set ?ns" by simp
  then have "?ns \<noteq> []" by fastforce
  then have "hd ?ns \<in> set ?ns" by (rule hd_in_set)
  then have "take_bit (4 * hd ?ns) w = w" unfolding set_filter by blast
  then show ?thesis using assms unfolding hex08_def by (rule GetHex_number)
qed

lemma skip_fields_field:
  assumes "0x20 \<notin> set xs" and "n < 3"
  shows "skip_fields n (xs @ 0x20 # rest) = skip_fields (Suc n) rest"
  using assms by (induction xs) auto

lemma skip_fields_path:
  assumes "3 \<le> n" and "path = [] \<or> hd path \<noteq> 0x20"
  shows "skip_fields n (replicate k 0x20 @ path) = path"
  using assms by (induction k arbitrary: n) (cases path; simp)+

lemma skip_to_path:
  assumes "map_fields_ok m"
  shows "skip_fields 0 (m_offset m @ 0x20 # m_dev m @ 0x20 # m_inode m @ replicate (Suc (m_pad m)) 0x20 @ m_path m) = m_path m"
  using assms skip_fields_path [of 3 "m_path m" "m_pad m"]
  by (simp add: map_fields_ok_def skip_fields_field numeral_3_eq_3)

lemma takeWhile_no: "c \<notin> set xs \<Longrightarrow> takeWhile (\<lambda>x. x \<noteq> c) xs = xs"
  by (induction xs) auto

lemma While_separator:
  "c \<notin> set xs \<Longrightarrow> takeWhile (\<lambda>x. x \<noteq> c) (xs @ c # rest) = xs"
  "c \<notin> set xs \<Longrightarrow> dropWhile (\<lambda>x. x \<noteq> c) (xs @ c # rest) = c # rest"
  by (induction xs) auto

lemma parse_show_map:
  assumes "map_fields_ok m"
  shows "parse_map_line pc (show_map m) =
    (if map_contains pc m then if m_path m = [] then Malformed else ObjectFile (m_path m) else SkipMap, m_start m)"
proof -
  have h: "\<not> is_hex 0x2d" "\<not> is_hex 0x20" by (simp_all add: is_hex_def)
  have p: "takeWhile (\<lambda>ch. ch \<noteq> 0x20) (m_perms m @ 0x20 # rest) = m_perms m"
    "dropWhile (\<lambda>ch. ch \<noteq> 0x20) (m_perms m @ 0x20 # rest) = 0x20 # rest" for rest
    using assms by (simp_all add: map_fields_ok_def While_separator)
  have "takeWhile (\<lambda>ch. ch \<noteq> 0) (m_path m) = m_path m" "length (m_perms m) = 4"
    using assms by (simp_all add: map_fields_ok_def takeWhile_no)
  then show ?thesis using skip_to_path [OF assms]
    by (simp add: parse_map_line_def show_map_def GetHex_hex08 h p map_contains_def Let_def del: replicate.simps)
qed

lemma open_path_opens:
  assumes "quiet s"
  shows "wp (open_path path)
    (\<lambda>r s'. p_files s' = p_files s \<and> quiet s' \<and> (case p_files s path of
       None \<Rightarrow> r = None \<and> p_fds s' = p_fds s
     | Some bs \<Rightarrow> r = Some (length (p_fds s)) \<and> p_fds s' = p_fds s @ [Some \<lparr>of_bytes = bs, of_off = 0\<rparr>]))
    (\<lambda>_ _. False) s"
  using assms unfolding open_path_def
proof (induction "p_script s" arbitrary: s)
  case Nil
  then show ?case by (auto simp: wp_def NO_INTR_unfold sys_open_def next_outcome_def quiet_def split: option.splits)
next
  case (Cons c cs)
  note sc = Cons.hyps(2) [symmetric]
  show ?case
  proof (cases "c = Interrupted")
    case True
    then have "NO_INTR (sys_open path) s = NO_INTR (sys_open path) (s\<lparr>p_script := cs\<rparr>)"
      using sc by (intro NO_INTR_interrupted) (simp_all add: sys_open_def next_outcome_def)
    then show ?thesis using Cons.hyps(1) [of "s\<lparr>p_script := cs\<rparr>"] Cons.prems sc
      by (auto simp: wp_def quiet_def split: prod.splits sum.splits option.splits)
  next
    case False
    then show ?thesis using Cons.prems sc
      by (cases c) (auto simp: wp_def NO_INTR_unfold sys_open_def next_outcome_def quiet_def split: option.splits)
  qed
qed

text \<open>A line of the table as the line reader can take it.\<close>

definition map_line_ok :: "nat \<Rightarrow> mapping \<Rightarrow> bool" where
  "map_line_ok n m \<longleftrightarrow> map_fields_ok m \<and> LF \<notin> set (show_map m) \<and> length (show_map m) < n"

definition map_target :: "64 word \<Rightarrow> mapping list \<Rightarrow> mapping option" where
  "map_target pc ms = (case find (map_contains pc) ms of Some m \<Rightarrow> if m_path m = [] then None else Some m | None \<Rightarrow> None)"

text \<open>What opening the object file around an address must do in a state: nothing, or open the file of the mapping that was found.\<close>

definition target_opened :: "64 word \<Rightarrow> mapping list \<Rightarrow> Proc \<Rightarrow> nat option \<times> 64 word \<Rightarrow> Proc \<Rightarrow> bool" where
  "target_opened pc ms s r s' \<longleftrightarrow> (case map_target pc ms of
     Some m \<Rightarrow> (case p_files s (m_path m) of
         Some bs \<Rightarrow> r = (Some (length (p_fds s)), m_start m) \<and> p_fds s' = p_fds s @ [Some \<lparr>of_bytes = bs, of_off = 0\<rparr>]
       | None \<Rightarrow> fst r = None \<and> p_fds s' = p_fds s)
   | None \<Rightarrow> fst r = None \<and> p_fds s' = p_fds s) \<and> p_files s' = p_files s \<and> quiet s'"

lemma line_ahead_unique:
  assumes "line_ahead n bs line rest" and "line_ahead k bs line' rest'"
  shows "line' = line \<and> rest' = rest"
  using assms by (auto simp: line_ahead_def dest: split_at_char [rotated 2])

lemma search_maps_finds:
  assumes "readable fd s" and "lr_ok lr" and "pending fd lr s = maps_text ms" and "length ms < n"
    and "\<forall>m \<in> set ms. map_line_ok (length (lr_buf lr)) m"
  shows "wp (search_maps nd fd pc n lr a) (\<lambda>r s'. \<exists>s1. seeks fd s s1 \<and> target_opened pc ms s1 r s') (\<lambda>_ _. False) s"
  using assms
proof (induction ms arbitrary: n s lr a)
  case Nil
  then obtain n' where n: "n = Suc n'" by (cases n) auto
  have "\<not> line_ahead k (pending fd lr s) line rest" for k line rest using Nil.prems(3) by (simp add: line_ahead_def maps_text_def)
  with ReadLine_delivers [OF Nil.prems(1,2), of nd]
  have "wp (ReadLine nd fd lr) (\<lambda>(r, _) s'. r = None \<and> seeks fd s s') (\<lambda>_ _. False) s"
    by (elim wp_mono) (auto split: option.splits prod.splits, metis option.exhaust surj_pair)
  then show ?case unfolding n search_maps.simps
    by (rule wp_call) (use seeks_readable [OF _ Nil.prems(1)] in \<open>auto simp: wp_simps target_opened_def map_target_def readable_def\<close>)
next
  case (Cons m ms)
  then obtain n' where n: "n = Suc n'" "length ms < n'" by (cases n) auto
  have ok: "map_fields_ok m" and ahead: "line_ahead (length (lr_buf lr)) (pending fd lr s) (show_map m) (maps_text ms)"
    using Cons.prems(3,5) by (simp_all add: line_ahead_def maps_text_def map_line_ok_def)
  have "wp (ReadLine nd fd lr) (\<lambda>(r, lr') s'. seeks fd s s' \<and> length (lr_buf lr') = length (lr_buf lr) \<and>
    (\<exists>b e. r = Some (b, e) \<and> lr_ok lr' \<and> take (e - b) (drop b (lr_buf lr')) = show_map m \<and> pending fd lr' s' = maps_text ms)) (\<lambda>_ _. False) s"
    using ReadLine_delivers [OF Cons.prems(1,2), of nd] by (elim wp_mono) (auto split: option.splits dest!: line_ahead_unique [OF ahead], use ahead in blast)
  then show ?case unfolding n search_maps.simps
  proof (rule wp_call, clarify)
    fix lr' s1 b e
    assume sk: "seeks fd s s1" and len: "length (lr_buf lr') = length (lr_buf lr)" and lr': "lr_ok lr'"
      and line: "take (e - b) (drop b (lr_buf lr')) = show_map m" and p: "pending fd lr' s1 = maps_text ms"
    have r1: "readable fd s1" by (rule seeks_readable [OF sk Cons.prems(1)])
    have rest: "wp (search_maps nd fd pc n' lr' a') (\<lambda>r s'. \<exists>s2. seeks fd s s2 \<and> target_opened pc ms s2 r s') (\<lambda>_ _. False) s1" for a'
      by (rule wp_mono [OF Cons.IH [OF r1 lr' p n(2)]]) (use Cons.prems(5) len seeks_trans [OF sk] in auto)
    have op: "wp (bindE (open_path (m_path m)) (\<lambda>fd. retE (fd, m_start m))) (\<lambda>r s'. \<exists>s2. seeks fd s s2 \<and> target_opened pc (m # ms) s2 r s') (\<lambda>_ _. False) s1"
      if "map_contains pc m" "m_path m \<noteq> []"
    proof (rule wp_call [OF open_path_opens])
      show "quiet s1" using r1 by (simp add: readable_def)
    qed (use that sk in \<open>auto simp: wp_simps target_opened_def map_target_def split: option.splits\<close>)
    have skip: "target_opened pc (m # ms) = target_opened pc ms" if "\<not> map_contains pc m"
      using that by (simp add: target_opened_def map_target_def fun_eq_iff)
    have anon: "target_opened pc (m # ms) s1 (None, m_start m) s1" if "map_contains pc m" "m_path m = []"
      using that r1 by (simp add: target_opened_def map_target_def readable_def)
    show "wp (case Some (b, e) of None \<Rightarrow> retE (None, a)
        | Some (bol, eol) \<Rightarrow> (case parse_map_line pc (take (eol - bol) (drop bol (lr_buf lr'))) of
            (Malformed, start_address) \<Rightarrow> retE (None, start_address)
          | (SkipMap, start_address) \<Rightarrow> search_maps nd fd pc n' lr' start_address
          | (ObjectFile path, start_address) \<Rightarrow> bindE (open_path path) (\<lambda>fd. retE (fd, start_address))))
      (\<lambda>r s'. \<exists>s2. seeks fd s s2 \<and> target_opened pc (m # ms) s2 r s') (\<lambda>_ _. False) s1"
      using rest op sk skip anon by (cases "map_contains pc m"; cases "m_path m = []") (auto simp: line parse_show_map [OF ok] wp_retE)
  qed simp
qed

lemma seeks_frame: "seeks fd s s' \<Longrightarrow> p_files s' = p_files s \<and> (\<exists>x. p_fds s' = (p_fds s)[fd := x])"
  by (auto simp: seeks_def offset_moved_def)

lemma OpenObjectFile_opens:
  assumes "quiet s" and "p_files s (ascii ''/proc/self/maps'') = Some (maps_text ms)" and "length garbage = 1024"
    and "\<forall>m \<in> set ms. map_line_ok 1024 m" and "length ms < fuel"
  shows "\<exists>r s'. OpenObjectFileContainingPcAndGetStartAddress nd fuel garbage pc s = (Inr r, s') \<and> quiet s' \<and>
    (case map_target pc ms of
       None \<Rightarrow> fst r = None \<and> p_fds s' = p_fds s @ [None]
     | Some m \<Rightarrow> (case p_files s (m_path m) of
         None \<Rightarrow> fst r = None \<and> p_fds s' = p_fds s @ [None]
       | Some bs \<Rightarrow> r = (Some (length (p_fds s) + 1), m_start m) \<and>
                    p_fds s' = p_fds s @ [None, Some \<lparr>of_bytes = bs, of_off = 0\<rparr>]))"
proof -
  let ?fd = "length (p_fds s)"
  let ?f = "\<lparr>of_bytes = maps_text ms, of_off = 0\<rparr>"
  let ?lr = "LineReader_new garbage"
  obtain s1 where o: "open_path (ascii ''/proc/self/maps'') s = (Inr (Some ?fd), s1)" and s1: "p_files s1 = p_files s" "quiet s1" "p_fds s1 = p_fds s @ [Some ?f]"
    using open_path_opens [OF assms(1), of "ascii ''/proc/self/maps''"] assms(2) by (elim wp_returnsE) simp
  have of: "open_file ?fd s1 = Some ?f" using s1(3) by (simp add: open_file_def)
  have "wp (search_maps nd ?fd pc fuel ?lr 0) (\<lambda>r s'. \<exists>s2. seeks ?fd s1 s2 \<and> target_opened pc ms s2 r s') (\<lambda>_ _. False) s1"
    using s1(2) of assms(3-5)
    by (intro search_maps_finds) (auto simp: readable_def lr_ok_def pending_def unread_def LineReader_new_def)
  then obtain r s2 s3 where r: "search_maps nd ?fd pc fuel ?lr 0 s1 = (Inr r, s3)" and sk: "seeks ?fd s1 s2" and t: "target_opened pc ms s2 r s3"
    by (elim wp_returnsE) blast
  obtain x where x: "p_fds s2 = p_fds s @ [x]" "p_files s2 = p_files s" using seeks_frame [OF sk] s1 by (auto simp: list_update_append)
  obtain y cs where c: "NO_INTR (sys_close ?fd) s3 = (Inr y, s3\<lparr>p_fds := (p_fds s3)[?fd := None], p_script := cs\<rparr>)" "set cs \<subseteq> set (p_script s3)"
    using close_run by blast
  have "OpenObjectFileContainingPcAndGetStartAddress nd fuel garbage pc s = (Inr r, s3\<lparr>p_fds := (p_fds s3)[?fd := None], p_script := cs\<rparr>)"
    by (simp add: OpenObjectFileContainingPcAndGetStartAddress_def run_simps o r with_fd_def unwinds_def c(1))
  then show ?thesis using t x c(2)
    by (auto simp: target_opened_def list_update_append quiet_def split: option.splits)
qed

text \<open>
  C24 The object file around an address is found. When \<^verbatim>\<open>/proc/self/maps\<close> lists mappings in the format of the
  kernel, in lines that fit the buffer, then, however the reads are interrupted or cut short, the
  search opens the file of the first executable mapping that contains the address, with its start
  address, and reports failure when there is none, when it is anonymous or when its file cannot be
  opened. The descriptor of the table is closed again.
\<close>

theorem object_file_found:
  assumes "quiet s" and "p_files s (ascii ''/proc/self/maps'') = Some (maps_text ms)" and "length garbage = 1024"
    and "\<forall>m \<in> set ms. map_line_ok 1024 m" and "length ms < fuel"
  shows "\<exists>r s'. OpenObjectFileContainingPcAndGetStartAddress nd fuel garbage pc s = (Inr r, s') \<and>
    (case map_target pc ms of
       None \<Rightarrow> fst r = None \<and> p_fds s' = p_fds s @ [None]
     | Some m \<Rightarrow> (case p_files s (m_path m) of
         None \<Rightarrow> fst r = None \<and> p_fds s' = p_fds s @ [None]
       | Some bs \<Rightarrow> r = (Some (length (p_fds s) + 1), m_start m) \<and>
                    p_fds s' = p_fds s @ [None, Some \<lparr>of_bytes = bs, of_off = 0\<rparr>]))"
  using OpenObjectFile_opens [OF assms] by blast

text \<open>A process with a data and a text mapping of one file, and reads that are interrupted and cut short.\<close>

definition sample_maps :: "mapping list" where
  "sample_maps =
     [\<lparr>m_start = 0x400000, m_end = 0x401000, m_perms = ascii ''r--p'', m_offset = ascii ''00000000'', m_dev = ascii ''08:01'',
        m_inode = ascii ''2142121'', m_pad = 3, m_path = ascii ''/bin/cat''\<rparr>,
      \<lparr>m_start = 0x401000, m_end = 0x40c000, m_perms = ascii ''r-xp'', m_offset = ascii ''00001000'', m_dev = ascii ''08:01'',
        m_inode = ascii ''2142121'', m_pad = 3, m_path = ascii ''/bin/cat''\<rparr>]"

definition sample_proc :: "byte list \<Rightarrow> outcome list \<Rightarrow> Proc" where
  "sample_proc obj script =
     \<lparr>p_files = (\<lambda>p. if p = ascii ''/proc/self/maps'' then Some (maps_text sample_maps)
                     else if p = ascii ''/bin/cat'' then Some obj else None), p_fds = [], p_script = script\<rparr>"

lemma sample_maps_ok: "\<forall>m \<in> set sample_maps. map_line_ok 1024 m"
  by code_simp

theorem object_file_found_witness:
  "\<exists>s'. OpenObjectFileContainingPcAndGetStartAddress True 3 (replicate 1024 0) 0x401234 (sample_proc [0x7f] [Interrupted, Short 3, Full, Interrupted]) =
     (Inr (Some 1, 0x401000), s') \<and> p_fds s' = [None, Some \<lparr>of_bytes = [0x7f], of_off = 0\<rparr>]"
proof -
  let ?s = "sample_proc [0x7f] [Interrupted, Short 3, Full, Interrupted]"
  have hyps: "quiet ?s" "p_files ?s (ascii ''/proc/self/maps'') = Some (maps_text sample_maps)" "length sample_maps < 3"
    by (simp_all add: quiet_def sample_proc_def sample_maps_def)
  have target: "map_target 0x401234 sample_maps = Some (sample_maps ! 1)" by code_simp
  have obj: "p_files ?s (m_path (sample_maps ! 1)) = Some [0x7f]" "m_start (sample_maps ! 1) = 0x401000" "p_fds ?s = []" by code_simp+
  show ?thesis using object_file_found [OF hyps(1,2) _ sample_maps_ok hyps(3), of "replicate 1024 0" True "0x401234"] target obj by auto
qed

end
