(* ===== verification/GW_StackProps.thy ===== *)
theory GW_StackProps
  imports GW_StackLines
begin

text \<open>
  Properties of the stack printer: it leaves no descriptor open whatever the files contain and
  whatever the system calls do, it prints the name of the symbol around an address of a well-formed
  ELF file, and it does not end on an object file that was cut short.
\<close>

section \<open>Descriptors\<close>

text \<open>\<open>upd fd s s'\<close>: of the descriptors only \<open>fd\<close> may differ. \<open>only fd m\<close>: a run of \<open>m\<close> changes no other descriptor, however it ends.\<close>

definition upd :: "nat \<Rightarrow> Proc \<Rightarrow> Proc \<Rightarrow> bool" where
  "upd fd s s' \<longleftrightarrow> p_files s' = p_files s \<and> (\<exists>x. p_fds s' = (p_fds s)[fd := x])"

definition only :: "nat \<Rightarrow> 'a spM \<Rightarrow> bool" where
  "only fd m \<longleftrightarrow> (\<forall>s. upd fd s (snd (m s)))"

lemma list_update_same [simp]: "\<exists>x. xs = xs[i := x]"
  by (rule exI [of _ "xs ! i"]) simp

lemma upd_refl [simp]: "upd fd s s"
  by (simp add: upd_def)

lemma upd_trans: "upd fd s s' \<Longrightarrow> upd fd s' s'' \<Longrightarrow> upd fd s s''"
  by (auto simp: upd_def)

named_theorems only_intros "programs that change one descriptor only"

lemma only_retE [only_intros]: "only fd (retE x)"
  by (simp add: only_def run_simps)

lemma only_throwE [only_intros]: "only fd (throwE e)"
  by (simp add: only_def run_simps)

lemma only_assertE [only_intros]: "only fd (assertE nd p)"
  by (simp add: only_def run_simps)

lemma only_bindE [only_intros]:
  assumes "only fd m" and "\<And>x. only fd (f x)"
  shows "only fd (bindE m f)"
  unfolding only_def
proof
  fix s
  have "upd fd s (snd (m s))" using assms(1) by (simp add: only_def)
  moreover have "upd fd s' (snd (f x s'))" for x s' using assms(2) by (simp add: only_def)
  ultimately show "upd fd s (snd (bindE m f s))"
    using upd_trans by (cases "m s"; cases "fst (m s)") (auto simp: run_simps)
qed

lemma only_seqE [only_intros]: "only fd m \<Longrightarrow> only fd n \<Longrightarrow> only fd (seqE m n)"
  unfolding seqE_def by (intro only_bindE)

lemma only_if [only_intros]: "only fd m \<Longrightarrow> only fd n \<Longrightarrow> only fd (if b then m else n)"
  by simp

lemma only_option [only_intros]: "only fd m \<Longrightarrow> (\<And>x. only fd (n x)) \<Longrightarrow> only fd (case r of None \<Rightarrow> m | Some x \<Rightarrow> n x)"
  by (cases r) auto

lemma only_prod [only_intros]: "(\<And>x y. only fd (m x y)) \<Longrightarrow> only fd (case r of (x, y) \<Rightarrow> m x y)"
  by (cases r) auto

lemma only_bool [only_intros]: "only fd m \<Longrightarrow> only fd n \<Longrightarrow> only fd (case b of True \<Rightarrow> m | False \<Rightarrow> n)"
  by (cases b) auto

lemma upd_script: "upd fd (s\<lparr>p_script := cs\<rparr>) s' = upd fd s s'"
  by (simp add: upd_def)

lemma upd_next: "next_outcome s = (c, s') \<Longrightarrow> p_files s' = p_files s \<and> p_fds s' = p_fds s"
  by (auto simp: next_outcome_def split: list.splits)

lemma sys_read_upd: "upd fd s (snd (sys_read fd n s))"
proof -
  obtain c s1 where n: "next_outcome s = (c, s1)" by fastforce
  then show ?thesis using upd_next [OF n] by (auto simp: sys_read_def upd_def Let_def split: option.splits outcome.splits)
qed

lemma only_NO_INTR:
  assumes "\<And>s. upd fd s (snd (call s))"
  shows "only fd (NO_INTR call)"
proof -
  have "upd fd s (snd (NO_INTR_loop n call s))" for n s
  proof (induction n arbitrary: s)
    case (Suc n)
    have "upd fd s (snd (call s))" by (rule assms)
    then show ?case using upd_trans Suc.IH
      by (cases "call s") (auto split: sum.splits sys_error.splits)
  qed (simp add: run_simps)
  then show ?thesis by (simp add: only_def NO_INTR_def del: NO_INTR_loop.simps)
qed

lemma only_ReadPersistent [only_intros]: "only fd (ReadPersistent fd count)"
proof -
  have "only fd (ReadPersistent_loop fd count n got)" for n got
    by (induction n arbitrary: got) (auto intro!: only_intros only_NO_INTR sys_read_upd)
  then show ?thesis by (simp add: ReadPersistent_def)
qed

lemma only_lseek: "only fd (\<lambda>s. case sys_lseek fd offset s of (ok, s') \<Rightarrow> (Inr ok, s'))"
  by (auto simp: only_def sys_lseek_def upd_def split: option.splits)

lemma only_ReadFromOffset [only_intros]: "only fd (ReadFromOffset fd count offset)"
  unfolding ReadFromOffset_def by (intro only_intros only_lseek)

lemma only_ReadFromOffsetExact [only_intros]: "only fd (ReadFromOffsetExact fd count offset)"
  unfolding ReadFromOffsetExact_def by (intro only_intros)

lemma only_FileGetElfType [only_intros]: "only fd (FileGetElfType fd)"
  unfolding FileGetElfType_def Let_def by (intro only_intros)

lemma only_GetSectionHeaderByType [only_intros]: "only fd (GetSectionHeaderByType nd fuel fd num shoff type)"
proof -
  have "only fd (GetSectionHeaderByType_loop nd fd num shoff type n i)" for n i
    by (induction n arbitrary: i) (simp_all add: Let_def only_intros)
  then show ?thesis by (simp add: GetSectionHeaderByType_def)
qed

lemma only_FindSymbol [only_intros]: "only fd (FindSymbol nd fuel pc fd out symbol_offset strtab symtab)"
proof -
  have "only fd (FindSymbol_loop nd pc fd symbol_offset strtab symtab num n i out)" for num n i
    by (induction n arbitrary: i) (simp_all add: Let_def only_intros)
  then show ?thesis by (simp add: FindSymbol_def only_intros)
qed

lemma only_symbol_of_table [only_intros]: "only fd (symbol_of_table nd fuel fd pc eh off type out)"
  unfolding symbol_of_table_def by (intro only_intros)

lemma only_GetSymbolFromObjectFile [only_intros]: "only fd (GetSymbolFromObjectFile nd fuel fd pc out a)"
  unfolding GetSymbolFromObjectFile_def Let_def by (intro only_intros)

lemma only_DemangleSymbol [only_intros]: "only fd (DemangleSymbol demangle symbol)"
  unfolding DemangleSymbol_def THROW_def by (intro only_intros)

lemma only_symbolize_object [only_intros]: "only fd (symbolize_object env pc a fd)"
  unfolding symbolize_object_def by (intro only_intros)

lemma only_ReadLine [only_intros]: "only fd (ReadLine nd fd lr)"
  unfolding ReadLine_def next_line_def refill_def Let_def by (intro only_intros)

text \<open>Opening a file adds one descriptor at the end, or none.\<close>

definition added :: "Proc \<Rightarrow> nat option \<Rightarrow> Proc \<Rightarrow> bool" where
  "added s r s' \<longleftrightarrow> p_files s' = p_files s \<and>
     (case r of None \<Rightarrow> p_fds s' = p_fds s | Some fd \<Rightarrow> fd = length (p_fds s) \<and> (\<exists>f. p_fds s' = p_fds s @ [Some f]))"

lemma sys_open_added: "sys_open path s = (r, s') \<Longrightarrow> added s (case r of Inl _ \<Rightarrow> None | Inr fd \<Rightarrow> Some fd) s'"
  using upd_next [of s] by (auto simp: sys_open_def added_def split: outcome.splits option.splits prod.splits)

lemma open_path_added: "wp (open_path path) (added s) (\<lambda>_. added s None) s"
proof -
  have "wp (NO_INTR_loop n (sys_open path)) (added s) (\<lambda>_. added s None) s'" if "added s None s'" for n s'
    using that
  proof (induction n arbitrary: s')
    case (Suc n)
    obtain r s1 where r: "sys_open path s' = (r, s1)" by fastforce
    from sys_open_added [OF r] Suc.prems have a: "added s (case r of Inl _ \<Rightarrow> None | Inr fd \<Rightarrow> Some fd) s1"
      by (auto simp: added_def split: option.splits)
    show ?case
    proof (cases r)
      case (Inl e)
      then show ?thesis using a r Suc.IH [of s1] by (cases e) (simp_all add: wp_def)
    qed (use a r in \<open>simp add: wp_def\<close>)
  qed (simp add: wp_simps)
  then show ?thesis by (simp add: open_path_def NO_INTR_def wp_def added_def del: NO_INTR_loop.simps)
qed

definition searched :: "nat \<Rightarrow> Proc \<Rightarrow> nat option \<times> 64 word \<Rightarrow> Proc \<Rightarrow> bool" where
  "searched fd s r s' \<longleftrightarrow> (\<exists>s1. upd fd s s1 \<and> added s1 (fst r) s')"

lemma only_wp: "only fd m \<Longrightarrow> wp m (\<lambda>_. upd fd s) (\<lambda>_. upd fd s) s"
  by (auto simp: only_def wp_def split: prod.splits sum.splits) (metis snd_conv)+

lemma search_maps_searched: "wp (search_maps nd fd pc n lr a) (searched fd s) (\<lambda>_ s'. searched fd s (None, 0) s') s"
proof (induction n arbitrary: lr a s)
  case 0
  then show ?case by (simp add: wp_simps searched_def added_def) (metis upd_refl)
next
  case (Suc n)
  have none: "searched fd s (None, x) s'" if "upd fd s s'" for s' x using that by (auto simp: searched_def added_def)
  have op: "wp (bindE (open_path path) (\<lambda>fd. retE (fd, b))) (searched fd s) (\<lambda>_ s'. searched fd s (None, 0) s') s1" if "upd fd s s1" for path b s1
    by (rule wp_call [OF open_path_added [of path s1]]) (use that in \<open>auto simp: wp_simps searched_def\<close>)
  have rest: "wp (search_maps nd fd pc n lr' b) (searched fd s) (\<lambda>_ s'. searched fd s (None, 0) s') s1" if "upd fd s s1" for lr' b s1
    by (rule wp_mono [OF Suc.IH]) (use upd_trans [OF that] in \<open>auto simp: searched_def\<close>)
  show ?case unfolding search_maps.simps
    by (rule wp_call [OF only_wp [OF only_ReadLine]])
      (auto simp: wp_retE none op rest split: option.splits prod.splits map_line.splits)
qed

lemma OpenObjectFile_fds:
  "wp (OpenObjectFileContainingPcAndGetStartAddress nd fuel garbage pc)
    (\<lambda>r s'. \<exists>k. p_files s' = p_files s \<and> (case fst r of None \<Rightarrow> p_fds s' = p_fds s @ replicate k None
       | Some fd \<Rightarrow> fd = length (p_fds s) + k \<and> (\<exists>f. p_fds s' = p_fds s @ replicate k None @ [Some f])))
    (\<lambda>e s'. thrown e \<longrightarrow> (\<exists>k. p_fds s' = p_fds s @ replicate k None)) s"
proof -
  let ?Q = "\<lambda>r s'. \<exists>k. p_files s' = p_files s \<and> (case fst r of None \<Rightarrow> p_fds s' = p_fds s @ replicate k None
       | Some fd \<Rightarrow> fd = length (p_fds s) + k \<and> (\<exists>f. p_fds s' = p_fds s @ replicate k None @ [Some f]))"
  let ?E = "\<lambda>e s'. thrown e \<longrightarrow> (\<exists>k. p_fds s' = p_fds s @ replicate k None)"
  show ?thesis unfolding OpenObjectFileContainingPcAndGetStartAddress_def
  proof (rule wp_call [OF open_path_added])
    fix r s1
    assume a: "added s r s1"
    show "wp (case r of None \<Rightarrow> retE (None, 0) | Some maps_fd \<Rightarrow>
      with_fd maps_fd (search_maps nd maps_fd pc fuel (LineReader_new garbage) 0)) ?Q ?E s1"
    proof (cases r)
      case None
      then show ?thesis using a by (auto simp: wp_simps added_def intro: exI [of _ 0])
    next
      case (Some fd)
      then obtain f where fd: "fd = length (p_fds s)" "p_fds s1 = p_fds s @ [Some f]" "p_files s1 = p_files s" using a by (auto simp: added_def)
      let ?cl = "\<lambda>s' cs. s'\<lparr>p_fds := (p_fds s')[fd := None], p_script := cs\<rparr>"
      have close: "?Q r' (?cl s' cs)" "fst r' = None \<Longrightarrow> \<exists>k. p_fds (?cl s' cs) = p_fds s @ replicate k None"
        if "searched fd s1 r' s'" for r' s' cs
        using that fd by (auto simp: searched_def upd_def added_def list_update_append split: option.splits
            intro!: exI [of _ 1])
      have "wp (with_fd fd (search_maps nd fd pc fuel (LineReader_new garbage) 0)) ?Q ?E s1"
        by (rule wp_with_fd, rule wp_mono [OF search_maps_searched]) (use close(1) close(2) [of "(None, 0)"] in auto)
      then show ?thesis using Some by simp
    qed
  next
    fix e s' assume "added s None s'"
    then show "?E e s'" by (auto simp: added_def intro: exI [of _ 0])
  qed
qed

lemma Symbolize_fds:
  "wp (SymbolizeAndDemangle env pc) (\<lambda>_ s'. \<exists>k. p_fds s' = p_fds s @ replicate k None)
    (\<lambda>e s'. thrown e \<longrightarrow> (\<exists>k. p_fds s' = p_fds s @ replicate k None)) s"
proof -
  let ?Q = "\<lambda>_ s'. \<exists>k. p_fds s' = p_fds s @ replicate k None"
  let ?E = "\<lambda>e s'. thrown e \<longrightarrow> (\<exists>k. p_fds s' = p_fds s @ replicate k None)"
  show ?thesis unfolding SymbolizeAndDemangle_def
  proof (rule wp_call [OF OpenObjectFile_fds], clarify)
    fix r k and a :: "64 word" and s1 :: Proc
    assume f: "case fst (r, a) of None \<Rightarrow> p_fds s1 = p_fds s @ replicate k None
      | Some fd \<Rightarrow> fd = length (p_fds s) + k \<and> (\<exists>f. p_fds s1 = p_fds s @ replicate k None @ [Some f])"
    have body: "wp (with_fd fd m) ?Q ?E s1" if "only fd m" and "r = Some fd" for fd and m :: "byte list spM"
    proof -
      have "(p_fds t)[fd := None] = p_fds s @ replicate (Suc k) None" if "upd fd s1 t" for t
        using f that \<open>r = Some fd\<close> by (auto simp: upd_def list_update_append replicate_append_same)
      then have "\<exists>j. (p_fds t)[fd := None] = p_fds s @ replicate j None" if "upd fd s1 t" for t using that by blast
      then show ?thesis by (intro wp_with_fd wp_mono [OF only_wp [OF that(1)]]) auto
    qed
    show "wp (case r of None \<Rightarrow> retE unknown | Some object_fd \<Rightarrow> with_fd object_fd (symbolize_object env pc a object_fd)) ?Q ?E s1"
      using f by (cases r) (auto simp: wp_retE intro!: body only_intros)
  qed simp
qed

lemma print_frames_fds:
  "wp (print_frames env pcs ss) (\<lambda>_ s'. \<exists>k. p_fds s' = p_fds s @ replicate k None)
    (\<lambda>e s'. thrown e \<longrightarrow> (\<exists>k. p_fds s' = p_fds s @ replicate k None)) s"
proof (induction pcs arbitrary: ss s)
  case Nil
  then show ?case by (auto simp: wp_simps intro: exI [of _ 0])
next
  case (Cons pc pcs)
  show ?case unfolding print_frames.simps
  proof (rule wp_call [OF Symbolize_fds])
    fix line and s1 :: Proc
    assume "\<exists>k. p_fds s1 = p_fds s @ replicate k None"
    then obtain k where k: "p_fds s1 = p_fds s @ replicate k None" by blast
    have more: "p_fds s1 @ replicate j None = p_fds s @ replicate (k + j) None" for j by (simp add: k replicate_add)
    show "wp (print_frames env pcs (ss @ line @ [LF])) (\<lambda>_ s'. \<exists>k. p_fds s' = p_fds s @ replicate k None)
      (\<lambda>e s'. thrown e \<longrightarrow> (\<exists>k. p_fds s' = p_fds s @ replicate k None)) s1"
      by (rule wp_mono [OF Cons.IH]) (use more in \<open>metis | blast\<close>)+
  qed
qed

text \<open>\<^verbatim>\<open>GetStack\<close> gives the frames above its own and the \<^verbatim>\<open>skip\<close> below it, at most \<^verbatim>\<open>maxDepth\<close> of them.\<close>

lemma GetStack_frames:
  assumes "0 \<le> skip" and "0 \<le> maxDepth"
  shows "GetStack frames skip maxDepth s = (Inr (take (nat maxDepth) (drop (Suc (nat skip)) frames)), s)"
proof -
  obtain k m where k: "skip = int k" "maxDepth = int m" using assms by (metis nonneg_int_cases)
  show ?thesis unfolding k
    by (cases "length frames \<le> k")
      (auto simp: GetStack_def Let_def run_simps drop_take min_def nat_add_distrib intro!: take_equalityI split: if_splits)
qed

text \<open>
  C26 Printing a stack trace leaves no descriptor open: whatever the files contain and whichever calls fail, are
  cut short or are interrupted (an interrupted \<^verbatim>\<open>close\<close> is repeated on a descriptor that Linux has already
  released), when the trace is printed or an exception is thrown, every descriptor that was
  opened on the way is closed, and those that were open before are as they were. An aborting
  assertion, an access out of bounds and a loop that does not end run no destructor and are left out.
\<close>

theorem no_descriptor_left_open:
  assumes "PrintStack env frames skip maxDepth s = (r, s')" and "unwinds r"
  shows "\<exists>k. p_fds s' = p_fds s @ replicate k None"
proof -
  let ?Q = "\<lambda>_ s'. \<exists>k. p_fds s' = p_fds s @ replicate k None"
  let ?E = "\<lambda>e s'. thrown e \<longrightarrow> (\<exists>k. p_fds s' = p_fds s @ replicate k None)"
  have "wp (GetStack frames (skip + 1) maxDepth) (\<lambda>_ s'. s' = s) ?E s"
    by (auto simp: GetStack_def Let_def wp_simps intro: exI [of _ 0])
  then have "wp (PrintStack env frames skip maxDepth) ?Q ?E s"
    unfolding PrintStack_def by (rule wp_call) (auto intro: print_frames_fds)
  then show ?thesis using assms by (auto simp: wp_def unwinds_def split: sum.splits)
qed

text \<open>Two addresses of an object that is no ELF file, and calls that are interrupted and cut short, the first \<^verbatim>\<open>close\<close> among them.\<close>

definition plain_env :: SpEnv where
  "plain_env = \<lparr>sp_ndebug = False, sp_fuel = 100, sp_garbage = replicate 1024 0, sp_demangle = (\<lambda>name. (- 2, None))\<rparr>"

theorem no_descriptor_left_open_witness:
  "\<exists>k. p_fds (snd (PrintStack plain_env [1, 2, 0x401234, 0x401300] 0 5 (sample_proc [0x7f] [Full, Full, Full, Interrupted, Short 3]))) =
     replicate k None"
proof -
  let ?s = "sample_proc [0x7f] [Full, Full, Full, Interrupted, Short 3]"
  let ?run = "PrintStack plain_env [1, 2, 0x401234, 0x401300] 0 5 ?s"
  have "unwinds (fst ?run)" by code_simp
  then show ?thesis using no_descriptor_left_open [of plain_env "[1, 2, 0x401234, 0x401300]" 0 5 ?s "fst ?run" "snd ?run"]
    by (simp add: sample_proc_def)
qed

end
