(* ===== verification/GW_StackSymbols.thy ===== *)
theory GW_StackSymbols
  imports GW_StackProps
begin

text \<open>
  The symbols of an ELF file as a function of its bytes, and the stack printer's search for them: it prints
  the first symbol of the symbol table that contains the address, and it does not end when the
  file stops before its section headers.
\<close>

section \<open>Reading at an offset\<close>

definition contents :: "nat \<Rightarrow> Proc \<Rightarrow> byte list" where
  "contents fd s = (case open_file fd s of None \<Rightarrow> [] | Some f \<Rightarrow> of_bytes f)"

lemma seeks_contents: "seeks fd s s' \<Longrightarrow> contents fd s' = contents fd s"
proof -
  assume "seeks fd s s'"
  then obtain off f where "offset_moved fd off s s'" "open_file fd s = Some f" by (auto simp: seeks_def offset_moved_def)
  then show ?thesis using offset_open by (auto simp: contents_def)
qed

lemma read_at:
  assumes "readable fd s" and "0 \<le> sint offset"
  shows "wp (ReadFromOffset fd count offset)
    (\<lambda>r s'. r = (True, take count (drop (nat (sint offset)) (contents fd s))) \<and> seeks fd s s') (\<lambda>_ _. False) s"
proof -
  obtain f where f: "open_file fd s = Some f" "quiet s" using assms(1) by (auto simp: readable_def)
  let ?s1 = "s\<lparr>p_fds := (p_fds s)[fd := Some (f\<lparr>of_off := nat (sint offset)\<rparr>)]\<rparr>"
  have m: "offset_moved fd (nat (sint offset)) s ?s1" using f by (auto simp: offset_moved_def)
  have o: "open_file fd ?s1 = Some (f\<lparr>of_off := nat (sint offset)\<rparr>)" by (rule offset_open [OF m f(1)])
  have "quiet ?s1" by (rule offset_quiet [OF m f(2)])
  from ReadPersistent_quiet [OF o this, of count] offset_trans [OF m]
  have "wp (ReadPersistent fd count) (\<lambda>r s'. r = (True, take count (drop (nat (sint offset)) (contents fd s))) \<and> seeks fd s s') (\<lambda>_ _. False) ?s1"
    by (elim wp_mono) (auto simp: seeks_def contents_def f)
  then show ?thesis using assms(2) by (simp add: ReadFromOffset_def wp_def run_simps sys_lseek_def f)
qed

lemma read_exact:
  assumes "readable fd s" and "0 \<le> sint offset" and "nat (sint offset) + count \<le> length (contents fd s)"
  shows "wp (ReadFromOffsetExact fd count offset)
    (\<lambda>r s'. r = Some (take count (drop (nat (sint offset)) (contents fd s))) \<and> seeks fd s s') (\<lambda>_ _. False) s"
  unfolding ReadFromOffsetExact_def
  by (rule wp_call [OF read_at [OF assms(1,2)]]) (use assms(3) in \<open>auto simp: wp_simps\<close>)

section \<open>A file that was cut short\<close>

lemma cut_short_loop:
  assumes "readable fd s" and "num \<noteq> 0" and "0 \<le> sint shoff" and "length (contents fd s) \<le> nat (sint shoff)"
  shows "wp (GetSectionHeaderByType_loop nd fd num shoff type n 0) (\<lambda>_ _. False) (\<lambda>e _. e = OutOfFuel) s"
  using assms
proof (induction n arbitrary: s)
  case 0
  then show ?case by (simp add: wp_simps unat_gt_0)
next
  case (Suc n)
  have num: "0 < unat num" using assms(2) by (simp add: unat_gt_0)
  let ?c = "if 16 * sizeof_Shdr > unat num * sizeof_Shdr then unat num * sizeof_Shdr else 16 * sizeof_Shdr"
  have "wp (bindE (ReadFromOffset fd ?c shoff) (\<lambda>(ok, bs).
      seqE (assertE nd (ok \<and> length bs mod sizeof_Shdr = 0))
      (if \<not> ok then throwE BadAccess
       else case find (\<lambda>h. sh_type h = type) (entries sizeof_Shdr to_Shdr bs) of
              Some h \<Rightarrow> retE (Some h)
            | None \<Rightarrow> GetSectionHeaderByType_loop nd fd num shoff type n (0 + length bs div sizeof_Shdr))))
    (\<lambda>_ _. False) (\<lambda>e _. e = OutOfFuel) s"
  proof (rule wp_call [OF read_at [OF Suc.prems(1,3)]], clarify)
    fix s1 :: Proc
    assume sk: "seeks fd s s1"
    have "wp (GetSectionHeaderByType_loop nd fd num shoff type n 0) (\<lambda>_ _. False) (\<lambda>e _. e = OutOfFuel) s1"
      using Suc.prems seeks_contents [OF sk] by (intro Suc.IH seeks_readable [OF sk]) auto
    then show "wp (seqE (assertE nd (True \<and> length (take ?c (drop (nat (sint shoff)) (contents fd s))) mod sizeof_Shdr = 0))
      (if \<not> True then throwE BadAccess
       else case find (\<lambda>h. sh_type h = type) (entries sizeof_Shdr to_Shdr (take ?c (drop (nat (sint shoff)) (contents fd s)))) of
              Some h \<Rightarrow> retE (Some h)
            | None \<Rightarrow> GetSectionHeaderByType_loop nd fd num shoff type n
                (0 + length (take ?c (drop (nat (sint shoff)) (contents fd s))) div sizeof_Shdr)))
      (\<lambda>_ _. False) (\<lambda>e _. e = OutOfFuel) s1"
      using Suc.prems(4) by (simp add: wp_simps entries_def)
  qed simp
  then show ?case using num by (simp add: Let_def)
qed

text \<open>The search of the object file as far as the header is read.\<close>

definition elf_header :: "byte list \<Rightarrow> Elf64_Ehdr" where
  "elf_header bs = to_Ehdr (take sizeof_Ehdr bs)"

definition is_elf :: "byte list \<Rightarrow> bool" where
  "is_elf bs \<longleftrightarrow> sizeof_Ehdr \<le> length bs \<and> take 4 bs = ELFMAG"

lemma header_read:
  assumes "readable fd s" and "is_elf (contents fd s)"
  shows "wp (ReadFromOffsetExact fd sizeof_Ehdr 0) (\<lambda>r s'. r = Some (take sizeof_Ehdr (contents fd s)) \<and> seeks fd s s') (\<lambda>_ _. False) s"
  using read_exact [OF assms(1), of 0 sizeof_Ehdr] assms(2) by (simp add: is_elf_def)

lemma elf_type_read:
  assumes "readable fd s" and "is_elf (contents fd s)"
  shows "wp (FileGetElfType fd) (\<lambda>r s'. r \<noteq> None \<and> seeks fd s s') (\<lambda>_ _. False) s"
  unfolding FileGetElfType_def
  by (rule wp_call [OF header_read [OF assms]])
    (use assms(2) in \<open>auto simp: wp_simps is_elf_def to_Ehdr_def Let_def sizeof_Ehdr_def min_def\<close>)

definition cut_short :: "byte list \<Rightarrow> bool" where
  "cut_short bs \<longleftrightarrow> is_elf bs \<and> e_shnum (elf_header bs) \<noteq> 0 \<and>
     0 \<le> sint (e_shoff (elf_header bs)) \<and> length bs \<le> nat (sint (e_shoff (elf_header bs)))"

lemma wp_stuck: "wp m (\<lambda>_ _. False) E s \<Longrightarrow> wp (bindE m f) (\<lambda>_ _. False) E s"
  by (simp add: wp_bindE wp_mono)

lemma cut_short_object:
  assumes "readable fd s" and "cut_short (contents fd s)"
  shows "wp (GetSymbolFromObjectFile nd fuel fd pc out a) (\<lambda>_ _. False) (\<lambda>e _. e = OutOfFuel) s"
proof -
  have "wp (symbol_of_table nd fuel fd pc (elf_header (contents fd s)) off SHT_SYMTAB out) (\<lambda>_ _. False) (\<lambda>e _. e = OutOfFuel) s1"
    if "seeks fd s s1" for off s1
    unfolding symbol_of_table_def GetSectionHeaderByType_def
    by (intro wp_stuck cut_short_loop seeks_readable [OF that])
      (use assms seeks_contents [OF that] in \<open>simp_all add: cut_short_def\<close>)
  then show ?thesis unfolding GetSymbolFromObjectFile_def
    by (intro wp_call [OF header_read])
      (use assms in \<open>auto simp: Let_def cut_short_def elf_header_def intro: wp_stuck\<close>)
qed

text \<open>Running \<^verbatim>\<open>SymbolizeAndDemangle\<close> when the mapping is found and its file is an ELF file.\<close>

definition object_of :: "64 word \<Rightarrow> SpEnv \<Rightarrow> mapping list \<Rightarrow> mapping \<Rightarrow> byte list \<Rightarrow> Proc \<Rightarrow> bool" where
  "object_of pc env ms m bs s \<longleftrightarrow> quiet s \<and> p_files s (ascii ''/proc/self/maps'') = Some (maps_text ms) \<and>
     length (sp_garbage env) = 1024 \<and> (\<forall>m \<in> set ms. map_line_ok 1024 m) \<and> length ms < sp_fuel env \<and>
     map_target pc ms = Some m \<and> p_files s (m_path m) = Some bs"

lemma symbolize_run:
  assumes "object_of pc env ms m bs s"
  obtains fd s1 where "readable fd s1" and "contents fd s1 = bs"
    and "SymbolizeAndDemangle env pc s = with_fd fd (symbolize_object env pc (m_start m) fd) s1"
proof -
  obtain r s1 where run: "OpenObjectFileContainingPcAndGetStartAddress (sp_ndebug env) (sp_fuel env) (sp_garbage env) pc s = (Inr r, s1)" "quiet s1"
    and r: "r = (Some (length (p_fds s) + 1), m_start m)" "p_fds s1 = p_fds s @ [None, Some \<lparr>of_bytes = bs, of_off = 0\<rparr>]"
    using OpenObjectFile_opens [of s ms "sp_garbage env" "sp_fuel env" "sp_ndebug env" pc] assms by (auto simp: object_of_def)
  show thesis
  proof (rule that)
    show "readable (length (p_fds s) + 1) s1" "contents (length (p_fds s) + 1) s1 = bs"
      using r run(2) by (simp_all add: readable_def contents_def open_file_def nth_append)
    show "SymbolizeAndDemangle env pc s = with_fd (length (p_fds s) + 1) (symbolize_object env pc (m_start m) (length (p_fds s) + 1)) s1"
      by (simp add: SymbolizeAndDemangle_def run_simps run(1) r(1))
  qed
qed

text \<open>
  C38 An object file that was cut short hangs the stack trace. When the file of the mapping still begins with its
  ELF header but ends before its section headers, as after it was replaced or truncated on disk, the loop over the
  section headers reads no header and does not advance: with every number of rounds it has not
  ended. Every exception of the library prints a stack trace when it is thrown.
\<close>

theorem cut_short_object_hangs:
  assumes "object_of pc env ms m bs s" and "cut_short bs"
  shows "fst (SymbolizeAndDemangle env pc s) = Inl OutOfFuel"
proof -
  obtain fd s1 where fd: "readable fd s1" "contents fd s1 = bs"
    and run: "SymbolizeAndDemangle env pc s = with_fd fd (symbolize_object env pc (m_start m) fd) s1" by (rule symbolize_run [OF assms(1)])
  have "wp (symbolize_object env pc (m_start m) fd) (\<lambda>_ _. False) (\<lambda>e _. e = OutOfFuel) s1"
    unfolding symbolize_object_def
  proof (rule wp_call [OF elf_type_read [OF fd(1)]])
    show "is_elf (contents fd s1)" using assms(2) fd(2) by (simp add: cut_short_def)
  next
    fix r s2
    assume "r \<noteq> None \<and> seeks fd s1 s2"
    then show "wp (if r = None then retE unknown
      else bindE (GetSymbolFromObjectFile (sp_ndebug env) (sp_fuel env) fd pc (replicate 1024 0) (m_start m)) (\<lambda>(found, buffer).
          if \<not> found then retE unknown
          else bindE (DemangleSymbol (sp_demangle env) (takeWhile (\<lambda>c. c \<noteq> 0) buffer)) (\<lambda>name.
               retE (DEFAULT_STACK_PREFIX @ name)))) (\<lambda>_ _. False) (\<lambda>e _. e = OutOfFuel) s2"
      using seeks_readable [OF _ fd(1)] seeks_contents [of fd s1 s2] assms(2) fd(2)
      by (auto intro!: wp_stuck cut_short_object)
  qed simp
  then have "wp (with_fd fd (symbolize_object env pc (m_start m) fd)) (\<lambda>_ _. False) (\<lambda>e _. e = OutOfFuel) s1"
    by (intro wp_with_fd) (auto elim!: wp_mono)
  then show ?thesis by (auto simp: run wp_def split: prod.splits sum.splits)
qed

section \<open>Symbols as a function of the file\<close>

definition section_at :: "byte list \<Rightarrow> nat \<Rightarrow> Elf64_Shdr" where
  "section_at bs i = to_Shdr (take sizeof_Shdr (drop (unat (e_shoff (elf_header bs)) + i * sizeof_Shdr) bs))"

definition sections :: "byte list \<Rightarrow> Elf64_Shdr list" where
  "sections bs = map (section_at bs) [0..<unat (e_shnum (elf_header bs))]"

definition symbols :: "byte list \<Rightarrow> Elf64_Shdr \<Rightarrow> Elf64_Sym list" where
  "symbols bs tab = map (\<lambda>i. to_Sym (take sizeof_Sym (drop (unat (sh_offset tab) + i * sizeof_Sym) bs))) [0..<unat (sh_size tab) div sizeof_Sym]"

definition symbol_name :: "byte list \<Rightarrow> Elf64_Shdr \<Rightarrow> Elf64_Sym \<Rightarrow> byte list" where
  "symbol_name bs strtab sym0 = takeWhile (\<lambda>c. c \<noteq> 0) (drop (unat (sh_offset strtab) + unat (st_name sym0)) bs)"

text \<open>
  An ELF file whose section headers, symbol table and names are in the file. \<open>elf_symbol\<close> is the reference: the name
  of the first symbol of the table that contains \<open>pc\<close>, for a file that is mapped at \<open>base\<close>.
\<close>

definition elf_complete :: "byte list \<Rightarrow> bool" where
  "elf_complete bs \<longleftrightarrow> is_elf bs \<and> int (length bs) < 2 ^ 63 \<and>
     unat (e_shoff (elf_header bs)) + unat (e_shnum (elf_header bs)) * sizeof_Shdr \<le> length bs"

definition symtab_ok :: "byte list \<Rightarrow> Elf64_Shdr \<Rightarrow> bool" where
  "symtab_ok bs tab \<longleftrightarrow> sh_entsize tab = of_nat sizeof_Sym \<and> unat (sh_offset tab) + unat (sh_size tab) \<le> length bs \<and>
     int (unat (sh_size tab) div sizeof_Sym) < 2 ^ 30"

definition name_ok :: "byte list \<Rightarrow> Elf64_Shdr \<Rightarrow> Elf64_Sym \<Rightarrow> bool" where
  "name_ok bs strtab sym0 \<longleftrightarrow>
     unat (sh_offset strtab) + unat (st_name sym0) < length bs \<and> length (symbol_name bs strtab sym0) < 1024 \<and>
     0 \<in> set (drop (unat (sh_offset strtab) + unat (st_name sym0)) bs)"

definition elf_symbol :: "byte list \<Rightarrow> 64 word \<Rightarrow> 64 word \<Rightarrow> byte list option" where
  "elf_symbol bs base pc =
     (case find (\<lambda>h. sh_type h = SHT_SYMTAB) (sections bs) of
        None \<Rightarrow> None
      | Some tab \<Rightarrow>
          let strtab = section_at bs (unat (sh_link tab)); off = (if e_type (elf_header bs) = ET_DYN then base else 0)
          in if \<not> symtab_ok bs tab \<or> unat (sh_link tab) \<ge> length (sections bs) then None
             else case find (symbol_contains off pc) (symbols bs tab) of
                    None \<Rightarrow> None
                  | Some sym0 \<Rightarrow> if name_ok bs strtab sym0 then Some (symbol_name bs strtab sym0) else None)"

lemma sint_small: "int (unat w) < 2 ^ 63 \<Longrightarrow> sint (w :: 64 word) = int (unat w)"
proof -
  assume a: "int (unat w) < 2 ^ 63"
  have "signed_take_bit 63 (uint w) = uint w"
    by (rule signed_take_bit_int_eq_self) (use a order_trans [OF _ uint_ge_0 [of w]] in simp_all)
  then show ?thesis by (simp add: sint_uint)
qed

lemma unat_plus_small: "unat (w :: 64 word) + k < 2 ^ 63 \<Longrightarrow> unat (w + of_nat k) = unat w + k"
  by (simp add: unat_word_ariths unat_of_nat)

lemma read_pos:
  assumes "readable fd s" and "contents fd s = bs" and "unat offset = p" and "p \<le> length bs" and "int (length bs) < 2 ^ 63"
  shows "wp (ReadFromOffset fd count offset) (\<lambda>r s'. r = (True, take count (drop p bs)) \<and> seeks fd s s') (\<lambda>_ _. False) s"
proof -
  have "int (unat offset) < 2 ^ 63" using assms(3-5) by (metis le_less_trans of_nat_le_iff)
  then have "sint offset = int p" using sint_small assms(3) by blast
  then show ?thesis using read_at [OF assms(1), of offset count] assms(2) by simp
qed

lemma entries_take:
  assumes "0 < sz"
  shows "entries sz to (take n (drop off bs)) =
    map (\<lambda>i. to (take sz (drop (off + i * sz) bs))) [0..<length (take n (drop off bs)) div sz]"
  unfolding entries_def
proof (rule map_cong [OF refl])
  fix i
  assume "i \<in> set [0..<length (take n (drop off bs)) div sz]"
  then have "Suc i * sz \<le> length (take n (drop off bs))"
    using assms by (metis atLeastLessThan_iff less_eq_div_iff_mult_less_eq Suc_leI set_upt)
  then have "i * sz + sz \<le> n" by simp
  then have "take sz (drop (i * sz) (take n (drop off bs))) = take sz (drop (off + i * sz) bs)"
    by (simp add: drop_take min_def add.commute)
  then show "to (take sz (drop (i * sz) (take n (drop off bs)))) = to (take sz (drop (off + i * sz) bs))" by simp
qed

lemma find_append: "find P (xs @ ys) = (case find P xs of Some x \<Rightarrow> Some x | None \<Rightarrow> find P ys)"
  by (induction xs) auto

lemma find_drop: "find P (drop i xs) = (case find P (take c (drop i xs)) of Some x \<Rightarrow> Some x | None \<Rightarrow> find P (drop (i + c) xs))"
proof -
  have "take c (drop i xs) @ drop (i + c) xs = drop i xs" by (metis append_take_drop_id drop_drop add.commute)
  then show ?thesis using find_append [of P "take c (drop i xs)" "drop (i + c) xs"] by simp
qed

section \<open>Searching them\<close>

lemma section_chunk:
  assumes "elf_complete bs" and "i + c \<le> unat (e_shnum (elf_header bs))"
  shows "entries sizeof_Shdr to_Shdr (take (c * sizeof_Shdr) (drop (unat (e_shoff (elf_header bs)) + i * sizeof_Shdr) bs)) = take c (drop i (sections bs))"
    and "length (take (c * sizeof_Shdr) (drop (unat (e_shoff (elf_header bs)) + i * sizeof_Shdr) bs)) = c * sizeof_Shdr"
proof -
  have "unat (e_shoff (elf_header bs)) + (i + c) * sizeof_Shdr \<le> length bs"
    using assms by (simp add: elf_complete_def) (meson add_left_mono le_trans mult_le_mono1)
  then show len: "length (take (c * sizeof_Shdr) (drop (unat (e_shoff (elf_header bs)) + i * sizeof_Shdr) bs)) = c * sizeof_Shdr"
    by (simp add: add_mult_distrib)
  have sz: "0 < sizeof_Shdr" by (simp add: sizeof_Shdr_def)
  show "entries sizeof_Shdr to_Shdr (take (c * sizeof_Shdr) (drop (unat (e_shoff (elf_header bs)) + i * sizeof_Shdr) bs)) = take c (drop i (sections bs))"
    unfolding entries_take [OF sz] len using assms(2) sz
    by (intro nth_equalityI) (simp_all add: sections_def section_at_def add_mult_distrib add.assoc)
qed

lemma section_offset:
  assumes "elf_complete bs" and "i \<le> unat (e_shnum (elf_header bs))"
  shows "unat (e_shoff (elf_header bs) + of_nat (i * sizeof_Shdr)) = unat (e_shoff (elf_header bs)) + i * sizeof_Shdr"
    and "unat (e_shoff (elf_header bs)) + i * sizeof_Shdr \<le> length bs"
proof -
  show "unat (e_shoff (elf_header bs)) + i * sizeof_Shdr \<le> length bs"
    using assms by (simp add: elf_complete_def) (meson add_left_mono le_trans mult_le_mono1)
  then show "unat (e_shoff (elf_header bs) + of_nat (i * sizeof_Shdr)) = unat (e_shoff (elf_header bs)) + i * sizeof_Shdr"
    using assms(1) by (intro unat_plus_small) (simp add: elf_complete_def)
qed

lemma sections_searched:
  assumes "readable fd s" and "contents fd s = bs" and "elf_complete bs" and "i \<le> unat (e_shnum (elf_header bs))"
    and "unat (e_shnum (elf_header bs)) \<le> n + i"
  shows "wp (GetSectionHeaderByType_loop nd fd (e_shnum (elf_header bs)) (e_shoff (elf_header bs)) type n i)
    (\<lambda>r s'. r = find (\<lambda>h. sh_type h = type) (drop i (sections bs)) \<and> seeks fd s s') (\<lambda>_ _. False) s"
  using assms
proof (induction n arbitrary: s i)
  case 0
  then have "drop i (sections bs) = []" by (simp add: sections_def)
  with 0 show ?case using seeks_refl by (simp add: wp_simps readable_def)
next
  case (Suc n)
  define num where "num = unat (e_shnum (elf_header bs))"
  define c where "c = min 16 (num - i)"
  show ?case
  proof (cases "i < num")
    case False
    then have "drop i (sections bs) = []" using Suc.prems(4) by (simp add: sections_def num_def)
    with False show ?thesis using seeks_refl Suc.prems(1) by (simp add: wp_simps num_def readable_def)
  next
    case True
    have c: "0 < c" "i + c \<le> num" "(if 16 * sizeof_Shdr > (num - i) * sizeof_Shdr then (num - i) * sizeof_Shdr else 16 * sizeof_Shdr) = c * sizeof_Shdr"
      using True by (auto simp: c_def min_def sizeof_Shdr_def)
    define ds where "ds = take (c * sizeof_Shdr) (drop (unat (e_shoff (elf_header bs)) + i * sizeof_Shdr) bs)"
    have "length ds = c * sizeof_Shdr" and chunk: "entries sizeof_Shdr to_Shdr ds = take c (drop i (sections bs))"
      unfolding ds_def by (rule section_chunk [OF assms(3) c(2) [unfolded num_def]])+
    then have len: "length ds mod sizeof_Shdr = 0" "length ds div sizeof_Shdr = c" by (simp_all add: sizeof_Shdr_def)
    note off = section_offset [OF assms(3), of i, folded num_def, OF less_imp_le [OF True]]
    have rd: "wp (ReadFromOffset fd (c * sizeof_Shdr) (e_shoff (elf_header bs) + of_nat (i * sizeof_Shdr)))
      (\<lambda>r s'. r = (True, ds) \<and> seeks fd s s') (\<lambda>_ _. False) s"
      unfolding ds_def by (rule read_pos [OF Suc.prems(1,2) off]) (use assms(3) in \<open>simp add: elf_complete_def\<close>)
    have rest: "wp (GetSectionHeaderByType_loop nd fd (e_shnum (elf_header bs)) (e_shoff (elf_header bs)) type n (i + c))
      (\<lambda>r s'. r = find (\<lambda>h. sh_type h = type) (drop (i + c) (sections bs)) \<and> seeks fd s s') (\<lambda>_ _. False) s1" if "seeks fd s s1" for s1
      using Suc.IH [of s1 "i + c"] seeks_readable [OF that Suc.prems(1)] seeks_contents [OF that] Suc.prems(2,5) assms(3) c(1,2) seeks_trans [OF that]
      by (auto simp: num_def elim!: wp_mono)
    show ?thesis unfolding GetSectionHeaderByType_loop.simps Let_def num_def [symmetric] c(3) if_P [OF True]
      by (rule wp_call [OF rd])
        (auto simp: chunk len wp_simps rest find_drop [of _ i "sections bs" c] split: option.splits)
  qed
qed

text \<open>A round of \<^verbatim>\<open>FindSymbol\<close> sees the next 32 symbols of the table, or the rest of the table and whatever follows it.\<close>

lemma symbol_chunk:
  assumes "symtab_ok bs tab" and "i < length (symbols bs tab)"
    and "ds = take (NUM_SYMBOLS * sizeof_Sym) (drop (unat (sh_offset tab) + i * sizeof_Sym) bs)"
    and "d = min NUM_SYMBOLS (length (symbols bs tab) - i)"
  shows "take d (entries sizeof_Sym to_Sym ds) = take d (drop i (symbols bs tab))"
    and "d = NUM_SYMBOLS \<Longrightarrow> length ds div sizeof_Sym = d" and "0 < d"
    and "d = NUM_SYMBOLS \<Longrightarrow> length (entries sizeof_Sym to_Sym ds) = d"
proof -
  let ?n = "length (symbols bs tab)"
  have sz: "0 < sizeof_Sym" by (simp add: sizeof_Sym_def)
  have n: "?n = unat (sh_size tab) div sizeof_Sym" by (simp add: symbols_def)
  then have "?n * sizeof_Sym \<le> unat (sh_size tab)" by simp
  moreover have "i + d \<le> ?n" using assms(2,4) by simp
  ultimately have "(i + d) * sizeof_Sym \<le> unat (sh_size tab)" by (meson le_trans mult_le_mono1)
  then have "unat (sh_offset tab) + i * sizeof_Sym + d * sizeof_Sym \<le> length bs"
    using assms(1) by (simp add: symtab_ok_def add_mult_distrib)
  then have "d * sizeof_Sym \<le> length bs - (unat (sh_offset tab) + i * sizeof_Sym)" by simp
  moreover have "d * sizeof_Sym \<le> NUM_SYMBOLS * sizeof_Sym" using assms(4) by simp
  ultimately have len: "d * sizeof_Sym \<le> length ds" "length ds \<le> NUM_SYMBOLS * sizeof_Sym" using assms(3) by simp_all
  have "d * sizeof_Sym div sizeof_Sym \<le> length ds div sizeof_Sym" by (rule div_le_mono [OF len(1)])
  then have dl: "d \<le> length ds div sizeof_Sym" using sz by simp
  have "length ds div sizeof_Sym \<le> NUM_SYMBOLS * sizeof_Sym div sizeof_Sym" by (rule div_le_mono [OF len(2)])
  then have ld: "length ds div sizeof_Sym \<le> NUM_SYMBOLS" using sz by simp
  show "d = NUM_SYMBOLS \<Longrightarrow> length ds div sizeof_Sym = d" "d = NUM_SYMBOLS \<Longrightarrow> length (entries sizeof_Sym to_Sym ds) = d"
    using dl ld by (simp_all add: entries_def)
  show "0 < d" using assms(2,4) by (simp add: NUM_SYMBOLS_def)
  have "entries sizeof_Sym to_Sym ds = map (\<lambda>j. to_Sym (take sizeof_Sym (drop (unat (sh_offset tab) + i * sizeof_Sym + j * sizeof_Sym) bs))) [0..<length ds div sizeof_Sym]"
    unfolding assms(3) by (rule entries_take [OF sz])
  then show "take d (entries sizeof_Sym to_Sym ds) = take d (drop i (symbols bs tab))"
    using dl \<open>i + d \<le> ?n\<close> by (intro nth_equalityI) (simp_all add: symbols_def add_mult_distrib add.assoc)
qed

lemma symbol_offset_pos:
  assumes "symtab_ok bs tab" and "int (length bs) < 2 ^ 63" and "i < length (symbols bs tab)"
  shows "unat (sh_offset tab + word_of_int (int i) * sh_entsize tab) = unat (sh_offset tab) + i * sizeof_Sym"
    and "unat (sh_offset tab) + i * sizeof_Sym \<le> length bs"
proof -
  have "i * sizeof_Sym \<le> unat (sh_size tab)"
    using assms(3) by (simp add: symbols_def) (metis div_times_less_eq_dividend less_imp_le mult_le_mono1 order_trans)
  then show le: "unat (sh_offset tab) + i * sizeof_Sym \<le> length bs" using assms(1) by (simp add: symtab_ok_def)
  have "unat (sh_offset tab + of_nat (i * sizeof_Sym)) = unat (sh_offset tab) + i * sizeof_Sym"
    using le assms(2) by (intro unat_plus_small) simp
  then show "unat (sh_offset tab + word_of_int (int i) * sh_entsize tab) = unat (sh_offset tab) + i * sizeof_Sym"
    using assms(1) by (simp add: symtab_ok_def)
qed

lemma take_terminated: "length xs < n \<Longrightarrow> take n (xs @ c # r) = xs @ c # take (n - Suc (length xs)) r"
  by (cases "n - length xs") (auto simp: diff_Suc)

lemma name_read:
  assumes "readable fd s" and "contents fd s = bs" and "int (length bs) < 2 ^ 63" and "name_ok bs strtab sym0" and "length out = 1024"
  shows "wp (bindE (ReadFromOffset fd (length out) (sh_offset strtab + ucast (st_name sym0))) (\<lambda>(ok1, bs1).
      let out' = store_buf bs1 out in retE (ok1 \<and> bs1 \<noteq> [] \<and> 0 \<in> set out', out')))
    (\<lambda>r s'. fst r \<and> takeWhile (\<lambda>c. c \<noteq> 0) (snd r) = symbol_name bs strtab sym0 \<and> seeks fd s s') (\<lambda>_ _. False) s"
proof -
  let ?p = "unat (sh_offset strtab) + unat (st_name sym0)"
  have p: "?p < length bs" "length (symbol_name bs strtab sym0) < 1024" "0 \<in> set (drop ?p bs)" using assms(4) by (simp_all add: name_ok_def)
  have "ucast (st_name sym0) = (of_nat (unat (st_name sym0)) :: 64 word)" by simp
  then have u: "unat (sh_offset strtab + ucast (st_name sym0)) = ?p" using p(1) assms(3) unat_plus_small [of "sh_offset strtab" "unat (st_name sym0)"] by simp
  have split: "drop ?p bs = symbol_name bs strtab sym0 @ dropWhile (\<lambda>c. c \<noteq> 0) (drop ?p bs)" by (simp add: symbol_name_def)
  obtain r where r: "dropWhile (\<lambda>c. c \<noteq> 0) (drop ?p bs) = 0 # r"
    using p(3) by (metis (mono_tags, lifting) dropWhile_eq_Nil_conv hd_dropWhile list.collapse)
  have nz: "0 \<notin> set (symbol_name bs strtab sym0)" by (auto simp: symbol_name_def dest: set_takeWhileD)
  have t: "take 1024 (drop ?p bs) = symbol_name bs strtab sym0 @ 0 # take (1024 - Suc (length (symbol_name bs strtab sym0))) r"
    by (subst split, subst r, rule take_terminated [OF p(2)])
  show ?thesis unfolding assms(5)
    by (rule wp_call [OF read_pos [OF assms(1,2) u less_imp_le [OF p(1)] assms(3)]])
      (use t nz in \<open>auto simp: wp_simps store_buf_def While_separator\<close>)
qed

lemma symbol_searched:
  assumes "readable fd s" and "contents fd s = bs" and "int (length bs) < 2 ^ 63" and "symtab_ok bs tab" and "name_ok bs strtab sym0"
    and "length out = 1024" and "find (symbol_contains off pc) (drop i (symbols bs tab)) = Some sym0" and "length (symbols bs tab) \<le> n + i"
  shows "wp (FindSymbol_loop True pc fd off strtab tab (int (length (symbols bs tab))) n (int i) out)
    (\<lambda>r s'. fst r \<and> takeWhile (\<lambda>c. c \<noteq> 0) (snd r) = symbol_name bs strtab sym0 \<and> seeks fd s s') (\<lambda>_ _. False) s"
  using assms
proof (induction n arbitrary: s i)
  case 0
  then show ?case by simp
next
  case (Suc n)
  let ?n = "length (symbols bs tab)"
  define d where "d = min NUM_SYMBOLS (?n - i)"
  define ds where "ds = take (NUM_SYMBOLS * sizeof_Sym) (drop (unat (sh_offset tab) + i * sizeof_Sym) bs)"
  have i: "i < ?n" using Suc.prems(7) by (cases "i < ?n") auto
  then have ii: "int i < int ?n" by simp
  note chunk = symbol_chunk [OF assms(4) i ds_def d_def]
  have rd: "wp (ReadFromOffset fd (NUM_SYMBOLS * sizeof_Sym) (sh_offset tab + word_of_int (int i) * sh_entsize tab))
    (\<lambda>r s'. r = (True, ds) \<and> seeks fd s s') (\<lambda>_ _. False) s"
    unfolding ds_def by (rule read_pos [OF Suc.prems(1,2) symbol_offset_pos [OF assms(4,3) i] assms(3)])
  have name: "wp (bindE (ReadFromOffset fd (length out) (sh_offset strtab + ucast (st_name sym0))) (\<lambda>(ok1, bs1).
      let out' = store_buf bs1 out in retE (ok1 \<and> bs1 \<noteq> [] \<and> 0 \<in> set out', out')))
    (\<lambda>r s'. fst r \<and> takeWhile (\<lambda>c. c \<noteq> 0) (snd r) = symbol_name bs strtab sym0 \<and> seeks fd s s') (\<lambda>_ _. False) s1" if "seeks fd s s1" for s1
    by (rule wp_mono [OF name_read [OF seeks_readable [OF that Suc.prems(1)] _ assms(3,5,6)]])
      (use seeks_contents [OF that] Suc.prems(2) seeks_trans [OF that] in auto)
  show ?case
  proof (cases "find (symbol_contains off pc) (take d (drop i (symbols bs tab)))")
    case (Some x)
    then have "x = sym0" using Suc.prems(7) find_drop [of "symbol_contains off pc" i "symbols bs tab" d] by simp
    then have "find (symbol_contains off pc) (entries sizeof_Sym to_Sym ds) = Some sym0"
      using Some chunk(1) find_drop [of "symbol_contains off pc" 0 "entries sizeof_Sym to_Sym ds" d] by simp
    then show ?thesis unfolding FindSymbol_loop.simps if_P [OF ii]
      by (intro wp_call [OF rd]) (auto simp: wp_simps name simp del: wp_bindE)
  next
    case None
    then have later: "find (symbol_contains off pc) (drop (i + d) (symbols bs tab)) = Some sym0"
      using Suc.prems(7) find_drop [of "symbol_contains off pc" i "symbols bs tab" d] by simp
    then have "i + d < ?n" by (cases "i + d < ?n") auto
    then have d: "d = NUM_SYMBOLS" by (simp add: d_def)
    have "find (symbol_contains off pc) (entries sizeof_Sym to_Sym ds) = None"
      using None chunk(1) chunk(4) [OF d] by simp
    moreover have "int32 (int i + int (length ds div sizeof_Sym)) = int (i + d)"
    proof -
      have "int ?n < 2 ^ 30" using assms(4) by (simp add: symtab_ok_def symbols_def)
      then show ?thesis using \<open>i + d < ?n\<close> chunk(2) [OF d] by (simp add: int32_id)
    qed
    moreover have "wp (FindSymbol_loop True pc fd off strtab tab (int ?n) n (int (i + d)) out)
      (\<lambda>r s'. fst r \<and> takeWhile (\<lambda>c. c \<noteq> 0) (snd r) = symbol_name bs strtab sym0 \<and> seeks fd s s') (\<lambda>_ _. False) s1" if "seeks fd s s1" for s1
      by (rule wp_mono [OF Suc.IH [OF seeks_readable [OF that Suc.prems(1)] _ assms(3-6) later]])
        (use seeks_contents [OF that] Suc.prems(2,8) seeks_trans [OF that] chunk(3) in auto)
    ultimately show ?thesis unfolding FindSymbol_loop.simps if_P [OF ii]
      by (intro wp_call [OF rd]) (auto simp: wp_simps)
  qed
qed

lemma read_exact_pos:
  assumes "readable fd s" and "contents fd s = bs" and "unat offset = p" and "p + count \<le> length bs" and "int (length bs) < 2 ^ 63"
  shows "wp (ReadFromOffsetExact fd count offset) (\<lambda>r s'. r = Some (take count (drop p bs)) \<and> seeks fd s s') (\<lambda>_ _. False) s"
  unfolding ReadFromOffsetExact_def
  by (rule wp_call [OF read_pos [OF assms(1-3) _ assms(5)]]) (use assms(4) in \<open>auto simp: wp_simps\<close>)

definition table_rounds :: "byte list \<Rightarrow> nat" where
  "table_rounds bs = length (sections bs) + sum_list (map (\<lambda>h. unat (sh_size h)) (sections bs))"

lemma FindSymbol_finds:
  assumes "readable fd s" and "contents fd s = bs" and "int (length bs) < 2 ^ 63" and "symtab_ok bs tab" and "name_ok bs strtab sym0"
    and "length out = 1024" and "find (symbol_contains off pc) (symbols bs tab) = Some sym0" and "unat (sh_size tab) \<le> fuel"
  shows "wp (FindSymbol True fuel pc fd out off strtab tab)
    (\<lambda>r s'. fst r \<and> takeWhile (\<lambda>c. c \<noteq> 0) (snd r) = symbol_name bs strtab sym0 \<and> seeks fd s s') (\<lambda>_ _. False) s"
proof -
  have e: "sh_entsize tab = 24" using assms(4) by (simp add: symtab_ok_def sizeof_Sym_def)
  have n: "length (symbols bs tab) = unat (sh_size tab) div 24" by (simp add: symbols_def sizeof_Sym_def)
  have "uint (sh_size tab div sh_entsize tab) = int (length (symbols bs tab))"
    unfolding e n by (simp add: uint_div zdiv_int)
  moreover have "int (length (symbols bs tab)) < 2 ^ 30" using assms(4) by (simp add: symtab_ok_def symbols_def)
  ultimately have num: "int32 (uint (sh_size tab div sh_entsize tab)) = int (length (symbols bs tab))" by (simp add: int32_id)
  have "length (symbols bs tab) \<le> fuel" unfolding n using assms(8) by simp
  then show ?thesis using symbol_searched [OF assms(1-6), of off pc 0 fuel] assms(7) e by (simp add: FindSymbol_def num [unfolded e])
qed

lemma table_found:
  assumes "readable fd s" and "contents fd s = bs" and "elf_complete bs" and "length out = 1024" and "table_rounds bs \<le> fuel"
    and "elf_symbol bs base pc = Some name"
  shows "wp (symbol_of_table True fuel fd pc (elf_header bs) (if e_type (elf_header bs) = ET_DYN then base else 0) SHT_SYMTAB out)
    (\<lambda>r s'. \<exists>b. r = Some (True, b) \<and> takeWhile (\<lambda>c. c \<noteq> 0) b = name \<and> seeks fd s s') (\<lambda>_ _. False) s"
proof -
  let ?off = "if e_type (elf_header bs) = ET_DYN then base else 0"
  obtain tab sym0 where tab: "find (\<lambda>h. sh_type h = SHT_SYMTAB) (sections bs) = Some tab" and ok: "symtab_ok bs tab"
    and link: "unat (sh_link tab) < length (sections bs)" and sym0: "find (symbol_contains ?off pc) (symbols bs tab) = Some sym0"
    and nm: "name_ok bs (section_at bs (unat (sh_link tab))) sym0" "name = symbol_name bs (section_at bs (unat (sh_link tab))) sym0"
    using assms(6) by (auto simp: elf_symbol_def Let_def split: option.splits if_splits)
  have big: "int (length bs) < 2 ^ 63" using assms(3) by (simp add: elf_complete_def)
  have rounds: "unat (e_shnum (elf_header bs)) \<le> fuel" using assms(5) by (simp add: table_rounds_def sections_def)
  have "tab \<in> set (sections bs)" using tab by (auto simp: find_Some_iff)
  then have "unat (sh_size tab) \<le> fuel" using assms(5) member_le_sum_list [of "unat (sh_size tab)" "map (\<lambda>h. unat (sh_size h)) (sections bs)"]
    by (force simp: table_rounds_def)
  have s1: "wp (GetSectionHeaderByType True fuel fd (e_shnum (elf_header bs)) (e_shoff (elf_header bs)) SHT_SYMTAB)
    (\<lambda>r s'. r = Some tab \<and> seeks fd s s') (\<lambda>_ _. False) s"
    using sections_searched [OF assms(1-3), of 0 fuel True SHT_SYMTAB] rounds tab by (simp add: GetSectionHeaderByType_def)
  have le: "Suc (unat (sh_link tab)) \<le> unat (e_shnum (elf_header bs))" using link by (simp add: sections_def)
  have pos: "unat (e_shoff (elf_header bs) + ucast (sh_link tab) * of_nat sizeof_Shdr) = unat (e_shoff (elf_header bs)) + unat (sh_link tab) * sizeof_Shdr"
    using section_offset(1) [OF assms(3), of "unat (sh_link tab)"] le by simp
  have s2: "wp (ReadFromOffsetExact fd sizeof_Shdr (e_shoff (elf_header bs) + ucast (sh_link tab) * of_nat sizeof_Shdr))
    (\<lambda>r s'. r = Some (take sizeof_Shdr (drop (unat (e_shoff (elf_header bs)) + unat (sh_link tab) * sizeof_Shdr) bs)) \<and> seeks fd s s') (\<lambda>_ _. False) s1"
    if "seeks fd s s1" for s1
    by (rule wp_mono [OF read_exact_pos [OF seeks_readable [OF that assms(1)] _ pos _ big]])
      (use seeks_contents [OF that] assms(2) seeks_trans [OF that] section_offset(2) [OF assms(3) le] in auto)
  have s3: "wp (FindSymbol True fuel pc fd out ?off (section_at bs (unat (sh_link tab))) tab)
    (\<lambda>r s'. fst r \<and> takeWhile (\<lambda>c. c \<noteq> 0) (snd r) = name \<and> seeks fd s s') (\<lambda>_ _. False) s2" if "seeks fd s s2" for s2
    unfolding nm(2)
    by (rule wp_mono [OF FindSymbol_finds [OF seeks_readable [OF that assms(1)] _ big ok nm(1) assms(4) sym0 \<open>unat (sh_size tab) \<le> fuel\<close>]])
      (use seeks_contents [OF that] assms(2) seeks_trans [OF that] in auto)
  show ?thesis unfolding symbol_of_table_def
  proof (rule wp_call [OF s1], clarify, unfold option.case, rule wp_call [OF s2], assumption, clarify, unfold option.case)
    fix s2 :: Proc
    assume "seeks fd s s2"
    then show "wp (bindE (FindSymbol True fuel pc fd out ?off
        (to_Shdr (take sizeof_Shdr (drop (unat (e_shoff (elf_header bs)) + unat (sh_link tab) * sizeof_Shdr) bs))) tab) (\<lambda>found. retE (Some found)))
      (\<lambda>r s'. \<exists>b. r = Some (True, b) \<and> takeWhile (\<lambda>c. c \<noteq> 0) b = name \<and> seeks fd s s') (\<lambda>_ _. False) s2"
      unfolding section_at_def [symmetric] by (rule wp_call [OF s3]) (auto simp: wp_simps)
  qed simp_all
qed

text \<open>
  C25 The stack trace names the function. In a build without assertions, when the table of mappings is in the
  format of the kernel and leads from an address to a complete ELF file (the conditions \<open>elf_complete\<close>), of which the
  symbol table has a symbol that contains the address, and the demangler knows its name, the line of
  the trace is the demangled name of the first such symbol, relative to the mapping for a shared
  object, however the calls are interrupted and the reads cut short, as long as none fails. With assertions the property does not hold: the read of 32 symbols
  goes past the end of the table, and where the file ends within what would be a symbol the
  assertion on the number of bytes aborts the process.
\<close>

theorem symbol_printed:
  assumes "object_of pc env ms m bs s" and "sp_ndebug env" and "elf_complete bs" and "table_rounds bs \<le> sp_fuel env"
    and "elf_symbol bs (m_start m) pc = Some name" and "sp_demangle env name = (0, Some demangled)"
  shows "fst (SymbolizeAndDemangle env pc s) = Inr (DEFAULT_STACK_PREFIX @ demangled)"
proof -
  obtain fd s1 where fd: "readable fd s1" "contents fd s1 = bs"
    and run: "SymbolizeAndDemangle env pc s = with_fd fd (symbolize_object env pc (m_start m) fd) s1" by (rule symbolize_run [OF assms(1)])
  have elf: "is_elf (contents fd s2)" if "contents fd s2 = bs" for s2 using assms(3) that by (simp add: elf_complete_def)
  have sym0: "wp (GetSymbolFromObjectFile True (sp_fuel env) fd pc (replicate 1024 0) (m_start m))
    (\<lambda>r s'. fst r \<and> takeWhile (\<lambda>c. c \<noteq> 0) (snd r) = name) (\<lambda>_ _. False) s2" if r2: "readable fd s2" "contents fd s2 = bs" for s2
    unfolding GetSymbolFromObjectFile_def
  proof (rule wp_call [OF header_read [OF r2(1) elf [OF r2(2)]]], clarify, unfold option.case Let_def)
    fix s3 :: Proc
    assume sk: "seeks fd s2 s3"
    have r3: "readable fd s3" "contents fd s3 = bs" using seeks_readable [OF sk r2(1)] seeks_contents [OF sk] r2(2) by simp_all
    show "wp (bindE (symbol_of_table True (sp_fuel env) fd pc (to_Ehdr (take sizeof_Ehdr (contents fd s2)))
        (if e_type (to_Ehdr (take sizeof_Ehdr (contents fd s2))) = ET_DYN then m_start m else 0) SHT_SYMTAB (replicate 1024 0)) (\<lambda>r. case r of
          None \<Rightarrow> retE (False, replicate 1024 0)
        | Some (True, out) \<Rightarrow> retE (True, out)
        | Some (False, out) \<Rightarrow>
            bindE (symbol_of_table True (sp_fuel env) fd pc (to_Ehdr (take sizeof_Ehdr (contents fd s2)))
              (if e_type (to_Ehdr (take sizeof_Ehdr (contents fd s2))) = ET_DYN then m_start m else 0) SHT_DYNSYM out) (\<lambda>r. case r of
                None \<Rightarrow> retE (False, out)
              | Some found \<Rightarrow> retE found)))
      (\<lambda>r s'. fst r \<and> takeWhile (\<lambda>c. c \<noteq> 0) (snd r) = name) (\<lambda>_ _. False) s3"
      unfolding elf_header_def [symmetric] r2(2)
      by (rule wp_call [OF table_found [OF r3 assms(3) _ assms(4,5)]]) (auto simp: wp_simps)
  qed simp
  have "wp (symbolize_object env pc (m_start m) fd) (\<lambda>r _. r = DEFAULT_STACK_PREFIX @ demangled) (\<lambda>_ _. False) s1"
    unfolding symbolize_object_def
  proof (rule wp_call [OF elf_type_read [OF fd(1) elf [OF fd(2)]]])
    fix r s2
    assume r: "r \<noteq> None \<and> seeks fd s1 s2"
    then have "readable fd s2" "contents fd s2 = bs" using seeks_readable [OF _ fd(1)] seeks_contents fd(2) by auto
    note found = wp_call [OF sym0 [OF this]]
    show "wp (if r = None then retE unknown
      else bindE (GetSymbolFromObjectFile (sp_ndebug env) (sp_fuel env) fd pc (replicate 1024 0) (m_start m)) (\<lambda>(found, buffer).
          if \<not> found then retE unknown
          else bindE (DemangleSymbol (sp_demangle env) (takeWhile (\<lambda>c. c \<noteq> 0) buffer)) (\<lambda>name.
               retE (DEFAULT_STACK_PREFIX @ name)))) (\<lambda>r _. r = DEFAULT_STACK_PREFIX @ demangled) (\<lambda>_ _. False) s2"
      unfolding if_not_P [OF conjunct1 [OF r]] eqTrueI [OF assms(2)]
      by (rule found) (use assms(6) in \<open>auto simp: wp_simps DemangleSymbol_def\<close>)
  qed simp
  then have "wp (with_fd fd (symbolize_object env pc (m_start m) fd)) (\<lambda>r _. r = DEFAULT_STACK_PREFIX @ demangled) (\<lambda>_ _. False) s1"
    by (intro wp_with_fd) (auto elim!: wp_mono)
  then show ?thesis by (auto simp: run wp_def split: prod.splits sum.splits)
qed

section \<open>A sample file\<close>

definition make_Ehdr :: "16 word \<Rightarrow> 64 word \<Rightarrow> 16 word \<Rightarrow> byte list" where
  "make_Ehdr type shoff shnum = ELFMAG @ replicate 12 0 @ le_bytes 2 type @ replicate 22 0 @ le_bytes 8 shoff @ replicate 10 0 @
     le_bytes 2 (64 :: 16 word) @ le_bytes 2 shnum @ replicate 2 0"

definition make_Shdr :: "32 word \<Rightarrow> 64 word \<Rightarrow> 64 word \<Rightarrow> 32 word \<Rightarrow> 64 word \<Rightarrow> byte list" where
  "make_Shdr type off sz link entsize = replicate 4 0 @ le_bytes 4 type @ replicate 16 0 @ le_bytes 8 off @ le_bytes 8 sz @
     le_bytes 4 link @ replicate 12 0 @ le_bytes 8 entsize"

definition make_Sym :: "32 word \<Rightarrow> 16 word \<Rightarrow> 64 word \<Rightarrow> 64 word \<Rightarrow> byte list" where
  "make_Sym name shndx val sz = le_bytes 4 name @ replicate 2 0 @ le_bytes 2 shndx @ le_bytes 8 val @ le_bytes 8 sz"

text \<open>An executable with a null section, a symbol table of two functions and their names.\<close>

definition sample_elf :: "byte list" where
  "sample_elf = make_Ehdr 2 64 3 @ make_Shdr 0 0 0 0 0 @ make_Shdr SHT_SYMTAB 256 48 2 24 @ make_Shdr 3 304 12 0 0 @
     make_Sym 1 1 0x401000 0x100 @ make_Sym 6 1 0x401200 0x80 @ [0] @ ascii ''init'' @ [0] @ ascii ''main'' @ [0, 0]"

definition sample_env :: SpEnv where
  "sample_env = \<lparr>sp_ndebug = True, sp_fuel = 100, sp_garbage = replicate 1024 0, sp_demangle = (\<lambda>name. (0, Some (name @ ascii ''()'')))\<rparr>"

lemma sample_object:
  assumes "Failed \<notin> set script"
  shows "object_of 0x401234 sample_env sample_maps (sample_maps ! 1) bs (sample_proc bs script)"
proof -
  have "map_target 0x401234 sample_maps = Some (sample_maps ! 1)" "length sample_maps < sp_fuel sample_env"
    "m_path (sample_maps ! 1) = ascii ''/bin/cat''" "ascii ''/bin/cat'' \<noteq> ascii ''/proc/self/maps''" by code_simp+
  then show ?thesis using assms sample_maps_ok by (simp add: object_of_def quiet_def sample_proc_def) (simp add: sample_env_def)
qed

theorem symbol_printed_witness:
  "fst (SymbolizeAndDemangle sample_env 0x401234 (sample_proc sample_elf [Interrupted, Short 3, Full, Short 5])) =
     Inr (DEFAULT_STACK_PREFIX @ ascii ''main()'')"
proof (rule symbol_printed [OF sample_object])
  show "elf_complete sample_elf" "table_rounds sample_elf \<le> sp_fuel sample_env" by code_simp+
  show "elf_symbol sample_elf (m_start (sample_maps ! 1)) 0x401234 = Some (ascii ''main'')" by code_simp
  show "sp_demangle sample_env (ascii ''main'') = (0, Some (ascii ''main()''))" by code_simp
qed (simp_all add: sample_env_def)

theorem cut_short_object_hangs_witness:
  "fst (SymbolizeAndDemangle sample_env 0x401234 (sample_proc (take 64 sample_elf) [Interrupted, Full])) = Inl OutOfFuel"
proof (rule cut_short_object_hangs [OF sample_object])
  show "cut_short (take 64 sample_elf)" by code_simp
qed simp

end
