(* ===== verification/GW_TcpSocket.thy ===== *)
theory GW_TcpSocket
  imports GW_Messages
begin

unbundle bit_operations_syntax

text \<open>
  \<^verbatim>\<open>src/network/TcpSocket.cpp\<close>: a TCP client socket with timeouts. The system calls of
  \<^verbatim>\<open>Syscall.h\<close>, the clock and the user's cancel callback are parameters that act on a state of the
  operating system; a call that fails gives its \<^verbatim>\<open>errno\<close>. A build for Linux is modelled, where
  \<^verbatim>\<open>disableSigPipe\<close> is empty.
\<close>

section \<open>The socket and its system\<close>

record TcpSocketImpl =
  sock :: int
  lingerTimeout :: int
  remoteAddr :: string

definition TcpSocketImpl_new :: TcpSocketImpl where
  "TcpSocketImpl_new = \<lparr>sock = - 1, lingerTimeout = - 1, remoteAddr = []\<rparr>"

record addrinfo =
  ai_family :: int
  ai_socktype :: int
  ai_protocol :: int
  ai_addr :: "byte list"

datatype sockopt = SO_LINGER bool int | SO_SNDTIMEO int int | TCP_NODELAY int

record 'n Syscall =
  sys_recv :: "int \<Rightarrow> nat \<Rightarrow> 'n \<Rightarrow> (int + byte list) \<times> 'n"
  sys_send :: "int \<Rightarrow> byte list \<Rightarrow> 'n \<Rightarrow> (int + nat) \<times> 'n"
  sys_poll :: "int \<Rightarrow> bool \<Rightarrow> bool \<Rightarrow> int \<Rightarrow> 'n \<Rightarrow> (int + nat) \<times> 'n"
  sys_getaddrinfo :: "string \<Rightarrow> string \<Rightarrow> 'n \<Rightarrow> (int + addrinfo list) \<times> 'n"
  sys_freeaddrinfo :: "addrinfo list \<Rightarrow> 'n \<Rightarrow> 'n"
  sys_socket :: "addrinfo \<Rightarrow> 'n \<Rightarrow> (int + int) \<times> 'n"
  sys_connect :: "int \<Rightarrow> addrinfo \<Rightarrow> 'n \<Rightarrow> (int + unit) \<times> 'n"
  sys_getpeername :: "int \<Rightarrow> 'n \<Rightarrow> (int + unit) \<times> 'n"
  sys_getfl :: "int \<Rightarrow> 'n \<Rightarrow> (int + 32 word) \<times> 'n"
  sys_setfl :: "int \<Rightarrow> 32 word \<Rightarrow> 'n \<Rightarrow> (int + unit) \<times> 'n"
  sys_setsockopt :: "int \<Rightarrow> sockopt \<Rightarrow> 'n \<Rightarrow> (int + unit) \<times> 'n"
  sys_shutdown :: "int \<Rightarrow> 'n \<Rightarrow> 'n"
  sys_close :: "int \<Rightarrow> 'n \<Rightarrow> 'n"
  sys_now :: "'n \<Rightarrow> int \<times> 'n"
  sys_canceled :: "'n \<Rightarrow> bool option \<times> 'n"

record 'n Net =
  n_socket :: TcpSocketImpl
  n_errno :: int
  n_os :: 'n

type_synonym ('n, 'a) sockM = "('n Net, gw_error, 'a) gw"

text \<open>The numbers of Linux.\<close>

definition EINTR :: int where "EINTR = 4"
definition EWOULDBLOCK :: int where "EWOULDBLOCK = 11"
definition ETIMEDOUT :: int where "ETIMEDOUT = 110"
definition EINPROGRESS :: int where "EINPROGRESS = 115"
definition O_NONBLOCK :: "32 word" where "O_NONBLOCK = 0x800"

definition getSock :: "('n, int) sockM" where
  "getSock = getsE (\<lambda>s. sock (n_socket s))"

definition modSock :: "(TcpSocketImpl \<Rightarrow> TcpSocketImpl) \<Rightarrow> ('n, unit) sockM" where
  "modSock g = modifyE (\<lambda>s. s\<lparr>n_socket := g (n_socket s)\<rparr>)"

text \<open>A system call: \<open>None\<close> is the return value -1, with \<^verbatim>\<open>errno\<close> set.\<close>

definition sysE :: "('n \<Rightarrow> (int + 'a) \<times> 'n) \<Rightarrow> ('n, 'a option) sockM" where
  "sysE call = (\<lambda>s. case call (n_os s) of
     (Inl e, os) \<Rightarrow> (Inr None, s\<lparr>n_errno := e, n_os := os\<rparr>)
   | (Inr x, os) \<Rightarrow> (Inr (Some x), s\<lparr>n_os := os\<rparr>))"

definition osE :: "('n \<Rightarrow> 'a \<times> 'n) \<Rightarrow> ('n, 'a) sockM" where
  "osE call = (\<lambda>s. case call (n_os s) of (x, os) \<Rightarrow> (Inr x, s\<lparr>n_os := os\<rparr>))"

definition checkCanceled :: "'n Syscall \<Rightarrow> ('n, bool) sockM" where
  "checkCanceled sys = bindE (osE (sys_canceled sys)) (\<lambda>callback. pureE (CheckOperationCanceled callback))"

text \<open>\<^verbatim>\<open>do { rc = call; } while (-1 == rc && EINTR == errno && !CheckOperationCanceled())\<close>\<close>

primrec retry :: "'n Syscall \<Rightarrow> nat \<Rightarrow> ('n \<Rightarrow> (int + 'a) \<times> 'n) \<Rightarrow> ('n, 'a option) sockM" where
  "retry sys 0 call = throwE OutOfFuel"
| "retry sys (Suc n) call =
     bindE (sysE call) (\<lambda>rc.
     bindE (getsE n_errno) (\<lambda>e.
     if rc = None \<and> e = EINTR then seqE (checkCanceled sys) (retry sys n call) else retE rc))"

text \<open>\<^verbatim>\<open>ToMilliSeconds\<close> of \<^verbatim>\<open>DateTime.h\<close>; time points are in nanoseconds.\<close>

definition ToMilliSeconds :: "bool \<Rightarrow> int \<Rightarrow> int \<Rightarrow> ('n, int) sockM" where
  "ToMilliSeconds nd s e = seqE (assertE nd (e \<ge> s)) (retE ((e - s) sdiv 1000000))"

section \<open>Transfer\<close>

definition sock_poll :: "bool \<Rightarrow> 'n Syscall \<Rightarrow> nat \<Rightarrow> bool \<Rightarrow> bool \<Rightarrow> int \<Rightarrow> ('n, bool) sockM" where
  "sock_poll nd sys fuel rd wr timeout =
     bindE getSock (\<lambda>fd.
     seqE (assertE nd (fd \<noteq> - 1))
    (bindE (retry sys fuel (sys_poll sys fd rd wr timeout)) (\<lambda>rc.
     case rc of None \<Rightarrow> THROW GopherwoodNetworkException | Some n \<Rightarrow> retE (n \<noteq> 0))))"

definition sock_read :: "bool \<Rightarrow> 'n Syscall \<Rightarrow> nat \<Rightarrow> int \<Rightarrow> ('n, byte list) sockM" where
  "sock_read nd sys fuel sz =
     bindE getSock (\<lambda>fd.
     seqE (assertE nd (fd \<noteq> - 1))
    (seqE (assertE nd (sz > 0))
    (bindE (retry sys fuel (sys_recv sys fd (nat (sz mod 2 ^ 64)))) (\<lambda>rc.
     case rc of
       None \<Rightarrow> THROW GopherwoodNetworkException
     | Some bs \<Rightarrow> if bs = [] then THROW GopherwoodEndOfStream else retE bs))))"

definition sock_write :: "bool \<Rightarrow> 'n Syscall \<Rightarrow> nat \<Rightarrow> byte list \<Rightarrow> ('n, int) sockM" where
  "sock_write nd sys fuel data =
     bindE getSock (\<lambda>fd.
     seqE (assertE nd (fd \<noteq> - 1))
    (seqE (assertE nd (data \<noteq> []))
    (bindE (retry sys fuel (sys_send sys fd data)) (\<lambda>rc.
     case rc of None \<Rightarrow> THROW GopherwoodNetworkException | Some n \<Rightarrow> retE (int n)))))"

text \<open>What a round does with the time it took.\<close>

definition new_deadline :: "bool \<Rightarrow> int \<Rightarrow> int \<Rightarrow> int \<Rightarrow> int \<Rightarrow> ('n, int) sockM" where
  "new_deadline nd timeout deadline s e =
     (if timeout > 0 then bindE (ToMilliSeconds nd s e) (\<lambda>ms. retE (int32 (deadline - ms))) else retE deadline)"

primrec readFully_loop :: "bool \<Rightarrow> 'n Syscall \<Rightarrow> nat \<Rightarrow> int \<Rightarrow> nat \<Rightarrow> int \<Rightarrow> int \<Rightarrow> byte list \<Rightarrow> ('n, byte list) sockM" where
  "readFully_loop nd sys fuel timeout 0 todo deadline buf = (if todo > 0 then throwE OutOfFuel else retE buf)"
| "readFully_loop nd sys fuel timeout (Suc n) todo deadline buf =
     (if todo > 0
      then bindE (osE (sys_now sys)) (\<lambda>s.
           seqE (checkCanceled sys)
          (bindE (sock_poll nd sys fuel True False deadline) (\<lambda>ready.
           bindE (if ready then sock_read nd sys fuel todo else retE []) (\<lambda>bs.
           bindE (osE (sys_now sys)) (\<lambda>e.
           bindE (new_deadline nd timeout deadline s e) (\<lambda>deadline'.
           let todo' = todo - int (length bs)
           in if todo' > 0 \<and> timeout \<ge> 0 \<and> deadline' \<le> 0 then THROW GopherwoodTimeoutException
              else readFully_loop nd sys fuel timeout n todo' deadline' (buf @ bs)))))))
      else retE buf)"

definition readFully :: "bool \<Rightarrow> 'n Syscall \<Rightarrow> nat \<Rightarrow> int \<Rightarrow> int \<Rightarrow> ('n, byte list) sockM" where
  "readFully nd sys fuel sz timeout =
     bindE getSock (\<lambda>fd.
     seqE (assertE nd (fd \<noteq> - 1))
    (seqE (assertE nd (sz > 0))
          (readFully_loop nd sys fuel timeout fuel sz timeout [])))"

primrec writeFully_loop :: "bool \<Rightarrow> 'n Syscall \<Rightarrow> nat \<Rightarrow> int \<Rightarrow> nat \<Rightarrow> byte list \<Rightarrow> int \<Rightarrow> ('n, unit) sockM" where
  "writeFully_loop nd sys fuel timeout 0 todo deadline = (if todo \<noteq> [] then throwE OutOfFuel else retE ())"
| "writeFully_loop nd sys fuel timeout (Suc n) todo deadline =
     (if todo \<noteq> []
      then bindE (osE (sys_now sys)) (\<lambda>s.
           seqE (checkCanceled sys)
          (bindE (sock_poll nd sys fuel False True deadline) (\<lambda>ready.
           bindE (if ready then sock_write nd sys fuel todo else retE 0) (\<lambda>rc.
           bindE (osE (sys_now sys)) (\<lambda>e.
           bindE (new_deadline nd timeout deadline s e) (\<lambda>deadline'.
           let todo' = drop (nat rc) todo
           in if todo' \<noteq> [] \<and> timeout \<ge> 0 \<and> deadline' \<le> 0 then THROW GopherwoodTimeoutException
              else writeFully_loop nd sys fuel timeout n todo' deadline'))))))
      else retE ())"

definition writeFully :: "bool \<Rightarrow> 'n Syscall \<Rightarrow> nat \<Rightarrow> byte list \<Rightarrow> int \<Rightarrow> ('n, unit) sockM" where
  "writeFully nd sys fuel data timeout =
     bindE getSock (\<lambda>fd.
     seqE (assertE nd (fd \<noteq> - 1))
    (seqE (assertE nd (data \<noteq> []))
          (writeFully_loop nd sys fuel timeout fuel data timeout)))"

section \<open>Connecting\<close>

definition setBlockMode :: "'n Syscall \<Rightarrow> bool \<Rightarrow> ('n, unit) sockM" where
  "setBlockMode sys enable =
     bindE getSock (\<lambda>fd.
     bindE (sysE (sys_getfl sys fd)) (\<lambda>flag.
     case flag of
       None \<Rightarrow> THROW GopherwoodNetworkException
     | Some fl \<Rightarrow>
         bindE (sysE (sys_setfl sys fd (if enable then fl AND NOT O_NONBLOCK else fl OR O_NONBLOCK))) (\<lambda>r.
         case r of None \<Rightarrow> THROW GopherwoodNetworkException | Some _ \<Rightarrow> retE ())))"

definition setOption :: "bool \<Rightarrow> 'n Syscall \<Rightarrow> sockopt \<Rightarrow> ('n, unit) sockM" where
  "setOption nd sys opt =
     bindE getSock (\<lambda>fd.
     seqE (assertE nd (fd \<noteq> - 1))
    (bindE (sysE (sys_setsockopt sys fd opt)) (\<lambda>r.
     case r of None \<Rightarrow> THROW GopherwoodNetworkException | Some _ \<Rightarrow> retE ())))"

definition setNoDelay :: "bool \<Rightarrow> 'n Syscall \<Rightarrow> bool \<Rightarrow> ('n, unit) sockM" where
  "setNoDelay nd sys enable = setOption nd sys (TCP_NODELAY (if enable then 1 else 0))"

definition setLingerTimeout :: "int \<Rightarrow> ('n, unit) sockM" where
  "setLingerTimeout timeout = modSock (\<lambda>t. t\<lparr>lingerTimeout := timeout\<rparr>)"

definition setLingerTimeoutInternal :: "bool \<Rightarrow> 'n Syscall \<Rightarrow> int \<Rightarrow> ('n, unit) sockM" where
  "setLingerTimeoutInternal nd sys timeout =
     setOption nd sys (SO_LINGER (timeout > 0) (if timeout > 0 then timeout else 0))"

definition setSendTimeout :: "bool \<Rightarrow> 'n Syscall \<Rightarrow> int \<Rightarrow> ('n, unit) sockM" where
  "setSendTimeout nd sys timeout =
     setOption nd sys (SO_SNDTIMEO (timeout sdiv 1000) ((timeout smod 1000) * 1000))"

definition sock_close :: "'n Syscall \<Rightarrow> ('n, unit) sockM" where
  "sock_close sys =
     bindE getSock (\<lambda>fd.
     whenE (fd \<noteq> - 1)
       (seqE (osE (\<lambda>os. ((), sys_close sys fd (sys_shutdown sys fd os))))
             (modSock (\<lambda>t. t\<lparr>sock := - 1\<rparr>))))"

text \<open>The attempt at a connection that is in progress, and the body of the \<^verbatim>\<open>try\<close> block.\<close>

definition await_connection :: "bool \<Rightarrow> 'n Syscall \<Rightarrow> nat \<Rightarrow> int \<Rightarrow> ('n, unit) sockM" where
  "await_connection nd sys fuel timeout =
     bindE (getsE n_errno) (\<lambda>err.
     if err \<noteq> EINPROGRESS \<and> err \<noteq> EWOULDBLOCK
     then (if err = ETIMEDOUT then THROW GopherwoodTimeoutException else THROW GopherwoodNetworkConnectException)
     else bindE (sock_poll nd sys fuel False True timeout) (\<lambda>ready.
          if \<not> ready then THROW GopherwoodTimeoutException
          else bindE getSock (\<lambda>fd.
               bindE (sysE (sys_getpeername sys fd)) (\<lambda>peer.
               case peer of
                 Some _ \<Rightarrow> retE ()
               | None \<Rightarrow>
                   bindE (sysE (sys_recv sys fd 1)) (\<lambda>rc.
                   seqE (assertE nd (rc = None))
                  (bindE (getsE n_errno) (\<lambda>e.
                   if e = ETIMEDOUT then THROW GopherwoodTimeoutException
                   else THROW GopherwoodNetworkConnectException)))))))"

definition connect_body :: "bool \<Rightarrow> 'n Syscall \<Rightarrow> nat \<Rightarrow> addrinfo \<Rightarrow> int \<Rightarrow> ('n, unit) sockM" where
  "connect_body nd sys fuel paddr timeout =
     seqE (setBlockMode sys False)
    (bindE getSock (\<lambda>fd.
     bindE (retry sys fuel (sys_connect sys fd paddr)) (\<lambda>rc.
     seqE (if rc = None then await_connection nd sys fuel timeout else retE ())
          (setBlockMode sys True))))"

definition connect_addr :: "bool \<Rightarrow> 'n Syscall \<Rightarrow> nat \<Rightarrow> addrinfo \<Rightarrow> int \<Rightarrow> ('n, unit) sockM" where
  "connect_addr nd sys fuel paddr timeout =
     bindE getSock (\<lambda>old.
     seqE (assertE nd (old = - 1))
    (bindE (sysE (sys_socket sys paddr)) (\<lambda>r.
     seqE (modSock (\<lambda>t. t\<lparr>sock := (case r of None \<Rightarrow> - 1 | Some fd \<Rightarrow> fd)\<rparr>))
     (if r = None then THROW GopherwoodNetworkException
      else bindE (getsE (\<lambda>s. lingerTimeout (n_socket s))) (\<lambda>l.
           seqE (whenE (l \<ge> 0) (setLingerTimeoutInternal nd sys l))
          (seqE (setSendTimeout nd sys 3600000)
                (catchExn (connect_body nd sys fuel paddr timeout)
                   (\<lambda>c. seqE (sock_close sys) (THROW c)))))))))"

text \<open>The loop over the addresses of a host; \<open>addrs\<close> is the whole list, which is freed on return.\<close>

primrec connect_loop :: "bool \<Rightarrow> 'n Syscall \<Rightarrow> nat \<Rightarrow> addrinfo list \<Rightarrow> int \<Rightarrow> addrinfo list \<Rightarrow> int \<Rightarrow> ('n, unit) sockM" where
  "connect_loop nd sys fuel addrs timeout [] deadline = retE ()"
| "connect_loop nd sys fuel addrs timeout (paddr # rest) deadline =
     bindE (osE (sys_now sys)) (\<lambda>s.
     seqE (checkCanceled sys)
    (seqE (catchExn (connect_addr nd sys fuel paddr deadline)
             (\<lambda>c. if (instance_of c GopherwoodNetworkConnectException \<or> instance_of c GopherwoodTimeoutException) \<and> rest \<noteq> []
                  then retE () else THROW c))
    (bindE getSock (\<lambda>fd.
     if fd \<noteq> - 1 then osE (\<lambda>os. ((), sys_freeaddrinfo sys addrs os))
     else bindE (osE (sys_now sys)) (\<lambda>e.
          bindE (new_deadline nd timeout deadline s e) (\<lambda>deadline'.
          if timeout \<ge> 0 \<and> deadline' \<le> 0 then THROW GopherwoodTimeoutException
          else connect_loop nd sys fuel addrs timeout rest deadline'))))))"

definition connect_host :: "bool \<Rightarrow> 'n Syscall \<Rightarrow> nat \<Rightarrow> string \<Rightarrow> string \<Rightarrow> int \<Rightarrow> ('n, unit) sockM" where
  "connect_host nd sys fuel host port timeout =
     bindE getSock (\<lambda>fd.
     seqE (assertE nd (fd = - 1))
    (bindE (osE (sys_getaddrinfo sys host port)) (\<lambda>r.
     case r of
       Inl _ \<Rightarrow> THROW GopherwoodNetworkConnectException
     | Inr addrs \<Rightarrow>
         seqE (modSock (\<lambda>t. t\<lparr>remoteAddr := [CHR 0x22] @ host @ '':'' @ port @ [CHR 0x22]\<rparr>))
              (catchExn (connect_loop nd sys fuel addrs timeout addrs timeout)
                 (\<lambda>c. seqE (osE (\<lambda>os. ((), sys_freeaddrinfo sys addrs os))) (THROW c))))))"

definition connect_port :: "bool \<Rightarrow> 'n Syscall \<Rightarrow> nat \<Rightarrow> string \<Rightarrow> int \<Rightarrow> int \<Rightarrow> ('n, unit) sockM" where
  "connect_port nd sys fuel host port timeout = connect_host nd sys fuel host (decimal_int port) timeout"

end
