(* ===== verification/GW_TcpProps.thy ===== *)
theory GW_TcpProps
  imports GW_TcpSocket
begin

text \<open>
  What the TCP socket guarantees: exact transfers in the order of the stream, their completion, and no
  socket or address list left behind by \<^verbatim>\<open>connect\<close>. The system calls are arbitrary functions that keep
  the laws stated with each theorem.
\<close>

section \<open>Rules for the system calls\<close>

lemma wp_osE [wp_simps]: "wp (osE call) Q E s = (case call (n_os s) of (x, os) \<Rightarrow> Q x (s\<lparr>n_os := os\<rparr>))"
  by (simp add: osE_def wp_def split: prod.splits)

lemma wp_sysE [wp_simps]:
  "wp (sysE call) Q E s = (case call (n_os s) of (Inl e, os) \<Rightarrow> Q None (s\<lparr>n_errno := e, n_os := os\<rparr>)
     | (Inr x, os) \<Rightarrow> Q (Some x) (s\<lparr>n_os := os\<rparr>))"
  by (auto simp: sysE_def wp_def split: prod.splits sum.splits)

lemma wp_checkCanceled [wp_simps]:
  "wp (checkCanceled sys) Q E s = (case sys_canceled sys (n_os s) of (c, os) \<Rightarrow>
     if c = Some True then E (Exn GopherwoodCanceled) (s\<lparr>n_os := os\<rparr>) else Q False (s\<lparr>n_os := os\<rparr>))"
  by (auto simp: checkCanceled_def wp_simps CheckOperationCanceled_def split: prod.splits option.splits bool.splits)

lemma wp_getSock [wp_simps]: "wp getSock Q E s = Q (sock (n_socket s)) s"
  by (simp add: getSock_def wp_simps)

lemma wp_modSock [wp_simps]: "wp (modSock g) Q E s = Q () (s\<lparr>n_socket := g (n_socket s)\<rparr>)"
  by (simp add: modSock_def wp_simps)

text \<open>A call that is interrupted and repeated: what holds before every attempt holds at the end, unless it succeeds.\<close>

lemma wp_retry:
  assumes "J (n_os s)"
    and "\<And>os. J os \<Longrightarrow> (case call os of (Inl _, os') \<Rightarrow> J os' | (Inr x, os') \<Rightarrow> R x os')"
    and "\<And>os. J os \<Longrightarrow> J (snd (sys_canceled sys os))"
  shows "wp (retry sys n call)
    (\<lambda>r s'. n_socket s' = n_socket s \<and> (case r of None \<Rightarrow> J (n_os s') | Some x \<Rightarrow> R x (n_os s')))
    (\<lambda>e s'. n_socket s' = n_socket s \<and> J (n_os s') \<and> e \<in> {OutOfFuel, Exn GopherwoodCanceled}) s"
  using assms(1)
proof (induction n arbitrary: s)
  case (Suc n)
  show ?case
  proof (cases "call (n_os s)")
    case (Pair r os)
    show ?thesis
    proof (cases r)
      case (Inl e)
      then have J: "J os" using assms(2) [OF Suc.prems] Pair by simp
      obtain c os' where c: "sys_canceled sys os = (c, os')" by fastforce
      have J': "J os'" using assms(3) [OF J] c by simp
      then show ?thesis
        using Pair Inl J c Suc.IH [of "s\<lparr>n_errno := e, n_os := os'\<rparr>"] by (auto simp: wp_simps)
    next
      case (Inr x)
      then show ?thesis using assms(2) [OF Suc.prems] Pair by (simp add: wp_simps)
    qed
  qed
qed (use assms in \<open>simp add: wp_simps\<close>)

section \<open>What is delivered\<close>

text \<open>
  What TCP promises about the bytes of a connection, seen through the system calls. \<open>incoming\<close> are the bytes from
  the peer that are still to be received, \<open>sent\<close> those that the peer has been sent: they arrive in
  order and none is lost or made up, and polling, reading the clock and asking the user leave them
  alone.
\<close>

definition quiet :: "'n Syscall \<Rightarrow> ('n \<Rightarrow> 'b) \<Rightarrow> bool" where
  "quiet sys g \<longleftrightarrow>
     (\<forall>fd r w t os. g (snd (sys_poll sys fd r w t os)) = g os) \<and>
     (\<forall>os. g (snd (sys_now sys os)) = g os) \<and> (\<forall>os. g (snd (sys_canceled sys os)) = g os)"

definition in_order :: "'n Syscall \<Rightarrow> ('n \<Rightarrow> byte list) \<Rightarrow> bool" where
  "in_order sys incoming \<longleftrightarrow> quiet sys incoming \<and>
     (\<forall>fd n os. case sys_recv sys fd n os of
        (Inl _, os') \<Rightarrow> incoming os' = incoming os
      | (Inr bs, os') \<Rightarrow> length bs \<le> n \<and> incoming os = bs @ incoming os')"

definition sends_in_order :: "'n Syscall \<Rightarrow> ('n \<Rightarrow> byte list) \<Rightarrow> bool" where
  "sends_in_order sys sent \<longleftrightarrow> quiet sys sent \<and>
     (\<forall>fd d os. case sys_send sys fd d os of
        (Inl _, os') \<Rightarrow> sent os' = sent os
      | (Inr n, os') \<Rightarrow> n \<le> length d \<and> sent os' = sent os @ take n d)"

text \<open>How a transfer can fail.\<close>

definition net_errors :: "bool \<Rightarrow> gw_error set" where
  "net_errors nd = {OutOfFuel, Exn GopherwoodNetworkException, Exn GopherwoodEndOfStream,
     Exn GopherwoodTimeoutException, Exn GopherwoodCanceled} \<union> (if nd then {} else {AssertAbort})"

lemma quietD:
  assumes "quiet sys g"
  shows "sys_poll sys fd r w t os = (x, os') \<Longrightarrow> g os' = g os" "sys_now sys os = (y, os') \<Longrightarrow> g os' = g os"
    "sys_canceled sys os = (z, os') \<Longrightarrow> g os' = g os"
  using assms by (metis quiet_def snd_conv)+

lemma in_orderD:
  assumes "in_order sys incoming" and "sys_recv sys fd n os = (Inr bs, os')"
  shows "length bs \<le> n \<and> incoming os = bs @ incoming os'"
  using assms(1) [unfolded in_order_def, THEN conjunct2, THEN spec [of _ fd], THEN spec [of _ n], THEN spec [of _ os]]
  by (simp add: assms(2))

lemma net_errors_simps [simp]: "OutOfFuel \<in> net_errors nd" "Exn GopherwoodNetworkException \<in> net_errors nd"
  "Exn GopherwoodEndOfStream \<in> net_errors nd" "Exn GopherwoodTimeoutException \<in> net_errors nd"
  "Exn GopherwoodCanceled \<in> net_errors nd" "AssertAbort \<in> net_errors False"
  by (simp_all add: net_errors_def)

lemma wp_sock_poll:
  assumes "quiet sys g"
  shows "wp (sock_poll nd sys fuel rd wr timeout) (\<lambda>_ s'. n_socket s' = n_socket s \<and> g (n_os s') = g (n_os s))
    (\<lambda>e s'. n_socket s' = n_socket s \<and> g (n_os s') = g (n_os s) \<and> e \<in> net_errors nd) s"
proof -
  have "wp (retry sys fuel (sys_poll sys fd rd wr timeout))
      (\<lambda>r s'. n_socket s' = n_socket s \<and> (case r of None \<Rightarrow> g (n_os s') = g (n_os s) | Some _ \<Rightarrow> g (n_os s') = g (n_os s)))
      (\<lambda>e s'. n_socket s' = n_socket s \<and> g (n_os s') = g (n_os s) \<and> e \<in> {OutOfFuel, Exn GopherwoodCanceled}) s" for fd
    using assms by (intro wp_retry) (auto simp: quiet_def dest: quietD [OF assms] split: prod.splits sum.splits)
  then have "wp (bindE (retry sys fuel (sys_poll sys fd rd wr timeout))
        (\<lambda>rc. case rc of None \<Rightarrow> THROW GopherwoodNetworkException | Some n \<Rightarrow> retE (n \<noteq> 0)))
      (\<lambda>_ s'. n_socket s' = n_socket s \<and> g (n_os s') = g (n_os s))
      (\<lambda>e s'. n_socket s' = n_socket s \<and> g (n_os s') = g (n_os s) \<and> e \<in> net_errors nd) s" for fd
    by (rule wp_call) (auto simp: wp_simps split: option.splits)
  then show ?thesis
    unfolding sock_poll_def
    by (cases nd) (simp_all add: wp_getSock wp_assertE wp_seqE wp_bindE del: bot_nat_0.not_eq_extremum neq0_conv)
qed

lemma wp_sock_read:
  assumes "in_order sys incoming" and "0 < sz" and "sz < 2 ^ 31"
  shows "wp (sock_read nd sys fuel sz)
    (\<lambda>bs s'. n_socket s' = n_socket s \<and> int (length bs) \<le> sz \<and> incoming (n_os s) = bs @ incoming (n_os s'))
    (\<lambda>e s'. n_socket s' = n_socket s \<and> incoming (n_os s') = incoming (n_os s) \<and> e \<in> net_errors nd) s"
proof -
  have quiet: "quiet sys incoming"
    and recv: "case sys_recv sys fd n os of (Inl _, os') \<Rightarrow> incoming os' = incoming os
        | (Inr bs, os') \<Rightarrow> length bs \<le> n \<and> incoming os = bs @ incoming os'" for fd n os
    using assms(1) by (auto simp: in_order_def)
  have m: "nat (sz mod 2 ^ 64) = nat sz" using assms(2,3) by simp
  have "wp (retry sys fuel (sys_recv sys fd (nat sz)))
      (\<lambda>r s'. n_socket s' = n_socket s \<and> (case r of None \<Rightarrow> incoming (n_os s') = incoming (n_os s)
         | Some bs \<Rightarrow> int (length bs) \<le> sz \<and> incoming (n_os s) = bs @ incoming (n_os s')))
      (\<lambda>e s'. n_socket s' = n_socket s \<and> incoming (n_os s') = incoming (n_os s) \<and> e \<in> {OutOfFuel, Exn GopherwoodCanceled}) s" for fd
  proof (rule wp_retry)
    fix os assume "incoming os = incoming (n_os s)"
    then show "case sys_recv sys fd (nat sz) os of (Inl _, os') \<Rightarrow> incoming os' = incoming (n_os s)
        | (Inr bs, os') \<Rightarrow> int (length bs) \<le> sz \<and> incoming (n_os s) = bs @ incoming os'"
      using recv [where fd = fd and n = "nat sz" and os = os] assms(2) by (auto split: prod.splits sum.splits)
    show "incoming (snd (sys_canceled sys os)) = incoming (n_os s)"
      using quiet \<open>incoming os = incoming (n_os s)\<close> by (simp add: quiet_def)
  qed simp
  then have "wp (bindE (retry sys fuel (sys_recv sys fd (nat sz)))
        (\<lambda>rc. case rc of None \<Rightarrow> THROW GopherwoodNetworkException
           | Some bs \<Rightarrow> if bs = [] then THROW GopherwoodEndOfStream else retE bs))
      (\<lambda>bs s'. n_socket s' = n_socket s \<and> int (length bs) \<le> sz \<and> incoming (n_os s) = bs @ incoming (n_os s'))
      (\<lambda>e s'. n_socket s' = n_socket s \<and> incoming (n_os s') = incoming (n_os s) \<and> e \<in> net_errors nd) s" for fd
    by (rule wp_call) (auto simp: wp_simps split: option.splits)
  then show ?thesis
    unfolding sock_read_def m using assms(2) by (cases nd) (simp_all add: wp_getSock wp_assertE wp_seqE wp_bindE)
qed

text \<open>The time a round takes changes nothing but the deadline.\<close>

lemma wp_new_deadline:
  "wp (new_deadline nd timeout deadline b e) (\<lambda>_ s'. s' = s) (\<lambda>x s'. s' = s \<and> x \<in> net_errors nd) s"
  by (cases nd) (simp_all add: new_deadline_def ToMilliSeconds_def wp_simps)

text \<open>
  One round of a transfer: look at the clock, ask the user, poll, transfer, look at the clock again. \<open>same\<close> is
  what the system calls other than the transfer keep.
\<close>

definition same :: "('n \<Rightarrow> 'b) \<Rightarrow> 'n Net \<Rightarrow> 'n Net \<Rightarrow> bool" where
  "same g s s' \<longleftrightarrow> n_socket s' = n_socket s \<and> g (n_os s') = g (n_os s)"

lemma wp_round:
  assumes "quiet sys g"
    and cancel: "\<And>os os' s'. sys_canceled sys os = (Some True, os') \<Longrightarrow> same g s s' \<Longrightarrow> E (Exn GopherwoodCanceled) s'"
    and poll: "\<And>s1. same g s s1 \<Longrightarrow> wp (sock_poll nd sys fuel rd wr deadline) (\<lambda>ready s'. B ready \<and> same g s s') E s1"
    and op: "\<And>ready s1. B ready \<Longrightarrow> same g s s1 \<Longrightarrow> wp (op ready) T E s1"
    and dl: "\<And>x b e s2 s3. T x s2 \<Longrightarrow> same g s2 s3 \<Longrightarrow> wp (new_deadline nd timeout deadline b e) (\<lambda>_ s'. s' = s3) E s3"
    and rest: "\<And>x d s2 s3. T x s2 \<Longrightarrow> same g s2 s3 \<Longrightarrow> wp (k x d) Q E s3"
  shows "wp (bindE (osE (sys_now sys)) (\<lambda>b. seqE (checkCanceled sys)
      (bindE (sock_poll nd sys fuel rd wr deadline) (\<lambda>ready. bindE (op ready) (\<lambda>x. bindE (osE (sys_now sys)) (\<lambda>e.
       bindE (new_deadline nd timeout deadline b e) (k x))))))) Q E s"
proof -
  obtain b os1 where 1: "sys_now sys (n_os s) = (b, os1)" by fastforce
  obtain c os2 where 2: "sys_canceled sys os1 = (c, os2)" by fastforce
  have os2: "same g s (s\<lparr>n_os := os2\<rparr>)" using quietD [OF assms(1)] 1 2 by (metis Net.select_convs Net.surjective Net.update_convs(3) same_def)
  have tail: "wp (bindE (osE (sys_now sys)) (\<lambda>e. bindE (new_deadline nd timeout deadline b e) (k x))) Q E s2" if "T x s2" for x s2
  proof -
    obtain e os where e: "sys_now sys (n_os s2) = (e, os)" by fastforce
    then have "same g s2 (s2\<lparr>n_os := os\<rparr>)" using quietD(2) [OF assms(1) e] by (simp add: same_def)
    then have "wp (bindE (new_deadline nd timeout deadline b e) (k x)) Q E (s2\<lparr>n_os := os\<rparr>)"
      by (intro wp_call [OF dl [OF that]]) (use rest that in auto)
    then show ?thesis using e by (simp only: wp_bindE [of "osE _"] wp_osE prod.case)
  qed
  have "wp (bindE (sock_poll nd sys fuel rd wr deadline) (\<lambda>ready. bindE (op ready) (\<lambda>x. bindE (osE (sys_now sys)) (\<lambda>e.
       bindE (new_deadline nd timeout deadline b e) (k x))))) Q E (s\<lparr>n_os := os2\<rparr>)"
    using op tail by (intro wp_call [OF poll [OF os2]] wp_call [where Q' = T and E' = E]) auto
  moreover have "E (Exn GopherwoodCanceled) (s\<lparr>n_os := os2\<rparr>)" if "c = Some True"
    using cancel [OF _ os2] 2 that by blast
  ultimately show ?thesis
    using 1 2 by (cases "c = Some True") (simp_all add: wp_bindE [of "osE _"] wp_osE wp_seqE wp_checkCanceled)
qed

lemma readFully_loop_in_order:
  assumes "in_order sys incoming" and "0 \<le> todo" and "todo < 2 ^ 31"
  shows "wp (readFully_loop nd sys fuel timeout n todo deadline buf)
    (\<lambda>bs s'. \<exists>got. bs = buf @ got \<and> int (length got) = todo \<and> incoming (n_os s) = got @ incoming (n_os s'))
    (\<lambda>e s'. e \<in> net_errors nd \<and> (\<exists>got. int (length got) \<le> todo \<and> incoming (n_os s) = got @ incoming (n_os s'))) s"
  (is "wp _ (?Q buf todo s) (?E todo s) s")
  using assms(2,3)
proof (induction n arbitrary: todo deadline buf s)
  case (Suc n)
  note quiet = assms(1) [unfolded in_order_def, THEN conjunct1]
  let ?T = "\<lambda>bs s'. int (length bs) \<le> todo \<and> incoming (n_os s) = bs @ incoming (n_os s')"
  have fail: "?E todo s e s'" if "?T bs s2" "same incoming s2 s'" "e \<in> net_errors nd" for bs s2 s' e
    using that by (intro conjI exI [of _ bs]) (auto simp: same_def)
  have fail0: "?E todo s e s'" if "same incoming s s'" "e \<in> net_errors nd" for s' e
    using that Suc.prems by (intro conjI exI [of _ "[]"]) (auto simp: same_def)
  have rest: "wp (let todo' = todo - int (length bs)
       in if todo' > 0 \<and> timeout \<ge> 0 \<and> d \<le> 0 then THROW GopherwoodTimeoutException
          else readFully_loop nd sys fuel timeout n todo' d (buf @ bs)) (?Q buf todo s) (?E todo s) s3"
    if T: "?T bs s2" and "same incoming s2 s3" for bs d s2 s3
  proof -
    let ?todo = "todo - int (length bs)"
    have T3: "?T bs s3" using that by (simp add: same_def)
    have "wp (readFully_loop nd sys fuel timeout n ?todo d (buf @ bs)) (?Q (buf @ bs) ?todo s3) (?E ?todo s3) s3"
      using Suc.IH [of ?todo d "buf @ bs" s3] T Suc.prems(2) by simp
    then have "wp (readFully_loop nd sys fuel timeout n ?todo d (buf @ bs)) (?Q buf todo s) (?E todo s) s3"
    proof (rule wp_mono)
      fix x s' assume "?Q (buf @ bs) ?todo s3 x s'"
      then obtain got where "x = (buf @ bs) @ got" "int (length got) = ?todo" "incoming (n_os s3) = got @ incoming (n_os s')" by auto
      then show "?Q buf todo s x s'" using T3 by (intro exI [of _ "bs @ got"]) simp
    next
      fix x s' assume "?E ?todo s3 x s'"
      then obtain got where "x \<in> net_errors nd" "int (length got) \<le> ?todo" "incoming (n_os s3) = got @ incoming (n_os s')" by auto
      then show "?E todo s x s'" using T3 by (intro conjI exI [of _ "bs @ got"]) simp_all
    qed
    moreover have "?E todo s (Exn GopherwoodTimeoutException) s3" by (rule fail [OF that]) simp
    ultimately show ?thesis by (auto simp only: Let_def wp_THROW split: if_split)
  qed
  show ?case
  proof (cases "todo > 0")
    case True
    have step: "wp (if ready then sock_read nd sys fuel todo else retE []) ?T (?E todo s) s1" if "same incoming s s1" for ready s1
      using wp_mono [OF wp_sock_read [OF assms(1) True Suc.prems(2), of nd fuel s1], of ?T "?E todo s"] that fail0 True
      by (auto simp: wp_simps same_def)
    have poll: "wp (sock_poll nd sys fuel True False deadline) (\<lambda>_ s'. True \<and> same incoming s s') (?E todo s) s1"
      if "same incoming s s1" for s1
      by (rule wp_mono [OF wp_sock_poll [OF quiet]]) (use that fail0 in \<open>auto simp: same_def\<close>)
    have dl: "wp (new_deadline nd timeout deadline b e) (\<lambda>_ s'. s' = s3) (?E todo s) s3"
      if "?T bs s2" "same incoming s2 s3" for bs b e s2 s3
      by (rule wp_mono [OF wp_new_deadline]) (use fail [OF that] in auto)
    show ?thesis
      unfolding readFully_loop.simps if_P [OF True]
      by (rule wp_round [OF quiet _ poll step dl rest]) (rule fail0, assumption, simp)
  qed (use Suc.prems in \<open>simp add: wp_simps\<close>)
qed (simp add: wp_simps)

text \<open>The same for writing.\<close>

lemma wp_sock_write:
  assumes "sends_in_order sys sent" and "data \<noteq> []"
  shows "wp (sock_write nd sys fuel data)
    (\<lambda>n s'. n_socket s' = n_socket s \<and> 0 \<le> n \<and> n \<le> int (length data) \<and> sent (n_os s') = sent (n_os s) @ take (nat n) data)
    (\<lambda>e s'. n_socket s' = n_socket s \<and> sent (n_os s') = sent (n_os s) \<and> e \<in> net_errors nd) s"
proof -
  have quiet: "quiet sys sent"
    and send: "case sys_send sys fd data os of (Inl _, os') \<Rightarrow> sent os' = sent os
        | (Inr n, os') \<Rightarrow> n \<le> length data \<and> sent os' = sent os @ take n data" for fd os
    using assms(1) by (auto simp: sends_in_order_def)
  have "wp (retry sys fuel (sys_send sys fd data))
      (\<lambda>r s'. n_socket s' = n_socket s \<and> (case r of None \<Rightarrow> sent (n_os s') = sent (n_os s)
         | Some n \<Rightarrow> n \<le> length data \<and> sent (n_os s') = sent (n_os s) @ take n data))
      (\<lambda>e s'. n_socket s' = n_socket s \<and> sent (n_os s') = sent (n_os s) \<and> e \<in> {OutOfFuel, Exn GopherwoodCanceled}) s" for fd
  proof (rule wp_retry)
    fix os assume "sent os = sent (n_os s)"
    then show "case sys_send sys fd data os of (Inl _, os') \<Rightarrow> sent os' = sent (n_os s)
        | (Inr n, os') \<Rightarrow> n \<le> length data \<and> sent os' = sent (n_os s) @ take n data"
      using send [where fd = fd and os = os] by (auto split: prod.splits sum.splits)
    show "sent (snd (sys_canceled sys os)) = sent (n_os s)"
      using quiet \<open>sent os = sent (n_os s)\<close> by (simp add: quiet_def)
  qed simp
  then have "wp (bindE (retry sys fuel (sys_send sys fd data))
        (\<lambda>rc. case rc of None \<Rightarrow> THROW GopherwoodNetworkException | Some n \<Rightarrow> retE (int n)))
      (\<lambda>n s'. n_socket s' = n_socket s \<and> 0 \<le> n \<and> n \<le> int (length data) \<and> sent (n_os s') = sent (n_os s) @ take (nat n) data)
      (\<lambda>e s'. n_socket s' = n_socket s \<and> sent (n_os s') = sent (n_os s) \<and> e \<in> net_errors nd) s" for fd
    by (rule wp_call) (auto simp: wp_simps split: option.splits)
  then show ?thesis
    unfolding sock_write_def using assms(2) by (cases nd) (simp_all add: wp_getSock wp_assertE wp_seqE wp_bindE)
qed

lemma writeFully_loop_in_order:
  assumes "sends_in_order sys sent"
  shows "wp (writeFully_loop nd sys fuel timeout n todo deadline)
    (\<lambda>_ s'. sent (n_os s') = sent (n_os s) @ todo)
    (\<lambda>e s'. e \<in> net_errors nd \<and> (\<exists>k \<le> length todo. sent (n_os s') = sent (n_os s) @ take k todo)) s"
  (is "wp _ (?Q todo s) (?E todo s) s")
proof (induction n arbitrary: todo deadline s)
  case (Suc n)
  note quiet = assms [unfolded sends_in_order_def, THEN conjunct1]
  let ?T = "\<lambda>rc s'. 0 \<le> rc \<and> rc \<le> int (length todo) \<and> sent (n_os s') = sent (n_os s) @ take (nat rc) todo"
  have fail: "?E todo s e s'" if "?T rc s2" "same sent s2 s'" "e \<in> net_errors nd" for rc s2 s' e
    using that by (intro conjI exI [of _ "nat rc"]) (auto simp: same_def)
  have fail0: "?E todo s e s'" if "same sent s s'" "e \<in> net_errors nd" for s' e
    using that by (intro conjI exI [of _ 0]) (auto simp: same_def)
  have rest: "wp (let todo' = drop (nat rc) todo
       in if todo' \<noteq> [] \<and> timeout \<ge> 0 \<and> d \<le> 0 then THROW GopherwoodTimeoutException
          else writeFully_loop nd sys fuel timeout n todo' d) (?Q todo s) (?E todo s) s3"
    if T: "?T rc s2" and "same sent s2 s3" for rc d s2 s3
  proof -
    let ?todo = "drop (nat rc) todo"
    have T3: "?T rc s3" using that by (simp add: same_def)
    have "wp (writeFully_loop nd sys fuel timeout n ?todo d) (?Q todo s) (?E todo s) s3"
    proof (rule wp_mono [OF Suc.IH])
      fix x s' assume "?E ?todo s3 x s'"
      then obtain k where "x \<in> net_errors nd" "k \<le> length ?todo" "sent (n_os s') = sent (n_os s3) @ take k ?todo" by auto
      then show "?E todo s x s'" using T3 by (intro conjI exI [of _ "nat rc + k"]) (auto simp: take_add)
    qed (use T3 in simp)
    moreover have "?E todo s (Exn GopherwoodTimeoutException) s3" by (rule fail [OF that]) simp
    ultimately show ?thesis by (auto simp only: Let_def wp_THROW split: if_split)
  qed
  show ?case
  proof (cases "todo \<noteq> []")
    case True
    have step: "wp (if ready then sock_write nd sys fuel todo else retE 0) ?T (?E todo s) s1" if "same sent s s1" for ready s1
      using wp_mono [OF wp_sock_write [OF assms True, of nd fuel s1], of ?T "?E todo s"] that fail0
      by (auto simp: wp_simps same_def)
    have poll: "wp (sock_poll nd sys fuel False True deadline) (\<lambda>_ s'. True \<and> same sent s s') (?E todo s) s1"
      if "same sent s s1" for s1
      by (rule wp_mono [OF wp_sock_poll [OF quiet]]) (use that fail0 in \<open>auto simp: same_def\<close>)
    have dl: "wp (new_deadline nd timeout deadline b e) (\<lambda>_ s'. s' = s3) (?E todo s) s3"
      if "?T rc s2" "same sent s2 s3" for rc b e s2 s3
      by (rule wp_mono [OF wp_new_deadline]) (use fail [OF that] in auto)
    show ?thesis
      unfolding writeFully_loop.simps if_P [OF True]
      by (rule wp_round [OF quiet _ poll step dl rest]) (rule fail0, assumption, simp)
  qed (simp add: wp_simps)
qed (simp add: wp_simps)

text \<open>
  C15 \<^verbatim>\<open>readFully\<close> either returns exactly the number of bytes asked for, the next ones from the peer in their
  order, or fails in one of the documented ways; then too no byte was taken out of order and no
  more than asked for. This holds however the system splits the data, interrupts calls or lets polls
  time out.
\<close>

theorem readFully_exact:
  assumes "in_order sys incoming" and "0 < sz" and "sz < 2 ^ 31"
    and "readFully nd sys fuel sz timeout s = (r, s')"
  shows "case r of
      Inr bs \<Rightarrow> int (length bs) = sz \<and> incoming (n_os s) = bs @ incoming (n_os s')
    | Inl e \<Rightarrow> e \<in> net_errors nd \<and> (\<exists>got. int (length got) \<le> sz \<and> incoming (n_os s) = got @ incoming (n_os s'))"
proof -
  have "wp (readFully nd sys fuel sz timeout)
      (\<lambda>bs s'. int (length bs) = sz \<and> incoming (n_os s) = bs @ incoming (n_os s'))
      (\<lambda>e s'. e \<in> net_errors nd \<and> (\<exists>got. int (length got) \<le> sz \<and> incoming (n_os s) = got @ incoming (n_os s'))) s"
    using readFully_loop_in_order [OF assms(1), of sz nd fuel timeout fuel timeout "[]" s] assms(2,3)
    by (cases nd) (auto simp: readFully_def wp_simps intro: exI [of _ "[]"])
  then show ?thesis using assms(4) by (auto simp: wp_def split: sum.splits)
qed

text \<open>
  \<^verbatim>\<open>writeFully\<close> either sends all of the data, in order and once, or fails and has sent a beginning of it.
\<close>

theorem writeFully_exact:
  assumes "sends_in_order sys sent" and "data \<noteq> []" and "writeFully nd sys fuel data timeout s = (r, s')"
  shows "case r of
      Inr _ \<Rightarrow> sent (n_os s') = sent (n_os s) @ data
    | Inl e \<Rightarrow> e \<in> net_errors nd \<and> (\<exists>k \<le> length data. sent (n_os s') = sent (n_os s) @ take k data)"
proof -
  have "wp (writeFully nd sys fuel data timeout) (\<lambda>_ s'. sent (n_os s') = sent (n_os s) @ data)
      (\<lambda>e s'. e \<in> net_errors nd \<and> (\<exists>k \<le> length data. sent (n_os s') = sent (n_os s) @ take k data)) s"
    using writeFully_loop_in_order [OF assms(1), of nd fuel timeout fuel data timeout s] assms(2)
    by (cases nd) (auto simp: writeFully_def wp_simps intro: exI [of _ 0])
  then show ?thesis using assms(3) by (auto simp: wp_def split: sum.splits)
qed

section \<open>That a transfer completes\<close>

text \<open>The peer has sent data and nothing interrupts the transfer.\<close>

definition delivering :: "'n Syscall \<Rightarrow> ('n \<Rightarrow> byte list) \<Rightarrow> bool" where
  "delivering sys incoming \<longleftrightarrow> in_order sys incoming \<and>
     (\<forall>fd n os. 0 < n \<longrightarrow> incoming os \<noteq> [] \<longrightarrow> (\<exists>bs os'. sys_recv sys fd n os = (Inr bs, os') \<and> bs \<noteq> [])) \<and>
     (\<forall>fd r w t os. \<exists>n os'. sys_poll sys fd r w t os = (Inr n, os') \<and> 0 < n) \<and>
     (\<forall>os. fst (sys_canceled sys os) \<noteq> Some True)"

lemma readFully_loop_delivers:
  assumes "delivering sys incoming" and "todo \<le> n" and "todo \<le> length (incoming (n_os s))" and "todo < 2 ^ 31"
    and "sock (n_socket s) \<noteq> - 1" and "timeout < 0" and "0 < fuel"
  shows "wp (readFully_loop nd sys fuel timeout n (int todo) deadline buf)
    (\<lambda>bs s'. bs = buf @ take todo (incoming (n_os s)) \<and> incoming (n_os s') = drop todo (incoming (n_os s))) (\<lambda>_ _. False) s"
  using assms(2-5)
proof (induction n arbitrary: todo deadline buf s)
  case (Suc n)
  note ord = assms(1) [unfolded delivering_def, THEN conjunct1]
  note quiet = ord [unfolded in_order_def, THEN conjunct1]
  obtain f where fuel: "fuel = Suc f" using assms(7) gr0_implies_Suc by blast
  let ?Q = "\<lambda>bs s'. bs = buf @ take todo (incoming (n_os s)) \<and> incoming (n_os s') = drop todo (incoming (n_os s))"
  let ?T = "\<lambda>bs s'. bs \<noteq> [] \<and> length bs \<le> todo \<and> n_socket s' = n_socket s \<and> incoming (n_os s) = bs @ incoming (n_os s')"
  show ?case
  proof (cases "todo > 0")
    case True
    have cancel: False if "sys_canceled sys os = (Some True, os')" for os os'
      using assms(1) that by (metis delivering_def fst_conv)
    have poll: "wp (sock_poll nd sys fuel True False deadline) (\<lambda>ready s'. ready \<and> same incoming s s') (\<lambda>_ _. False) s1"
      if "same incoming s s1" for s1
    proof -
      obtain m os' where "sys_poll sys (sock (n_socket s1)) True False deadline (n_os s1) = (Inr m, os')" "0 < m"
        using assms(1) by (meson delivering_def)
      moreover from this have "incoming os' = incoming (n_os s1)" using quietD(1) [OF quiet] by blast
      ultimately show ?thesis using that Suc.prems(4) by (simp add: sock_poll_def wp_simps fuel same_def)
    qed
    have step: "wp (if ready then sock_read nd sys fuel (int todo) else retE []) ?T (\<lambda>_ _. False) s1"
      if "ready" "same incoming s s1" for ready s1
    proof -
      have "incoming (n_os s1) \<noteq> []" using that Suc.prems(2) True by (auto simp: same_def)
      then obtain bs os' where r: "sys_recv sys (sock (n_socket s1)) todo (n_os s1) = (Inr bs, os')" "bs \<noteq> []"
        using assms(1) True by (meson delivering_def)
      moreover have "length bs \<le> todo \<and> incoming (n_os s1) = bs @ incoming os'"
        by (rule in_orderD [OF ord r(1)])
      moreover have "nat (int todo mod 2 ^ 64) = todo" using Suc.prems(3) by simp
      ultimately show ?thesis using that Suc.prems(4) True by (simp add: sock_read_def wp_simps fuel same_def)
    qed
    have rest: "wp (let todo' = int todo - int (length bs)
        in if todo' > 0 \<and> timeout \<ge> 0 \<and> d \<le> 0 then THROW GopherwoodTimeoutException
           else readFully_loop nd sys fuel timeout n todo' d (buf @ bs)) ?Q (\<lambda>_ _. False) s3"
      if "?T bs s2" "same incoming s2 s3" for bs d s2 s3
    proof -
      have "1 \<le> length bs" using that(1) by (cases bs) auto
      then have "todo - length bs \<le> n" using Suc.prems(1) True by linarith
      from Suc.IH [OF this, of s3 d "buf @ bs"] that Suc.prems show ?thesis
        using assms(6) by (auto simp: Let_def same_def of_nat_diff elim!: wp_mono)
    qed
    show ?thesis
      unfolding readFully_loop.simps using True
      by (simp only: of_nat_0_less_iff if_True, intro wp_round [OF quiet _ poll step _ rest])
        (use cancel assms(6) in \<open>auto simp: new_deadline_def wp_simps\<close>)
  qed (simp add: wp_simps)
qed (simp add: wp_simps)

text \<open>
  C16 \<^verbatim>\<open>readFully\<close> without a timeout completes when the peer has sent enough and the calls are not interrupted: it
  returns the next bytes of the stream. A round for every byte is enough, however few bytes a call
  delivers.
\<close>

theorem readFully_completes:
  assumes "delivering sys incoming" and "0 < sz" and "sz < 2 ^ 31" and "sz \<le> length (incoming (n_os s))" and "sz \<le> fuel"
    and "sock (n_socket s) \<noteq> - 1" and "timeout < 0"
  shows "\<exists>s'. readFully nd sys fuel (int sz) timeout s = (Inr (take sz (incoming (n_os s))), s') \<and>
    incoming (n_os s') = drop sz (incoming (n_os s))"
proof -
  have "0 < fuel" using assms(2,5) by simp
  then have "wp (readFully nd sys fuel (int sz) timeout)
      (\<lambda>bs s'. bs = take sz (incoming (n_os s)) \<and> incoming (n_os s') = drop sz (incoming (n_os s))) (\<lambda>_ _. False) s"
    using readFully_loop_delivers [OF assms(1,5,4,3,6,7), where nd = nd and deadline = timeout and buf = "[]"] assms(2,6)
    by (simp add: readFully_def wp_simps)
  then show ?thesis by (auto simp: wp_def split: prod.splits sum.splits)
qed

text \<open>
  A connection whose calls deliver at most two bytes and are interrupted every other time, and one that is never
  interrupted. The state: whether the next call is interrupted, the bytes still to come, those sent,
  the number of open sockets and of address lists.
\<close>

record wire =
  wr_interrupt :: bool
  wr_in :: "byte list"
  wr_out :: "byte list"
  wr_sockets :: int
  wr_lists :: int

definition wire_sys :: "bool \<Rightarrow> wire Syscall" where
  "wire_sys interrupts = \<lparr>
     sys_recv = (\<lambda>fd n os. if interrupts \<and> wr_interrupt os then (Inl EINTR, os\<lparr>wr_interrupt := False\<rparr>)
        else (Inr (take (min n 2) (wr_in os)), os\<lparr>wr_interrupt := True, wr_in := drop (min n 2) (wr_in os)\<rparr>)),
     sys_send = (\<lambda>fd d os. if interrupts \<and> wr_interrupt os then (Inl EINTR, os\<lparr>wr_interrupt := False\<rparr>)
        else (Inr (min (length d) 2), os\<lparr>wr_interrupt := True, wr_out := wr_out os @ take (min (length d) 2) d\<rparr>)),
     sys_poll = (\<lambda>fd r w t os. (Inr 1, os)),
     sys_getaddrinfo = (\<lambda>h p os. (Inr [\<lparr>ai_family = 2, ai_socktype = 1, ai_protocol = 6, ai_addr = [127, 0, 0, 1]\<rparr>],
        os\<lparr>wr_lists := wr_lists os + 1\<rparr>)),
     sys_freeaddrinfo = (\<lambda>a os. os\<lparr>wr_lists := wr_lists os - 1\<rparr>),
     sys_socket = (\<lambda>a os. (Inr 3, os\<lparr>wr_sockets := wr_sockets os + 1\<rparr>)),
     sys_connect = (\<lambda>fd a os. (Inl EINPROGRESS, os)),
     sys_getpeername = (\<lambda>fd os. (Inr (), os)),
     sys_getfl = (\<lambda>fd os. (Inr 2, os)),
     sys_setfl = (\<lambda>fd fl os. (Inr (), os)),
     sys_setsockopt = (\<lambda>fd opt os. (Inr (), os)),
     sys_shutdown = (\<lambda>fd os. os),
     sys_close = (\<lambda>fd os. os\<lparr>wr_sockets := wr_sockets os - 1\<rparr>),
     sys_now = (\<lambda>os. (0, os)),
     sys_canceled = (\<lambda>os. (None, os))\<rparr>"

definition wire0 :: "int \<Rightarrow> wire Net" where
  "wire0 fd = \<lparr>n_socket = \<lparr>sock = fd, lingerTimeout = - 1, remoteAddr = []\<rparr>, n_errno = 0,
     n_os = \<lparr>wr_interrupt = False, wr_in = [1, 2, 3, 4, 5], wr_out = [], wr_sockets = 0, wr_lists = 0\<rparr>\<rparr>"

lemma wire_laws: "in_order (wire_sys b) wr_in" "sends_in_order (wire_sys b) wr_out" "delivering (wire_sys False) wr_in"
proof -
  show 1: "in_order (wire_sys b) wr_in" for b by (auto simp: in_order_def quiet_def wire_sys_def)
  show "sends_in_order (wire_sys b) wr_out" by (simp add: sends_in_order_def quiet_def wire_sys_def)
  have "0 < n \<longrightarrow> wr_in os \<noteq> [] \<longrightarrow> (\<exists>bs os'. sys_recv (wire_sys False) fd n os = (Inr bs, os') \<and> bs \<noteq> [])"
    "\<exists>n os'. sys_poll (wire_sys False) fd r w t os = (Inr n, os') \<and> 0 < n" "fst (sys_canceled (wire_sys False) os) \<noteq> Some True"
    for fd n os r w t
    by (auto simp: wire_sys_def)
  then show "delivering (wire_sys False) wr_in" unfolding delivering_def using 1 [of False] by blast
qed

theorem readFully_exact_witness:
  "fst (readFully True (wire_sys True) 10 4 (- 1) (wire0 3)) = Inr [1, 2, 3, 4] \<and>
   wr_in (n_os (snd (readFully True (wire_sys True) 10 4 (- 1) (wire0 3)))) = [5]"
proof -
  obtain r s' where run: "readFully True (wire_sys True) 10 4 (- 1) (wire0 3) = (r, s')" by fastforce
  have "\<not> isl (fst (readFully True (wire_sys True) 10 4 (- 1) (wire0 3)))" by code_simp
  then obtain bs where bs: "r = Inr bs" using run by (cases r) auto
  have "int (length bs) = 4 \<and> wr_in (n_os (wire0 3)) = bs @ wr_in (n_os s')"
    using readFully_exact [OF wire_laws(1) _ _ run] bs by simp
  then have "length bs = 4" "bs @ wr_in (n_os s') = [1, 2, 3, 4, 5]" by (simp_all add: wire0_def)
  then have "bs = [1, 2, 3, 4] \<and> wr_in (n_os s') = [5]" by (simp add: append_eq_conv_conj)
  then show ?thesis using run bs by simp
qed

theorem writeFully_exact_witness:
  "wr_out (n_os (snd (writeFully True (wire_sys True) 10 [7, 8, 9] 5 (wire0 3)))) = [7, 8, 9]"
proof -
  obtain r s' where run: "writeFully True (wire_sys True) 10 [7, 8, 9] 5 (wire0 3) = (r, s')" by fastforce
  have "fst (writeFully True (wire_sys True) 10 [7, 8, 9] 5 (wire0 3)) = Inr ()" by code_simp
  then show ?thesis using writeFully_exact [OF wire_laws(2) _ run] run by (simp add: wire0_def)
qed

theorem readFully_completes_witness:
  "\<exists>s'. readFully False (wire_sys False) 8 4 (- 1) (wire0 3) = (Inr [1, 2, 3, 4], s') \<and> wr_in (n_os s') = [5]"
  using readFully_completes [OF wire_laws(3), where sz = 4 and fuel = 8 and s = "wire0 3" and timeout = "- 1" and nd = False]
  by (simp add: wire0_def)

section \<open>Sockets and address lists\<close>

text \<open>
  What the calls do to the numbers of open sockets and of address lists that are not freed. A socket's number is
  not -1, and a resolved host has an address.
\<close>

definition accounts :: "'n Syscall \<Rightarrow> ('n \<Rightarrow> int \<times> int) \<Rightarrow> bool" where
  "accounts sys g \<longleftrightarrow> quiet sys g \<and>
     (\<forall>fd n os. g (snd (sys_recv sys fd n os)) = g os) \<and> (\<forall>fd a os. g (snd (sys_connect sys fd a os)) = g os) \<and>
     (\<forall>fd os. g (snd (sys_getpeername sys fd os)) = g os) \<and> (\<forall>fd os. g (snd (sys_getfl sys fd os)) = g os) \<and>
     (\<forall>fd fl os. g (snd (sys_setfl sys fd fl os)) = g os) \<and> (\<forall>fd opt os. g (snd (sys_setsockopt sys fd opt os)) = g os) \<and>
     (\<forall>a os. case sys_socket sys a os of (Inl _, os') \<Rightarrow> g os' = g os
        | (Inr fd, os') \<Rightarrow> fd \<noteq> - 1 \<and> g os' = (fst (g os) + 1, snd (g os))) \<and>
     (\<forall>fd os. g (sys_shutdown sys fd os) = g os) \<and> (\<forall>fd os. g (sys_close sys fd os) = (fst (g os) - 1, snd (g os))) \<and>
     (\<forall>h p os. case sys_getaddrinfo sys h p os of (Inl _, os') \<Rightarrow> g os' = g os
        | (Inr addrs, os') \<Rightarrow> addrs \<noteq> [] \<and> g os' = (fst (g os), snd (g os) + 1)) \<and>
     (\<forall>addrs os. g (sys_freeaddrinfo sys addrs os) = (fst (g os), snd (g os) - 1))"

lemma wp_sysE_keeps:
  assumes "\<And>os. g (snd (call os)) = g os" and "\<And>x s'. same g s s' \<Longrightarrow> Q x s'"
  shows "wp (sysE call) Q E s"
  using assms(1) [of "n_os s"] assms(2) by (auto simp: wp_simps same_def split: prod.splits sum.splits)

lemma wp_retry_keeps:
  assumes "quiet sys g" and "\<And>os. g (snd (call os)) = g os"
  shows "wp (retry sys fuel call) (\<lambda>_. same g s) (\<lambda>_. same g s) s"
proof -
  have "wp (retry sys fuel call)
      (\<lambda>r s'. n_socket s' = n_socket s \<and> (case r of None \<Rightarrow> g (n_os s') = g (n_os s) | Some _ \<Rightarrow> g (n_os s') = g (n_os s)))
      (\<lambda>e s'. n_socket s' = n_socket s \<and> g (n_os s') = g (n_os s) \<and> e \<in> {OutOfFuel, Exn GopherwoodCanceled}) s"
    by (rule wp_retry) (use assms in \<open>auto simp: quiet_def split: prod.splits sum.splits, (metis snd_conv)+\<close>)
  then show ?thesis by (rule wp_mono) (auto simp: same_def split: option.splits)
qed

lemma same_trans: "same g s s' \<Longrightarrow> same g s' s'' \<Longrightarrow> same g s s''" and same_refl: "same g s s"
  by (simp_all add: same_def)

text \<open>A sequence of steps that keep the socket and the numbers.\<close>

definition keeping :: "('n \<Rightarrow> 'b) \<Rightarrow> ('n, 'a) sockM \<Rightarrow> bool" where
  "keeping g m \<longleftrightarrow> (\<forall>s. wp m (\<lambda>_. same g s) (\<lambda>_. same g s) s)"

lemma keeping_bind: "keeping g m \<Longrightarrow> (\<And>x. keeping g (f x)) \<Longrightarrow> keeping g (bindE m f)"
  unfolding keeping_def by (intro allI wp_call [where Q' = "\<lambda>_. same g _" and E' = "\<lambda>_. same g _"])
    (blast intro: wp_mono same_trans)+

lemma keeping_seq: "keeping g m \<Longrightarrow> keeping g n \<Longrightarrow> keeping g (seqE m n)"
  unfolding seqE_def by (rule keeping_bind)

lemma keeping_basic: "keeping g (retE x)" "keeping g (throwE e)" "keeping g (THROW c)" "keeping g getSock" "keeping g (getsE h)"
  "keeping g (assertE nd b)"
  by (simp_all add: keeping_def wp_simps same_refl)

lemma keeping_calls:
  assumes "accounts sys g"
  shows "keeping g (sock_poll nd sys fuel rd wr timeout)" "keeping g (setBlockMode sys enable)" "keeping g (setOption nd sys opt)"
    "keeping g (retry sys fuel (sys_connect sys fd a))" "keeping g (await_connection nd sys fuel timeout)"
proof -
  have q: "quiet sys g" using assms by (simp add: accounts_def)
  show poll: "keeping g (sock_poll nd sys fuel rd wr t)" for rd wr t
    unfolding keeping_def using wp_mono [OF wp_sock_poll [OF q]] by (simp add: same_def)
  have sys: "keeping g (sysE (sys_getfl sys fd))" "keeping g (sysE (sys_setfl sys fd fl))" "keeping g (sysE (sys_setsockopt sys fd opt))"
    "keeping g (sysE (sys_getpeername sys fd))" "keeping g (sysE (sys_recv sys fd n))" for fd fl n
    using assms unfolding keeping_def by (auto simp: accounts_def intro!: wp_sysE_keeps [where g = g])
  show "keeping g (setBlockMode sys enable)" "keeping g (setOption nd sys opt)"
    unfolding setBlockMode_def setOption_def
    by (intro keeping_bind keeping_seq sys keeping_basic; simp add: keeping_basic sys keeping_bind split: option.split)+
  show "keeping g (retry sys fuel (sys_connect sys fd a))"
    unfolding keeping_def by (intro allI wp_retry_keeps [OF q]) (use assms in \<open>simp add: accounts_def\<close>)
  show "keeping g (await_connection nd sys fuel timeout)"
    unfolding await_connection_def
    by (intro keeping_bind keeping_seq keeping_basic; auto intro!: keeping_bind keeping_seq keeping_basic poll sys split: option.split)
qed

lemma keeping_connect_body: "accounts sys g \<Longrightarrow> keeping g (connect_body nd sys fuel paddr timeout)"
  unfolding connect_body_def
  by (intro keeping_seq keeping_bind keeping_calls keeping_basic) (simp_all add: keeping_calls keeping_basic)

definition options_work :: "'n Syscall \<Rightarrow> bool" where
  "options_work sys \<longleftrightarrow> (\<forall>fd opt os. fst (sys_setsockopt sys fd opt os) = Inr ())"

lemma wp_setOption:
  assumes "accounts sys g" and "options_work sys" and "sock (n_socket s) \<noteq> - 1"
  shows "wp (setOption nd sys opt) (\<lambda>_. same g s) (\<lambda>_ _. False) s"
proof -
  obtain os' where "sys_setsockopt sys (sock (n_socket s)) opt (n_os s) = (Inr (), os')"
    using assms(2) by (cases "sys_setsockopt sys (sock (n_socket s)) opt (n_os s)") (simp add: options_work_def, metis fst_conv)
  moreover have "g (snd (sys_setsockopt sys (sock (n_socket s)) opt (n_os s))) = g (n_os s)" using assms(1) by (simp add: accounts_def)
  ultimately show ?thesis using assms(3) by (simp add: setOption_def wp_simps same_def)
qed

lemma wp_sock_close:
  assumes "accounts sys g" and "sock (n_socket s) \<noteq> - 1"
  shows "wp (sock_close sys) (\<lambda>_ s'. sock (n_socket s') = - 1 \<and> g (n_os s') = (fst (g (n_os s)) - 1, snd (g (n_os s)))) E s"
  using assms by (simp add: sock_close_def wp_simps accounts_def)

lemma wp_connect_addr:
  assumes "accounts sys g" and "options_work sys" and "sock (n_socket s) = - 1"
  shows "wp (connect_addr nd sys fuel paddr timeout)
    (\<lambda>_ s'. sock (n_socket s') \<noteq> - 1 \<and> g (n_os s') = (fst (g (n_os s)) + 1, snd (g (n_os s))))
    (\<lambda>e s'. (\<exists>c. e = Exn c) \<longrightarrow> sock (n_socket s') = - 1 \<and> g (n_os s') = g (n_os s)) s"
    (is "wp _ ?Q ?E s")
proof -
  let ?attempt = "catchExn (connect_body nd sys fuel paddr timeout) (\<lambda>c. seqE (sock_close sys) (THROW c))"
  have attempt: "wp ?attempt ?Q ?E s1" if s1: "?Q () s1" for s1
  proof -
    have body: "wp (connect_body nd sys fuel paddr timeout) (\<lambda>_. same g s1) (\<lambda>_. same g s1) s1"
      using keeping_connect_body [OF assms(1)] by (simp add: keeping_def)
    have "wp (seqE (sock_close sys) (THROW c)) ?Q ?E s2" if "same g s1 s2" for c s2
      using wp_mono [OF wp_sock_close [OF assms(1)], of s2] that s1 by (auto simp: wp_simps same_def)
    then show ?thesis
      unfolding wp_catchExn using s1 by (intro wp_mono [OF body]) (auto simp: same_def split: gw_error.splits)
  qed
  have send: "wp (seqE (setSendTimeout nd sys 3600000) ?attempt) ?Q ?E s1" if s1: "?Q () s1" for s1
    unfolding setSendTimeout_def
    by (rule wp_call_seq [OF wp_setOption [OF assms(1,2)]]) (use s1 attempt in \<open>auto simp: same_def\<close>)
  have linger: "wp (seqE (whenE (l \<ge> 0) (setLingerTimeoutInternal nd sys l)) (seqE (setSendTimeout nd sys 3600000) ?attempt)) ?Q ?E s1"
    if s1: "?Q () s1" for l s1
  proof (cases "l \<ge> 0")
    case True
    have "wp (seqE (setLingerTimeoutInternal nd sys l) (seqE (setSendTimeout nd sys 3600000) ?attempt)) ?Q ?E s1"
      unfolding setLingerTimeoutInternal_def
      by (rule wp_call_seq [OF wp_setOption [OF assms(1,2)]]) (use s1 send in \<open>auto simp: same_def\<close>)
    then show ?thesis using True by (simp only: wp_seqE wp_whenE if_True)
  qed (use send [OF s1] in \<open>simp only: wp_seqE wp_whenE if_False simp_thms\<close>)
  show ?thesis
  proof (cases "sys_socket sys paddr (n_os s)")
    case (Pair r os)
    have law: "case sys_socket sys paddr (n_os s) of (Inl _, os') \<Rightarrow> g os' = g (n_os s)
        | (Inr fd, os') \<Rightarrow> fd \<noteq> - 1 \<and> g os' = (fst (g (n_os s)) + 1, snd (g (n_os s)))"
      using assms(1) by (simp add: accounts_def)
    show ?thesis
    proof (cases r)
      case (Inl e)
      then show ?thesis using Pair law assms(3) by (simp add: connect_addr_def wp_simps)
    next
      case (Inr fd)
      let ?s1 = "s\<lparr>n_os := os, n_socket := (n_socket s)\<lparr>sock := fd\<rparr>\<rparr>"
      have "?Q () ?s1" using law Pair Inr by simp
      from linger [OF this] show ?thesis
        using Pair Inr assms(3) by (simp add: connect_addr_def wp_getSock wp_sysE wp_modSock wp_assertE wp_bindE wp_seqE wp_getsE)
    qed
  qed
qed

lemma wp_connect_loop:
  assumes "accounts sys g" and "options_work sys" and "todo \<noteq> []" and "sock (n_socket s) = - 1"
  shows "wp (connect_loop nd sys fuel addrs timeout todo deadline)
    (\<lambda>_ s'. sock (n_socket s') \<noteq> - 1 \<and> g (n_os s') = (fst (g (n_os s)) + 1, snd (g (n_os s)) - 1))
    (\<lambda>e s'. (\<exists>c. e = Exn c) \<longrightarrow> sock (n_socket s') = - 1 \<and> g (n_os s') = g (n_os s)) s"
  using assms(3,4)
proof (induction todo arbitrary: deadline s)
  case (Cons paddr rest)
  let ?Q = "\<lambda>_ s'. sock (n_socket s') \<noteq> - 1 \<and> g (n_os s') = (fst (g (n_os s)) + 1, snd (g (n_os s)) - 1)"
  let ?E = "\<lambda>e s'. (\<exists>c. e = Exn c) \<longrightarrow> sock (n_socket s') = - 1 \<and> g (n_os s') = g (n_os s)"
  let ?T = "\<lambda>_ s'. if sock (n_socket s') \<noteq> - 1 then g (n_os s') = (fst (g (n_os s)) + 1, snd (g (n_os s)))
      else rest \<noteq> [] \<and> g (n_os s') = g (n_os s)"
  have q: "quiet sys g" using assms(1) by (simp add: accounts_def)
  let ?catch = "\<lambda>c. if (instance_of c GopherwoodNetworkConnectException \<or> instance_of c GopherwoodTimeoutException) \<and> rest \<noteq> []
      then retE () else THROW c"
  have conn: "wp (catchExn (connect_addr nd sys fuel paddr deadline) ?catch) ?T ?E s1" if "same g s s1" for s1
    unfolding wp_catchExn using that Cons.prems(2)
    by (intro wp_mono [OF wp_connect_addr [OF assms(1,2), of s1]]) (auto simp: wp_simps same_def split: gw_error.splits)
  have again: "wp (bindE (osE (sys_now sys)) (\<lambda>e. bindE (new_deadline nd timeout deadline b e) (\<lambda>d.
      if timeout \<ge> 0 \<and> d \<le> 0 then THROW GopherwoodTimeoutException else connect_loop nd sys fuel addrs timeout rest d))) ?Q ?E s2"
    if s2: "sock (n_socket s2) = - 1" "rest \<noteq> []" "g (n_os s2) = g (n_os s)" for b s2
  proof -
    obtain e os where e: "sys_now sys (n_os s2) = (e, os)" by fastforce
    let ?s3 = "s2\<lparr>n_os := os\<rparr>"
    have g3: "g os = g (n_os s)" using quietD(2) [OF q e] s2(3) by simp
    have "wp (connect_loop nd sys fuel addrs timeout rest d) ?Q ?E ?s3" for d
      using Cons.IH [of ?s3 d] s2 g3 by simp
    then have "wp (bindE (new_deadline nd timeout deadline b e) (\<lambda>d.
        if timeout \<ge> 0 \<and> d \<le> 0 then THROW GopherwoodTimeoutException else connect_loop nd sys fuel addrs timeout rest d)) ?Q ?E ?s3"
      by (intro wp_call [OF wp_new_deadline]) (use s2 g3 in \<open>auto simp: wp_THROW\<close>)
    then show ?thesis using e by (simp only: wp_bindE [of "osE _"] wp_osE prod.case)
  qed
  have after: "wp (bindE getSock (\<lambda>fd. if fd \<noteq> - 1 then osE (\<lambda>os. ((), sys_freeaddrinfo sys addrs os))
      else bindE (osE (sys_now sys)) (\<lambda>e. bindE (new_deadline nd timeout deadline b e) (\<lambda>d.
        if timeout \<ge> 0 \<and> d \<le> 0 then THROW GopherwoodTimeoutException else connect_loop nd sys fuel addrs timeout rest d)))) ?Q ?E s2"
    if "?T () s2" for b s2
  proof (cases "sock (n_socket s2) = - 1")
    case True
    then show ?thesis using again [of s2 b] that by (simp add: wp_bindE [of getSock] wp_getSock)
  next
    case False
    then show ?thesis using that assms(1) by (simp add: wp_bindE wp_getSock wp_osE accounts_def)
  qed
  obtain b os1 where 1: "sys_now sys (n_os s) = (b, os1)" by fastforce
  obtain c os2 where 2: "sys_canceled sys os1 = (c, os2)" by fastforce
  have g2: "g os2 = g (n_os s)" using quietD(2) [OF q 1] quietD(3) [OF q 2] by simp
  then have "wp (bindE (catchExn (connect_addr nd sys fuel paddr deadline) ?catch) (\<lambda>_.
      bindE getSock (\<lambda>fd. if fd \<noteq> - 1 then osE (\<lambda>os. ((), sys_freeaddrinfo sys addrs os))
      else bindE (osE (sys_now sys)) (\<lambda>e. bindE (new_deadline nd timeout deadline b e) (\<lambda>d.
        if timeout \<ge> 0 \<and> d \<le> 0 then THROW GopherwoodTimeoutException else connect_loop nd sys fuel addrs timeout rest d)))))
      ?Q ?E (s\<lparr>n_os := os2\<rparr>)"
    by (intro wp_call [OF conn] after) (simp_all add: same_def)
  then show ?case
    using 1 2 g2 Cons.prems(2)
    by (simp add: seqE_def wp_bindE [of "osE _"] wp_osE wp_bindE [of "checkCanceled _"] wp_checkCanceled)
qed simp

text \<open>
  C17 \<^verbatim>\<open>connect\<close> to a host leaves nothing behind: when it returns there is one more open socket, the one of the
  object, and when it throws there is none and the object has none; the list of addresses is freed
  in either case. This holds when socket options can be set; every other system call may fail.
\<close>

theorem connect_keeps_accounts:
  assumes "accounts sys g" and "options_work sys" and "sock (n_socket s) = - 1"
    and "connect_host nd sys fuel host port timeout s = (r, s')"
  shows "case r of
      Inr _ \<Rightarrow> sock (n_socket s') \<noteq> - 1 \<and> g (n_os s') = (fst (g (n_os s)) + 1, snd (g (n_os s)))
    | Inl e \<Rightarrow> e \<in> range Exn \<longrightarrow> sock (n_socket s') = - 1 \<and> g (n_os s') = g (n_os s)"
proof -
  let ?Q = "\<lambda>_ s'. sock (n_socket s') \<noteq> - 1 \<and> g (n_os s') = (fst (g (n_os s)) + 1, snd (g (n_os s)))"
  let ?E = "\<lambda>e s'. (\<exists>c. e = Exn c) \<longrightarrow> sock (n_socket s') = - 1 \<and> g (n_os s') = g (n_os s)"
  obtain a os where a: "sys_getaddrinfo sys host port (n_os s) = (a, os)" by fastforce
  have law: "case sys_getaddrinfo sys host port (n_os s) of (Inl _, os') \<Rightarrow> g os' = g (n_os s)
      | (Inr addrs, os') \<Rightarrow> addrs \<noteq> [] \<and> g os' = (fst (g (n_os s)), snd (g (n_os s)) + 1)"
    using assms(1) by (simp add: accounts_def)
  have "wp (connect_host nd sys fuel host port timeout) ?Q ?E s"
  proof (cases a)
    case (Inl e)
    then show ?thesis using a law assms(3) by (simp add: connect_host_def wp_simps)
  next
    case (Inr addrs)
    let ?s1 = "s\<lparr>n_os := os, n_socket := (n_socket s)\<lparr>remoteAddr := [CHR 0x22] @ host @ '':'' @ port @ [CHR 0x22]\<rparr>\<rparr>"
    have s1: "addrs \<noteq> []" "g os = (fst (g (n_os s)), snd (g (n_os s)) + 1)" "sock (n_socket ?s1) = - 1"
      using law a Inr assms(3) by simp_all
    have "wp (catchExn (connect_loop nd sys fuel addrs timeout addrs timeout)
        (\<lambda>c. seqE (osE (\<lambda>os. ((), sys_freeaddrinfo sys addrs os))) (THROW c))) ?Q ?E ?s1"
      unfolding wp_catchExn using s1(2) assms(1)
      by (intro wp_mono [OF wp_connect_loop [OF assms(1,2) s1(1,3)]])
        (auto simp: wp_simps accounts_def split: gw_error.splits)
    then show ?thesis
      using a Inr assms(3) by (simp add: connect_host_def wp_bindE wp_seqE wp_getSock wp_assertE wp_osE wp_modSock)
  qed
  then show ?thesis using assms(4) by (auto simp: wp_def split: sum.splits)
qed

lemma wire_accounts: "accounts (wire_sys b) (\<lambda>os. (wr_sockets os, wr_lists os))"
  by (simp add: accounts_def quiet_def wire_sys_def)

theorem connect_keeps_accounts_witness:
  "wr_sockets (n_os (snd (connect_host False (wire_sys False) 5 ''h'' ''80'' 100 (wire0 (- 1))))) = 1 \<and>
   wr_lists (n_os (snd (connect_host False (wire_sys False) 5 ''h'' ''80'' 100 (wire0 (- 1))))) = 0"
proof -
  obtain r s' where run: "connect_host False (wire_sys False) 5 ''h'' ''80'' 100 (wire0 (- 1)) = (r, s')" by fastforce
  have opt: "options_work (wire_sys False)" by (simp add: options_work_def wire_sys_def)
  have sock: "sock (n_socket (wire0 (- 1))) = - 1" by (simp add: wire0_def)
  have "fst (connect_host False (wire_sys False) 5 ''h'' ''80'' 100 (wire0 (- 1))) = Inr ()" by code_simp
  then show ?thesis using connect_keeps_accounts [OF wire_accounts opt sock run] run by (simp add: wire0_def)
qed

text \<open>
  When a socket option cannot be set, \<^verbatim>\<open>connect\<close> throws and leaves the new socket open in the object: the options
  are set before the \<^verbatim>\<open>try\<close> block that closes it. A second attempt with the same object aborts at the
  assertion that there is no socket.
\<close>

theorem failed_option_leaks_socket:
  assumes "accounts sys g" and "sock (n_socket s) = - 1" and "sys_socket sys paddr (n_os s) = (Inr fd, os1)"
    and "\<And>opt os. isl (fst (sys_setsockopt sys fd opt os))"
  shows "\<exists>s'. connect_addr nd sys fuel paddr timeout s = (Inl (Exn GopherwoodNetworkException), s') \<and>
    sock (n_socket s') = fd \<and> g (n_os s') = (fst (g (n_os s)) + 1, snd (g (n_os s))) \<and>
    connect_addr False sys fuel paddr timeout s' = (Inl AssertAbort, s')"
proof -
  have "case sys_socket sys paddr (n_os s) of (Inl _, os') \<Rightarrow> g os' = g (n_os s)
      | (Inr fd, os') \<Rightarrow> fd \<noteq> - 1 \<and> g os' = (fst (g (n_os s)) + 1, snd (g (n_os s)))"
    using assms(1) by (simp add: accounts_def)
  then have fd: "fd \<noteq> - 1" "g os1 = (fst (g (n_os s)) + 1, snd (g (n_os s)))" using assms(3) by simp_all
  let ?s1 = "s\<lparr>n_os := os1, n_socket := (n_socket s)\<lparr>sock := fd\<rparr>\<rparr>"
  have opt: "\<exists>s'. setOption nd sys opt ?s1 = (Inl (Exn GopherwoodNetworkException), s') \<and>
      sock (n_socket s') = fd \<and> g (n_os s') = g os1" for opt
  proof -
    obtain e os' where "sys_setsockopt sys fd opt os1 = (Inl e, os')"
      using assms(4) [of opt os1] by (cases "sys_setsockopt sys fd opt os1") (auto simp: isl_def)
    moreover have "g (snd (sys_setsockopt sys fd opt os1)) = g os1" using assms(1) by (simp add: accounts_def)
    ultimately show ?thesis using fd(1) by (simp add: setOption_def getSock_def sysE_def run_simps)
  qed
  let ?l = "lingerTimeout (n_socket s)"
  define first where "first = (if ?l \<ge> 0 then SO_LINGER (?l > 0) (if ?l > 0 then ?l else 0)
      else SO_SNDTIMEO (3600000 sdiv 1000) ((3600000 smod 1000) * 1000))"
  obtain s' where s': "setOption nd sys first ?s1 = (Inl (Exn GopherwoodNetworkException), s')"
    "sock (n_socket s') = fd" "g (n_os s') = g os1" using opt by blast
  have "connect_addr nd sys fuel paddr timeout s = (Inl (Exn GopherwoodNetworkException), s')"
    using s'(1) assms(2,3) unfolding first_def
    by (cases "?l > 0"; cases "?l \<ge> 0")
      (simp_all add: connect_addr_def setLingerTimeoutInternal_def setSendTimeout_def getSock_def sysE_def modSock_def run_simps)
  then show ?thesis using s' fd by (auto simp: connect_addr_def getSock_def run_simps)
qed

definition wire_bad :: "wire Syscall" where
  "wire_bad = (wire_sys False)\<lparr>sys_setsockopt := (\<lambda>fd opt os. (Inl 22, os))\<rparr>"

theorem failed_option_leaks_socket_witness:
  "\<exists>s'. connect_addr True wire_bad 5 \<lparr>ai_family = 2, ai_socktype = 1, ai_protocol = 6, ai_addr = []\<rparr> 100 (wire0 (- 1)) =
     (Inl (Exn GopherwoodNetworkException), s') \<and> sock (n_socket s') = 3 \<and> wr_sockets (n_os s') = 1"
proof -
  have acc: "accounts wire_bad (\<lambda>os. (wr_sockets os, wr_lists os))"
    by (simp add: accounts_def quiet_def wire_sys_def wire_bad_def)
  have sock: "sock (n_socket (wire0 (- 1))) = - 1" by (simp add: wire0_def)
  have "sys_socket wire_bad \<lparr>ai_family = 2, ai_socktype = 1, ai_protocol = 6, ai_addr = []\<rparr> (n_os (wire0 (- 1))) =
      (Inr 3, (n_os (wire0 (- 1)))\<lparr>wr_sockets := 1\<rparr>)"
    by (simp add: wire_bad_def wire_sys_def wire0_def)
  from failed_option_leaks_socket [OF acc sock this, of True 5 100] show ?thesis
    by (auto simp: wire_bad_def wire0_def)
qed

end
