(* ===== verification/Spec2Isabelle.thy ===== *)
theory Spec2Isabelle
  imports GW_ClockSweep GW_ContextProps GW_Growing GW_Reactivate GW_Support GW_StackSymbols GW_TcpProps
begin

text \<open>
  \<^bold>\<open>Gopherwood\<close> is a C++ library that lets many processes share a cache of file blocks. The data of a
  file is cut into blocks of one size. A block lives in a \<^emph>\<open>bucket\<close> of the local space, a single file
  that all processes open, or, once it was evicted, in an object of an object store. Which bucket
  holds which block is kept in one region of shared memory; which blocks make up a file is
  kept in the file's \<^emph>\<open>manifest\<close>, a log that every process with the file open replays.

  \<^bold>\<open>The parts and the theories that model them.\<close>

  \<^item> \<open>GW_Prelude\<close>: the state-and-exception monad (\<open>gw\<close>, \<open>bindE\<close>, \<open>catchExn\<close>), its weakest preconditions
    (\<open>wp\<close>, collection \<open>wp_simps\<close>), checked array access (\<open>idx\<close>), little-endian bytes, counting lemmas.
    A C++ function that changes state and may throw is a function from a state to its outcome and
    the state it leaves, so that a throw keeps the assignments made before it.
  \<^item> \<open>GW_Common\<close>: \<^verbatim>\<open>common/Exception.h\<close> (classes and their bases), \<^verbatim>\<open>file/FileId.h\<close>, \<^verbatim>\<open>common/Configuration.cpp\<close>.
  \<^item> \<open>GW_SharedMemObj\<close>, \<open>GW_BlockStatus\<close>: the structs of the region (\<^verbatim>\<open>core/SharedMemoryObj.h\<close>, \<^verbatim>\<open>.cpp\<close>) and the
    block structs and their log format (\<^verbatim>\<open>core/BlockStatus.h\<close>, \<^verbatim>\<open>.cpp\<close>). Flags are 32-bit words with
    the masks of the source.
  \<^item> \<open>GW_SharedMemContext\<close>: every method of \<^verbatim>\<open>core/SharedMemoryContext.cpp\<close>, over the record of header,
    buckets and active-status slots. \<open>GW_SharedMemInv\<close> (invariant and preservation), \<open>GW_SharedMemEvict\<close>
    (the clock sweep and evictions), \<open>GW_SharedMemProto\<close> (processes calling the operations in any order
    that keeps a protocol, as an inductive step relation), \<open>GW_SharedMemProps\<close> (the properties) and \<open>GW_ClockSweep\<close> (which bucket the
    sweep takes) reason about it.
  \<^item> \<open>GW_LRUCache\<close>: \<^verbatim>\<open>common/LRUCache.cpp\<close>, list nodes with addresses and a map of addresses, refined to a
    list in order of use. The key it reports as dropped is read from a freed node: it is an arbitrary function \<open>freed\<close> of the
    key that was there, a parameter of the cache and, as \<open>e_freed\<close>, of the opened file.
  \<^item> \<open>GW_PosixFile\<close>: the system calls on files that the library uses, over a store of inodes.
  \<^item> \<open>GW_Manifest\<close>: \<^verbatim>\<open>core/Manifest.h\<close>, \<^verbatim>\<open>.cpp\<close>, the log records byte by byte.
  \<^item> \<open>GW_BlockIO\<close>: \<^verbatim>\<open>block/\<close>, the readers and writers of blocks in the local space and in the object store.
  \<^item> \<open>GW_FileActiveStatus\<close>: \<^verbatim>\<open>core/FileActiveStatus.cpp\<close> and \<^verbatim>\<open>core/BaseActiveStatus.cpp\<close>, an opened file with its
    block table, cache, manifest and pre-allocated blocks: acquiring, activating, loading, evicting,
    flushing, closing, deleting. \<open>GW_FileActiveProps\<close> proves the replay of the log, its compaction and
    the acquisition policy.
  \<^item> \<open>GW_AdminActiveStatus\<close>: \<^verbatim>\<open>core/AdminActiveStatus.cpp\<close>. \<open>GW_Locking\<close>: which operations release which lock.
  \<^item> \<open>GW_File\<close>: \<^verbatim>\<open>file/File.cpp\<close>, \<^verbatim>\<open>InputStream.cpp\<close>, \<^verbatim>\<open>OutputStream.cpp\<close>.
  \<^item> \<open>GW_FileSystem\<close>: files in \<^verbatim>\<open>file/FileSystem.cpp\<close>, \<^verbatim>\<open>core/ActiveStatusContext.cpp\<close> and the C interface
    \<^verbatim>\<open>client/Gopherwood.cpp\<close>. \<open>GW_ClientProps\<close>: what a client of that interface can rely on. \<open>GW_FileProps\<close>:
    an open file, seen through that interface, is an array of bytes. \<open>GW_Append\<close>: a process alone on its file
    extends it with pre-allocated and free buckets, and every other opening of the file that catches up
    has the same bytes. \<open>GW_Growing\<close>: with reads, writes and seeks in any order, the file is an array of
    bytes that grows. \<open>GW_Reactivate\<close>: what activating a used block again leaves out.
  \<^item> \<open>GW_OssBuilder\<close>: \<^verbatim>\<open>common/OssBuilder.cpp\<close>, the settings of the object store and their file.
  \<^item> \<open>GW_Context\<close>: creating, formatting and destroying contexts (\<^verbatim>\<open>core/SharedMemoryManager.cpp\<close>, the rest of
    \<^verbatim>\<open>file/FileSystem.cpp\<close> and of the C interface) on a host, which adds to the world of a process the lock
    file, the settings, the logger and the object store. \<open>GW_ContextProps\<close>: their properties.
  \<^item> \<open>GW_ThreadPool\<close>: \<^verbatim>\<open>common/ThreadPool.h\<close> as a state machine. \<open>GW_Support\<close>: the signal mask of new threads
    (\<^verbatim>\<open>common/Thread.cpp\<close>, \<^verbatim>\<open>Thread.h\<close>) and \<^verbatim>\<open>common/Hash.h\<close>.
  \<^item> \<open>GW_StackPrinter\<close>: \<^verbatim>\<open>common/StackPrinter.cpp\<close>, the stack trace of an exception, with the system calls on
    files, the line reader, the search of \<^verbatim>\<open>/proc/self/maps\<close> and of the symbol tables of ELF files. \<open>GW_StackLines\<close>:
    reading, lines and mappings. \<open>GW_StackProps\<close>: the descriptors. \<open>GW_StackSymbols\<close>: the symbols of a file as a
    function of its bytes, and their search.
  \<^item> \<open>GW_Messages\<close>: \<^verbatim>\<open>common/ExceptionInternal.cpp\<close>, \<^verbatim>\<open>Exception.cpp\<close> and \<^verbatim>\<open>Logger.cpp\<close>, the texts of errors and of
    the log in their arrays.
  \<^item> \<open>GW_TcpSocket\<close>: \<^verbatim>\<open>network/TcpSocket.cpp\<close> over arbitrary system calls; \<open>GW_TcpProps\<close>: its properties.

  \<^bold>\<open>Interfaces.\<close> \<open>activation_table\<close> is what a bucket promises to the shared memory context of its table of
  activations, interpreted for writers and for readers; \<open>recency_cache\<close> is what the LRU cache
  promises to an opened file; \<open>random_access\<close> is what reading, writing and seeking promise to the client,
  and \<open>growing_access\<close> the same of a file that grows, both interpreted on \<^verbatim>\<open>gwRead\<close>, \<^verbatim>\<open>gwWrite\<close> and \<^verbatim>\<open>gwSeek\<close>.

  \<^bold>\<open>Concurrency.\<close> Operations on the region run under its lock, so processes interleave whole operations:
  \<open>proto_step\<close> has one rule for each, with the protocol its callers have to keep as guards; what
  happens when they do not, as \<^verbatim>\<open>acquireNewBlocks\<close> and deletions during an eviction do not, is shown by \<open>second_finish_takes_bucket\<close>,
  \<open>delete_while_evicting_breaks\<close> and \<open>stolen_bucket_stays_evicting\<close> for every region. An operation of an opened file takes the lock several times; what
  other processes do in between is a schedule in the state, which the theorems quantify over.

  \<^bold>\<open>What is shown.\<close> The region's invariant in every state that the protocol reaches, the exclusion of evictors and the
  stability of a block under eviction, the victim search and its equivalence with a reference, allocation and release of buckets; the
  refinement of the LRU cache; round trips of log records and of blocks through the local space
  and through the object store; that replaying a log ends and rebuilds the block table, and that
  compaction keeps it; the quota; the release of the lock on every path; how every function of the C interface reports exceptions; that, in a build without assertions, any sequence of reads,
  writes and seeks on a file acts as on an array of bytes; that bytes written across the end of a file and flushed
  reach every other process that reads the log; that a thread pool runs every task; that
  creating and destroying a context leaves the region as it was; the use of the object store's settings;
  the bounds of messages and log lines; exact and complete transfers of the TCP socket, and that it leaks
  nothing; that a stack trace finds the object file and the symbol of an address, and leaves no descriptor
  open when it returns or throws. Where the
  code does not keep what it promises, a theorem shows when.

  \<^bold>\<open>Bounds and fuel.\<close> The clock sweep has fuel that is shown to suffice (\<open>victim_found\<close>), the replay has
  one unit per byte of the log and is shown not to run out (\<open>catchUp_terminates\<close>). The loops that wait for
  other processes (acquiring blocks, waiting for a load, evicting on request) take fuel from the
  environment, as do the loops of the byte streams, for which as many rounds as bytes are shown to
  suffice (\<open>file_is_byte_array\<close>): running out is the outcome \<open>OutOfFuel\<close>, which no theorem counts as a result. Appending asks for room on the disk: the bytes of the data and of
  the log records, at most 60 for each missing block and 12 for each free bucket (\<open>room\<close>). A stack trace takes one round for each line of the table of mappings and each header and
  symbol of the object file (\<open>table_rounds\<close>), and \<^verbatim>\<open>NO_INTR\<close> one for each interruption.

  \<^bold>\<open>Parameters.\<close> The object store client (\<open>OssApi\<close>, with the laws \<open>oss_laws\<close> where a theorem needs them and
  the concrete store \<open>mem_oss\<close> that satisfies them), the hash of file names, uninitialised padding bytes,
  the process id, the stack and the demangler of the C++ runtime, and for contexts the environment variables, the files of the host and whether
  creating or mapping the region fails. The lengths that the object store client takes and gives are 32 bits wide, as in its
  interface. \<^verbatim>\<open>close\<close> behaves as on Linux, where the descriptor is released also when the call is interrupted.

  \<^bold>\<open>Not modelled.\<close> The branch of \<^verbatim>\<open>common/StackPrinter.cpp\<close> for systems without ELF, calls of the logger within the operations (no effect on their state), threads inside
  an opened file as such (load tasks are queued in the state), the aliases of library templates in
  \<^verbatim>\<open>common/\<close> and the bundled test frameworks.
\<close>

end
